(* ===== verification/Prelude.thy ===== *)
theory Prelude
  imports Main "HOL-Library.Word"
begin

text \<open>
  Shared vocabulary of the development: the machine integers of the firmware at their C++
  widths, wrap-around time stamps, runs of a step function over a list of inputs, and the
  locale of invariant-preserving machines that the stateful components interpret.
\<close>

section \<open>Machine integers\<close>

text \<open>
  \<open>uint8_t\<close> to \<open>uint64_t\<close> are words of that width. A signed \<open>intN_t\<close> is the same word
  read by \<open>sint\<close>; comparisons of signed values are written with \<open>sint\<close>.
\<close>

type_synonym u8 = "8 word"
type_synonym u16 = "16 word"
type_synonym u32 = "32 word"
type_synonym u64 = "64 word"
type_synonym i16 = "16 word"
type_synonym i32 = "32 word"

text \<open>Two's complement reading, at the two signed widths the firmware stores.\<close>

lemma shift_mod_shift:
  fixes u m :: int
  assumes "0 \<le> u" and "u < 2 * m"
  shows "(u + m) mod (2 * m) - m = (if u < m then u else u - 2 * m)"
proof (cases "u < m")
  case True
  with assms show ?thesis by simp
next
  case False
  have "(u + m) mod (2 * m) = ((u - m) + 2 * m) mod (2 * m)"
    by (simp add: algebra_simps)
  also have "\<dots> = (u - m) mod (2 * m)" by (rule mod_add_self2)
  also have "\<dots> = u - m" using assms False by simp
  finally show ?thesis using False by simp
qed

lemma sint_u32: "sint w = (if uint w < 2 ^ 31 then uint w else uint w - 2 ^ 32)" for w :: u32
  using shift_mod_shift [of "uint w" "2 ^ 31"] uint_lt2p [of w] uint_ge_0 [of w]
  by (simp add: sint_uint signed_take_bit_eq_take_bit_shift take_bit_eq_mod)

lemma sint_u16: "sint w = (if uint w < 2 ^ 15 then uint w else uint w - 2 ^ 16)" for w :: u16
  using shift_mod_shift [of "uint w" "2 ^ 15"] uint_lt2p [of w] uint_ge_0 [of w]
  by (simp add: sint_uint signed_take_bit_eq_take_bit_shift take_bit_eq_mod)

named_theorems time_simps \<open>wrap-around time arithmetic\<close>
named_theorems step_defs \<open>definitions of the steps of a component\<close>

section \<open>Wrap-around time\<close>

text \<open>
  \<open>millis()\<close> wraps every 49.7 days, so the firmware measures an interval as the wrapping
  difference of two \<open>uint32_t\<close> stamps. The lemmas say what such a difference means.
\<close>

lemma elapsed_add [time_simps, simp]: "(t + d) - t = (d :: u32)"
  by simp

lemma elapsed_self [time_simps]: "t - t = (0 :: u32)"
  by simp

lemma unat_elapsed:
  "unat (now - start) = (if start \<le> now then unat now - unat start
                          else 2 ^ 32 - unat start + unat now)" for now start :: u32
  using unsigned_less [where 'a = nat, of start] by (simp add: unat_sub_if' word_le_nat_alt) arith

lemma unat_elapsed_of_nat:
  "n < 2 ^ 32 \<Longrightarrow> unat ((start + of_nat n) - start :: u32) = n"
  by (simp add: unat_of_nat take_bit_nat_eq_self)

lemma elapsed_later:
  fixes t d e :: u32
  assumes "unat d + unat e < 2 ^ 32"
  shows "d \<le> (t + d + e) - t"
proof -
  have "unat (d + e) = unat d + unat e"
    using assms by (simp add: unat_add_lem [symmetric])
  then show ?thesis by (simp add: word_le_nat_alt algebra_simps)
qed

section \<open>Runs of a machine\<close>

text \<open>
  A component with state is a function from a state and an input to the new state and an
  output. \<open>run\<close> feeds a list of inputs, \<open>outputs\<close> collects what comes out.
\<close>

primrec run :: "('s \<Rightarrow> 'i \<Rightarrow> 's \<times> 'o) \<Rightarrow> 's \<Rightarrow> 'i list \<Rightarrow> 's" where
  "run f s [] = s"
| "run f s (i # is) = run f (fst (f s i)) is"

primrec outputs :: "('s \<Rightarrow> 'i \<Rightarrow> 's \<times> 'o) \<Rightarrow> 's \<Rightarrow> 'i list \<Rightarrow> 'o list" where
  "outputs f s [] = []"
| "outputs f s (i # is) = snd (f s i) # outputs f (fst (f s i)) is"

lemma run_append [simp]: "run f s (xs @ ys) = run f (run f s xs) ys"
  by (induction xs arbitrary: s) auto

lemma outputs_append [simp]:
  "outputs f s (xs @ ys) = outputs f s xs @ outputs f (run f s xs) ys"
  by (induction xs arbitrary: s) auto

lemma length_outputs [simp]: "length (outputs f s xs) = length xs"
  by (induction xs arbitrary: s) auto

text \<open>A machine with an inductive invariant: what every stateful component provides.\<close>

locale invariant_machine =
  fixes step :: "'s \<Rightarrow> 'i \<Rightarrow> 's \<times> 'o"
    and inv :: "'s \<Rightarrow> bool"
    and init :: 's
  assumes inv_init: "inv init"
    and inv_step: "inv s \<Longrightarrow> inv (fst (step s i))"
begin

lemma inv_run: "inv s \<Longrightarrow> inv (run step s is)"
  by (induction "is" arbitrary: s) (auto intro: inv_step)

lemma inv_reach: "inv (run step init is)"
  by (rule inv_run) (rule inv_init)

text \<open>A fact about one step under the invariant holds of every output of every run.\<close>

lemma outputs_all:
  assumes "\<And>s i. inv s \<Longrightarrow> P (snd (step s i))" and "inv s"
  shows "list_all P (outputs step s is)"
  using assms(2) by (induction "is" arbitrary: s) (auto intro: assms(1) inv_step)

end

text \<open>
  Some components move along the edges of a documented diagram; a machine whose abstract
  state only ever moves along a relation refines that relation, seen as a transition system.
\<close>

locale diagram_machine = invariant_machine step inv init
  for step :: "'s \<Rightarrow> 'i \<Rightarrow> 's \<times> 'o" and inv :: "'s \<Rightarrow> bool" and init :: 's +
  fixes abs :: "'s \<Rightarrow> 'a"
    and edge :: "'a \<Rightarrow> 'a \<Rightarrow> bool"
  assumes step_edge: "inv s \<Longrightarrow> edge\<^sup>*\<^sup>* (abs s) (abs (fst (step s i)))"
begin

lemma run_path: "inv s \<Longrightarrow> edge\<^sup>*\<^sup>* (abs s) (abs (run step s is))"
proof (induction "is" arbitrary: s)
  case Nil
  then show ?case by simp
next
  case (Cons i "is")
  note step_edge [OF Cons.prems, of i]
  also have "edge\<^sup>*\<^sup>* (abs (fst (step s i))) (abs (run step (fst (step s i)) is))"
    by (rule Cons.IH) (rule inv_step [OF Cons.prems])
  finally show ?case by simp
qed

end

section \<open>Sequencing of fallible reads\<close>

text \<open>
  A reader consumes a prefix of the bytes it is given: \<open>None\<close> is the \<open>return false\<close> of the
  source, \<open>Some (x, rest)\<close> a value and what is left.
\<close>

type_synonym 'a reader = "u8 list \<Rightarrow> ('a \<times> u8 list) option"

definition read_return :: "'a \<Rightarrow> 'a reader" where
  "read_return x = (\<lambda>bs. Some (x, bs))"

definition read_fail :: "'a reader" where
  "read_fail = (\<lambda>bs. None)"

definition read_bind :: "'a reader \<Rightarrow> ('a \<Rightarrow> 'b reader) \<Rightarrow> 'b reader" where
  "read_bind r k = (\<lambda>bs. case r bs of None \<Rightarrow> None | Some (x, rest) \<Rightarrow> k x rest)"

lemma read_bind_apply [simp]:
  "r bs = Some (x, rest) \<Longrightarrow> read_bind r k bs = k x rest"
  "r bs = None \<Longrightarrow> read_bind r k bs = None"
  by (auto simp: read_bind_def)

lemma read_return_apply [simp]: "read_return x bs = Some (x, bs)"
  by (simp add: read_return_def)

lemma read_fail_apply [simp]: "read_fail bs = None"
  by (simp add: read_fail_def)

end
