(* ===== verification/AcaiaFraming.thy ===== *)
theory AcaiaFraming
  imports Prelude
begin

text \<open>
  The byte level of the scale protocol, \<open>src/src/ble/AcaiaV2Codec.h/.cpp\<close>: checksum, packets and the
  framer that finds frames in the notifications of the scale. The buffer \<open>_buf[0 .. _len)\<close> is a list;
  \<open>_need\<close>, written before every read of it, is a local of \<open>drain\<close>. What the framer reports
  (\<open>handleFrame\<close> for a verified frame, \<open>reject\<close> for refused bytes) is returned in order.
\<close>

section \<open>Packets\<close>

definition HDR1 :: u8 where "HDR1 = 0xEF"
definition HDR2 :: u8 where "HDR2 = 0xDD"

definition Msg_SYSTEM :: u8 where "Msg_SYSTEM = 0x00"
definition Msg_TARE :: u8 where "Msg_TARE = 0x04"
definition Msg_TIMER :: u8 where "Msg_TIMER = 0x07"
definition Msg_SETTINGS :: u8 where "Msg_SETTINGS = 0x08"
definition Msg_IDENTIFY :: u8 where "Msg_IDENTIFY = 0x0B"
definition Msg_EVENT :: u8 where "Msg_EVENT = 0x0C"

definition MAX_PACKET :: nat where "MAX_PACKET = 32"
definition MAX_FRAME :: nat where "MAX_FRAME = 64"

lemmas msg_defs = Msg_SYSTEM_def Msg_TARE_def Msg_TIMER_def Msg_SETTINGS_def Msg_IDENTIFY_def Msg_EVENT_def
lemmas hdr_defs = HDR1_def HDR2_def

lemma hdr_distinct [simp]: "HDR1 \<noteq> HDR2" "HDR2 \<noteq> HDR1"
  by (simp_all add: hdr_defs)

text \<open>The sums of the bytes at even and at odd positions; \<open>i\<close> is the loop index.\<close>

fun checksum_from :: "nat \<Rightarrow> u8 list \<Rightarrow> u8 \<Rightarrow> u8 \<Rightarrow> u8 \<times> u8" where
  "checksum_from i [] ce co = (ce, co)"
| "checksum_from i (b # bs) ce co =
     (if even i then checksum_from (Suc i) bs (ce + b) co else checksum_from (Suc i) bs ce (co + b))"

definition checksum :: "u8 list \<Rightarrow> u8 \<times> u8" where
  "checksum data = checksum_from 0 data 0 0"

definition pack :: "u8 \<Rightarrow> u8 list \<Rightarrow> u8 list" where
  "pack msgType payload = [HDR1, HDR2, msgType] @ payload @ [fst (checksum payload), snd (checksum payload)]"

record frame =
  fr_type :: u8
  fr_body :: "u8 list"
  fr_payload :: "u8 list"
  fr_wire :: "u8 list"

definition parseWireFrame :: "u8 list \<Rightarrow> frame option" where
  "parseWireFrame data =
     (if length data < 6 then None
      else if data ! 0 \<noteq> HDR1 \<or> data ! 1 \<noteq> HDR2 then None
      else let bodyLen = unat (data ! 3) in
        if bodyLen = 0 \<or> bodyLen > MAX_FRAME - 5 then None
        else let wireLen = bodyLen + 5 in
          if length data \<noteq> wireLen then None
          else let body = take bodyLen (drop 3 data) in
            if fst (checksum body) \<noteq> data ! (wireLen - 2) \<or> snd (checksum body) \<noteq> data ! (wireLen - 1) then None
            else Some \<lparr>fr_type = data ! 2, fr_body = body, fr_payload = tl body, fr_wire = data\<rparr>)"

definition buildHeartbeat :: "u8 list" where
  "buildHeartbeat = pack Msg_SYSTEM [0x02, 0x00]"

definition buildIdentify :: "u8 list" where
  "buildIdentify = pack Msg_IDENTIFY (replicate 15 0x2d)"

definition buildEventSubscribe :: "u8 list" where
  "buildEventSubscribe = pack Msg_EVENT [0x09, 0x00, 0x01, 0x01, 0x02, 0x02, 0x03, 0x03, 0x04]"

definition buildTare :: "u8 list" where
  "buildTare = pack Msg_TARE [0x00]"

datatype timerCmd = START | STOP | RESET

fun timerCmd_byte :: "timerCmd \<Rightarrow> u8" where
  "timerCmd_byte START = 0"
| "timerCmd_byte STOP = 1"
| "timerCmd_byte RESET = 2"

definition buildTimer :: "timerCmd \<Rightarrow> u8 list" where
  "buildTimer cmd = pack Msg_TIMER [0x00, timerCmd_byte cmd]"

section \<open>The framer\<close>

datatype framer_out = FComplete frame | FRejected "u8 list"

fun syncToHeader :: "u8 list \<Rightarrow> u8 list" where
  "syncToHeader [] = []"
| "syncToHeader [b] = (if b = HDR1 then [HDR1] else [])"
| "syncToHeader (b # c # r) = (if b = HDR1 \<and> c = HDR2 then b # c # r else syncToHeader (c # r))"

fun resyncAfterReject :: "u8 list \<Rightarrow> u8 list" where
  "resyncAfterReject [] = []"
| "resyncAfterReject [b] = (if b = HDR1 then [HDR1] else [])"
| "resyncAfterReject (b # c # r) = syncToHeader (c # r)"

definition appendByte :: "u8 list \<Rightarrow> u8 \<Rightarrow> u8 list" where
  "appendByte buf b =
     (if length buf = 0 then (if b = HDR1 then [b] else buf)
      else if length buf = 1 then (if b = HDR2 then buf @ [b] else if b \<noteq> HDR1 then [] else buf)
      else if length buf \<ge> MAX_FRAME then (if b = HDR1 then [b] else [])
      else buf @ [b])"

lemma length_syncToHeader: "length (syncToHeader buf) \<le> length buf"
  by (induction buf rule: syncToHeader.induct) auto

lemma length_resync: "2 \<le> length buf \<Longrightarrow> length (resyncAfterReject buf) < length buf"
  using length_syncToHeader [of "tl buf"] by (cases buf rule: resyncAfterReject.cases) auto

function drain :: "u8 list \<Rightarrow> u8 list \<times> framer_out list" where
  "drain buf0 =
     (let buf = syncToHeader buf0 in
      if length buf < 4 then (buf, [])
      else let bodyLen = unat (buf ! 3) in
        if bodyLen = 0 \<or> bodyLen > MAX_FRAME - 5 then
          apsnd ((#) (FRejected (take 4 buf))) (drain (resyncAfterReject buf))
        else let need = bodyLen + 5 in
          if length buf < need then (buf, [])
          else (case parseWireFrame (take need buf) of
              Some frame \<Rightarrow> apsnd ((#) (FComplete frame)) (drain (drop need buf))
            | None \<Rightarrow> apsnd ((#) (FRejected (take need buf))) (drain (resyncAfterReject buf))))"
  by auto
termination
proof (relation "measure length", goal_cases)
  case (2 buf0 buf bodyLen)
  have "length (resyncAfterReject buf) < length buf" using 2 length_resync [of buf] by simp
  then show ?case using length_syncToHeader [of buf0] 2(1) by simp
next
  case (3 buf0 buf bodyLen need)
  have "length (resyncAfterReject buf) < length buf" using 3 length_resync [of buf] by simp
  then show ?case using length_syncToHeader [of buf0] 3(1) by simp
next
  case (4 buf0 buf bodyLen need frame)
  then show ?case using length_syncToHeader [of buf0] by (auto simp: not_less intro: diff_less)
qed simp

declare drain.simps [simp del]

text \<open>\<open>push\<close>: one byte, then drain, for every byte of the notification.\<close>

fun push :: "u8 list \<Rightarrow> u8 list \<Rightarrow> u8 list \<times> framer_out list" where
  "push buf [] = (buf, [])"
| "push buf (b # bs) =
     (let (buf1, out1) = drain (appendByte buf b);
          (buf2, out2) = push buf1 bs
      in (buf2, out1 @ out2))"

section \<open>The framer finds what a scan of the whole stream finds\<close>

text \<open>
  Rejections resynchronise inside the bytes already buffered, so nothing depends on how the
  stream was cut: \<open>drain\<close>, run once on the whole stream, is the reference.
\<close>

lemma sync_idem [simp]: "syncToHeader (syncToHeader xs) = syncToHeader xs"
  by (induction xs rule: syncToHeader.induct) auto

lemma sync_append: "syncToHeader (syncToHeader xs @ ys) = syncToHeader (xs @ ys)"
proof (induction xs rule: syncToHeader.induct)
  case (2 b)
  then show ?case by (cases ys) auto
qed auto

lemma drain_sync [simp]: "drain (syncToHeader xs) = drain xs"
  by (subst (1 2) drain.simps) simp

lemma sync_shape: "syncToHeader xs \<in> {[], [HDR1]} \<or> (\<exists>r. syncToHeader xs = HDR1 # HDR2 # r)"
  by (induction xs rule: syncToHeader.induct) auto

lemma resync_tl: "2 \<le> length buf \<Longrightarrow> resyncAfterReject buf = syncToHeader (tl buf)"
  by (cases buf rule: resyncAfterReject.cases) auto

text \<open>What drain does, by the shape of the buffer.\<close>

lemma drain_cases [case_names short bad waiting complete refused]:
  assumes "buf = syncToHeader xs"
  obtains (short) "length buf < 4" "drain xs = (buf, [])"
  | (bad) "4 \<le> length buf" "unat (buf ! 3) = 0 \<or> unat (buf ! 3) > MAX_FRAME - 5"
      "drain xs = apsnd ((#) (FRejected (take 4 buf))) (drain (tl buf))"
  | (waiting) "4 \<le> length buf" "0 < unat (buf ! 3)" "unat (buf ! 3) \<le> MAX_FRAME - 5"
      "length buf < unat (buf ! 3) + 5" "drain xs = (buf, [])"
  | (complete) f where "4 \<le> length buf" "0 < unat (buf ! 3)" "unat (buf ! 3) \<le> MAX_FRAME - 5"
      "unat (buf ! 3) + 5 \<le> length buf" "parseWireFrame (take (unat (buf ! 3) + 5) buf) = Some f"
      "drain xs = apsnd ((#) (FComplete f)) (drain (drop (unat (buf ! 3) + 5) buf))"
  | (refused) "4 \<le> length buf" "0 < unat (buf ! 3)" "unat (buf ! 3) \<le> MAX_FRAME - 5"
      "unat (buf ! 3) + 5 \<le> length buf" "parseWireFrame (take (unat (buf ! 3) + 5) buf) = None"
      "drain xs = apsnd ((#) (FRejected (take (unat (buf ! 3) + 5) buf))) (drain (tl buf))"
proof -
  consider "length buf < 4" | "4 \<le> length buf" "unat (buf ! 3) = 0 \<or> unat (buf ! 3) > MAX_FRAME - 5"
    | "4 \<le> length buf" "0 < unat (buf ! 3)" "unat (buf ! 3) \<le> MAX_FRAME - 5" "length buf < unat (buf ! 3) + 5"
    | "4 \<le> length buf" "0 < unat (buf ! 3)" "unat (buf ! 3) \<le> MAX_FRAME - 5" "unat (buf ! 3) + 5 \<le> length buf"
    by linarith
  then show thesis
  proof cases
    case 1
    then show ?thesis using short assms by (simp add: drain.simps [of xs])
  next
    case 2
    then show ?thesis using bad assms resync_tl [of buf] by (auto simp: drain.simps [of xs] Let_def)
  next
    case 3
    then show ?thesis using waiting assms by (simp add: drain.simps [of xs] Let_def)
  next
    case 4
    then show ?thesis
      using complete refused assms resync_tl [of buf]
      by (cases "parseWireFrame (take (unat (buf ! 3) + 5) buf)") (simp_all add: drain.simps [of xs] Let_def)
  qed
qed


text \<open>A buffer the framer leaves behind: synchronised, and waiting for the rest of a frame.\<close>

definition pending :: "u8 list \<Rightarrow> bool" where
  "pending buf \<longleftrightarrow> syncToHeader buf = buf
     \<and> (4 \<le> length buf \<longrightarrow> 0 < unat (buf ! 3) \<and> unat (buf ! 3) \<le> MAX_FRAME - 5 \<and> length buf < unat (buf ! 3) + 5)"

lemma pending_drain: "pending (fst (drain xs))"
proof (induction xs rule: measure_induct_rule [of length])
  case (less xs)
  define buf where "buf = syncToHeader xs"
  have l: "length buf \<le> length xs" using length_syncToHeader by (simp add: buf_def)
  from buf_def show ?case
  proof (cases rule: drain_cases)
    case short
    then show ?thesis by (simp add: pending_def buf_def)
  next
    case waiting
    then show ?thesis by (simp add: pending_def buf_def)
  next
    case bad
    then show ?thesis using less [of "tl buf"] l by (simp add: Suc_le_eq)
  next
    case refused
    then show ?thesis using less [of "tl buf"] l by (simp add: Suc_le_eq)
  next
    case complete
    then show ?thesis using less [of "drop (unat (buf ! 3) + 5) buf"] l by simp
  qed
qed

lemma pending_short: "pending buf \<Longrightarrow> length buf < MAX_FRAME"
  by (cases "4 \<le> length buf") (auto simp: pending_def MAX_FRAME_def)

lemma pending_done: "pending buf \<Longrightarrow> drain buf = (buf, [])"
  by (auto simp: pending_def drain.simps [of buf] Let_def)

lemma drain_append:
  "drain (xs @ ys) = (let (b, o1) = drain xs; (b', o2) = drain (b @ ys) in (b', o1 @ o2))"
proof (induction xs rule: measure_induct_rule [of length])
  case (less xs)
  define buf where "buf = syncToHeader xs"
  have l: "length buf \<le> length xs" using length_syncToHeader by (simp add: buf_def)
  have same: "drain (xs @ ys) = drain (buf @ ys)"
    by (metis drain_sync sync_append buf_def)
  have go: "drain (buf @ ys) = apsnd ((#) x) (drain (zs @ ys))
      \<Longrightarrow> drain xs = apsnd ((#) x) (drain zs) \<Longrightarrow> length zs < length xs \<Longrightarrow> ?case" for x zs
    using less [of zs] same by (auto simp: split: prod.splits)
  have hd: "syncToHeader (buf @ ys) = buf @ ys" if "4 \<le> length buf"
    using sync_shape [of xs] that by (auto simp: buf_def)
  have rs: "drain (resyncAfterReject (buf @ ys)) = drain (tl buf @ ys)" if "4 \<le> length buf"
    using resync_tl [of "buf @ ys"] that by (cases buf) auto
  from buf_def show ?case
  proof (cases rule: drain_cases)
    case short
    then show ?thesis by (simp add: same)
  next
    case waiting
    then show ?thesis by (simp add: same)
  next
    case bad
    then have "drain (buf @ ys) = apsnd ((#) (FRejected (take 4 buf))) (drain (tl buf @ ys))"
      using hd rs by (simp add: drain.simps [of "buf @ ys"] Let_def nth_append)
    then show ?thesis using go bad l by (auto simp: Suc_le_eq)
  next
    case refused
    then have "drain (buf @ ys)
        = apsnd ((#) (FRejected (take (unat (buf ! 3) + 5) buf))) (drain (tl buf @ ys))"
      using hd rs by (simp add: drain.simps [of "buf @ ys"] Let_def nth_append)
    then show ?thesis using go refused l by (auto simp: Suc_le_eq)
  next
    case (complete f)
    then have "drain (buf @ ys) = apsnd ((#) (FComplete f)) (drain (drop (unat (buf ! 3) + 5) buf @ ys))"
      using hd rs by (simp add: drain.simps [of "buf @ ys"] Let_def nth_append)
    then show ?thesis using go complete l by auto
  qed
qed

lemma drain_appendByte:
  assumes "pending buf"
  shows "drain (appendByte buf b) = drain (buf @ [b])"
proof -
  have "length buf < MAX_FRAME" using pending_short [OF assms] .
  moreover have "syncToHeader buf = buf" using assms by (simp add: pending_def)
  moreover have "drain [] = ([], [])" by (simp add: drain.simps)
  ultimately show ?thesis
    using sync_shape [of buf]
    by (auto simp: appendByte_def drain.simps [of "[b]"] drain.simps [of "[HDR1, b]"] drain.simps [of "[HDR1]"]
        drain.simps [of "[HDR1, HDR1]"])
qed

lemma push_is_drain: "pending buf \<Longrightarrow> push buf data = drain (buf @ data)"
proof (induction data arbitrary: buf)
  case Nil
  then show ?case using pending_done by simp
next
  case (Cons b bs)
  have p: "pending (fst (drain (buf @ [b])))" by (rule pending_drain)
  show ?case
    using drain_append [of "buf @ [b]" bs] drain_appendByte [OF Cons.prems, of b] Cons.IH [OF p]
    by (auto simp: Let_def split: prod.splits)
qed

text \<open>Any sequence of notifications from a reset framer.\<close>

lemma pending_init [simp]: "pending []"
  by (simp add: pending_def)

fun push_all :: "u8 list \<Rightarrow> u8 list list \<Rightarrow> u8 list \<times> framer_out list" where
  "push_all buf [] = (buf, [])"
| "push_all buf (n # ns) =
     (let (buf1, out1) = push buf n; (buf2, out2) = push_all buf1 ns in (buf2, out1 @ out2))"

lemma push_all_is_drain: "pending buf \<Longrightarrow> push_all buf ns = drain (buf @ concat ns)"
proof (induction ns arbitrary: buf)
  case Nil
  then show ?case using pending_done by simp
next
  case (Cons n ns)
  have p: "pending (fst (drain (buf @ n)))" by (rule pending_drain)
  show ?case
    using drain_append [of "buf @ n" "concat ns"] push_is_drain [OF Cons.prems, of n] Cons.IH [OF p]
    by (auto simp: Let_def split: prod.splits)
qed

text \<open>C29: however the stream of the scale is cut into notifications, the framer reports exactly what
  one scan of the whole stream reports, in the same order, and never holds a full buffer.\<close>

theorem framer_chunking:
  "push_all [] ns = drain (concat ns) \<and> length (fst (push_all [] ns)) < MAX_FRAME"
  using push_all_is_drain [of "[]" ns] pending_short [OF pending_drain [of "concat ns"]] by simp

section \<open>Frames in the stream\<close>

lemma parse_wire: "parseWireFrame w = Some f \<Longrightarrow> fr_wire f = w"
  by (auto simp: parseWireFrame_def Let_def split: if_splits)

lemma parse_shape:
  assumes "parseWireFrame w = Some f"
  shows "w ! 0 = HDR1" "w ! 1 = HDR2" "0 < unat (w ! 3)" "unat (w ! 3) \<le> MAX_FRAME - 5"
    "length w = unat (w ! 3) + 5"
  using assms by (auto simp: parseWireFrame_def Let_def split: if_splits)

lemma frame_header:
  assumes "parseWireFrame w = Some f"
  obtains r where "w = HDR1 # HDR2 # r"
  using parse_shape [OF assms] by (cases w rule: syncToHeader.cases) auto

lemma drain_frame:
  assumes "parseWireFrame w = Some f"
  shows "drain (w @ r) = apsnd ((#) (FComplete f)) (drain r)"
proof -
  have "syncToHeader (w @ r) = w @ r" using frame_header [OF assms] by (metis append_Cons syncToHeader.simps(3))
  then show ?thesis
    using parse_shape [OF assms] assms by (simp add: drain.simps [of "w @ r"] Let_def nth_append)
qed

lemma sync_skip:
  assumes "HDR1 \<notin> set g"
  shows "syncToHeader (g @ r) = syncToHeader r"
  using assms
proof (induction g)
  case (Cons b g)
  then show ?case by (cases "g @ r") auto
qed simp

lemma drain_skip: "HDR1 \<notin> set g \<Longrightarrow> drain (g @ r) = drain r"
  by (metis drain_sync sync_skip)

lemma sync_keeps_frame:
  assumes "w = HDR1 # HDR2 # t"
  shows "\<exists>d g'. g = d @ g' \<and> syncToHeader (g @ w @ r) = g' @ w @ r"
proof (induction g)
  case Nil
  show ?case using assms by simp
next
  case (Cons b g)
  show ?case
  proof (cases "syncToHeader ((b # g) @ w @ r) = (b # g) @ w @ r")
    case True
    then show ?thesis by (intro exI [of _ "[]"] exI [of _ "b # g"]) simp
  next
    case False
    then have "syncToHeader ((b # g) @ w @ r) = syncToHeader (g @ w @ r)"
      using assms by (cases "g @ w @ r") auto
    then show ?thesis using Cons.IH by (metis append_Cons)
  qed
qed

text \<open>A verified frame in the stream is reported, or covered at its start by another verified one
  that is reported, or still being waited for.\<close>

definition covers :: "nat \<Rightarrow> u8 list \<Rightarrow> framer_out list \<Rightarrow> bool" where
  "covers n s out \<longleftrightarrow> (\<exists>f pre post. FComplete f \<in> set out \<and> s = pre @ fr_wire f @ post
     \<and> length pre < n \<and> n < length pre + length (fr_wire f))"

lemma covers_mono:
  assumes "covers n s out" and "set out \<subseteq> set out'"
  shows "covers (length d + n) (d @ s) out'"
proof -
  obtain f pre post where f: "FComplete f \<in> set out" "s = pre @ fr_wire f @ post"
    "length pre < n" "n < length pre + length (fr_wire f)"
    using assms(1) by (auto simp: covers_def)
  show ?thesis
    unfolding covers_def
    using f assms(2) by (intro exI [of _ f] exI [of _ "d @ pre"] exI [of _ post]) auto
qed

lemma frame_reported:
  assumes "parseWireFrame w = Some f"
  shows "FComplete f \<in> set (snd (drain (g @ w @ r))) \<or> covers (length g) (g @ w @ r) (snd (drain (g @ w @ r)))
    \<or> length (w @ r) \<le> length (fst (drain (g @ w @ r)))"
proof (induction g rule: measure_induct_rule [of length])
  case (less g)
  obtain t where t: "w = HDR1 # HDR2 # t" using frame_header [OF assms] .
  obtain d g' where g: "g = d @ g'" and buf: "syncToHeader (g @ w @ r) = g' @ w @ r"
    using sync_keeps_frame [OF t, of g r] by blast
  let ?s = "g @ w @ r" and ?s' = "g' @ w @ r"
  have same: "drain ?s = drain ?s'" by (metis buf drain_sync)
  have weaken: ?case if "set (snd (drain (h @ w @ r))) \<subseteq> set (snd (drain ?s'))"
      "fst (drain (h @ w @ r)) = fst (drain ?s')" "g' = e @ h" "length h < length g" for e h
  proof -
    have "covers (length g) ?s (snd (drain ?s'))" if "covers (length h) (h @ w @ r) (snd (drain (h @ w @ r)))"
      using covers_mono [OF that \<open>set _ \<subseteq> _\<close>, of "d @ e"] \<open>g' = _\<close> by (simp add: g add.assoc)
    then show ?thesis using less [OF that(4)] that same by auto
  qed
  show ?case
  proof (cases "g' = []")
    case True
    then show ?thesis using drain_frame [OF assms, of r] same by simp
  next
    case False
    have tl: "tl ?s' = tl g' @ w @ r" "g' = [hd g'] @ tl g'" "length (tl g') < length g"
      using False by (cases g'; auto simp: g)+
    from buf [symmetric] show ?thesis
    proof (cases rule: drain_cases)
      case short
      then show ?thesis by simp
    next
      case waiting
      then show ?thesis by simp
    next
      case bad
      then show ?thesis using weaken [OF _ _ tl(2,3)] same tl(1) by auto
    next
      case refused
      then show ?thesis using weaken [OF _ _ tl(2,3)] same tl(1) by auto
    next
      case (complete f')
      let ?n = "unat (?s' ! 3) + 5"
      have rep: "FComplete f' \<in> set (snd (drain ?s'))" using complete(6) same by auto
      show ?thesis
      proof (cases "?n \<le> length g'")
        case True
        then have "drop ?n ?s' = drop ?n g' @ w @ r" by simp
        moreover have "length (drop ?n g') < length g" using False by (cases g') (auto simp: g)
        ultimately show ?thesis
          using weaken [of "drop ?n g'" "take ?n g'"] complete(6) same by auto
      next
        case nle: False
        have "fr_wire f' = take ?n ?s'" using parse_wire [OF complete(5)] .
        then have w: "fr_wire f' @ drop ?n ?s' = ?s'" by (simp only: append_take_drop_id)
        have "length (fr_wire f') = ?n" using complete(4) \<open>fr_wire f' = _\<close> by simp
        then have "?s = d @ fr_wire f' @ drop ?n ?s' \<and> length d < length g
            \<and> length g < length d + length (fr_wire f')"
          using w nle False by (simp add: g)
        then have "covers (length g) ?s (snd (drain ?s'))" using rep unfolding covers_def by blast
        then show ?thesis using same by simp
      qed
    qed
  qed
qed

text \<open>C30: nothing in the stream before a frame can make the framer lose it, whatever it is and however
  the notifications are cut, except another verified frame that overlaps its start; noise and corrupted
  frames only delay it, at most until 64 bytes of the stream have come from its start on.\<close>

theorem frame_survives_noise:
  assumes "parseWireFrame w = Some f" and "concat ns = g @ w @ r" and "MAX_FRAME \<le> length (w @ r)"
  shows "FComplete f \<in> set (snd (push_all [] ns))
    \<or> covers (length g) (concat ns) (snd (push_all [] ns))"
proof -
  have "length (fst (drain (g @ w @ r))) < length (w @ r)"
    using pending_short [OF pending_drain [of "g @ w @ r"]] assms(3) by linarith
  then show ?thesis using frame_reported [OF assms(1), of g r] push_all_is_drain [of "[]" ns] assms(2) by auto
qed

text \<open>A stream of frames with noise between them that holds no start byte is reported frame by
  frame, in order and completely, however it is cut into notifications.\<close>

theorem frames_delivered:
  assumes "\<forall>(g, w, f) \<in> set gs. HDR1 \<notin> set g \<and> parseWireFrame w = Some f"
    and "concat ns = concat (map (\<lambda>(g, w, f). g @ w) gs)"
  shows "push_all [] ns = ([], map (\<lambda>(g, w, f). FComplete f) gs)"
proof -
  have "drain (concat (map (\<lambda>(g, w, f). g @ w) gs)) = ([], map (\<lambda>(g, w, f). FComplete f) gs)"
    using assms(1)
  proof (induction gs)
    case Nil
    then show ?case by (simp add: drain.simps)
  next
    case (Cons x gs)
    then show ?case by (cases x) (auto simp: drain_skip drain_frame)
  qed
  then show ?thesis using push_all_is_drain [of "[]" ns] assms(2) by simp
qed

text \<open>The packets the driver builds.\<close>

lemma checksum_same_start:
  "checksum_from i bs ce co = (fst (checksum_from i bs 0 0) + ce, snd (checksum_from i bs 0 0) + co)"
proof (induction bs arbitrary: i ce co)
  case (Cons b bs)
  show ?case
    by (cases "even i") (simp_all add: Cons [of "Suc i" "ce + b" co] Cons [of "Suc i" ce "co + b"]
        Cons [of "Suc i" b 0] Cons [of "Suc i" 0 b])
qed simp

text \<open>A block whose first byte is its own length is accepted as packed.\<close>

lemma parse_pack:
  assumes "p \<noteq> []" and "unat (hd p) = length p" and "length p \<le> MAX_FRAME - 5"
  shows "parseWireFrame (pack ty p) = Some \<lparr>fr_type = ty, fr_body = p, fr_payload = tl p, fr_wire = pack ty p\<rparr>"
proof -
  obtain b q where p: "p = b # q" using assms(1) by (cases p) auto
  have n: "pack ty p ! (length p + 3) = fst (checksum p)" "pack ty p ! (length p + 4) = snd (checksum p)"
    by (simp_all add: pack_def nth_append)
  have "take (length p) (drop 3 (pack ty p)) = p" by (simp add: pack_def)
  then show ?thesis
    using assms(2,3) n unfolding parseWireFrame_def by (simp add: Let_def p pack_def)
qed

lemma frame_survives_noise_witness:
  "\<exists>f. parseWireFrame buildEventSubscribe = Some f \<and>
     (FComplete f \<in> set (snd (push_all [] [[0xEF, 0xDD, 0x0C, 0x08, 0x01], buildEventSubscribe, replicate 64 0]))
     \<or> covers 5 (concat [[0xEF, 0xDD, 0x0C, 0x08, 0x01], buildEventSubscribe, replicate 64 0])
         (snd (push_all [] [[0xEF, 0xDD, 0x0C, 0x08, 0x01], buildEventSubscribe, replicate 64 0])))"
proof -
  obtain f where f: "parseWireFrame buildEventSubscribe = Some f"
    using parse_pack [of "[0x09, 0x00, 0x01, 0x01, 0x02, 0x02, 0x03, 0x03, 0x04]" Msg_EVENT]
    by (simp add: buildEventSubscribe_def MAX_FRAME_def)
  define ns where "ns = [[0xEF, 0xDD, 0x0C, 0x08, 0x01], buildEventSubscribe, replicate 64 (0 :: u8)]"
  have "concat ns = [0xEF, 0xDD, 0x0C, 0x08, 0x01] @ buildEventSubscribe @ replicate 64 0"
    by (simp only: ns_def concat.simps append_Nil2)
  from frame_survives_noise [OF f this] f show ?thesis
    unfolding ns_def [symmetric] by (simp add: MAX_FRAME_def numeral_nat)
qed

end
