(* ===== verification/Monotonic.thy ===== *)
theory Monotonic
  imports Prelude
begin

text \<open>
  Wrap-safe time stamp helpers (\<open>src/src/util/monotonic.h\<close>). The source compares stamps by
  the sign of their 32-bit difference, \<open>(int32_t)(a - b)\<close>, which is \<open>sint (a - b)\<close> here.
\<close>

definition ensureMonotonicTimestamp :: "u32 \<Rightarrow> u32 \<Rightarrow> u32" where
  "ensureMonotonicTimestamp ts lastTs =
     (let ts = (if sint (ts - lastTs) \<le> 0 then lastTs + 1 else ts)
      in if ts = 0 then ts + 1 else ts)"

definition clampNotFuture :: "u32 \<Rightarrow> u32 \<Rightarrow> u32" where
  "clampNotFuture ts nowMs = (if sint (ts - nowMs) > 0 then nowMs else ts)"

definition elapsedSinceClamped :: "u32 \<Rightarrow> u32 \<Rightarrow> u32" where
  "elapsedSinceClamped nowMs pastMs = nowMs - clampNotFuture pastMs nowMs"

text \<open>\<open>t\<close> is strictly later than \<open>s\<close> in the wrap-around order.\<close>

definition after :: "u32 \<Rightarrow> u32 \<Rightarrow> bool" where
  "after t s \<longleftrightarrow> sint (t - s) > 0"

text \<open>
  The forward distance decides: \<open>t\<close> is after \<open>s\<close> when it is between 1 and \<open>2^31 - 1\<close> ticks
  ahead of it.
\<close>

lemma after_iff: "after t s \<longleftrightarrow> 0 < uint (t - s) \<and> uint (t - s) < 2 ^ 31"
  using uint_lt2p [of "t - s"] by (auto simp: after_def sint_u32)

lemma not_after_iff: "sint (t - s) \<le> 0 \<longleftrightarrow> \<not> after t s" for t s :: u32
  by (auto simp: after_def)

lemma after_succ: "after (s + 1) s"
  by (simp add: after_iff)

lemma ensureMonotonic_nonzero: "ensureMonotonicTimestamp ts lastTs \<noteq> 0"
  by (simp add: ensureMonotonicTimestamp_def Let_def)

lemma ensureMonotonic_keeps:
  "after ts lastTs \<Longrightarrow> ts \<noteq> 0 \<Longrightarrow> ensureMonotonicTimestamp ts lastTs = ts"
  by (simp add: ensureMonotonicTimestamp_def after_def)

text \<open>
  The stamp returned is later than the previous one, but for one pair of arguments: the
  sentinel step over 0 then lands exactly half a clock turn away.
\<close>

lemma ensureMonotonic_after:
  "after (ensureMonotonicTimestamp ts lastTs) lastTs \<longleftrightarrow> \<not> (ts = 0 \<and> lastTs = 0x80000001)"
proof (cases "after ts lastTs")
  case False
  have "lastTs + 1 = 0 \<Longrightarrow> lastTs = - 1" by (simp add: eq_neg_iff_add_eq_0)
  moreover have "after 1 (- 1)" by (simp add: after_iff)
  moreover have "\<not> (ts = 0 \<and> lastTs = 0x80000001)"
    using False by (auto simp: after_iff)
  ultimately show ?thesis
    using False by (auto simp: ensureMonotonicTimestamp_def not_after_iff Let_def after_succ)
next
  case True
  show ?thesis
  proof (cases "ts = 0")
    case False
    with True show ?thesis by (simp add: ensureMonotonic_keeps)
  next
    case zero: True
    define a where "a = ts - lastTs"
    from True have a: "uint a < 2 ^ 31" by (simp add: after_iff a_def)
    then have "uint (a + 1) = uint a + 1" by (simp add: uint_word_ariths)
    moreover have "0 < uint a + 1" by (simp add: add_nonneg_pos)
    moreover have "after (ts + 1) lastTs \<longleftrightarrow> 0 < uint (a + 1) \<and> uint (a + 1) < 2 ^ 31"
      by (simp add: after_iff a_def algebra_simps)
    ultimately have "after (ts + 1) lastTs \<longleftrightarrow> uint a \<noteq> 2 ^ 31 - 1"
      using a by auto
    also have "\<dots> \<longleftrightarrow> a \<noteq> 0x7FFFFFFF"
      by (auto simp: word_uint_eq_iff)
    also have "\<dots> \<longleftrightarrow> lastTs \<noteq> 0x80000001"
    proof -
      have "- lastTs = - 0x80000001 \<longleftrightarrow> lastTs = 0x80000001" by (rule neg_equal_iff_equal)
      moreover have "- 0x80000001 = (0x7FFFFFFF :: u32)" by simp
      ultimately have "- lastTs = 0x7FFFFFFF \<longleftrightarrow> lastTs = 0x80000001" by (simp only:)
      then show ?thesis using zero by (simp add: a_def)
    qed
    finally show ?thesis
      using True zero by (simp add: ensureMonotonicTimestamp_def after_def)
  qed
qed

text \<open>Clamping never leaves a stamp in the future, so an elapsed time is at most half a turn.\<close>

lemma clampNotFuture_past: "\<not> after (clampNotFuture ts nowMs) nowMs"
  by (simp add: clampNotFuture_def after_def)

lemma clampNotFuture_id: "\<not> after ts nowMs \<Longrightarrow> clampNotFuture ts nowMs = ts"
  by (simp add: clampNotFuture_def after_def)

lemma elapsedSinceClamped_future: "after past now \<Longrightarrow> elapsedSinceClamped now past = 0"
  by (simp add: elapsedSinceClamped_def clampNotFuture_def after_def)

lemma elapsedSinceClamped_bound: "unat (elapsedSinceClamped now past) \<le> 2 ^ 31"
proof (cases "after past now")
  case True
  then show ?thesis by (simp add: elapsedSinceClamped_future)
next
  case False
  define d where "d = past - now"
  have neg: "now - past = - d" by (simp add: d_def)
  have "uint (- d) \<le> 2 ^ 31"
  proof (cases "d = 0")
    case True
    then show ?thesis by simp
  next
    case nz: False
    then have "uint (- d) = 2 ^ 32 - uint d"
      using uint_lt2p [of d] by (simp add: uint_word_ariths zmod_zminus1_eq_if unsigned_eq_0_iff)
    moreover have "2 ^ 31 \<le> uint d"
      using False nz order_le_less [of 0 "uint d"] by (auto simp: after_iff d_def unsigned_eq_0_iff)
    ultimately show ?thesis by simp
  qed
  with neg have "nat (uint (now - past)) \<le> nat (2 ^ 31)" by (intro nat_mono) simp
  then show ?thesis
    using False by (simp add: elapsedSinceClamped_def clampNotFuture_id)
qed

end
