(* ===== verification/ControllerTransition.thy ===== *)
theory ControllerTransition
  imports Monotonic
begin

text \<open>
  The asynchronous Bluetooth controller and the wait for one of its transitions
  (\<open>src/src/ble/bluetooth_controller_state.h\<close>, \<open>src/src/ble/ControllerTransition.h\<close>).
  \<open>begin\<close> starts a wait, \<open>update\<close> advances it from an observed controller state and the clock,
  \<open>reset\<close> forgets it.
\<close>

datatype ControllerState = Running | Stopping | Stopped | Starting | Failed

datatype TransitionTarget = TargetRunning | TargetStopped

datatype TransitionResult = Inactive | Pending | Succeeded | ResultFailed | TimedOut

record controller_transition =
  ct_target :: TransitionTarget
  ct_result :: TransitionResult
  ct_startedMs :: u32
  ct_timeoutMs :: u32

definition kDefaultTimeoutMs :: u32 where
  "kDefaultTimeoutMs = 5000"

definition ct_init :: controller_transition where
  "ct_init = \<lparr>ct_target = TargetRunning, ct_result = Inactive, ct_startedMs = 0, ct_timeoutMs = 0\<rparr>"

definition ct_pending :: "controller_transition \<Rightarrow> bool" where
  "ct_pending t \<longleftrightarrow> ct_result t = Pending"

definition ct_begin ::
    "TransitionTarget \<Rightarrow> u32 \<Rightarrow> u32 \<Rightarrow> controller_transition \<Rightarrow> bool \<times> controller_transition" where
  "ct_begin target nowMs timeoutMs t =
     (if ct_result t = Pending then (False, t)
      else (True, t\<lparr>ct_target := target, ct_startedMs := nowMs, ct_timeoutMs := timeoutMs,
                     ct_result := Pending\<rparr>))"

definition ct_update ::
    "ControllerState \<Rightarrow> u32 \<Rightarrow> controller_transition \<Rightarrow> TransitionResult \<times> controller_transition" where
  "ct_update st nowMs t =
     (if ct_result t \<noteq> Pending then (ct_result t, t)
      else let t' =
             (if st = Failed then t\<lparr>ct_result := ResultFailed\<rparr>
              else if ct_target t = TargetRunning \<and> st = Running
                    \<or> ct_target t = TargetStopped \<and> st = Stopped
                then t\<lparr>ct_result := Succeeded\<rparr>
              else if ct_timeoutMs t \<le> nowMs - ct_startedMs t then t\<lparr>ct_result := TimedOut\<rparr>
              else t)
           in (ct_result t', t'))"

definition ct_reset :: "controller_transition \<Rightarrow> controller_transition" where
  "ct_reset t = t\<lparr>ct_result := Inactive\<rparr>"

text \<open>The controller state a target asks for.\<close>

fun target_reached :: "TransitionTarget \<Rightarrow> ControllerState \<Rightarrow> bool" where
  "target_reached TargetRunning st \<longleftrightarrow> st = Running"
| "target_reached TargetStopped st \<longleftrightarrow> st = Stopped"

lemma target_reached_iff:
  "target_reached g st \<longleftrightarrow> g = TargetRunning \<and> st = Running \<or> g = TargetStopped \<and> st = Stopped"
  by (cases g) auto

text \<open>
  What a client may rely on: a wait is exclusive, it reports success exactly when the controller
  is seen at its target, failure exactly when the controller failed, and it never stays pending
  past its timeout.
\<close>

locale timed_wait =
  fixes pending :: "'t \<Rightarrow> bool"
    and target :: "'t \<Rightarrow> TransitionTarget"
    and deadline :: "'t \<Rightarrow> u32 \<Rightarrow> bool"
    and begin_wait :: "TransitionTarget \<Rightarrow> u32 \<Rightarrow> 't \<Rightarrow> bool \<times> 't"
    and update :: "ControllerState \<Rightarrow> u32 \<Rightarrow> 't \<Rightarrow> TransitionResult \<times> 't"
    and reset :: "'t \<Rightarrow> 't"
  assumes begin_idle: "\<not> pending t \<Longrightarrow> fst (begin_wait g now t) \<and> pending (snd (begin_wait g now t))
                        \<and> target (snd (begin_wait g now t)) = g"
    and begin_busy: "pending t \<Longrightarrow> begin_wait g now t = (False, t)"
    and update_result: "pending t \<Longrightarrow> fst (update st now t) =
          (if st = Failed then ResultFailed
           else if target_reached (target t) st then Succeeded
           else if deadline t now then TimedOut else Pending)"
    and update_pending: "pending t \<Longrightarrow>
          pending (snd (update st now t)) \<longleftrightarrow> fst (update st now t) = Pending"
    and update_same: "pending t \<Longrightarrow> fst (update st now t) = Pending \<Longrightarrow> snd (update st now t) = t"
    and reset_idle: "\<not> pending (reset t)"
begin

lemma begin_accepted_iff: "fst (begin_wait g now t) \<longleftrightarrow> \<not> pending t"
  using begin_idle [of t g now] begin_busy [of t g now] by (cases "pending t") auto

lemma begin_pending: "pending (snd (begin_wait g now t))"
  using begin_idle [of t g now] begin_busy [of t g now] by (cases "pending t") auto

lemma update_past_deadline:
  "pending t \<Longrightarrow> deadline t now \<Longrightarrow> fst (update st now t) \<noteq> Pending"
  by (simp add: update_result)

lemma update_never_inactive: "pending t \<Longrightarrow> fst (update st now t) \<noteq> Inactive"
  by (simp add: update_result)

text \<open>A wait polled any number of times before its deadline, with no result, is unchanged.\<close>

lemma polls_keep:
  assumes "pending t"
    and "\<forall>(st, now) \<in> set polls. st \<noteq> Failed \<and> \<not> target_reached (target t) st \<and> \<not> deadline t now"
  shows "fold (\<lambda>(st, now) t. snd (update st now t)) polls t = t"
  using assms
proof (induction polls)
  case Nil
  then show ?case by simp
next
  case (Cons p polls)
  obtain st now where p: "p = (st, now)" by (cases p)
  from Cons.prems p have "fst (update st now t) = Pending" by (simp add: update_result)
  with Cons.prems(1) have "snd (update st now t) = t" by (rule update_same)
  with Cons p show ?case by simp
qed

end

definition ct_deadline :: "controller_transition \<Rightarrow> u32 \<Rightarrow> bool" where
  "ct_deadline t nowMs \<longleftrightarrow> ct_timeoutMs t \<le> nowMs - ct_startedMs t"

lemmas ct_defs = ct_pending_def ct_begin_def ct_update_def ct_reset_def ct_deadline_def

interpretation ct: timed_wait ct_pending ct_target ct_deadline
  "\<lambda>g now. ct_begin g now kDefaultTimeoutMs" ct_update ct_reset
  by unfold_locales (auto simp: ct_defs target_reached_iff Let_def split: if_splits)

lemma ct_begin_idle [simp]:
  "\<not> ct_pending t \<Longrightarrow> ct_begin g now d t =
     (True, t\<lparr>ct_target := g, ct_startedMs := now, ct_timeoutMs := d, ct_result := Pending\<rparr>)"
  by (simp add: ct_defs)

lemma ct_pending_reset [simp]: "\<not> ct_pending (ct_reset t)"
  by (rule ct.reset_idle)

end
