(* ===== verification/ScaleRadio.thy ===== *)
theory ScaleRadio
  imports ControllerTransition
begin

text \<open>
  The policy that keeps the Bluetooth controller running or stopped
  (\<open>src/src/power/ScaleRadioStateMachine.h\<close> and \<open>.cpp\<close>). The object's fields are the record
  \<open>radio_machine\<close>; a member function that changes them takes the record and returns its result
  with the new record. Two enumerations of the source share constructor names with others, so
  the constructors are qualified where they clash.
\<close>

section \<open>Data\<close>

datatype ScaleServiceState = Off | Disconnected | Connecting | Ready

datatype ScaleRadioPolicy = Demand | ForceRunning | ForceStopped | ExternalControl

record radio_conditions =
  rc_service :: ScaleServiceState
  rc_screenDimmed :: bool
  rc_connectWanted :: bool
  rc_diagnosticScanWanted :: bool

datatype RadioState =
  Monitoring | Suspending | StStopping | StControllerStopped | StStarting | StFailed

datatype RadioAction = NoAction | StopController | StartController

datatype RadioEventKind =
  NoEvent | StopStarted | EvControllerStopped | WakeRequested | ControllerRestarted | EvFailure

datatype FailureArea = ServiceStop | ControllerStop | ControllerStart | ControllerUnusable

record radio_inputs =
  ri_service :: ScaleServiceState
  ri_controller :: ControllerState
  ri_nowMs :: u32
  ri_screenDimmed :: bool
  ri_connectWanted :: bool
  ri_diagnosticScanWanted :: bool

record radio_event =
  re_kind :: RadioEventKind
  re_failureArea :: FailureArea
  re_reason :: "string option"

record radio_decision =
  rd_action :: RadioAction
  rd_event :: radio_event

record radio_machine =
  rm_transition :: controller_transition
  rm_state :: RadioState
  rm_policy :: ScaleRadioPolicy
  rm_activityPending :: bool
  rm_stageStartedMs :: u32

definition kServiceStopTimeoutMs :: u32 where
  "kServiceStopTimeoutMs = 5000"

definition radio_init :: radio_machine where
  "radio_init = \<lparr>rm_transition = ct_init, rm_state = Monitoring, rm_policy = Demand,
                  rm_activityPending = False, rm_stageStartedMs = 0\<rparr>"

section \<open>Policy\<close>

definition controllerShouldRun :: "radio_conditions \<Rightarrow> bool" where
  "controllerShouldRun c =
     (if rc_diagnosticScanWanted c then True
      else if \<not> rc_connectWanted c then False
      else if \<not> rc_screenDimmed c then True
      else rc_service c = Ready \<or> rc_service c = Connecting)"

fun radioTarget :: "ScaleRadioPolicy \<Rightarrow> radio_conditions \<Rightarrow> bool" where
  "radioTarget ForceRunning c = True"
| "radioTarget ForceStopped c = False"
| "radioTarget ExternalControl c = False"
| "radioTarget Demand c = controllerShouldRun c"

definition conditionsOf :: "radio_inputs \<Rightarrow> radio_conditions" where
  "conditionsOf i = \<lparr>rc_service = ri_service i, rc_screenDimmed = ri_screenDimmed i,
     rc_connectWanted = ri_connectWanted i, rc_diagnosticScanWanted = ri_diagnosticScanWanted i\<rparr>"

fun wantsSuspended :: "RadioState \<Rightarrow> bool" where
  "wantsSuspended Suspending = True"
| "wantsSuspended StStopping = True"
| "wantsSuspended StControllerStopped = True"
| "wantsSuspended StStarting = True"
| "wantsSuspended Monitoring = False"
| "wantsSuspended StFailed = False"

definition wantsServiceSuspended :: "radio_machine \<Rightarrow> bool" where
  "wantsServiceSuspended m = wantsSuspended (rm_state m)"

definition inTransition :: "radio_machine \<Rightarrow> bool" where
  "inTransition m \<longleftrightarrow> rm_state m = Suspending \<or> rm_state m = StStopping \<or> rm_state m = StStarting"

definition hasFailed :: "radio_machine \<Rightarrow> bool" where
  "hasFailed m \<longleftrightarrow> rm_state m = StFailed"

section \<open>Decisions\<close>

definition no_event :: radio_event where
  "no_event = \<lparr>re_kind = NoEvent, re_failureArea = ServiceStop, re_reason = None\<rparr>"

definition no_decision :: radio_decision where
  "no_decision = \<lparr>rd_action = NoAction, rd_event = no_event\<rparr>"

definition action_decision :: "RadioAction \<Rightarrow> radio_decision" where
  "action_decision a = no_decision\<lparr>rd_action := a\<rparr>"

definition event_decision :: "RadioEventKind \<Rightarrow> radio_decision" where
  "event_decision k = no_decision\<lparr>rd_event := no_event\<lparr>re_kind := k\<rparr>\<rparr>"

definition failure_decision :: "FailureArea \<Rightarrow> string \<Rightarrow> radio_decision" where
  "failure_decision a r =
     no_decision\<lparr>rd_event := \<lparr>re_kind = EvFailure, re_failureArea = a, re_reason = Some r\<rparr>\<rparr>"

section \<open>Operations\<close>

definition radio_notifyActivity :: "radio_machine \<Rightarrow> radio_machine" where
  "radio_notifyActivity m = m\<lparr>rm_activityPending := True\<rparr>"

definition radio_setPolicy :: "ScaleRadioPolicy \<Rightarrow> radio_machine \<Rightarrow> bool \<times> radio_machine" where
  "radio_setPolicy p m =
     (if p = rm_policy m then (True, m)
      else if rm_policy m = ExternalControl then (False, m)
      else if p = ExternalControl \<and> (inTransition m \<or> hasFailed m \<or> wantsServiceSuspended m)
        then (False, m)
      else (True, m\<lparr>rm_policy := p, rm_activityPending := True\<rparr>))"

definition radio_fail ::
    "FailureArea \<Rightarrow> string \<Rightarrow> radio_machine \<Rightarrow> radio_decision \<times> radio_machine" where
  "radio_fail a r m =
     (failure_decision a r,
      m\<lparr>rm_transition := ct_reset (rm_transition m), rm_state := StFailed,
        rm_activityPending := False\<rparr>)"

text \<open>
  \<open>begin\<close> on the machine's own transition: the wait is entered or, when one is already pending,
  the source reports the named failure.
\<close>

definition radio_wait ::
    "TransitionTarget \<Rightarrow> u32 \<Rightarrow> radio_machine \<Rightarrow> bool \<times> radio_machine" where
  "radio_wait g nowMs m =
     (let (ok, t) = ct_begin g nowMs kDefaultTimeoutMs (rm_transition m)
      in (ok, m\<lparr>rm_transition := t\<rparr>))"

definition beginControllerStop ::
    "radio_inputs \<Rightarrow> radio_machine \<Rightarrow> radio_decision \<times> radio_machine" where
  "beginControllerStop i m =
     (if ri_controller i = Stopped
        then (event_decision EvControllerStopped, m\<lparr>rm_state := StControllerStopped\<rparr>)
      else if ri_controller i = Failed then radio_fail ControllerStop ''stop unavailable'' m
      else if ri_controller i = Starting then radio_fail ControllerStop ''stop busy'' m
      else if ri_controller i = Running
        then (action_decision StopController, m\<lparr>rm_state := StStopping\<rparr>)
      else (case radio_wait TargetStopped (ri_nowMs i) m of
              (False, m') \<Rightarrow> radio_fail ControllerStop ''stop wait busy'' m'
            | (True, m') \<Rightarrow> (no_decision, m'\<lparr>rm_state := StStopping\<rparr>)))"

definition beginControllerStart ::
    "radio_inputs \<Rightarrow> radio_machine \<Rightarrow> radio_decision \<times> radio_machine" where
  "beginControllerStart i m0 =
     (let m = m0\<lparr>rm_activityPending := False\<rparr> in
      if ri_controller i = Failed then radio_fail ControllerStart ''start unavailable'' m
      else if ri_controller i = Starting
        then (case radio_wait TargetRunning (ri_nowMs i) m of
                (False, m') \<Rightarrow> radio_fail ControllerStart ''start wait busy'' m'
              | (True, m') \<Rightarrow> (event_decision WakeRequested, m'\<lparr>rm_state := StStarting\<rparr>))
      else ((event_decision WakeRequested)\<lparr>rd_action := StartController\<rparr>,
            m\<lparr>rm_state := StStarting\<rparr>))"

definition advanceTransition ::
    "radio_inputs \<Rightarrow> radio_machine \<Rightarrow> radio_decision \<times> radio_machine" where
  "advanceTransition i m0 =
     (let starting = (rm_state m0 = StStarting);
          (result, t) = ct_update (ri_controller i) (ri_nowMs i) (rm_transition m0);
          m = m0\<lparr>rm_transition := t\<rparr>
      in case result of
           Succeeded \<Rightarrow>
             (let m = m\<lparr>rm_transition := ct_reset (rm_transition m)\<rparr>
              in if starting
                 then (event_decision ControllerRestarted,
                       m\<lparr>rm_state := Monitoring, rm_activityPending := False\<rparr>)
                 else (event_decision EvControllerStopped, m\<lparr>rm_state := StControllerStopped\<rparr>))
         | ResultFailed \<Rightarrow>
             radio_fail (if starting then ControllerStart else ControllerStop)
               (if starting then ''start failed'' else ''stop failed'') m
         | TimedOut \<Rightarrow>
             radio_fail (if starting then ControllerStart else ControllerStop)
               (if starting then ''start timed out'' else ''stop timed out'') m
         | _ \<Rightarrow> (no_decision, m))"

definition updateMonitoring ::
    "radio_inputs \<Rightarrow> bool \<Rightarrow> radio_machine \<Rightarrow> radio_decision \<times> radio_machine" where
  "updateMonitoring i shouldRun m =
     (if ri_controller i = Stopped then (no_decision, m\<lparr>rm_state := StControllerStopped\<rparr>)
      else if ri_controller i = Failed then radio_fail ControllerUnusable ''controller unusable'' m
      else if shouldRun \<or> ri_controller i \<noteq> Running then (no_decision, m)
      else (event_decision StopStarted,
            m\<lparr>rm_state := Suspending, rm_stageStartedMs := ri_nowMs i\<rparr>))"

definition updateSuspending ::
    "radio_inputs \<Rightarrow> bool \<Rightarrow> radio_machine \<Rightarrow> radio_decision \<times> radio_machine" where
  "updateSuspending i shouldRun m =
     (if shouldRun then (no_decision, m\<lparr>rm_state := Monitoring\<rparr>)
      else if ri_service i = Off then beginControllerStop i m
      else if kServiceStopTimeoutMs \<le> ri_nowMs i - rm_stageStartedMs m
        then radio_fail ServiceStop ''service stop timed out'' m
      else (no_decision, m))"

definition updateControllerStopped ::
    "radio_inputs \<Rightarrow> bool \<Rightarrow> radio_machine \<Rightarrow> radio_decision \<times> radio_machine" where
  "updateControllerStopped i shouldRun m =
     (if ri_controller i = Running then (no_decision, m\<lparr>rm_state := Monitoring\<rparr>)
      else if \<not> shouldRun then (no_decision, m)
      else beginControllerStart i m)"

definition updateFailed ::
    "radio_inputs \<Rightarrow> bool \<Rightarrow> radio_machine \<Rightarrow> radio_decision \<times> radio_machine" where
  "updateFailed i shouldRun m =
     (let running = (ri_controller i = Running); stopped = (ri_controller i = Stopped);
          nothingToRetry = (running = shouldRun)
      in if \<not> running \<and> \<not> stopped then (no_decision, m)
         else if \<not> nothingToRetry \<and> \<not> rm_activityPending m then (no_decision, m)
         else (no_decision, m\<lparr>rm_state := (if running then Monitoring else StControllerStopped)\<rparr>))"

definition radio_update ::
    "radio_inputs \<Rightarrow> radio_machine \<Rightarrow> radio_decision \<times> radio_machine" where
  "radio_update i m =
     (if rm_policy m = ExternalControl then (no_decision, m)
      else if rm_state m = StStopping \<or> rm_state m = StStarting
        then (if ct_pending (rm_transition m) then advanceTransition i m else (no_decision, m))
      else let shouldRun = radioTarget (rm_policy m) (conditionsOf i) in
           case rm_state m of
             Monitoring \<Rightarrow> updateMonitoring i shouldRun m
           | Suspending \<Rightarrow> updateSuspending i shouldRun m
           | StControllerStopped \<Rightarrow> updateControllerStopped i shouldRun m
           | StFailed \<Rightarrow> updateFailed i shouldRun m
           | _ \<Rightarrow> (no_decision, m))"

fun radio_resolve ::
    "RadioAction \<Rightarrow> bool \<Rightarrow> radio_inputs \<Rightarrow> radio_machine \<Rightarrow> radio_decision \<times> radio_machine" where
  "radio_resolve StopController accepted i m =
     (if ri_controller i = Stopped
        then (event_decision EvControllerStopped, m\<lparr>rm_state := StControllerStopped\<rparr>)
      else if ri_controller i = Failed then radio_fail ControllerStop ''stop failed'' m
      else if \<not> accepted \<and> ri_controller i \<noteq> Stopping
        then radio_fail ControllerStop ''stop rejected'' m
      else (case radio_wait TargetStopped (ri_nowMs i) m of
              (False, m') \<Rightarrow> radio_fail ControllerStop ''stop wait busy'' m'
            | (True, m') \<Rightarrow> (no_decision, m'\<lparr>rm_state := StStopping\<rparr>)))"
| "radio_resolve StartController accepted i m =
     (if ri_controller i = Running
        then (event_decision ControllerRestarted, m\<lparr>rm_state := Monitoring\<rparr>)
      else if ri_controller i = Failed then radio_fail ControllerStart ''start failed'' m
      else if \<not> accepted \<and> ri_controller i \<noteq> Starting
        then radio_fail ControllerStart ''start rejected'' m
      else (case radio_wait TargetRunning (ri_nowMs i) m of
              (False, m') \<Rightarrow> radio_fail ControllerStart ''start wait busy'' m'
            | (True, m') \<Rightarrow> (no_decision, m'\<lparr>rm_state := StStarting\<rparr>)))"
| "radio_resolve NoAction accepted i m = (no_decision, m)"

section \<open>The caller's protocol\<close>

text \<open>
  \<open>PowerManager::applyRadioDecision\<close> reports the event of a decision, performs its action and
  resolves it, for at most \<open>kDecisionCycleLimit\<close> rounds. \<open>env k\<close> is what the scale service answers
  when \<open>k\<close> rounds remain: whether it accepted the request, and the observation made after it.
  The result lists the events reported and says whether the chain ended before the bound.
\<close>

definition kDecisionCycleLimit :: nat where
  "kDecisionCycleLimit = 4"

fun decision_chain ::
    "nat \<Rightarrow> (nat \<Rightarrow> bool \<times> radio_inputs) \<Rightarrow> radio_decision \<Rightarrow> radio_machine
     \<Rightarrow> radio_event list \<times> bool \<times> radio_machine" where
  "decision_chain 0 env d m = ([], False, m)"
| "decision_chain (Suc k) env d m =
     (if rd_action d = NoAction then ([rd_event d], True, m)
      else let (accepted, i) = env k;
               (d', m') = radio_resolve (rd_action d) accepted i m;
               (es, ok, m'') = decision_chain k env d' m'
           in (rd_event d # es, ok, m''))"

definition applyRadioDecision ::
    "(nat \<Rightarrow> bool \<times> radio_inputs) \<Rightarrow> radio_decision \<Rightarrow> radio_machine
     \<Rightarrow> radio_event list \<times> bool \<times> radio_machine" where
  "applyRadioDecision env d m = decision_chain kDecisionCycleLimit env d m"

text \<open>One call of the application: an update with its decision chain, or a request.\<close>

datatype radio_op =
    OpUpdate radio_inputs "nat \<Rightarrow> bool \<times> radio_inputs"
  | OpSetPolicy ScaleRadioPolicy
  | OpNotifyActivity

fun radio_step :: "radio_machine \<Rightarrow> radio_op \<Rightarrow> radio_machine \<times> radio_event list \<times> bool" where
  "radio_step m (OpUpdate i env) =
     (let (d, m') = radio_update i m; (es, ok, m'') = applyRadioDecision env d m' in (m'', es, ok))"
| "radio_step m (OpSetPolicy p) = (snd (radio_setPolicy p m), [], True)"
| "radio_step m OpNotifyActivity = (radio_notifyActivity m, [], True)"

lemmas radio_update_defs =
  radio_update_def updateMonitoring_def updateSuspending_def updateControllerStopped_def
  updateFailed_def beginControllerStop_def beginControllerStart_def advanceTransition_def

lemmas decision_defs =
  no_decision_def no_event_def action_decision_def event_decision_def failure_decision_def

section \<open>Invariant\<close>

text \<open>
  Between two calls the wait is pending exactly while a controller transition is in flight, and
  it waits for that transition's target; a radio handed over to external control is settled.
\<close>

fun state_target :: "RadioState \<Rightarrow> TransitionTarget option" where
  "state_target StStopping = Some TargetStopped"
| "state_target StStarting = Some TargetRunning"
| "state_target _ = None"

definition radio_coherent :: "radio_machine \<Rightarrow> bool" where
  "radio_coherent m \<longleftrightarrow>
     (case state_target (rm_state m) of
        None \<Rightarrow> \<not> ct_pending (rm_transition m)
      | Some g \<Rightarrow> ct_pending (rm_transition m) \<and> ct_target (rm_transition m) = g)
     \<and> (rm_policy m = ExternalControl \<longrightarrow> rm_state m = Monitoring)"

text \<open>Inside a chain: the request has been made and the wait has not been entered yet.\<close>

definition radio_requested :: "RadioAction \<Rightarrow> radio_machine \<Rightarrow> bool" where
  "radio_requested a m \<longleftrightarrow>
     (a = StopController \<and> rm_state m = StStopping \<or> a = StartController \<and> rm_state m = StStarting)
     \<and> \<not> ct_pending (rm_transition m) \<and> rm_policy m \<noteq> ExternalControl"

lemma radio_wait_idle [simp]:
  "\<not> ct_pending (rm_transition m) \<Longrightarrow> radio_wait g now m =
     (True, m\<lparr>rm_transition := (rm_transition m)\<lparr>ct_target := g, ct_startedMs := now,
                 ct_timeoutMs := kDefaultTimeoutMs, ct_result := Pending\<rparr>\<rparr>)"
  by (simp add: radio_wait_def)

lemma ct_pending_simps [simp]:
  "ct_pending (t\<lparr>ct_result := r\<rparr>) \<longleftrightarrow> r = Pending"
  "ct_target (ct_reset t) = ct_target t"
  by (simp_all add: ct_defs)

lemma ct_update_pending:
  "ct_pending t \<Longrightarrow> ct_update st now t =
     (let r = (if st = Failed then ResultFailed
               else if target_reached (ct_target t) st then Succeeded
               else if ct_deadline t now then TimedOut else Pending)
      in (r, t\<lparr>ct_result := r\<rparr>))"
  by (auto simp: ct_defs target_reached_iff Let_def)

lemma radio_update_coherent:
  assumes "radio_coherent m" and "radio_update i m = (d, m')"
  shows "if rd_action d = NoAction then radio_coherent m' else radio_requested (rd_action d) m'"
  using assms
  by (cases "rm_state m"; cases "ri_controller i")
    (auto simp: radio_update_defs radio_coherent_def radio_requested_def decision_defs Let_def
       radio_fail_def ct_update_pending split: if_splits prod.splits)

lemma radio_resolve_coherent:
  assumes "radio_requested a m" and "radio_resolve a accepted i m = (d, m')"
  shows "rd_action d = NoAction \<and> radio_coherent m'"
  using assms
  by (cases a)
    (auto simp: radio_coherent_def radio_requested_def decision_defs radio_fail_def
       split: if_splits prod.splits)

lemma applyRadioDecision_none:
  "rd_action d = NoAction \<Longrightarrow> applyRadioDecision env d m = ([rd_event d], True, m)"
  by (simp add: applyRadioDecision_def kDecisionCycleLimit_def eval_nat_numeral)

lemma applyRadioDecision_requested:
  assumes "radio_requested a m" and "rd_action d = a"
  obtains d' m' where "radio_resolve a (fst (env 3)) (snd (env 3)) m = (d', m')"
    and "applyRadioDecision env d m = ([rd_event d, rd_event d'], True, m')"
    and "rd_action d' = NoAction" and "radio_coherent m'"
proof -
  obtain d' m' where r: "radio_resolve a (fst (env 3)) (snd (env 3)) m = (d', m')"
    by fastforce
  note d' = radio_resolve_coherent [OF assms(1) r]
  from assms have "a \<noteq> NoAction" by (auto simp: radio_requested_def)
  with r d' assms(2) have "applyRadioDecision env d m = ([rd_event d, rd_event d'], True, m')"
    by (simp add: applyRadioDecision_def kDecisionCycleLimit_def eval_nat_numeral case_prod_beta)
  with r d' that show thesis by blast
qed

text \<open>Every update ends its decision chain within two rounds, in a coherent state.\<close>

lemma radio_call_chain:
  assumes "radio_coherent m"
  obtains es m' where "radio_step m (OpUpdate i env) = (m', es, True)"
    and "length es \<le> 2" and "radio_coherent m'"
proof -
  obtain d m1 where u: "radio_update i m = (d, m1)" by fastforce
  show ?thesis
  proof (cases "rd_action d = NoAction")
    case True
    with radio_update_coherent [OF assms u] have "radio_coherent m1" by simp
    with True u that show ?thesis by (simp add: applyRadioDecision_none)
  next
    case False
    with radio_update_coherent [OF assms u] have "radio_requested (rd_action d) m1" by simp
    then obtain d' :: radio_decision and m' where "applyRadioDecision env d m1 = ([rd_event d, rd_event d'], True, m')"
      and "radio_coherent m'"
      by (rule applyRadioDecision_requested [OF _ refl, of _ _ env]) blast
    with u that show ?thesis by simp
  qed
qed

lemma radio_setPolicy_coherent: "radio_coherent m \<Longrightarrow> radio_coherent (snd (radio_setPolicy p m))"
  by (cases "rm_state m")
    (auto simp: radio_setPolicy_def radio_coherent_def inTransition_def hasFailed_def
       wantsServiceSuspended_def)

lemma radio_notify_coherent: "radio_coherent m \<Longrightarrow> radio_coherent (radio_notifyActivity m)"
  by (cases "rm_state m") (simp_all add: radio_notifyActivity_def radio_coherent_def)

lemma radio_step_coherent: "radio_coherent m \<Longrightarrow> radio_coherent (fst (radio_step m c))"
proof (cases c)
  case (OpUpdate i env)
  assume "radio_coherent m"
  then obtain es m' where "radio_step m (OpUpdate i env) = (m', es, True)" "radio_coherent m'"
    by (rule radio_call_chain)
  with OpUpdate show ?thesis by simp
qed (simp_all add: radio_setPolicy_coherent radio_notify_coherent)

lemma radio_step_bounded:
  assumes "radio_coherent m"
  shows "case snd (radio_step m c) of (es, ok) \<Rightarrow> ok \<and> length es \<le> 2"
proof (cases c)
  case (OpUpdate i env)
  from assms obtain es m' where "radio_step m (OpUpdate i env) = (m', es, True)" "length es \<le> 2"
    by (rule radio_call_chain) blast
  with OpUpdate show ?thesis by simp
qed simp_all

lemma radio_init_coherent: "radio_coherent radio_init"
  by (simp add: radio_coherent_def radio_init_def ct_init_def ct_defs)

section \<open>The state diagram\<close>

text \<open>
  The edges one \<open>update\<close> or \<open>resolve\<close> can take. The header comment of the source draws all of
  them but \<open>released_running\<close> and \<open>released_failed\<close>.
\<close>

inductive radio_edge :: "RadioState \<Rightarrow> RadioState \<Rightarrow> bool" where
  suspend: "radio_edge Monitoring Suspending"
| unsuspend: "radio_edge Suspending Monitoring"
| stop: "radio_edge Suspending StStopping"
| already_stopped: "radio_edge Suspending StControllerStopped"
| stopped: "radio_edge StStopping StControllerStopped"
| start: "radio_edge StControllerStopped StStarting"
| started: "radio_edge StStarting Monitoring"
| boot_stopped: "radio_edge Monitoring StControllerStopped"
| released_running: "radio_edge StControllerStopped Monitoring"
| released_failed: "radio_edge StControllerStopped StFailed"
| fail: "s \<in> {Monitoring, Suspending, StStopping, StStarting} \<Longrightarrow> radio_edge s StFailed"
| recover_running: "radio_edge StFailed Monitoring"
| recover_stopped: "radio_edge StFailed StControllerStopped"

inductive_simps radio_edge_to_starting: "radio_edge s StStarting"
inductive_simps radio_edge_to_stopping: "radio_edge s StStopping"
inductive_simps radio_edge_from [simp]:
  "radio_edge Monitoring t" "radio_edge Suspending t" "radio_edge StStopping t"
  "radio_edge StControllerStopped t" "radio_edge StStarting t" "radio_edge StFailed t"

lemma radio_update_edge:
  assumes "radio_coherent m"
  shows "rm_state (snd (radio_update i m)) = rm_state m
         \<or> radio_edge (rm_state m) (rm_state (snd (radio_update i m)))"
  using assms
  by (cases "rm_state m"; cases "ri_controller i")
    (auto simp: radio_update_defs radio_coherent_def decision_defs Let_def
       radio_fail_def ct_update_pending split: if_splits prod.splits)

lemma radio_resolve_edge:
  assumes "radio_requested a m"
  shows "rm_state (snd (radio_resolve a acc i m)) = rm_state m
         \<or> radio_edge (rm_state m) (rm_state (snd (radio_resolve a acc i m)))"
  using assms
  by (cases a) (auto simp: radio_requested_def radio_fail_def)

lemma radio_step_path:
  assumes "radio_coherent m"
  shows "radio_edge\<^sup>*\<^sup>* (rm_state m) (rm_state (fst (radio_step m c)))"
proof (cases c)
  case (OpUpdate i env)
  obtain d m1 where u: "radio_update i m = (d, m1)" by fastforce
  have e1: "radio_edge\<^sup>*\<^sup>* (rm_state m) (rm_state m1)"
    using radio_update_edge [OF assms, of i] u by auto
  show ?thesis
  proof (cases "rd_action d = NoAction")
    case True
    with e1 u OpUpdate show ?thesis by (simp add: applyRadioDecision_none)
  next
    case False
    with radio_update_coherent [OF assms u] have req: "radio_requested (rd_action d) m1" by simp
    then obtain d' m' where
      r: "radio_resolve (rd_action d) (fst (env 3)) (snd (env 3)) m1 = (d', m')"
      and c: "applyRadioDecision env d m1 = ([rd_event d, rd_event d'], True, m')"
      by (rule applyRadioDecision_requested [OF _ refl, of _ _ env]) blast
    from radio_resolve_edge [OF req, of "fst (env 3)" "snd (env 3)"] r
    have "radio_edge\<^sup>*\<^sup>* (rm_state m1) (rm_state m')" by auto
    with e1 have "radio_edge\<^sup>*\<^sup>* (rm_state m) (rm_state m')" by simp
    with OpUpdate u c show ?thesis by simp
  qed
qed (auto simp: radio_setPolicy_def radio_notifyActivity_def)

interpretation radio: diagram_machine radio_step radio_coherent radio_init rm_state radio_edge
  by unfold_locales (auto intro: radio_init_coherent radio_step_coherent radio_step_path)

section \<open>Properties\<close>

text \<open>C7: every call of the application from any state reached by the protocol ends its decision
  chain before \<open>kDecisionCycleLimit\<close>, having reported at most two events, and the
  wait is pending exactly while a controller transition is in flight, for that transition's target.\<close>

theorem radio_protocol_invariant:
  "radio_coherent (run radio_step radio_init ops)
   \<and> list_all (\<lambda>(es, ok). ok \<and> length es \<le> 2) (outputs radio_step radio_init ops)"
proof
  show "radio_coherent (run radio_step radio_init ops)" by (rule radio.inv_reach)
  show "list_all (\<lambda>(es, ok). ok \<and> length es \<le> 2) (outputs radio_step radio_init ops)"
  proof (rule radio.outputs_all [OF _ radio_init_coherent])
    fix m c
    assume "radio_coherent m"
    then show "case snd (radio_step m c) of (es, ok) \<Rightarrow> ok \<and> length es \<le> 2"
      by (rule radio_step_bounded)
  qed
qed


text \<open>The controller is asked to stop only after the scale service let go of it and while the
  policy does not want it, and asked to start only while the policy wants it; in both cases the
  service is suspended before the request is made.\<close>

theorem radio_request_guard:
  assumes "radio_update i m = (d, m')" and "rd_action d \<noteq> NoAction"
  shows "wantsServiceSuspended m \<and> wantsServiceSuspended m'
    \<and> (if rd_action d = StopController
       then rm_state m = Suspending \<and> ri_service i = Off \<and> ri_controller i = Running
            \<and> \<not> radioTarget (rm_policy m) (conditionsOf i)
       else rm_state m = StControllerStopped \<and> ri_controller i \<in> {Stopped, Stopping}
            \<and> radioTarget (rm_policy m) (conditionsOf i))"
  using assms
  by (cases "rm_state m"; cases "ri_controller i")
    (auto simp: radio_update_defs decision_defs Let_def radio_fail_def wantsServiceSuspended_def
       split: if_splits prod.splits TransitionResult.splits bool.splits)

text \<open>Concrete observations for the witnesses.\<close>

definition radio_obs :: "ScaleServiceState \<Rightarrow> ControllerState \<Rightarrow> u32 \<Rightarrow> bool \<Rightarrow> radio_inputs" where
  "radio_obs svc ctl t wanted =
     \<lparr>ri_service = svc, ri_controller = ctl, ri_nowMs = t, ri_screenDimmed = False,
      ri_connectWanted = wanted, ri_diagnosticScanWanted = False\<rparr>"

lemma radio_obs_target [simp]:
  "radioTarget Demand (conditionsOf (radio_obs svc ctl t wanted)) = wanted"
  by (simp add: radio_obs_def conditionsOf_def controllerShouldRun_def)

lemma radio_request_guard_witness:
  "let m = radio_init\<lparr>rm_state := Suspending\<rparr>;
       (d, m') = radio_update (radio_obs Off Running 10 False) m
   in rd_action d = StopController \<and> wantsServiceSuspended m'"
proof -
  let ?m = "radio_init\<lparr>rm_state := Suspending\<rparr>" and ?i = "radio_obs Off Running 10 False"
  obtain d m' where u: "radio_update ?i ?m = (d, m')" by fastforce
  then have a: "rd_action d = StopController"
    by (auto simp: radio_update_defs radio_init_def decision_defs radio_obs_def conditionsOf_def
        controllerShouldRun_def)
  with radio_request_guard [OF u] have "wantsServiceSuspended m'" by simp
  with u a show ?thesis by simp
qed

lemma radio_update_external: "rm_policy m = ExternalControl \<Longrightarrow> radio_update i m = (no_decision, m)"
  by (simp add: radio_update_def)

text \<open>C24: convergence: once the controller is observed where the policy wants it, with any pending
  wait or service stop either finished or timed out, two updates settle the machine, whatever
  state it was in.\<close>

theorem radio_converges:
  assumes "radio_coherent m" and "rm_policy m \<noteq> ExternalControl"
    and "radioTarget (rm_policy m) (conditionsOf i) = b"
    and "radioTarget (rm_policy m) (conditionsOf j) = b"
    and "ri_controller i = (if b then Running else Stopped)"
    and "ri_controller j = (if b then Running else Stopped)"
    and "ct_pending (rm_transition m) \<Longrightarrow> ct_deadline (rm_transition m) (ri_nowMs i)"
    and "rm_state m = Suspending \<Longrightarrow>
           ri_service i = Off \<or> kServiceStopTimeoutMs \<le> ri_nowMs i - rm_stageStartedMs m"
  shows "rm_state (snd (radio_update j (snd (radio_update i m))))
         = (if b then Monitoring else StControllerStopped)"
  using assms
  by (cases "rm_state m"; cases b)
    (auto simp: radio_update_defs radio_coherent_def decision_defs Let_def
       radio_fail_def ct_update_pending split: if_splits)

lemma radio_converges_witness:
  "rm_state (snd (radio_update (radio_obs Off Stopped 20 False)
     (snd (radio_update (radio_obs Off Stopped 10 False) (radio_init\<lparr>rm_state := Suspending\<rparr>)))))
   = StControllerStopped"
  by (rule radio_converges [where b = False, simplified])
    (simp_all add: radio_coherent_def radio_init_def ct_init_def ct_defs,
     simp_all add: radio_obs_def conditionsOf_def controllerShouldRun_def)

text \<open>After a failure the radio is left alone: with the controller stopped and still wanted, no
  number of updates issues a request, reports an event or leaves \<open>Failed\<close>
  until an activity event or a policy change asks for one more attempt.\<close>

theorem radio_no_retry_without_activity:
  assumes "rm_state m = StFailed" and "\<not> rm_activityPending m" and "rm_policy m \<noteq> ExternalControl"
    and "\<forall>i \<in> set is. ri_controller i = Stopped \<and> radioTarget (rm_policy m) (conditionsOf i)"
  shows "fold (\<lambda>i m. snd (radio_update i m)) is m = m
         \<and> list_all (\<lambda>i. fst (radio_update i m) = no_decision) is"
  using assms(4)
proof (induction "is")
  case Nil
  then show ?case by simp
next
  case (Cons i "is")
  then have "radio_update i m = (no_decision, m)"
    using assms(1-3) by (simp add: radio_update_def updateFailed_def Let_def)
  with Cons show ?case by simp
qed

lemma radio_no_retry_witness:
  "fold (\<lambda>i m. snd (radio_update i m)) [radio_obs Off Stopped 10 True, radio_obs Off Stopped 20 True]
     (radio_init\<lparr>rm_state := StFailed\<rparr>) = radio_init\<lparr>rm_state := StFailed\<rparr>"
  by (rule radio_no_retry_without_activity [THEN conjunct1])
    (simp_all add: radio_init_def, simp_all add: radio_obs_def conditionsOf_def controllerShouldRun_def)

text \<open>External control is final: after a successful handover no later call changes the
  policy, makes a request or reports an event, and the handover is granted only to a settled
  machine that does not hold the service suspended.\<close>

theorem radio_external_final:
  assumes "radio_setPolicy ExternalControl m = (True, m')" and "radio_coherent m"
  shows "rm_state m' = Monitoring \<and> \<not> wantsServiceSuspended m'
    \<and> rm_policy (run radio_step m' ops) = ExternalControl
    \<and> rm_state (run radio_step m' ops) = Monitoring
    \<and> list_all (\<lambda>(es, ok). ok \<and> list_all (\<lambda>e. re_kind e = NoEvent) es) (outputs radio_step m' ops)"
proof -
  have m': "rm_policy m' = ExternalControl \<and> rm_state m' = Monitoring"
    using assms by (cases "rm_state m")
      (auto simp: radio_setPolicy_def radio_coherent_def inTransition_def hasFailed_def
         wantsServiceSuspended_def split: if_splits)
  have step: "rm_policy (fst (radio_step n c)) = ExternalControl
       \<and> rm_state (fst (radio_step n c)) = Monitoring
       \<and> (case snd (radio_step n c) of (es, ok) \<Rightarrow> ok \<and> list_all (\<lambda>e. re_kind e = NoEvent) es)"
    if "rm_policy n = ExternalControl \<and> rm_state n = Monitoring" for n c
    using that
    by (cases c) (simp_all add: radio_update_external applyRadioDecision_none decision_defs
      radio_setPolicy_def radio_notifyActivity_def)
  have "rm_policy (run radio_step n ops) = ExternalControl
      \<and> rm_state (run radio_step n ops) = Monitoring
      \<and> list_all (\<lambda>(es, ok). ok \<and> list_all (\<lambda>e. re_kind e = NoEvent) es) (outputs radio_step n ops)"
    if "rm_policy n = ExternalControl \<and> rm_state n = Monitoring" for n
    using that
  proof (induction ops arbitrary: n)
    case Nil
    then show ?case by simp
  next
    case (Cons c ops)
    from step [OF Cons.prems, of c] Cons.IH [of "fst (radio_step n c)"] show ?case by simp
  qed
  from this [OF m'] m' show ?thesis by (simp add: wantsServiceSuspended_def)
qed

lemma radio_external_final_witness:
  "rm_state (run radio_step (radio_init\<lparr>rm_policy := ExternalControl, rm_activityPending := True\<rparr>)
     [OpNotifyActivity, OpSetPolicy Demand]) = Monitoring"
proof -
  have "radio_setPolicy ExternalControl radio_init
        = (True, radio_init\<lparr>rm_policy := ExternalControl, rm_activityPending := True\<rparr>)"
    by (simp add: radio_setPolicy_def radio_init_def inTransition_def hasFailed_def
        wantsServiceSuspended_def)
  from radio_external_final [OF this radio_init_coherent] show ?thesis by blast
qed

end
