(* ===== verification/LowBattery.thy ===== *)
theory LowBattery
  imports Prelude "HOL-Library.Signed_Division"
begin

text \<open>
  Battery judgement on voltage samples: the confirmation of a sustained low voltage
  (\<open>src/src/power/LowBatteryShutdownPolicy.h\<close> and \<open>.cpp\<close>) and the charge estimate
  (\<open>src/src/power/battery_level.h\<close>). Voltages are C++ \<open>int\<close> values that are only compared,
  or subtracted and multiplied far inside their range, so they are \<open>int\<close> here.
\<close>

section \<open>Sustained low voltage\<close>

datatype LowBatteryDecision = LbNone | LbShutdown

record low_battery =
  lb_lowVoltageObserved :: bool
  lb_shutdownRequested :: bool
  lb_lowVoltageStartedMs :: u32

definition kLowBatteryConfirmationVoltageMv :: int where
  "kLowBatteryConfirmationVoltageMv = 3450"

definition kRecoveryVoltageMv :: int where
  "kRecoveryVoltageMv = 3500"

definition kConfirmationMs :: u32 where
  "kConfirmationMs = 15000"

lemmas lb_consts = kLowBatteryConfirmationVoltageMv_def kRecoveryVoltageMv_def kConfirmationMs_def

definition lb_reset :: "low_battery \<Rightarrow> low_battery" where
  "lb_reset p = p\<lparr>lb_lowVoltageObserved := False, lb_shutdownRequested := False,
                  lb_lowVoltageStartedMs := 0\<rparr>"

definition lb_init :: low_battery where
  "lb_init = \<lparr>lb_lowVoltageObserved = False, lb_shutdownRequested = False,
              lb_lowVoltageStartedMs = 0\<rparr>"

definition confirmationActive :: "low_battery \<Rightarrow> bool" where
  "confirmationActive p = lb_lowVoltageObserved p"

definition lb_update ::
    "int \<Rightarrow> bool \<Rightarrow> u32 \<Rightarrow> low_battery \<Rightarrow> LowBatteryDecision \<times> low_battery" where
  "lb_update voltageMv hasExternalPower nowMs p =
     (if hasExternalPower then (LbNone, lb_reset p)
      else if voltageMv \<le> 0 then (LbNone, p)
      else if lb_shutdownRequested p then (LbNone, p)
      else if \<not> lb_lowVoltageObserved p then
        (if voltageMv > kLowBatteryConfirmationVoltageMv then (LbNone, p)
         else (LbNone, p\<lparr>lb_lowVoltageObserved := True, lb_lowVoltageStartedMs := nowMs\<rparr>))
      else if voltageMv \<ge> kRecoveryVoltageMv then (LbNone, lb_reset p)
      else if nowMs - lb_lowVoltageStartedMs p < kConfirmationMs then (LbNone, p)
      else (LbShutdown, p\<lparr>lb_shutdownRequested := True\<rparr>))"

text \<open>A poll is a voltage, whether external power is present, and the time.\<close>

type_synonym battery_sample = "int \<times> bool \<times> u32"

fun lb_step :: "low_battery \<Rightarrow> battery_sample \<Rightarrow> low_battery \<times> LowBatteryDecision" where
  "lb_step p (v, ext, t) = (let (d, p') = lb_update v ext t p in (p', d))"

text \<open>A shutdown has been requested only within a confirmation.\<close>

definition lb_inv :: "low_battery \<Rightarrow> bool" where
  "lb_inv p \<longleftrightarrow> (lb_shutdownRequested p \<longrightarrow> lb_lowVoltageObserved p)"

interpretation lb: invariant_machine lb_step lb_inv lb_init
  by unfold_locales
    (auto simp: lb_inv_def lb_init_def lb_update_def lb_reset_def Let_def split: prod.splits if_splits)

text \<open>Samples that say nothing: no external power and no voltage reading.\<close>

fun missing :: "battery_sample \<Rightarrow> bool" where
  "missing (v, ext, t) \<longleftrightarrow> \<not> ext \<and> v \<le> 0"

lemma lb_step_missing: "missing x \<Longrightarrow> lb_step p x = (p, LbNone)"
  by (cases x) (auto simp: lb_update_def)

text \<open>A missing voltage sample is as if it had not been taken: it neither defers
  nor advances a shutdown, whatever samples surround it.\<close>

theorem missing_samples_transparent:
  "run lb_step p xs = run lb_step p (filter (\<lambda>x. \<not> missing x) xs)
   \<and> count_list (outputs lb_step p xs) LbShutdown
     = count_list (outputs lb_step p (filter (\<lambda>x. \<not> missing x) xs)) LbShutdown"
  by (induction xs arbitrary: p) (auto simp: lb_step_missing)

text \<open>The samples that keep a running confirmation: on battery and not recovered.\<close>

fun unrecovered :: "battery_sample \<Rightarrow> bool" where
  "unrecovered (v, ext, t) \<longleftrightarrow> \<not> ext \<and> v < kRecoveryVoltageMv"

text \<open>The first of them that completes the confirmation begun at \<open>t0\<close>.\<close>

fun completes :: "u32 \<Rightarrow> battery_sample \<Rightarrow> bool" where
  "completes t0 (v, ext, t) \<longleftrightarrow> 0 < v \<and> kConfirmationMs \<le> t - t0"

fun confirm_outputs :: "u32 \<Rightarrow> battery_sample list \<Rightarrow> LowBatteryDecision list" where
  "confirm_outputs t0 [] = []"
| "confirm_outputs t0 (x # xs) =
     (if completes t0 x then LbShutdown # map (\<lambda>_. LbNone) xs else LbNone # confirm_outputs t0 xs)"

lemma lb_outputs_requested:
  assumes "lb_shutdownRequested p" and "list_all unrecovered xs"
  shows "outputs lb_step p xs = map (\<lambda>_. LbNone) xs"
  using assms(2)
proof (induction xs)
  case Nil
  then show ?case by simp
next
  case (Cons x xs)
  obtain v e t where x: "x = (v, e, t)" by (cases x) auto
  with assms(1) Cons show ?case by (auto simp: lb_update_def)
qed

lemma lb_outputs_confirming:
  assumes "lb_lowVoltageObserved p" and "\<not> lb_shutdownRequested p"
    and "list_all unrecovered xs"
  shows "outputs lb_step p xs = confirm_outputs (lb_lowVoltageStartedMs p) xs"
  using assms(3)
proof (induction xs)
  case Nil
  then show ?case by simp
next
  case (Cons x xs)
  obtain v e t where x: "x = (v, e, t)" by (cases x) auto
  show ?case
  proof (cases "completes (lb_lowVoltageStartedMs p) x")
    case True
    have "lb_step p x = (p\<lparr>lb_shutdownRequested := True\<rparr>, LbShutdown)"
      using assms Cons.prems True x by (auto simp: lb_update_def not_less)
    with Cons.prems True show ?thesis by (simp add: lb_outputs_requested)
  next
    case False
    then have "lb_step p x = (p, LbNone)"
      using assms Cons.prems x by (auto simp: lb_update_def not_less not_le)
    with Cons False show ?thesis by simp
  qed
qed

text \<open>From a reset policy, a first sample at or below the confirmation voltage at time
  \<open>t0\<close>, followed by any samples on battery that never recover, requests exactly one
  shutdown: at the first of them with a voltage reading at least
  \<open>kConfirmationMs\<close> after \<open>t0\<close>, and none before or after.\<close>

theorem sustained_low_battery:
  assumes "\<not> lb_lowVoltageObserved p" and "\<not> lb_shutdownRequested p"
    and "0 < v" and "v \<le> kLowBatteryConfirmationVoltageMv" and "list_all unrecovered xs"
  shows "outputs lb_step p ((v, False, t0) # xs) = LbNone # confirm_outputs t0 xs"
proof -
  have "lb_step p (v, False, t0)
      = (p\<lparr>lb_lowVoltageObserved := True, lb_lowVoltageStartedMs := t0\<rparr>, LbNone)"
    using assms by (simp add: lb_update_def)
  with assms show ?thesis by (simp add: lb_outputs_confirming)
qed

lemma sustained_low_battery_witness:
  "outputs lb_step lb_init [(3440, False, 100), (0, False, 9000), (3480, False, 15100), (3400, False, 20000)]
   = [LbNone, LbNone, LbShutdown, LbNone]"
  using sustained_low_battery [of lb_init 3440
      "[(0, False, 9000), (3480, False, 15100), (3400, False, 20000)]" 100]
  by (simp add: lb_init_def lb_consts)

text \<open>A shutdown is never decided on external power, without a reading, after recovery, or
  within \<open>kConfirmationMs\<close> of the low sample that began the confirmation.\<close>

theorem low_battery_shutdown_guard:
  assumes "lb_update v ext t p = (LbShutdown, p')"
  shows "\<not> ext \<and> 0 < v \<and> v < kRecoveryVoltageMv \<and> lb_lowVoltageObserved p
         \<and> \<not> lb_shutdownRequested p \<and> kConfirmationMs \<le> t - lb_lowVoltageStartedMs p
         \<and> lb_shutdownRequested p'"
  using assms by (auto simp: lb_update_def split: if_splits)

lemma low_battery_shutdown_guard_witness:
  "kConfirmationMs \<le> (15100 :: u32) - 100"
  using low_battery_shutdown_guard [of 3480 False 15100
      "lb_init\<lparr>lb_lowVoltageObserved := True, lb_lowVoltageStartedMs := 100\<rparr>"]
  by (simp add: lb_update_def lb_init_def lb_consts)

section \<open>Charge estimate\<close>

definition kDischargeCurve :: "(int \<times> int) list" where
  "kDischargeCurve =
     [(kLowBatteryConfirmationVoltageMv, 0), (3530, 10), (3558, 20), (3590, 30), (3638, 40),
      (3694, 50), (3758, 60), (3822, 70), (3892, 80), (3964, 90), (4088, 100)]"

text \<open>The loop over the curve: the first segment whose upper end reaches the voltage. C++ division
  truncates, \<open>sdiv\<close>.\<close>

fun curve_scan :: "(int \<times> int) list \<Rightarrow> int \<Rightarrow> int" where
  "curve_scan (lower # upper # rest) v =
     (if v > fst upper then curve_scan (upper # rest) v
      else snd lower + ((v - fst lower) * (snd upper - snd lower)) sdiv (fst upper - fst lower))"
| "curve_scan _ v = 100"

definition estimateStickS3BatteryPercent :: "int \<Rightarrow> int" where
  "estimateStickS3BatteryPercent v =
     (if v \<le> fst (hd kDischargeCurve) then 0
      else if v \<ge> fst (last kDischargeCurve) then 100
      else curve_scan kDischargeCurve v)"

fun rising :: "(int \<times> int) list \<Rightarrow> bool" where
  "rising (a # b # ps) \<longleftrightarrow> fst a < fst b \<and> snd a \<le> snd b \<and> rising (b # ps)"
| "rising _ \<longleftrightarrow> True"

lemma sdiv_nonneg: "0 \<le> a \<Longrightarrow> 0 < b \<Longrightarrow> a sdiv b = a div b" for a b :: int
  by (cases "a = 0") (simp_all add: signed_divide_int_def)

text \<open>One segment: interpolation stays between its ends and grows.\<close>

lemma segment_bounds:
  fixes a b p q v :: int
  assumes "a < b" "p \<le> q" "a \<le> v" "v \<le> b"
  shows "0 \<le> ((v - a) * (q - p)) sdiv (b - a)" "p + ((v - a) * (q - p)) sdiv (b - a) \<le> q"
proof -
  have nn: "0 \<le> (v - a) * (q - p)" using assms by simp
  have "(v - a) * (q - p) \<le> (q - p) * (b - a)"
    using assms by (subst mult.commute) (intro mult_left_mono, auto)
  then have "(v - a) * (q - p) div (b - a) \<le> (q - p) * (b - a) div (b - a)"
    using assms by (intro zdiv_mono1) auto
  then have "(v - a) * (q - p) div (b - a) \<le> q - p" using assms by simp
  moreover have "0 \<le> (v - a) * (q - p) div (b - a)"
    using nn assms by (simp add: pos_imp_zdiv_nonneg_iff)
  ultimately show "0 \<le> ((v - a) * (q - p)) sdiv (b - a)"
    and "p + ((v - a) * (q - p)) sdiv (b - a) \<le> q"
    using nn assms by (simp_all add: sdiv_nonneg)
qed

lemma segment_mono:
  fixes a b p q v w :: int
  assumes "a < b" "p \<le> q" "a \<le> v" "v \<le> w"
  shows "((v - a) * (q - p)) sdiv (b - a) \<le> ((w - a) * (q - p)) sdiv (b - a)"
proof -
  have "(v - a) * (q - p) \<le> (w - a) * (q - p)"
    using assms by (intro mult_right_mono) auto
  with assms show ?thesis by (simp add: sdiv_nonneg zdiv_mono1)
qed

lemma curve_scan_lower:
  "rising ps \<Longrightarrow> ps \<noteq> [] \<Longrightarrow> fst (hd ps) \<le> v \<Longrightarrow> \<forall>p \<in> set ps. snd p \<le> 100 \<Longrightarrow> snd (hd ps) \<le> curve_scan ps v"
proof (induction ps v rule: curve_scan.induct)
  case (1 lower upper rest v)
  show ?case
  proof (cases "v > fst upper")
    case True
    with "1" have "snd upper \<le> curve_scan (upper # rest) v" by simp
    with True "1.prems" show ?thesis by simp
  next
    case False
    with "1.prems" show ?thesis by (simp add: segment_bounds)
  qed
qed auto

lemma curve_scan_mono:
  "rising ps \<Longrightarrow> ps \<noteq> [] \<Longrightarrow> fst (hd ps) \<le> v \<Longrightarrow> v \<le> w \<Longrightarrow> \<forall>p \<in> set ps. snd p \<le> 100 \<Longrightarrow>
   curve_scan ps v \<le> curve_scan ps w"
proof (induction ps v rule: curve_scan.induct)
  case (1 lower upper rest v)
  show ?case
  proof (cases "v > fst upper")
    case True
    with "1" show ?thesis by simp
  next
    case v: False
    show ?thesis
    proof (cases "w > fst upper")
      case True
      have "curve_scan (lower # upper # rest) v \<le> snd upper"
        using v "1.prems" by (simp add: segment_bounds)
      also have "\<dots> \<le> curve_scan (upper # rest) w"
        using curve_scan_lower [of "upper # rest" w] True "1.prems" by simp
      finally show ?thesis using True by simp
    next
      case False
      with v "1.prems" show ?thesis by (simp add: segment_mono)
    qed
  qed
qed auto

lemma curve_scan_upper:
  "rising ps \<Longrightarrow> ps \<noteq> [] \<Longrightarrow> fst (hd ps) \<le> v \<Longrightarrow> \<forall>p \<in> set ps. snd p \<le> 100 \<Longrightarrow> curve_scan ps v \<le> 100"
proof (induction ps v rule: curve_scan.induct)
  case (1 lower upper rest v)
  show ?case
  proof (cases "v > fst upper")
    case True
    with "1" show ?thesis by simp
  next
    case False
    with "1.prems" have "curve_scan (lower # upper # rest) v \<le> snd upper"
      by (simp add: segment_bounds)
    with "1.prems" show ?thesis by simp
  qed
qed auto

lemma discharge_curve_rising: "rising kDischargeCurve"
  by (simp add: kDischargeCurve_def lb_consts)

lemma discharge_curve_ends:
  "hd kDischargeCurve = (3450, 0)" "last kDischargeCurve = (4088, 100)"
  "\<forall>p \<in> set kDischargeCurve. snd p \<le> 100" "kDischargeCurve \<noteq> []"
  by (simp_all add: kDischargeCurve_def lb_consts)

lemma estimate_in_curve:
  "3450 \<le> v \<Longrightarrow> curve_scan kDischargeCurve v \<in> {0..100}"
  using curve_scan_lower [OF discharge_curve_rising, of v]
    curve_scan_upper [OF discharge_curve_rising, of v]
  by (simp add: discharge_curve_ends)

text \<open>The charge estimate is a percentage at every voltage and never falls as the voltage
  rises.\<close>

theorem battery_estimate_monotone:
  "estimateStickS3BatteryPercent v \<in> {0..100}
   \<and> (v \<le> w \<longrightarrow> estimateStickS3BatteryPercent v \<le> estimateStickS3BatteryPercent w)"
  using estimate_in_curve [of v] estimate_in_curve [of w]
    curve_scan_mono [OF discharge_curve_rising, of v w]
  by (simp add: estimateStickS3BatteryPercent_def discharge_curve_ends)

lemma battery_estimate_monotone_witness:
  "estimateStickS3BatteryPercent 3600 = 32
   \<and> estimateStickS3BatteryPercent 3600 \<le> estimateStickS3BatteryPercent 4000"
  using battery_estimate_monotone [of 3600 4000]
  by (simp add: estimateStickS3BatteryPercent_def kDischargeCurve_def lb_consts sdiv_nonneg)

end
