(* ===== verification/Backflush.thy ===== *)
theory Backflush
  imports Prelude
begin

text \<open>
  The backflush timer (\<open>src/src/apps/backflush/BackflushCycle.h\<close> and \<open>.cpp\<close>): five pump-on
  periods with rests between them, synchronised with the detected pump. The two result arrays
  of \<open>CYCLE_COUNT\<close> durations are lists; the invariant keeps every index inside them.
\<close>

section \<open>Data\<close>

datatype BackflushPhase = WaitingForPump | PumpOn | PumpOff | Complete

datatype Instruction = IStartPump | IPumpOn | IStopPump | IWait | IComplete

definition CYCLE_COUNT :: nat where
  "CYCLE_COUNT = 5"

definition PHASE_TARGET_MS :: u32 where
  "PHASE_TARGET_MS = 10000"

definition BEFORE_TARGET_PUMP_CHANGE_CONFIRM_MS :: u32 where
  "BEFORE_TARGET_PUMP_CHANGE_CONFIRM_MS = 5000"

definition AFTER_TARGET_PUMP_CHANGE_CONFIRM_MS :: u32 where
  "AFTER_TARGET_PUMP_CHANGE_CONFIRM_MS = 1500"

record backflush =
  bf_phase :: BackflushPhase
  bf_cycleIndex :: nat
  bf_phaseStartedMs :: u32
  bf_pumpChangeStartedMs :: u32
  bf_pumpChangePending :: bool
  bf_onMs :: "u32 list"
  bf_offMs :: "u32 list"

definition bf_reset :: backflush where
  "bf_reset = \<lparr>bf_phase = WaitingForPump, bf_cycleIndex = 0, bf_phaseStartedMs = 0,
     bf_pumpChangeStartedMs = 0, bf_pumpChangePending = False,
     bf_onMs = replicate CYCLE_COUNT 0, bf_offMs = replicate CYCLE_COUNT 0\<rparr>"

section \<open>Operations\<close>

definition clearPumpChange :: "backflush \<Rightarrow> backflush" where
  "clearPumpChange b = b\<lparr>bf_pumpChangePending := False, bf_pumpChangeStartedMs := 0\<rparr>"

definition beginPhase :: "BackflushPhase \<Rightarrow> u32 \<Rightarrow> backflush \<Rightarrow> backflush" where
  "beginPhase ph startedMs b = clearPumpChange (b\<lparr>bf_phase := ph, bf_phaseStartedMs := startedMs\<rparr>)"

definition rememberPumpChange :: "u32 \<Rightarrow> backflush \<Rightarrow> backflush" where
  "rememberPumpChange nowMs b =
     (if bf_pumpChangePending b then b
      else b\<lparr>bf_pumpChangePending := True, bf_pumpChangeStartedMs := nowMs\<rparr>)"

definition phaseElapsedMs :: "u32 \<Rightarrow> backflush \<Rightarrow> u32" where
  "phaseElapsedMs nowMs b =
     (case bf_phase b of PumpOn \<Rightarrow> nowMs - bf_phaseStartedMs b
                       | PumpOff \<Rightarrow> nowMs - bf_phaseStartedMs b
                       | _ \<Rightarrow> 0)"

definition phaseRemainingMs :: "u32 \<Rightarrow> backflush \<Rightarrow> u32" where
  "phaseRemainingMs nowMs b =
     (let elapsed = phaseElapsedMs nowMs b
      in if elapsed \<ge> PHASE_TARGET_MS then 0 else PHASE_TARGET_MS - elapsed)"

definition displayPhase :: "backflush \<Rightarrow> BackflushPhase" where
  "displayPhase b =
     (if \<not> bf_pumpChangePending b then bf_phase b
      else case bf_phase b of
             PumpOn \<Rightarrow> (if bf_cycleIndex b + 1 < CYCLE_COUNT then PumpOff else PumpOn)
           | PumpOff \<Rightarrow> PumpOn
           | ph \<Rightarrow> ph)"

definition displayPhaseElapsedMs :: "u32 \<Rightarrow> backflush \<Rightarrow> u32" where
  "displayPhaseElapsedMs nowMs b =
     (if displayPhase b \<noteq> bf_phase b then nowMs - bf_pumpChangeStartedMs b
      else phaseElapsedMs nowMs b)"

definition displayCycleIndex :: "backflush \<Rightarrow> nat" where
  "displayCycleIndex b =
     (if bf_pumpChangePending b \<and> bf_phase b = PumpOff then bf_cycleIndex b + 1
      else bf_cycleIndex b)"

definition onRecorded :: "nat \<Rightarrow> backflush \<Rightarrow> bool" where
  "onRecorded cycle b =
     (if cycle \<ge> CYCLE_COUNT \<or> cycle > bf_cycleIndex b then False
      else if cycle < bf_cycleIndex b then True
      else case bf_phase b of PumpOff \<Rightarrow> True | Complete \<Rightarrow> True | _ \<Rightarrow> False)"

definition offRecorded :: "nat \<Rightarrow> backflush \<Rightarrow> bool" where
  "offRecorded cycle b \<longleftrightarrow> cycle < CYCLE_COUNT \<and> cycle < bf_cycleIndex b"

definition instruction :: "u32 \<Rightarrow> backflush \<Rightarrow> Instruction" where
  "instruction nowMs b =
     (case bf_phase b of
        WaitingForPump \<Rightarrow> IStartPump
      | PumpOn \<Rightarrow> (if phaseElapsedMs nowMs b \<ge> PHASE_TARGET_MS then IStopPump else IPumpOn)
      | PumpOff \<Rightarrow> (if phaseElapsedMs nowMs b \<ge> PHASE_TARGET_MS then IStartPump else IWait)
      | Complete \<Rightarrow> IComplete)"

definition displayInstruction :: "u32 \<Rightarrow> backflush \<Rightarrow> Instruction" where
  "displayInstruction nowMs b =
     (if \<not> bf_pumpChangePending b then instruction nowMs b
      else if bf_phase b = PumpOn \<and> bf_cycleIndex b + 1 = CYCLE_COUNT then IStopPump
      else case displayPhase b of PumpOn \<Rightarrow> IPumpOn | PumpOff \<Rightarrow> IWait
                                | _ \<Rightarrow> instruction nowMs b)"

definition shouldApplyPumpChange :: "u32 \<Rightarrow> backflush \<Rightarrow> bool" where
  "shouldApplyPumpChange nowMs b =
     (if \<not> bf_pumpChangePending b then False
      else let beganAfterTarget = bf_pumpChangeStartedMs b - bf_phaseStartedMs b \<ge> PHASE_TARGET_MS;
               confirmMs = (if beganAfterTarget then AFTER_TARGET_PUMP_CHANGE_CONFIRM_MS
                            else BEFORE_TARGET_PUMP_CHANGE_CONFIRM_MS)
           in nowMs - bf_pumpChangeStartedMs b \<ge> confirmMs)"

definition bf_update :: "u32 \<Rightarrow> bool \<Rightarrow> backflush \<Rightarrow> bool \<times> backflush" where
  "bf_update nowMs pumpDetected b =
     (case bf_phase b of
        WaitingForPump \<Rightarrow>
          (if \<not> pumpDetected then (False, b) else (True, beginPhase PumpOn nowMs b))
      | PumpOn \<Rightarrow>
          (if pumpDetected then (False, clearPumpChange b)
           else let b = rememberPumpChange nowMs b in
                if \<not> shouldApplyPumpChange nowMs b then (False, b)
                else let b = b\<lparr>bf_onMs := (bf_onMs b)[bf_cycleIndex b :=
                                   bf_pumpChangeStartedMs b - bf_phaseStartedMs b]\<rparr> in
                     if bf_cycleIndex b + 1 = CYCLE_COUNT
                       then (True, beginPhase Complete (bf_pumpChangeStartedMs b) b)
                     else (True, beginPhase PumpOff (bf_pumpChangeStartedMs b) b))
      | PumpOff \<Rightarrow>
          (if \<not> pumpDetected then (False, clearPumpChange b)
           else let b = rememberPumpChange nowMs b in
                if \<not> shouldApplyPumpChange nowMs b then (False, b)
                else let b = b\<lparr>bf_offMs := (bf_offMs b)[bf_cycleIndex b :=
                                   bf_pumpChangeStartedMs b - bf_phaseStartedMs b]\<rparr>;
                         b = b\<lparr>bf_cycleIndex := bf_cycleIndex b + 1\<rparr>
                     in (True, beginPhase PumpOn (bf_pumpChangeStartedMs b) b))
      | Complete \<Rightarrow> (False, b))"

fun bf_step :: "backflush \<Rightarrow> u32 \<times> bool \<Rightarrow> backflush \<times> bool" where
  "bf_step b (nowMs, pump) = (let (r, b') = bf_update nowMs pump b in (b', r))"

lemmas bf_consts = CYCLE_COUNT_def PHASE_TARGET_MS_def BEFORE_TARGET_PUMP_CHANGE_CONFIRM_MS_def
  AFTER_TARGET_PUMP_CHANGE_CONFIRM_MS_def

lemmas bf_step_defs = bf_update_def beginPhase_def clearPumpChange_def rememberPumpChange_def

section \<open>Progress\<close>

text \<open>
  The routine is ten periods in a fixed order, counted by \<open>bf_progress\<close>: 0 while waiting,
  \<open>2 i + 1\<close> in the pump-on period of cycle \<open>i\<close>, \<open>2 i + 2\<close> in its rest, 10 when complete.
\<close>

definition bf_progress :: "backflush \<Rightarrow> nat" where
  "bf_progress b =
     (case bf_phase b of WaitingForPump \<Rightarrow> 0
      | PumpOn \<Rightarrow> 2 * bf_cycleIndex b + 1
      | PumpOff \<Rightarrow> 2 * bf_cycleIndex b + 2
      | Complete \<Rightarrow> 2 * CYCLE_COUNT)"

text \<open>
  The invariant: indices are inside the arrays, a session that ended ended in the last cycle,
  a pump change is pending only within a period, and a duration is nonzero only where the
  period is recorded.
\<close>

definition bf_inv :: "backflush \<Rightarrow> bool" where
  "bf_inv b \<longleftrightarrow>
     bf_cycleIndex b < CYCLE_COUNT \<and> length (bf_onMs b) = CYCLE_COUNT
     \<and> length (bf_offMs b) = CYCLE_COUNT
     \<and> (bf_phase b = WaitingForPump \<longrightarrow> bf_cycleIndex b = 0)
     \<and> (bf_phase b = Complete \<longrightarrow> bf_cycleIndex b + 1 = CYCLE_COUNT)
     \<and> (bf_phase b = PumpOff \<longrightarrow> bf_cycleIndex b + 1 < CYCLE_COUNT)
     \<and> (bf_pumpChangePending b \<longrightarrow> bf_phase b = PumpOn \<or> bf_phase b = PumpOff)
     \<and> (\<forall>i < CYCLE_COUNT. \<not> onRecorded i b \<longrightarrow> bf_onMs b ! i = 0)
     \<and> (\<forall>i < CYCLE_COUNT. \<not> offRecorded i b \<longrightarrow> bf_offMs b ! i = 0)"

lemma bf_inv_reset: "bf_inv bf_reset"
  by (simp add: bf_inv_def bf_reset_def bf_consts)

lemma bf_inv_update: "bf_inv b \<Longrightarrow> bf_inv (snd (bf_update nowMs pump b))"
  by (cases "bf_phase b")
    (auto simp: bf_inv_def bf_step_defs Let_def onRecorded_def offRecorded_def nth_list_update)

interpretation bf: invariant_machine bf_step bf_inv bf_reset
proof
  show "bf_inv bf_reset" by (rule bf_inv_reset)
next
  fix b i
  assume "bf_inv b"
  then show "bf_inv (fst (bf_step b i))"
    using bf_inv_update [of b] by (cases i) (simp add: case_prod_beta)
qed

lemma bf_update_progress:
  "bf_inv b \<Longrightarrow> bf_progress (snd (bf_update nowMs pump b))
     = bf_progress b + (if fst (bf_update nowMs pump b) then 1 else 0)"
  by (cases "bf_phase b") (auto simp: bf_inv_def bf_step_defs bf_progress_def Let_def bf_consts)

lemma bf_progress_bound: "bf_inv b \<Longrightarrow> bf_progress b \<le> 2 * CYCLE_COUNT"
  by (cases "bf_phase b") (auto simp: bf_inv_def bf_progress_def bf_consts)

lemma bf_run_progress:
  "bf_inv b \<Longrightarrow> bf_progress (run bf_step b xs) = bf_progress b + count_list (outputs bf_step b xs) True"
proof (induction xs arbitrary: b)
  case Nil
  then show ?case by simp
next
  case (Cons x xs)
  obtain t p where x: "x = (t, p)" by (cases x)
  from Cons.prems have "bf_inv (snd (bf_update t p b))" by (rule bf_inv_update)
  from Cons.IH [OF this] bf_update_progress [OF Cons.prems, of t p] show ?case
    by (simp add: x case_prod_beta)
qed

text \<open>In any session \<open>update\<close> answers true exactly once per period of the routine: the number of
  true answers is the number of periods entered, at most ten, and it is ten
  exactly when the routine is complete.\<close>

theorem backflush_progress:
  "count_list (outputs bf_step bf_reset xs) True = bf_progress (run bf_step bf_reset xs)
   \<and> count_list (outputs bf_step bf_reset xs) True \<le> 10
   \<and> (count_list (outputs bf_step bf_reset xs) True = 10
      \<longleftrightarrow> bf_phase (run bf_step bf_reset xs) = Complete)"
proof -
  let ?b = "run bf_step bf_reset xs"
  have eq: "count_list (outputs bf_step bf_reset xs) True = bf_progress ?b"
    using bf_run_progress [OF bf_inv_reset, of xs] by (simp add: bf_reset_def bf_progress_def)
  have inv: "bf_inv ?b" by (rule bf.inv_reach)
  have "bf_progress ?b = 10 \<longleftrightarrow> bf_phase ?b = Complete"
    using inv by (cases "bf_phase ?b") (auto simp: bf_inv_def bf_progress_def bf_consts)
  with eq bf_progress_bound [OF inv] show ?thesis by (simp add: bf_consts)
qed

section \<open>Recorded durations\<close>

text \<open>
  A period that ends hands its end to the next one as its start, so the recorded durations
  tile the session: they add up to the start of the current period, measured from the start
  of the first one (in wrap-around time).
\<close>

definition bf_total :: "backflush \<Rightarrow> u32" where
  "bf_total b = sum_list (bf_onMs b) + sum_list (bf_offMs b)"

lemma sum_list_update_zero:
  "i < length xs \<Longrightarrow> xs ! i = 0 \<Longrightarrow> sum_list (xs[i := v]) = sum_list xs + v" for v :: u32
proof (induction xs arbitrary: i)
  case Nil
  then show ?case by simp
next
  case (Cons x xs)
  then show ?case by (cases i) (auto simp: add.commute add.left_commute)
qed

lemma bf_total_update:
  assumes "bf_inv b" and "bf_phase b \<noteq> WaitingForPump"
  shows "bf_phaseStartedMs (snd (bf_update nowMs pump b)) - bf_total (snd (bf_update nowMs pump b))
         = bf_phaseStartedMs b - bf_total b
         \<and> bf_phase (snd (bf_update nowMs pump b)) \<noteq> WaitingForPump"
  using assms
  by (cases "bf_phase b")
    (auto simp: bf_inv_def bf_step_defs bf_total_def Let_def onRecorded_def offRecorded_def
       sum_list_update_zero)

text \<open>Once the routine has started at time \<open>t0\<close>, at every later moment the recorded period
  durations add up to the time from \<open>t0\<close> to the start of the current period: no time is
  lost or counted twice between periods.\<close>

theorem backflush_periods_tile:
  "bf_total (run bf_step bf_reset ((t0, True) # xs))
   = bf_phaseStartedMs (run bf_step bf_reset ((t0, True) # xs)) - t0"
proof -
  have step: "bf_phaseStartedMs (run bf_step b xs) - bf_total (run bf_step b xs)
      = bf_phaseStartedMs b - bf_total b"
    if "bf_inv b" "bf_phase b \<noteq> WaitingForPump" for b
    using that
  proof (induction xs arbitrary: b)
    case Nil
    then show ?case by simp
  next
    case (Cons x xs)
    obtain t p where x: "x = (t, p)" by (cases x)
    from Cons.prems have "bf_inv (snd (bf_update t p b))" by (intro bf_inv_update)
    with Cons.IH [of "snd (bf_update t p b)"] bf_total_update [OF Cons.prems, of t p]
    show ?case by (simp add: x case_prod_beta)
  qed
  let ?s = "snd (bf_update t0 True bf_reset)"
  have "bf_inv ?s" by (intro bf_inv_update bf_inv_reset)
  moreover have "bf_phase ?s = PumpOn" "bf_total ?s = 0" "bf_phaseStartedMs ?s = t0"
    by (simp_all add: bf_step_defs bf_reset_def bf_total_def bf_consts sum_list_replicate)
  ultimately have "t0 = bf_phaseStartedMs (run bf_step ?s xs) - bf_total (run bf_step ?s xs)"
    using step [of ?s] by simp
  then show ?thesis by (simp add: case_prod_beta eq_diff_eq algebra_simps)
qed

section \<open>Debouncing\<close>

text \<open>The pump state that would end the current period.\<close>

definition contrary :: "backflush \<Rightarrow> bool \<Rightarrow> bool" where
  "contrary b pump \<longleftrightarrow> bf_phase b = PumpOn \<and> \<not> pump \<or> bf_phase b = PumpOff \<and> pump"

lemma bf_contrary_pending:
  assumes "contrary b pump" and "bf_pumpChangePending b"
    and "t - bf_pumpChangeStartedMs b < AFTER_TARGET_PUMP_CHANGE_CONFIRM_MS"
  shows "bf_update t pump b = (False, b)"
proof -
  have "AFTER_TARGET_PUMP_CHANGE_CONFIRM_MS < BEFORE_TARGET_PUMP_CHANGE_CONFIRM_MS"
    by (simp add: bf_consts)
  with assms have "\<not> shouldApplyPumpChange t b"
    by (auto simp: shouldApplyPumpChange_def Let_def)
  with assms show ?thesis
    by (auto simp: bf_update_def contrary_def rememberPumpChange_def)
qed

lemma bf_contrary_first:
  assumes "contrary b pump" and "\<not> bf_pumpChangePending b"
  shows "bf_update t pump b = (False, b\<lparr>bf_pumpChangePending := True, bf_pumpChangeStartedMs := t\<rparr>)"
  using assms
  by (auto simp: bf_update_def contrary_def rememberPumpChange_def shouldApplyPumpChange_def
      Let_def bf_consts)

text \<open>A pump report against the current period that is withdrawn within the shorter
  confirmation window leaves no trace: however many updates saw it, no period ends
  and the state is the one before the glitch.\<close>

theorem backflush_glitch_ignored:
  assumes "contrary b pump" and "\<not> bf_pumpChangePending b" and "bf_pumpChangeStartedMs b = 0"
    and "\<forall>t \<in> set ts. t - t0 < AFTER_TARGET_PUMP_CHANGE_CONFIRM_MS"
  shows "run bf_step b ((t0, pump) # map (\<lambda>t. (t, pump)) ts @ [(t1, \<not> pump)]) = b
         \<and> \<not> list_ex id (outputs bf_step b ((t0, pump) # map (\<lambda>t. (t, pump)) ts @ [(t1, \<not> pump)]))"
proof -
  let ?g = "b\<lparr>bf_pumpChangePending := True, bf_pumpChangeStartedMs := t0\<rparr>"
  have c: "contrary ?g pump" using assms(1) by (simp add: contrary_def)
  have seen: "run bf_step ?g (map (\<lambda>t. (t, pump)) ts) = ?g
      \<and> \<not> list_ex id (outputs bf_step ?g (map (\<lambda>t. (t, pump)) ts))"
    using assms(4)
  proof (induction ts)
    case Nil
    then show ?case by simp
  next
    case (Cons t ts)
    then have "bf_update t pump ?g = (False, ?g)"
      by (intro bf_contrary_pending c) simp_all
    with Cons show ?case by simp
  qed
  have withdrawn: "bf_update t1 (\<not> pump) ?g = (False, b)"
    using assms(1-3) by (cases b) (auto simp: contrary_def bf_update_def clearPumpChange_def)
  show ?thesis
    using seen withdrawn by (simp add: bf_contrary_first [OF assms(1,2)])
qed

lemma backflush_glitch_ignored_witness:
  "run bf_step (snd (bf_update 100 True bf_reset)) [(2000, False), (3000, False), (3600, True)]
   = snd (bf_update 100 True bf_reset)"
  using backflush_glitch_ignored [of "snd (bf_update 100 True bf_reset)" False "[3000]" 2000 3600]
  by (simp add: contrary_def bf_update_def bf_reset_def beginPhase_def clearPumpChange_def bf_consts)

text \<open>A contrary report that persists does end the period, at the moment it was first
  seen: the duration recorded and the start of the next period are that moment, not the
  end of the confirmation.\<close>

theorem backflush_change_applied:
  assumes "bf_inv b" and "contrary b pump" and "\<not> bf_pumpChangePending b"
    and "t1 - t0 \<ge> BEFORE_TARGET_PUMP_CHANGE_CONFIRM_MS"
  shows "outputs bf_step b [(t0, pump), (t1, pump)] = [False, True]
    \<and> bf_phaseStartedMs (run bf_step b [(t0, pump), (t1, pump)]) = t0
    \<and> (if bf_phase b = PumpOn then bf_onMs else bf_offMs)
         (run bf_step b [(t0, pump), (t1, pump)]) ! bf_cycleIndex b = t0 - bf_phaseStartedMs b"
proof -
  let ?g = "b\<lparr>bf_pumpChangePending := True, bf_pumpChangeStartedMs := t0\<rparr>"
  have "t1 - t0 \<ge> AFTER_TARGET_PUMP_CHANGE_CONFIRM_MS"
    using assms(4) by (rule order_trans [rotated]) (simp add: bf_consts)
  then have apply_it: "shouldApplyPumpChange t1 ?g"
    using assms(4) by (simp add: shouldApplyPumpChange_def Let_def)
  have "fst (bf_update t1 pump ?g)
      \<and> bf_phaseStartedMs (snd (bf_update t1 pump ?g)) = t0
      \<and> (if bf_phase b = PumpOn then bf_onMs else bf_offMs)
           (snd (bf_update t1 pump ?g)) ! bf_cycleIndex b = t0 - bf_phaseStartedMs b"
    using assms(1,2) apply_it
    by (auto simp: contrary_def bf_step_defs bf_inv_def Let_def)
  then show ?thesis by (simp add: bf_contrary_first [OF assms(2,3)] case_prod_beta)
qed

lemma backflush_change_applied_witness:
  "bf_onMs (run bf_step (snd (bf_update 100 True bf_reset)) [(12100, False), (18000, False)]) ! 0 = 12000"
  using backflush_change_applied [OF bf_inv_update [OF bf_inv_reset, of 100 True], of False 18000 12100]
  by (simp add: contrary_def bf_update_def bf_reset_def beginPhase_def clearPumpChange_def bf_consts)

end
