(* ===== verification/Ring.thy ===== *)
theory Ring
  imports Prelude
begin

text \<open>
  The bounded logs of the firmware: a fixed array written round-robin and read newest first.
  The same code appears as \<open>RuntimeEventLog::Ring\<close> (\<open>src/src/diagnostics/RuntimeEventLog.h\<close>),
  \<open>HeapMonitor::Ring\<close> (\<open>HeapMonitor.h\<close>) and inside \<open>PowerEventLog\<close>
  (\<open>src/src/power/PowerEventLog.cpp\<close>). A client sees the newest \<open>cap\<close> entries of the history.
\<close>

section \<open>The interface\<close>

text \<open>
  \<open>holds l h\<close>: the log \<open>l\<close> was made by appending the entries of \<open>h\<close>, newest first, since it was
  last empty. A log counts its appends in 32 bits, so the laws are for histories below that.
\<close>

locale event_log =
  fixes push :: "'e \<Rightarrow> 'l \<Rightarrow> 'l"
    and snapshot :: "'l \<Rightarrow> nat \<Rightarrow> 'e list"
    and clear :: "'l \<Rightarrow> 'l"
    and cap :: "'l \<Rightarrow> nat"
    and holds :: "'l \<Rightarrow> 'e list \<Rightarrow> bool"
  assumes holds_push: "holds l h \<Longrightarrow> Suc (length h) < 2 ^ 32 \<Longrightarrow> holds (push e l) (e # h)"
    and holds_clear: "holds l h \<Longrightarrow> holds (clear l) []"
    and snapshot_holds: "holds l h \<Longrightarrow> snapshot l n = take (min n (cap l)) h"
    and cap_push: "cap (push e l) = cap l"
begin

lemma holds_pushes:
  "holds l h \<Longrightarrow> length h + length es < 2 ^ 32 \<Longrightarrow> holds (fold push es l) (rev es @ h)"
proof (induction es arbitrary: l h)
  case Nil
  then show ?case by simp
next
  case (Cons e es)
  then have "holds (push e l) (e # h)" by (intro holds_push) auto
  from Cons.IH [OF this] Cons.prems show ?case by simp
qed

lemma cap_pushes: "cap (fold push es l) = cap l"
  by (induction es arbitrary: l) (simp_all add: cap_push)

text \<open>What a reader sees after any number of appends to an empty log.\<close>

lemma snapshot_pushes:
  assumes "holds l []" and "length es < 2 ^ 32"
  shows "snapshot (fold push es l) n = take (min n (cap l)) (rev es)"
proof -
  have "holds (fold push es l) (rev es)"
    using holds_pushes [OF assms(1), of es] assms(2) by simp
  then show ?thesis by (simp add: snapshot_holds cap_pushes)
qed

lemma snapshot_length: "holds l h \<Longrightarrow> length (snapshot l n) \<le> min n (cap l)"
  using min.cobounded2 [of "length h" "min n (cap l)"] by (simp add: snapshot_holds)

text \<open>A longer read extends a shorter one: pages of the same log agree.\<close>

lemma snapshot_prefix: "holds l h \<Longrightarrow> m \<le> n \<Longrightarrow> snapshot l m = take m (snapshot l n)"
  by (simp add: snapshot_holds min_def)

end

section \<open>The ring\<close>

record 'a ring =
  rg_items :: "'a list"
  rg_writes :: u32

definition ring_cap :: "'a ring \<Rightarrow> nat" where
  "ring_cap r = length (rg_items r)"

definition ring_push :: "'a \<Rightarrow> 'a ring \<Rightarrow> 'a ring" where
  "ring_push e r =
     r\<lparr>rg_items := (rg_items r)[unat (rg_writes r) mod length (rg_items r) := e],
       rg_writes := rg_writes r + 1\<rparr>"

definition ring_snapshot :: "'a ring \<Rightarrow> nat \<Rightarrow> 'a list" where
  "ring_snapshot r mx =
     (let w = rg_writes r;
          count = (if unat w < length (rg_items r) then unat w else length (rg_items r));
          n = (if count < mx then count else mx)
      in map (\<lambda>i. rg_items r ! (unat (w - 1 - of_nat i) mod length (rg_items r))) [0..<n])"

definition ring_clear :: "'a ring \<Rightarrow> 'a ring" where
  "ring_clear r = r\<lparr>rg_writes := 0\<rparr>"

definition ring_empty :: "nat \<Rightarrow> 'a \<Rightarrow> 'a ring" where
  "ring_empty n zero = \<lparr>rg_items = replicate n zero, rg_writes = 0\<rparr>"

definition ring_holds :: "'a ring \<Rightarrow> 'a list \<Rightarrow> bool" where
  "ring_holds r h \<longleftrightarrow>
     rg_items r \<noteq> [] \<and> unat (rg_writes r) = length h
     \<and> (\<forall>i < min (length h) (ring_cap r). rg_items r ! ((length h - 1 - i) mod ring_cap r) = h ! i)"

lemma ring_holds_empty: "0 < n \<Longrightarrow> ring_holds (ring_empty n z) []"
  by (simp add: ring_holds_def ring_empty_def)

text \<open>Two entries less than a full turn apart are in different slots.\<close>

lemma slots_differ:
  fixes a b n :: nat
  assumes "b < a" "a < b + n"
  shows "a mod n \<noteq> b mod n"
proof
  assume "a mod n = b mod n"
  with assms have "n dvd a - b" by (simp add: mod_eq_dvd_iff_nat)
  with assms show False by (auto dest: dvd_imp_le)
qed

lemma ring_holds_push:
  assumes "ring_holds r h" and "Suc (length h) < 2 ^ 32"
  shows "ring_holds (ring_push e r) (e # h)"
proof -
  let ?n = "ring_cap r" and ?k = "length h"
  have n: "0 < ?n" and w: "unat (rg_writes r) = ?k"
    using assms(1) by (auto simp: ring_holds_def ring_cap_def)
  have w1: "unat (rg_writes r + 1) = Suc ?k"
    using assms(2) w by (simp add: unat_word_ariths)
  have "(rg_items r)[?k mod ?n := e] ! ((?k - i) mod ?n) = (e # h) ! i"
    if "i < min (Suc ?k) ?n" for i
  proof (cases i)
    case 0
    with n show ?thesis by (simp add: ring_cap_def)
  next
    case (Suc j)
    with that have "?k mod ?n \<noteq> (?k - Suc j) mod ?n" by (intro slots_differ) auto
    with that Suc assms(1) show ?thesis by (simp add: ring_holds_def)
  qed
  with n w w1 show ?thesis by (simp add: ring_holds_def ring_push_def ring_cap_def)
qed

lemma ring_holds_snapshot:
  assumes "ring_holds r h"
  shows "ring_snapshot r n = take (min n (ring_cap r)) h"
proof (rule nth_equalityI)
  let ?c = "ring_cap r" and ?k = "length h"
  have w: "unat (rg_writes r) = ?k" using assms by (simp add: ring_holds_def)
  show len: "length (ring_snapshot r n) = length (take (min n ?c) h)"
    by (auto simp: ring_snapshot_def Let_def w ring_cap_def)
  fix i
  assume "i < length (ring_snapshot r n)"
  with len have i: "i < n" "i < ?c" "i < ?k" by auto
  from i(3) w have "unat (rg_writes r - 1 - of_nat i) = ?k - 1 - i"
  proof -
    have lt: "?k < 2 ^ 32" using w unsigned_less [where 'a = nat, of "rg_writes r"] by simp
    have "rg_writes r = of_nat ?k" by (simp flip: w)
    then have "rg_writes r - 1 - of_nat i = of_nat (?k - 1 - i)"
      using i(3) by (simp add: of_nat_diff)
    then show ?thesis using lt by (simp add: unat_of_nat take_bit_nat_eq_self)
  qed
  moreover have "i < (if ?k < ?c then ?k else ?c)" using i by simp
  ultimately show "ring_snapshot r n ! i = take (min n ?c) h ! i"
    using assms i by (auto simp: ring_snapshot_def Let_def w ring_holds_def ring_cap_def)
qed

lemma ring_holds_clear: "ring_holds r h \<Longrightarrow> ring_holds (ring_clear r) []"
  by (simp add: ring_holds_def ring_clear_def)

lemma ring_cap_push [simp]: "ring_cap (ring_push e r) = ring_cap r"
  by (simp add: ring_cap_def ring_push_def)

lemma ring_cap_clear [simp]: "ring_cap (ring_clear r) = ring_cap r"
  by (simp add: ring_cap_def ring_clear_def)

interpretation ring: event_log ring_push ring_snapshot ring_clear ring_cap ring_holds
  by unfold_locales (auto intro: ring_holds_push ring_holds_clear simp: ring_holds_snapshot)

text \<open>A ring is the newest-first history cut to its capacity: after any appends to a ring that
  holds a history, a reader asking for \<open>n\<close> entries gets exactly the newest
  \<open>min n cap\<close> of them in order, the earlier ones included as far as they fit.\<close>

theorem ring_refines_history:
  assumes "ring_holds r h" and "length h + length es < 2 ^ 32"
  shows "ring_snapshot (fold ring_push es r) n = take (min n (ring_cap r)) (rev es @ h)"
  using ring.snapshot_holds [OF ring.holds_pushes [OF assms]] by (simp add: ring.cap_pushes)

lemma ring_refines_history_witness:
  "ring_snapshot (fold ring_push [1, 2, 3, 4 :: nat] (ring_empty 3 0)) 10 = [4, 3, 2]"
  using ring_refines_history [OF ring_holds_empty [of 3 "0 :: nat"], of "[1, 2, 3, 4]" 10]
  by (simp add: ring_cap_def ring_empty_def)

end
