(* ===== verification/RuntimeEventLog.thy ===== *)
theory RuntimeEventLog
  imports Ring
begin

text \<open>
  The runtime event log (\<open>src/src/diagnostics/RuntimeEventLog.h\<close> and \<open>.cpp\<close>): three bounded
  logs, each a ring with a revision that counts every change of content. Measurements that are
  floats in the source are carried unread, so their type is a parameter of the event.
\<close>

section \<open>Events\<close>

datatype PumpDetectionEventKind = PumpOn | PumpOff

record 'f pump_detection_event =
  pd_ms :: u32
  pd_utcSec :: u32
  pd_detectedForMs :: u32
  pd_rawSnrDb :: 'f
  pd_smoothedSnrDb :: 'f
  pd_peakHz :: 'f
  pd_dominantPeakHz :: 'f
  pd_spectralFlux :: 'f
  pd_closeFailureMask :: u8
  pd_stationary :: bool
  pd_kind :: PumpDetectionEventKind

record extraction_stat =
  es_startUtcSec :: u32
  es_beginMs :: u32
  es_lastPumpOffConfirmedMs :: u32
  es_stableMs :: u32
  es_endMs :: u32
  es_totalPumpOnMs :: u32
  es_yieldCg :: i16
  es_startRawCg :: i16
  es_settledRawCg :: i16
  es_pourMs :: u32
  es_decisionGainCg :: i32
  es_observedSampleCount :: u16
  es_endCause :: u8
  es_yieldStatus :: u8
  es_isLikelyRealShot :: bool

datatype NetSource = Wifi | Ble

datatype BleFailureCode = BleConnect | BleHandshake | BleDisconnect | ScaleServiceStop
  | ScaleControllerStop | ScaleControllerStart | ScaleControllerUnusable

fun bleFailureCode :: "BleFailureCode \<Rightarrow> u16" where
  "bleFailureCode BleConnect = 0"
| "bleFailureCode BleHandshake = 1"
| "bleFailureCode BleDisconnect = 2"
| "bleFailureCode ScaleServiceStop = 3"
| "bleFailureCode ScaleControllerStop = 4"
| "bleFailureCode ScaleControllerStart = 5"
| "bleFailureCode ScaleControllerUnusable = 6"

definition WifiBluetoothConditioning :: u16 where "WifiBluetoothConditioning = 0x100"

record net_failure =
  nf_ms :: u32
  nf_utcSec :: u32
  nf_source :: NetSource
  nf_code :: u16
  nf_msg :: "u8 list"    \<comment> \<open>\<open>char msg[24]\<close>\<close>

section \<open>The log\<close>

record 'a revision_ring =
  rr_ring :: "'a ring"
  rr_revision :: u32

record snapshot_state =
  ss_writes :: u32
  ss_revision :: u32

definition rr_push :: "'a \<Rightarrow> 'a revision_ring \<Rightarrow> 'a revision_ring" where
  "rr_push e r = r\<lparr>rr_ring := ring_push e (rr_ring r), rr_revision := rr_revision r + 1\<rparr>"

definition rr_snapshot :: "'a revision_ring \<Rightarrow> nat \<Rightarrow> 'a list" where
  "rr_snapshot r n = ring_snapshot (rr_ring r) n"

definition rr_state :: "'a revision_ring \<Rightarrow> snapshot_state" where
  "rr_state r = \<lparr>ss_writes = rg_writes (rr_ring r), ss_revision = rr_revision r\<rparr>"

definition rr_clear :: "'a revision_ring \<Rightarrow> 'a revision_ring" where
  "rr_clear r = r\<lparr>rr_ring := ring_clear (rr_ring r), rr_revision := rr_revision r + 1\<rparr>"

definition rr_holds :: "'a revision_ring \<Rightarrow> 'a list \<Rightarrow> bool" where
  "rr_holds r h = ring_holds (rr_ring r) h"

interpretation rr: event_log rr_push rr_snapshot rr_clear "\<lambda>r. ring_cap (rr_ring r)" rr_holds
  by unfold_locales
    (auto simp: rr_push_def rr_snapshot_def rr_clear_def rr_holds_def
      intro: ring_holds_push ring_holds_clear simp: ring_holds_snapshot)

definition PUMP_DETECTION_CAP :: nat where "PUMP_DETECTION_CAP = 12"
definition EXTRACTION_CAP :: nat where "EXTRACTION_CAP = 8"
definition NET_CAP :: nat where "NET_CAP = 16"

record 'f runtime_event_log =
  rl_pumpDetection :: "'f pump_detection_event revision_ring"
  rl_extraction :: "extraction_stat revision_ring"
  rl_net :: "net_failure revision_ring"

text \<open>The zero-initialised state; \<open>z\<close> is the zero event of the pump-detection ring.\<close>

definition rr_empty :: "nat \<Rightarrow> 'a \<Rightarrow> 'a revision_ring" where
  "rr_empty n z = \<lparr>rr_ring = ring_empty n z, rr_revision = 0\<rparr>"

definition rel_init :: "'f pump_detection_event \<Rightarrow> 'f runtime_event_log" where
  "rel_init z = \<lparr>rl_pumpDetection = rr_empty PUMP_DETECTION_CAP z,
     rl_extraction = rr_empty EXTRACTION_CAP
       \<lparr>es_startUtcSec = 0, es_beginMs = 0, es_lastPumpOffConfirmedMs = 0, es_stableMs = 0,
        es_endMs = 0, es_totalPumpOnMs = 0, es_yieldCg = 0, es_startRawCg = 0, es_settledRawCg = 0,
        es_pourMs = 0, es_decisionGainCg = 0, es_observedSampleCount = 0, es_endCause = 0,
        es_yieldStatus = 0, es_isLikelyRealShot = False\<rparr>,
     rl_net = rr_empty NET_CAP
       \<lparr>nf_ms = 0, nf_utcSec = 0, nf_source = Wifi, nf_code = 0, nf_msg = replicate 24 0\<rparr>\<rparr>"

definition pushPumpDetection :: "'f pump_detection_event \<Rightarrow> 'f runtime_event_log \<Rightarrow> 'f runtime_event_log" where
  "pushPumpDetection e l = l\<lparr>rl_pumpDetection := rr_push e (rl_pumpDetection l)\<rparr>"

definition pushExtractionStat :: "extraction_stat \<Rightarrow> 'f runtime_event_log \<Rightarrow> 'f runtime_event_log" where
  "pushExtractionStat e l = l\<lparr>rl_extraction := rr_push e (rl_extraction l)\<rparr>"

text \<open>
  A C string is the list of its bytes up to the terminator, so \<open>strncpy(dst, s, n)\<close> copies at most
  \<open>n\<close> of them and fills the rest of the \<open>n\<close> with zeros; the array's last byte is set to zero.
\<close>

definition c_strncpy :: "u8 list \<Rightarrow> nat \<Rightarrow> u8 list" where
  "c_strncpy s n = take n s @ replicate (n - length s) 0"

definition MSG_SIZE :: nat where "MSG_SIZE = 24"

definition net_msg :: "u8 list option \<Rightarrow> u8 list" where
  "net_msg m = (case m of None \<Rightarrow> replicate MSG_SIZE 0
                        | Some s \<Rightarrow> c_strncpy s (MSG_SIZE - 1) @ [0])"

definition pushNetFailure ::
  "u32 \<Rightarrow> u32 \<Rightarrow> NetSource \<Rightarrow> u16 \<Rightarrow> u8 list option \<Rightarrow> 'f runtime_event_log \<Rightarrow> 'f runtime_event_log" where
  "pushNetFailure now utcNow src code m l =
     l\<lparr>rl_net := rr_push \<lparr>nf_ms = now, nf_utcSec = utcNow, nf_source = src, nf_code = code,
                          nf_msg = net_msg m\<rparr> (rl_net l)\<rparr>"

definition snapshotPumpDetection :: "'f runtime_event_log \<Rightarrow> nat \<Rightarrow> 'f pump_detection_event list \<times> snapshot_state" where
  "snapshotPumpDetection l n = (rr_snapshot (rl_pumpDetection l) n, rr_state (rl_pumpDetection l))"

definition snapshotExtraction :: "'f runtime_event_log \<Rightarrow> nat \<Rightarrow> extraction_stat list \<times> snapshot_state" where
  "snapshotExtraction l n = (rr_snapshot (rl_extraction l) n, rr_state (rl_extraction l))"

definition snapshotNet :: "'f runtime_event_log \<Rightarrow> nat \<Rightarrow> net_failure list \<times> snapshot_state" where
  "snapshotNet l n = (rr_snapshot (rl_net l) n, rr_state (rl_net l))"

definition clearPumpDetection :: "'f runtime_event_log \<Rightarrow> 'f runtime_event_log" where
  "clearPumpDetection l = l\<lparr>rl_pumpDetection := rr_clear (rl_pumpDetection l)\<rparr>"

definition clearExtraction :: "'f runtime_event_log \<Rightarrow> 'f runtime_event_log" where
  "clearExtraction l = l\<lparr>rl_extraction := rr_clear (rl_extraction l)\<rparr>"

definition clearNet :: "'f runtime_event_log \<Rightarrow> 'f runtime_event_log" where
  "clearNet l = l\<lparr>rl_net := rr_clear (rl_net l)\<rparr>"

section \<open>Properties\<close>

text \<open>A label read back as a C string is the label cut to 23 bytes, and it is terminated.\<close>

definition c_string :: "u8 list \<Rightarrow> u8 list" where
  "c_string bs = takeWhile (\<lambda>b. b \<noteq> 0) bs"

lemma c_string_padded: "0 \<notin> set s \<Longrightarrow> c_string (s @ 0 # r) = s"
  by (induction s) (auto simp: c_string_def)

lemma replicate_snoc: "replicate n x @ [x] = x # replicate n x"
  by (induction n) auto

lemma net_msg_label:
  assumes "0 \<notin> set s"
  shows "length (net_msg (Some s)) = MSG_SIZE" and "c_string (net_msg (Some s)) = take 23 s"
proof -
  show "length (net_msg (Some s)) = MSG_SIZE"
    by (simp add: net_msg_def c_strncpy_def MSG_SIZE_def)
  have "net_msg (Some s) = take 23 s @ 0 # replicate (23 - length s) 0"
    by (simp add: net_msg_def c_strncpy_def MSG_SIZE_def replicate_snoc)
  moreover have "0 \<notin> set (take 23 s)" using assms by (auto dest: in_set_takeD)
  ultimately show "c_string (net_msg (Some s)) = take 23 s"
    by (simp add: c_string_padded)
qed

text \<open>The operations that change the network log; the others leave it alone.\<close>

datatype net_op = NetPush u32 u32 NetSource u16 "u8 list option" | NetClear

fun net_apply :: "net_op \<Rightarrow> 'f runtime_event_log \<Rightarrow> 'f runtime_event_log" where
  "net_apply (NetPush now utc src code m) l = pushNetFailure now utc src code m l"
| "net_apply NetClear l = clearNet l"

fun net_history :: "net_op list \<Rightarrow> net_failure list" where
  "net_history [] = []"
| "net_history (NetClear # ops) = []"
| "net_history (NetPush now utc src code m # ops) =
     \<lparr>nf_ms = now, nf_utcSec = utc, nf_source = src, nf_code = code, nf_msg = net_msg m\<rparr>
     # net_history ops"

lemma net_history_length: "length (net_history ops) \<le> length ops"
  by (induction ops rule: net_history.induct) auto

lemma net_apply_holds:
  assumes "rr_holds (rl_net l) []" and "length ops < 2 ^ 32"
  shows "rr_holds (rl_net (foldr net_apply ops l)) (net_history ops)
       \<and> ring_cap (rr_ring (rl_net (foldr net_apply ops l))) = ring_cap (rr_ring (rl_net l))"
  using assms(2)
proof (induction ops)
  case Nil
  with assms(1) show ?case by simp
next
  case (Cons op ops)
  then have IH: "rr_holds (rl_net (foldr net_apply ops l)) (net_history ops)"
    "ring_cap (rr_ring (rl_net (foldr net_apply ops l))) = ring_cap (rr_ring (rl_net l))"
    by auto
  from Cons.prems net_history_length [of ops] have "Suc (length (net_history ops)) < 2 ^ 32" by simp
  note push = rr.holds_push [OF IH(1) this]
  show ?case
    using IH(2) push rr.holds_clear [OF IH(1)]
    by (cases op) (auto simp: pushNetFailure_def clearNet_def rr_push_def rr_clear_def)
qed

text \<open>Whatever was logged and cleared, in any order (newest operation first), a reader of the
  network log gets the newest failures since the last clear, newest first, with
  a revision that has counted every operation.\<close>

theorem net_log_history:
  assumes "rr_holds (rl_net l) []" and "length ops < 2 ^ 32" and "ring_cap (rr_ring (rl_net l)) = NET_CAP"
  shows "snapshotNet (foldr net_apply ops l) n =
    (take (min n NET_CAP) (net_history ops),
     \<lparr>ss_writes = of_nat (length (net_history ops)),
      ss_revision = rr_revision (rl_net l) + of_nat (length ops)\<rparr>)"
proof -
  note h = net_apply_holds [OF assms(1,2)]
  have "rr_revision (rl_net (foldr net_apply ops l)) = rr_revision (rl_net l) + of_nat (length ops)"
  proof (induction ops)
    case Nil
    then show ?case by simp
  next
    case (Cons op ops)
    then show ?case
      by (cases op) (auto simp: pushNetFailure_def clearNet_def rr_push_def rr_clear_def)
  qed
  moreover from h have w: "unat (rg_writes (rr_ring (rl_net (foldr net_apply ops l)))) = length (net_history ops)"
    by (simp add: rr_holds_def ring_holds_def)
  then have "rg_writes (rr_ring (rl_net (foldr net_apply ops l))) = of_nat (length (net_history ops))"
    by (simp flip: w)
  ultimately show ?thesis
    using rr.snapshot_holds [of "rl_net (foldr net_apply ops l)" _ n] h assms(3)
    by (simp add: snapshotNet_def rr_state_def)
qed

lemma rel_init_net:
  "rr_holds (rl_net (rel_init z)) []" "ring_cap (rr_ring (rl_net (rel_init z))) = NET_CAP"
  "rr_revision (rl_net (rel_init z)) = 0"
  by (simp_all add: rel_init_def rr_empty_def rr_holds_def ring_holds_def NET_CAP_def ring_cap_def
      ring_empty_def)

lemma net_log_history_witness:
  "\<forall>z :: unit pump_detection_event. snapshotNet (foldr net_apply
      [NetPush 9 0 Ble (bleFailureCode BleDisconnect) (Some [65]), NetClear, NetPush 5 0 Wifi 3 None]
      (rel_init z)) 4 =
    ([\<lparr>nf_ms = 9, nf_utcSec = 0, nf_source = Ble, nf_code = 2, nf_msg = net_msg (Some [65])\<rparr>],
     \<lparr>ss_writes = 1, ss_revision = 3\<rparr>)"
  by (intro allI, subst net_log_history [OF rel_init_net(1) _ rel_init_net(2)])
    (simp_all add: rel_init_net(3) NET_CAP_def)

end
