(* ===== verification/HeapMonitor.thy ===== *)
theory HeapMonitor
  imports Ring
begin

text \<open>
  The heap history (\<open>src/src/diagnostics/HeapMonitor.h\<close> and \<open>.cpp\<close>): the main loop's \<open>tick\<close>
  folds heap readings into per-minute minima and appends a row per minute; \<open>clearHistory\<close>, from
  any task, drops the history in two steps. The two tasks are modelled by their atomic actions,
  so that their interleavings can be stated. The heap walk itself (ESP-IDF calls) is an input.
\<close>

section \<open>Data\<close>

record heap_sample =
  hs_ms :: u32
  hs_utcSec :: u32
  hs_minInternalFree :: u32
  hs_minInternalLargest :: u32
  hs_minDmaLargest :: u32
  hs_minPsramFree :: u32

record heap_monitor =
  hm_ring :: "heap_sample ring"
  hm_bucketStartMs :: u32
  hm_lastSampleMs :: u32
  hm_accInternalFree :: u32
  hm_accInternalLargest :: u32
  hm_accDmaLargest :: u32
  hm_accPsramFree :: u32
  hm_clearBucket :: bool

text \<open>What one \<open>tick\<close> reads: the clock, the wall clock and the heap.\<close>

record heap_reading =
  hr_now :: u32
  hr_utcNow :: u32
  hr_internalFree :: u32
  hr_internalLargest :: u32
  hr_dmaLargest :: u32
  hr_psramFree :: u32

definition HEAP_CAP :: nat where "HEAP_CAP = 30"
definition SAMPLE_MS :: u32 where "SAMPLE_MS = 1000"
definition BUCKET_MS :: u32 where "BUCKET_MS = 60000"
definition UINT32_MAX :: u32 where "UINT32_MAX = 0xFFFFFFFF"

definition heap_init :: heap_monitor where
  "heap_init = \<lparr>hm_ring = ring_empty HEAP_CAP
       \<lparr>hs_ms = 0, hs_utcSec = 0, hs_minInternalFree = 0, hs_minInternalLargest = 0,
        hs_minDmaLargest = 0, hs_minPsramFree = 0\<rparr>,
     hm_bucketStartMs = 0, hm_lastSampleMs = 0,
     hm_accInternalFree = UINT32_MAX, hm_accInternalLargest = UINT32_MAX,
     hm_accDmaLargest = UINT32_MAX, hm_accPsramFree = UINT32_MAX, hm_clearBucket = False\<rparr>"

section \<open>Operations\<close>

definition resetBucket :: "u32 \<Rightarrow> heap_monitor \<Rightarrow> heap_monitor" where
  "resetBucket now h =
     h\<lparr>hm_bucketStartMs := now, hm_accInternalFree := UINT32_MAX,
       hm_accInternalLargest := UINT32_MAX, hm_accDmaLargest := UINT32_MAX,
       hm_accPsramFree := UINT32_MAX\<rparr>"

text \<open>The first part of \<open>tick\<close>: consume a deferred clear.\<close>

definition tick_consume :: "heap_reading \<Rightarrow> heap_monitor \<Rightarrow> heap_monitor" where
  "tick_consume rd h =
     (if hm_clearBucket h then resetBucket (hr_now rd) (h\<lparr>hm_clearBucket := False\<rparr>) else h)"

definition fold_minima :: "heap_reading \<Rightarrow> heap_monitor \<Rightarrow> heap_monitor" where
  "fold_minima rd h =
     h\<lparr>hm_accInternalFree := min (hr_internalFree rd) (hm_accInternalFree h),
       hm_accInternalLargest := min (hr_internalLargest rd) (hm_accInternalLargest h),
       hm_accDmaLargest := min (hr_dmaLargest rd) (hm_accDmaLargest h),
       hm_accPsramFree := min (hr_psramFree rd) (hm_accPsramFree h)\<rparr>"

definition bucket_row :: "heap_reading \<Rightarrow> heap_monitor \<Rightarrow> heap_sample" where
  "bucket_row rd h =
     \<lparr>hs_ms = hr_now rd, hs_utcSec = hr_utcNow rd, hs_minInternalFree = hm_accInternalFree h,
      hs_minInternalLargest = hm_accInternalLargest h, hs_minDmaLargest = hm_accDmaLargest h,
      hs_minPsramFree = hm_accPsramFree h\<rparr>"

text \<open>The rest of \<open>tick\<close>: rate limit, sample, and close the window when it has spanned a minute.\<close>

definition tick_finish :: "heap_reading \<Rightarrow> heap_monitor \<Rightarrow> heap_monitor" where
  "tick_finish rd h =
     (if hm_lastSampleMs h \<noteq> 0 \<and> hr_now rd - hm_lastSampleMs h < SAMPLE_MS then h
      else let h = fold_minima rd (h\<lparr>hm_lastSampleMs := hr_now rd\<rparr>) in
           if hr_now rd - hm_bucketStartMs h \<ge> BUCKET_MS
             then resetBucket (hr_now rd) (h\<lparr>hm_ring := ring_push (bucket_row rd h) (hm_ring h)\<rparr>)
           else h)"

definition heap_tick :: "heap_reading \<Rightarrow> heap_monitor \<Rightarrow> heap_monitor" where
  "heap_tick rd h = tick_finish rd (tick_consume rd h)"

definition clear_flag :: "heap_monitor \<Rightarrow> heap_monitor" where
  "clear_flag h = h\<lparr>hm_clearBucket := True\<rparr>"

definition clear_ring :: "heap_monitor \<Rightarrow> heap_monitor" where
  "clear_ring h = h\<lparr>hm_ring := ring_clear (hm_ring h)\<rparr>"

definition clearHistory :: "heap_monitor \<Rightarrow> heap_monitor" where
  "clearHistory h = clear_ring (clear_flag h)"

definition heap_snapshot :: "heap_monitor \<Rightarrow> nat \<Rightarrow> heap_sample list" where
  "heap_snapshot h n = ring_snapshot (hm_ring h) n"

lemmas heap_tick_defs = tick_consume_def tick_finish_def fold_minima_def bucket_row_def
  resetBucket_def heap_tick_def

section \<open>What a reader can tell apart\<close>

text \<open>
  Two monitors look alike from now on when they hold the same history, are rate-limited alike
  and either both await a reset of the open bucket or have the same open bucket.
\<close>

definition heap_alike :: "heap_sample list \<Rightarrow> heap_monitor \<Rightarrow> heap_monitor \<Rightarrow> bool" where
  "heap_alike hist h h' \<longleftrightarrow>
     ring_holds (hm_ring h) hist \<and> ring_holds (hm_ring h') hist
     \<and> ring_cap (hm_ring h) = ring_cap (hm_ring h')
     \<and> hm_lastSampleMs h = hm_lastSampleMs h'
     \<and> hm_clearBucket h = hm_clearBucket h'
     \<and> (\<not> hm_clearBucket h \<longrightarrow>
          hm_bucketStartMs h = hm_bucketStartMs h'
          \<and> hm_accInternalFree h = hm_accInternalFree h'
          \<and> hm_accInternalLargest h = hm_accInternalLargest h'
          \<and> hm_accDmaLargest h = hm_accDmaLargest h'
          \<and> hm_accPsramFree h = hm_accPsramFree h')"

lemma heap_alike_consume:
  "heap_alike hist h h' \<Longrightarrow> heap_alike hist (tick_consume rd h) (tick_consume rd h')"
  by (auto simp: heap_alike_def tick_consume_def resetBucket_def)

lemma heap_alike_finish:
  assumes "heap_alike hist h h'" and "\<not> hm_clearBucket h" and "Suc (length hist) < 2 ^ 32"
  shows "\<exists>hist'. heap_alike hist' (tick_finish rd h) (tick_finish rd h') \<and> length hist' \<le> Suc (length hist)"
proof -
  have row: "bucket_row rd (fold_minima rd (h\<lparr>hm_lastSampleMs := hr_now rd\<rparr>))
      = bucket_row rd (fold_minima rd (h'\<lparr>hm_lastSampleMs := hr_now rd\<rparr>))" (is "?r = ?r'")
    using assms by (simp add: heap_alike_def bucket_row_def fold_minima_def)
  have push: "ring_holds (ring_push ?r (hm_ring h)) (?r # hist)"
    "ring_holds (ring_push ?r (hm_ring h')) (?r # hist)"
    using assms by (auto simp: heap_alike_def intro!: ring_holds_push)
  consider (limited) "hm_lastSampleMs h \<noteq> 0 \<and> hr_now rd - hm_lastSampleMs h < SAMPLE_MS"
    | (open_bucket) "\<not> (hm_lastSampleMs h \<noteq> 0 \<and> hr_now rd - hm_lastSampleMs h < SAMPLE_MS)"
        "\<not> hr_now rd - hm_bucketStartMs h \<ge> BUCKET_MS"
    | (close_bucket) "\<not> (hm_lastSampleMs h \<noteq> 0 \<and> hr_now rd - hm_lastSampleMs h < SAMPLE_MS)"
        "hr_now rd - hm_bucketStartMs h \<ge> BUCKET_MS"
    by blast
  then show ?thesis
  proof cases
    case limited
    with assms have "heap_alike hist (tick_finish rd h) (tick_finish rd h')"
      by (auto simp: tick_finish_def heap_alike_def)
    then show ?thesis by (metis le_SucI order_refl)
  next
    case open_bucket
    with assms have "heap_alike hist (tick_finish rd h) (tick_finish rd h')"
      by (auto simp: tick_finish_def heap_alike_def fold_minima_def Let_def)
    then show ?thesis by (metis le_SucI order_refl)
  next
    case close_bucket
    have "heap_alike (?r # hist) (tick_finish rd h) (tick_finish rd h')"
      using close_bucket assms push row
      by (auto simp: tick_finish_def heap_alike_def fold_minima_def Let_def resetBucket_def)
    then show ?thesis by force
  qed
qed

lemma consume_clears_flag: "\<not> hm_clearBucket (tick_consume rd h)"
  by (simp add: tick_consume_def resetBucket_def)

lemma heap_alike_ticks:
  assumes "heap_alike hist h h'" and "length hist + length rds < 2 ^ 32"
  shows "\<exists>hist'. heap_alike hist' (fold heap_tick rds h) (fold heap_tick rds h')"
  using assms
proof (induction rds arbitrary: hist h h')
  case Nil
  then show ?case by auto
next
  case (Cons rd rds)
  have "heap_alike hist (tick_consume rd h) (tick_consume rd h')"
    by (rule heap_alike_consume) fact
  then obtain hist' where a: "heap_alike hist' (heap_tick rd h) (heap_tick rd h')"
    and l: "length hist' \<le> Suc (length hist)"
    using heap_alike_finish [OF _ consume_clears_flag] Cons.prems(2)
    unfolding heap_tick_def by fastforce
  show ?case
    using Cons.IH [OF a] l Cons.prems(2) by simp
qed

lemma heap_alike_snapshot: "heap_alike hist h h' \<Longrightarrow> heap_snapshot h n = heap_snapshot h' n"
  using ring_holds_snapshot [of "hm_ring h" hist n] ring_holds_snapshot [of "hm_ring h'" hist n]
  by (simp add: heap_alike_def heap_snapshot_def)

section \<open>Clearing\<close>

definition heap_wf :: "heap_monitor \<Rightarrow> bool" where
  "heap_wf h \<longleftrightarrow> (\<exists>hist. ring_holds (hm_ring h) hist \<and> Suc (length hist) < 2 ^ 32)
                \<and> ring_cap (hm_ring h) = HEAP_CAP"

text \<open>The atomic actions of the two tasks.\<close>

datatype heap_action = TickConsume | TickFinish | ClearFlag | ClearRing

fun heap_act :: "heap_reading \<Rightarrow> heap_action \<Rightarrow> heap_monitor \<Rightarrow> heap_monitor" where
  "heap_act rd TickConsume h = tick_consume rd h"
| "heap_act rd TickFinish h = tick_finish rd h"
| "heap_act rd ClearFlag h = clear_flag h"
| "heap_act rd ClearRing h = clear_ring h"

text \<open>
  All the ways one \<open>tick\<close> and one \<open>clearHistory\<close> can interleave are
  \<open>shuffles [TickConsume, TickFinish] [ClearFlag, ClearRing]\<close>.
\<close>

definition racy_interleaving :: "heap_action list" where
  "racy_interleaving = [TickConsume, ClearFlag, ClearRing, TickFinish]"

lemma interleavings:
  "shuffles [TickConsume, TickFinish] [ClearFlag, ClearRing] =
     {[TickConsume, TickFinish, ClearFlag, ClearRing], [TickConsume, ClearFlag, TickFinish, ClearRing],
      [TickConsume, ClearFlag, ClearRing, TickFinish], [ClearFlag, TickConsume, TickFinish, ClearRing],
      [ClearFlag, TickConsume, ClearRing, TickFinish], [ClearFlag, ClearRing, TickConsume, TickFinish]}"
  by auto

lemma finish_last: "hm_lastSampleMs (tick_finish rd h) =
    (if hm_lastSampleMs h \<noteq> 0 \<and> hr_now rd - hm_lastSampleMs h < SAMPLE_MS
     then hm_lastSampleMs h else hr_now rd)"
  by (simp add: tick_finish_def Let_def fold_minima_def resetBucket_def)

lemma finish_ring:
  "hm_ring (tick_finish rd h) = hm_ring h \<or> (\<exists>e. hm_ring (tick_finish rd h) = ring_push e (hm_ring h))"
  by (auto simp: tick_finish_def fold_minima_def resetBucket_def Let_def)

lemma finish_wf:
  assumes "heap_wf h"
  shows "\<exists>hist. ring_holds (hm_ring (tick_finish rd h)) hist"
    and "ring_cap (hm_ring (tick_finish rd h)) = HEAP_CAP"
proof -
  obtain hist where h: "ring_holds (hm_ring h) hist" "Suc (length hist) < 2 ^ 32"
    using assms by (auto simp: heap_wf_def)
  show "\<exists>hist. ring_holds (hm_ring (tick_finish rd h)) hist"
    using finish_ring [of rd h] h ring_holds_push by metis
  show "ring_cap (hm_ring (tick_finish rd h)) = HEAP_CAP"
    using finish_ring [of rd h] assms by (auto simp: heap_wf_def)
qed

lemma heap_wf_consume [simp]: "heap_wf (tick_consume rd h) = heap_wf h"
  by (simp add: heap_wf_def tick_consume_def resetBucket_def)

lemma heap_wf_flag [simp]: "heap_wf (clear_flag h) = heap_wf h"
  by (simp add: heap_wf_def clear_flag_def)

lemma finish_frame:
  "hm_clearBucket (tick_finish rd h) = hm_clearBucket h"
  "hm_lastSampleMs (tick_consume rd h) = hm_lastSampleMs h"
  by (simp_all add: tick_finish_def Let_def fold_minima_def resetBucket_def tick_consume_def)

text \<open>After a clear that is over, with the bucket still to be reset, nothing of the past is left.\<close>

lemma cleared_alike:
  assumes "ring_holds (hm_ring g) hist" "ring_holds (hm_ring g') hist'"
    and "ring_cap (hm_ring g) = HEAP_CAP" "ring_cap (hm_ring g') = HEAP_CAP"
    and "hm_clearBucket g" "hm_clearBucket g'" "hm_lastSampleMs g = hm_lastSampleMs g'"
  shows "heap_alike [] (clear_ring g) (clear_ring g')"
  using assms by (auto simp: heap_alike_def clear_ring_def intro: ring_holds_clear)

text \<open>A tick whose bucket is fresh does not close it, so it appends nothing.\<close>

lemma finish_fresh_alike:
  assumes "heap_alike hist g g'" "\<not> hm_clearBucket g" "hm_bucketStartMs g = hr_now rd"
  shows "heap_alike hist (tick_finish rd g) (tick_finish rd g')"
  using assms
  by (auto simp: heap_alike_def tick_finish_def fold_minima_def Let_def BUCKET_MS_def)

lemma interleaved_alike:
  assumes wf: "heap_wf h" "heap_wf h'" and last: "hm_lastSampleMs h = hm_lastSampleMs h'"
    and zs: "zs \<in> shuffles [TickConsume, TickFinish] [ClearFlag, ClearRing]" "zs \<noteq> racy_interleaving"
  shows "heap_alike [] (fold (heap_act rd) zs h) (fold (heap_act rd) zs h')"
proof -
  obtain hist hist' where hh: "ring_holds (hm_ring h) hist" "ring_holds (hm_ring h') hist'"
    "ring_cap (hm_ring h) = HEAP_CAP" "ring_cap (hm_ring h') = HEAP_CAP"
    using wf by (auto simp: heap_wf_def)
  note fw = finish_wf [of "tick_consume rd h" rd] finish_wf [of "tick_consume rd h'" rd]
    finish_wf [of "clear_flag (tick_consume rd h)" rd] finish_wf [of "clear_flag (tick_consume rd h')" rd]
  have flagged: "hm_clearBucket (clear_flag g)" "hm_lastSampleMs (clear_flag g) = hm_lastSampleMs g"
    "hm_ring (clear_flag g) = hm_ring g" for g
    by (simp_all add: clear_flag_def)
  have base: "heap_alike [] (clearHistory h) (clearHistory h')"
    unfolding clearHistory_def
    by (rule cleared_alike) (use hh last in \<open>auto simp: flagged\<close>)
  have consumed: "heap_alike [] (tick_consume rd (clearHistory h)) (tick_consume rd (clearHistory h'))"
    by (rule heap_alike_consume) (rule base)
  have fresh: "hm_bucketStartMs (tick_consume rd (clearHistory g)) = hr_now rd" for g
    by (simp add: tick_consume_def clearHistory_def clear_ring_def clear_flag_def resetBucket_def)
  have commute: "clear_ring (tick_consume rd (clear_flag g)) = tick_consume rd (clearHistory g)"
    "clear_ring (tick_finish rd (tick_consume rd (clear_flag g)))
       = tick_finish rd (tick_consume rd (clearHistory g))" for g
    by (auto simp: clear_ring_def clear_flag_def clearHistory_def tick_consume_def tick_finish_def
        resetBucket_def fold_minima_def Let_def BUCKET_MS_def)
  have fin: "heap_alike [] (tick_finish rd (tick_consume rd (clearHistory h)))
      (tick_finish rd (tick_consume rd (clearHistory h')))"
    by (rule finish_fresh_alike [OF consumed consume_clears_flag fresh])
  have last_eq: "hm_lastSampleMs (tick_finish rd (tick_consume rd h))
      = hm_lastSampleMs (tick_finish rd (tick_consume rd h'))"
    "hm_lastSampleMs (tick_finish rd (clear_flag (tick_consume rd h)))
      = hm_lastSampleMs (tick_finish rd (clear_flag (tick_consume rd h')))"
    using last by (simp_all add: finish_last finish_frame flagged)
  have A: "heap_alike [] (clear_ring (clear_flag (tick_finish rd (tick_consume rd h))))
      (clear_ring (clear_flag (tick_finish rd (tick_consume rd h'))))"
    using fw wf last_eq by (auto intro!: cleared_alike simp: flagged)
  have B: "heap_alike [] (clear_ring (tick_finish rd (clear_flag (tick_consume rd h))))
      (clear_ring (tick_finish rd (clear_flag (tick_consume rd h'))))"
    using fw wf last_eq by (auto intro!: cleared_alike simp: flagged finish_frame)
  from zs show ?thesis
    unfolding interleavings racy_interleaving_def
    using A B fin by (auto simp: commute simp flip: clearHistory_def)
qed

text \<open>A clear that interleaves with a tick in any way but one erases the past: whatever the
  history and the open bucket were before it, the rows any reader sees after it and
  after any further ticks are the same.\<close>

theorem heap_clear_forgets:
  assumes "heap_wf h" and "heap_wf h'" and "hm_lastSampleMs h = hm_lastSampleMs h'"
    and "zs \<in> shuffles [TickConsume, TickFinish] [ClearFlag, ClearRing]" and "zs \<noteq> racy_interleaving"
    and "length rds < 2 ^ 32"
  shows "heap_snapshot (fold heap_tick rds (fold (heap_act rd) zs h)) n
       = heap_snapshot (fold heap_tick rds (fold (heap_act rd) zs h')) n"
  using heap_alike_ticks [OF interleaved_alike [OF assms(1-5)], of rds rd] assms(6)
  by (auto intro: heap_alike_snapshot)

text \<open>A history of one row with a pending dip in the open bucket, and two readings.\<close>

definition sample_reading :: "u32 \<Rightarrow> u32 \<Rightarrow> heap_reading" where
  "sample_reading now free = \<lparr>hr_now = now, hr_utcNow = 0, hr_internalFree = free,
     hr_internalLargest = free, hr_dmaLargest = free, hr_psramFree = free\<rparr>"

definition dipped_monitor :: heap_monitor where
  "dipped_monitor = heap_init\<lparr>hm_accInternalFree := 5, hm_lastSampleMs := 59000,
     hm_ring := ring_push (bucket_row (sample_reading 7 7) heap_init) (hm_ring heap_init)\<rparr>"

lemma heap_init_wf: "heap_wf heap_init" "heap_wf (heap_init\<lparr>hm_lastSampleMs := t\<rparr>)"
  using ring_holds_empty [of HEAP_CAP]
  by (auto simp: heap_wf_def heap_init_def HEAP_CAP_def ring_cap_def ring_empty_def intro!: exI [of _ "[]"])

lemma heap_init_ring: "ring_holds (hm_ring heap_init) []" "ring_cap (hm_ring heap_init) = HEAP_CAP"
  by (simp_all add: heap_init_def HEAP_CAP_def ring_holds_def ring_cap_def ring_empty_def)

lemma dipped_wf: "heap_wf dipped_monitor"
proof -
  have "ring_holds (hm_ring dipped_monitor) [bucket_row (sample_reading 7 7) heap_init]"
    using ring_holds_push [OF heap_init_ring(1)] by (simp add: dipped_monitor_def)
  moreover have "ring_cap (hm_ring dipped_monitor) = HEAP_CAP"
    using heap_init_ring(2) by (simp add: dipped_monitor_def)
  ultimately show ?thesis by (force simp: heap_wf_def)
qed

lemma heap_clear_forgets_witness:
  "heap_snapshot (fold heap_tick [sample_reading 121000 9]
     (fold (heap_act (sample_reading 60000 8)) [TickConsume, ClearFlag, TickFinish, ClearRing] dipped_monitor)) 30
   = heap_snapshot (fold heap_tick [sample_reading 121000 9]
     (fold (heap_act (sample_reading 60000 8)) [TickConsume, ClearFlag, TickFinish, ClearRing]
       (heap_init\<lparr>hm_lastSampleMs := 59000\<rparr>))) 30"
  by (rule heap_clear_forgets [OF dipped_wf heap_init_wf(2)])
    (simp_all add: interleavings racy_interleaving_def dipped_monitor_def)

text \<open>C40: the one remaining interleaving is the exception to the documented clear: when the
  clear falls between the flag test and the sampling of a tick that closes the bucket,
  the row with the minima from before the clear is in the history after it.\<close>

theorem heap_clear_race:
  assumes "heap_wf h" and "\<not> hm_clearBucket h"
    and "SAMPLE_MS \<le> hr_now rd - hm_lastSampleMs h" and "BUCKET_MS \<le> hr_now rd - hm_bucketStartMs h"
  shows "heap_snapshot (fold (heap_act rd) racy_interleaving h) (Suc n) =
    [\<lparr>hs_ms = hr_now rd, hs_utcSec = hr_utcNow rd,
      hs_minInternalFree = min (hr_internalFree rd) (hm_accInternalFree h),
      hs_minInternalLargest = min (hr_internalLargest rd) (hm_accInternalLargest h),
      hs_minDmaLargest = min (hr_dmaLargest rd) (hm_accDmaLargest h),
      hs_minPsramFree = min (hr_psramFree rd) (hm_accPsramFree h)\<rparr>]"
proof -
  obtain hist where "ring_holds (hm_ring h) hist" using assms(1) by (auto simp: heap_wf_def)
  then have "ring_holds (ring_push e (ring_clear (hm_ring h))) [e]" for e
    using ring_holds_push [OF ring_holds_clear] by fastforce
  from ring_holds_snapshot [OF this] have
    "ring_snapshot (ring_push e (ring_clear (hm_ring h))) (Suc n) = [e]" for e
    using assms(1) by (simp add: heap_wf_def HEAP_CAP_def min_def)
  moreover have "tick_consume rd h = h" using assms(2) by (simp add: tick_consume_def)
  ultimately show ?thesis
    using assms(2-4)
    by (simp add: racy_interleaving_def clear_flag_def clear_ring_def heap_snapshot_def
        tick_finish_def fold_minima_def bucket_row_def resetBucket_def Let_def not_less [symmetric])
qed

lemma heap_clear_race_witness:
  "heap_snapshot (fold (heap_act (sample_reading 60000 8)) racy_interleaving dipped_monitor) (Suc 29) =
    [\<lparr>hs_ms = 60000, hs_utcSec = 0, hs_minInternalFree = 5, hs_minInternalLargest = 8,
      hs_minDmaLargest = 8, hs_minPsramFree = 8\<rparr>]"
  using heap_clear_race [OF dipped_wf, of "sample_reading 60000 8" 29]
  by (simp add: dipped_monitor_def heap_init_def sample_reading_def SAMPLE_MS_def BUCKET_MS_def
      UINT32_MAX_def)

end
