(* ===== verification/PowerEventLog.thy ===== *)
theory PowerEventLog
  imports Ring
begin

text \<open>
  The persistent power-event log (\<open>src/src/power/PowerEventLog.h\<close> and \<open>.cpp\<close>): a ring of 32
  events whose whole content is rewritten as one versioned NVS blob after every change and
  reloaded at boot. The mutex makes every operation atomic, so an operation is one step.
  NVS (Arduino's \<open>Preferences\<close>) is third-party code: a parameter, the record \<open>nvs\<close> of its calls on
  an abstract store, with the behaviour the code relies on in \<open>nvs_lawful\<close>.
\<close>

section \<open>Events\<close>

datatype PowerEventKind = Wake | Sleep

fun powerEventKind :: "PowerEventKind \<Rightarrow> u8" where
  "powerEventKind Wake = 0"
| "powerEventKind Sleep = 1"

record boot_diagnostics =
  bd_flags :: u16
  bd_pm1WakeSource :: u8
  bd_pm1GpioIrq :: u8
  bd_pm1I2cConfig :: u8

record sleep_diagnostics =
  sd_flags :: u8
  sd_pm1I2cConfig :: u8

record power_event =
  pe_utcSec :: u32
  pe_kind :: u8
  pe_batteryPct :: "8 word"    \<comment> \<open>\<open>int8_t\<close>, read by \<open>sint\<close>\<close>
  pe_hasExternalPower :: u8
  pe_resetReason :: u8
  pe_boot :: boot_diagnostics
  pe_sleep :: sleep_diagnostics

definition no_boot :: boot_diagnostics where
  "no_boot = \<lparr>bd_flags = 0, bd_pm1WakeSource = 0, bd_pm1GpioIrq = 0, bd_pm1I2cConfig = 0\<rparr>"

definition no_sleep :: sleep_diagnostics where
  "no_sleep = \<lparr>sd_flags = 0, sd_pm1I2cConfig = 0\<rparr>"

definition zero_event :: power_event where
  "zero_event = \<lparr>pe_utcSec = 0, pe_kind = 0, pe_batteryPct = 0, pe_hasExternalPower = 0,
     pe_resetReason = 0, pe_boot = no_boot, pe_sleep = no_sleep\<rparr>"

section \<open>The log and its store\<close>

definition POWER_CAP :: nat where "POWER_CAP = 32"
definition kVersion :: u8 where "kVersion = 4"

record power_log =
  pl_ring :: "power_event ring"      \<comment> \<open>\<open>_items\<close> and \<open>_writes\<close>\<close>
  pl_revision :: u32

definition pl_init :: power_log where
  "pl_init = \<lparr>pl_ring = ring_empty POWER_CAP zero_event, pl_revision = 0\<rparr>"

record persisted =
  ps_version :: u8
  ps_writes :: u32
  ps_items :: "power_event list"

text \<open>
  \<open>sizeof(Persisted)\<close>: a version byte padded to four, the 32-bit counter, and 32 events of 16 bytes
  (4 + 4 + 6 + 2).
\<close>

definition SIZEOF_PERSISTED :: nat where "SIZEOF_PERSISTED = 4 + 4 + 32 * 16"

text \<open>
  The calls on the store: opening read-only or read-write (refused or not), the number of bytes a
  read returned with what they are, a write with the number of bytes written, and a clear.
\<close>

record 's nvs =
  nv_begin_ro :: "'s \<Rightarrow> bool"
  nv_getBytes :: "'s \<Rightarrow> nat \<times> persisted"
  nv_begin_rw :: "'s \<Rightarrow> bool"
  nv_putBytes :: "persisted \<Rightarrow> 's \<Rightarrow> 's \<times> nat"
  nv_clear :: "'s \<Rightarrow> 's \<times> bool"

definition nvs_lawful :: "'s nvs \<Rightarrow> bool" where
  "nvs_lawful nv \<longleftrightarrow>
     (\<forall>st st' p. nv_putBytes nv p st = (st', SIZEOF_PERSISTED) \<longrightarrow>
         nv_begin_ro nv st' \<and> nv_getBytes nv st' = (SIZEOF_PERSISTED, p))
   \<and> (\<forall>st st'. nv_clear nv st = (st', True) \<longrightarrow> fst (nv_getBytes nv st') \<noteq> SIZEOF_PERSISTED)"

text \<open>A store that never refuses.\<close>

definition nvs_reliable :: "'s nvs \<Rightarrow> bool" where
  "nvs_reliable nv \<longleftrightarrow> (\<forall>st. nv_begin_rw nv st \<and> snd (nv_clear nv st)
                       \<and> (\<forall>p. snd (nv_putBytes nv p st) = SIZEOF_PERSISTED))"

section \<open>Operations\<close>

definition pl_begin :: "'s nvs \<Rightarrow> 's \<Rightarrow> power_log \<Rightarrow> power_log" where
  "pl_begin nv st l =
     (if \<not> nv_begin_ro nv st then l
      else let (got, p) = nv_getBytes nv st in
           if got \<noteq> SIZEOF_PERSISTED \<or> ps_version p \<noteq> kVersion then l
           else l\<lparr>pl_ring := \<lparr>rg_items = ps_items p, rg_writes = ps_writes p\<rparr>\<rparr>)"

definition pl_persist :: "'s nvs \<Rightarrow> power_log \<Rightarrow> 's \<Rightarrow> 's \<times> bool" where
  "pl_persist nv l st =
     (if \<not> nv_begin_rw nv st then (st, False)
      else let (st', n) = nv_putBytes nv
             \<lparr>ps_version = kVersion, ps_writes = rg_writes (pl_ring l), ps_items = rg_items (pl_ring l)\<rparr> st
           in (st', n = SIZEOF_PERSISTED))"

definition clamp_battery :: "int \<Rightarrow> 8 word" where
  "clamp_battery pct = (if pct < 0 then -1 else word_of_int (if pct > 100 then 100 else pct))"

definition power_slot ::
  "PowerEventKind \<Rightarrow> int \<Rightarrow> bool \<Rightarrow> u32 \<Rightarrow> u8 \<Rightarrow> boot_diagnostics \<Rightarrow> sleep_diagnostics \<Rightarrow> power_event" where
  "power_slot k pct ext utc reset boot sleep =
     \<lparr>pe_utcSec = utc, pe_kind = powerEventKind k, pe_batteryPct = clamp_battery pct,
      pe_hasExternalPower = (if ext then 1 else 0), pe_resetReason = reset,
      pe_boot = (if k = Wake then boot else no_boot),
      pe_sleep = (if k = Sleep then sleep else no_sleep)\<rparr>"

definition pl_push :: "power_event \<Rightarrow> power_log \<Rightarrow> power_log" where
  "pl_push e l = l\<lparr>pl_ring := ring_push e (pl_ring l), pl_revision := pl_revision l + 1\<rparr>"

definition pl_record ::
  "'s nvs \<Rightarrow> PowerEventKind \<Rightarrow> int \<Rightarrow> bool \<Rightarrow> u32 \<Rightarrow> u8 \<Rightarrow> boot_diagnostics \<Rightarrow> sleep_diagnostics
    \<Rightarrow> power_log \<times> 's \<Rightarrow> power_log \<times> 's" where
  "pl_record nv k pct ext utc reset boot sleep = (\<lambda>(l, st).
     let l' = pl_push (power_slot k pct ext utc reset boot sleep) l in
     (l', fst (pl_persist nv l' st)))"

definition latest_index :: "power_log \<Rightarrow> nat" where
  "latest_index l = unat (rg_writes (pl_ring l) - 1) mod POWER_CAP"

definition set_utc :: "nat \<Rightarrow> u32 \<Rightarrow> power_log \<Rightarrow> power_log" where
  "set_utc i utc l = l\<lparr>pl_ring := (pl_ring l)\<lparr>rg_items :=
     (rg_items (pl_ring l))[i := (rg_items (pl_ring l) ! i)\<lparr>pe_utcSec := utc\<rparr>]\<rparr>\<rparr>"

definition pl_backfill :: "'s nvs \<Rightarrow> u32 \<Rightarrow> power_log \<times> 's \<Rightarrow> (power_log \<times> 's) \<times> bool" where
  "pl_backfill nv utc = (\<lambda>(l, st).
     if utc = 0 then ((l, st), False)
     else if rg_writes (pl_ring l) \<noteq> 0 then
       let i = latest_index l; latest = rg_items (pl_ring l) ! i in
       if pe_kind latest = powerEventKind Wake \<and> pe_utcSec latest = 0 then
         let l' = set_utc i utc l; (st', ok) = pl_persist nv l' st in
         if ok then ((l'\<lparr>pl_revision := pl_revision l' + 1\<rparr>, st'), True)
         else ((set_utc i 0 l', st'), False)
       else ((l, st), False)
     else ((l, st), False))"

definition pl_clear_ram :: "power_log \<Rightarrow> power_log" where
  "pl_clear_ram l = l\<lparr>pl_ring := ring_empty POWER_CAP zero_event, pl_revision := pl_revision l + 1\<rparr>"

definition pl_clear :: "'s nvs \<Rightarrow> power_log \<times> 's \<Rightarrow> (power_log \<times> 's) \<times> bool" where
  "pl_clear nv = (\<lambda>(l, st).
     if nv_begin_rw nv st then let (st', ok) = nv_clear nv st in ((pl_clear_ram l, st'), ok)
     else ((pl_clear_ram l, st), False))"

definition pl_snapshot :: "power_log \<Rightarrow> nat \<Rightarrow> power_event list" where
  "pl_snapshot l n = ring_snapshot (pl_ring l) n"

definition pl_holds :: "power_log \<Rightarrow> power_event list \<Rightarrow> bool" where
  "pl_holds l h \<longleftrightarrow> ring_holds (pl_ring l) h \<and> ring_cap (pl_ring l) = POWER_CAP"

lemma cleared_ring:
  "ring_holds (ring_empty POWER_CAP z) []" "ring_cap (ring_empty POWER_CAP z) = POWER_CAP"
  by (simp_all add: ring_holds_def POWER_CAP_def ring_cap_def ring_empty_def)

interpretation pl: event_log pl_push pl_snapshot pl_clear_ram "\<lambda>l. ring_cap (pl_ring l)" pl_holds
  by unfold_locales
    (auto simp: pl_push_def pl_snapshot_def pl_clear_ram_def pl_holds_def cleared_ring
      ring_holds_snapshot intro: ring_holds_push)

section \<open>Properties\<close>

text \<open>A restart: the RAM of a fresh log and the store that survived.\<close>

definition reboot :: "'s nvs \<Rightarrow> 's \<Rightarrow> power_log" where
  "reboot nv st = pl_begin nv st pl_init"

definition in_sync :: "'s nvs \<Rightarrow> power_log \<times> 's \<Rightarrow> bool" where
  "in_sync nv s \<longleftrightarrow> pl_ring (reboot nv (snd s)) = pl_ring (fst s)"

lemma persist_sync:
  assumes "nvs_lawful nv" and "pl_persist nv l st = (st', True)" and "pl_ring l' = pl_ring l"
  shows "in_sync nv (l', st')"
  using assms
  by (auto simp: in_sync_def reboot_def pl_begin_def pl_persist_def nvs_lawful_def pl_init_def
      split: if_splits prod.splits)

lemma persist_reliable: "nvs_reliable nv \<Longrightarrow> snd (pl_persist nv l st)"
  by (auto simp: nvs_reliable_def pl_persist_def split: prod.splits) (metis snd_conv)

datatype power_call = Record PowerEventKind int bool u32 u8 boot_diagnostics sleep_diagnostics
  | Backfill u32 | ClearLog

fun power_op :: "'s nvs \<Rightarrow> power_call \<Rightarrow> power_log \<times> 's \<Rightarrow> power_log \<times> 's" where
  "power_op nv (Record k pct ext utc reset boot sleep) s = pl_record nv k pct ext utc reset boot sleep s"
| "power_op nv (Backfill utc) s = fst (pl_backfill nv utc s)"
| "power_op nv ClearLog s = fst (pl_clear nv s)"

lemma backfill_cases:
  fixes l :: power_log
  assumes "pl_backfill nv utc (l, st) = ((l', st'), ok)"
  obtains (applied) "ok" "utc \<noteq> 0" "rg_writes (pl_ring l) \<noteq> 0"
      "pe_kind (rg_items (pl_ring l) ! latest_index l) = powerEventKind Wake"
      "pe_utcSec (rg_items (pl_ring l) ! latest_index l) = 0"
      "pl_ring l' = pl_ring (set_utc (latest_index l) utc l)"
      "pl_persist nv (set_utc (latest_index l) utc l) st = (st', True)"
    | (refused) "\<not> ok" "l' = set_utc (latest_index l) 0 (set_utc (latest_index l) utc l)"
      "pe_utcSec (rg_items (pl_ring l) ! latest_index l) = 0"
      "\<not> snd (pl_persist nv (set_utc (latest_index l) utc l) st)"
    | (nothing) "\<not> ok" "l' = l" "st' = st"
  using assms
  by (auto simp: pl_backfill_def Let_def split: if_splits prod.splits)

lemma set_utc_back:
  assumes "pe_utcSec (rg_items (pl_ring l) ! i) = 0"
  shows "set_utc i 0 (set_utc i utc l) = (l :: power_log)"
proof -
  have "(rg_items (pl_ring l) ! i)\<lparr>pe_utcSec := 0\<rparr> = rg_items (pl_ring l) ! i"
    using assms by (cases "rg_items (pl_ring l) ! i") simp
  then show ?thesis
    by (cases "i < length (rg_items (pl_ring l))") (auto simp: set_utc_def list_update_beyond)
qed

lemma power_op_sync:
  assumes "nvs_lawful nv" "nvs_reliable nv" "in_sync nv s"
  shows "in_sync nv (power_op nv op s)"
proof -
  obtain l st where s: "s = (l, st)" by (cases s)
  show ?thesis
  proof (cases op)
    case (Record k pct ext utc reset boot sleep)
    let ?l = "pl_push (power_slot k pct ext utc reset boot sleep) l"
    obtain st' where "pl_persist nv ?l st = (st', True)"
      using persist_reliable [OF assms(2)] by (metis surj_pair snd_conv)
    with Record s persist_sync [OF assms(1) this refl] show ?thesis
      by (simp add: pl_record_def)
  next
    case (Backfill utc)
    obtain l' st' ok where b: "pl_backfill nv utc (l, st) = ((l', st'), ok)" by (metis surj_pair)
    from b show ?thesis
    proof (cases rule: backfill_cases)
      case applied
      then show ?thesis
        using Backfill s b persist_sync [OF assms(1) applied(7) applied(6)] by simp
    next
      case refused
      then show ?thesis using persist_reliable [OF assms(2)] by blast
    next
      case nothing
      then show ?thesis using Backfill s b assms(3) by simp
    qed
  next
    case ClearLog
    obtain st' where "nv_clear nv st = (st', True)" "nv_begin_rw nv st"
      using assms(2) by (metis nvs_reliable_def surj_pair snd_conv)
    with ClearLog s assms(1) show ?thesis
      by (auto simp: pl_clear_def in_sync_def reboot_def pl_begin_def nvs_lawful_def pl_init_def
          pl_clear_ram_def split: prod.splits) (metis fst_conv)+
  qed
qed

text \<open>Over a store that never refuses, no operation can be lost by a restart: after any sequence
  of records, back-fills and clears on a log in step with its store, the log that boots
  next shows its readers exactly what this one does.\<close>

theorem power_log_survives_reboot:
  assumes "nvs_lawful nv" and "nvs_reliable nv" and "in_sync nv s"
  shows "pl_snapshot (reboot nv (snd (fold (power_op nv) ops s))) n = pl_snapshot (fst (fold (power_op nv) ops s)) n"
proof -
  have "in_sync nv (fold (power_op nv) ops s)"
    using assms(3) by (induction ops arbitrary: s) (simp_all add: power_op_sync [OF assms(1,2)])
  then show ?thesis by (simp add: in_sync_def pl_snapshot_def)
qed

text \<open>A store for the witnesses: the blob or nothing.\<close>

definition blob_store :: "persisted option nvs" where
  "blob_store = \<lparr>nv_begin_ro = (\<lambda>st. st \<noteq> None),
     nv_getBytes = (\<lambda>st. case st of None \<Rightarrow> (0, \<lparr>ps_version = 0, ps_writes = 0, ps_items = []\<rparr>)
                                  | Some p \<Rightarrow> (SIZEOF_PERSISTED, p)),
     nv_begin_rw = (\<lambda>_. True), nv_putBytes = (\<lambda>p _. (Some p, SIZEOF_PERSISTED)),
     nv_clear = (\<lambda>_. (None, True))\<rparr>"

lemma blob_store_lawful: "nvs_lawful blob_store" "nvs_reliable blob_store"
  by (simp_all add: blob_store_def nvs_lawful_def nvs_reliable_def SIZEOF_PERSISTED_def)

lemma blob_store_sync: "in_sync blob_store (pl_init, None)"
  by (simp add: in_sync_def reboot_def pl_begin_def blob_store_def)

lemma power_log_survives_reboot_witness:
  "pl_snapshot (reboot blob_store (snd (fold (power_op blob_store)
      [Record Wake 57 True 0 1 no_boot no_sleep, Backfill 77] (pl_init, None)))) 5
   = pl_snapshot (fst (fold (power_op blob_store)
      [Record Wake 57 True 0 1 no_boot no_sleep, Backfill 77] (pl_init, None))) 5"
  by (rule power_log_survives_reboot [OF blob_store_lawful blob_store_sync])

lemma clamp_battery_range: "sint (clamp_battery pct) = (if pct < 0 then -1 else min 100 pct)"
  by (auto simp: clamp_battery_def min_def signed_of_int signed_take_bit_int_eq_self)

text \<open>Every recorded event enters the history newest first with a battery charge within -1..100
  and the diagnostics of its own kind only, and the readers see the newest 32.\<close>

theorem power_record_history:
  assumes "pl_holds l h" and "Suc (length h) < 2 ^ 32"
    and "pl_record nv k pct ext utc reset boot sleep (l, st) = (l', st')"
  shows "\<exists>e. (\<forall>n. pl_snapshot l' n = take (min n POWER_CAP) (e # h))
           \<and> pe_utcSec e = utc \<and> pe_kind e = powerEventKind k
           \<and> sint (pe_batteryPct e) = (if pct < 0 then -1 else min 100 pct)
           \<and> (k = Sleep \<longrightarrow> pe_boot e = no_boot) \<and> (k = Wake \<longrightarrow> pe_sleep e = no_sleep)"
proof -
  let ?e = "power_slot k pct ext utc reset boot sleep"
  have l': "l' = pl_push ?e l" using assms(3) by (auto simp: pl_record_def Let_def)
  have "pl_holds l' (?e # h)" unfolding l' by (rule pl.holds_push [OF assms(1,2)])
  then have "pl_snapshot l' n = take (min n POWER_CAP) (?e # h)" for n
    using pl.snapshot_holds by (simp add: pl_holds_def)
  then show ?thesis by (intro exI [of _ ?e]) (auto simp: power_slot_def clamp_battery_range)
qed

lemma pl_init_holds: "pl_holds pl_init []"
  by (simp add: pl_holds_def pl_init_def ring_holds_def ring_empty_def ring_cap_def POWER_CAP_def)

lemma power_record_history_witness:
  "\<exists>e. (\<forall>n. pl_snapshot (pl_push (power_slot Sleep 120 False 9 0 no_boot no_sleep) pl_init) n
              = take (min n POWER_CAP) [e])
     \<and> pe_utcSec e = 9 \<and> pe_kind e = 1 \<and> sint (pe_batteryPct e) = 100 \<and> pe_boot e = no_boot"
proof -
  let ?l = "pl_push (power_slot Sleep 120 False 9 0 no_boot no_sleep) pl_init"
  have "pl_record blob_store Sleep 120 False 9 0 no_boot no_sleep (pl_init, None)
      = (?l, fst (pl_persist blob_store ?l None))"
    by (simp add: pl_record_def Let_def)
  from power_record_history [OF pl_init_holds _ this] show ?thesis by fastforce
qed

lemma latest_index_holds:
  assumes "pl_holds l (e # h)"
  shows "rg_items (pl_ring l) ! latest_index l = e" "latest_index l = length h mod POWER_CAP"
proof -
  have w: "unat (rg_writes (pl_ring l)) = Suc (length h)" and c: "ring_cap (pl_ring l) = POWER_CAP"
    using assms by (auto simp: pl_holds_def ring_holds_def)
  then have "rg_writes (pl_ring l) \<noteq> 0" by auto
  with w have "unat (rg_writes (pl_ring l) - 1) = length h" by (simp add: unat_minus_one)
  then show i: "latest_index l = length h mod POWER_CAP" by (simp add: latest_index_def)
  show "rg_items (pl_ring l) ! latest_index l = e"
    using assms c unfolding i pl_holds_def ring_holds_def by (auto simp: POWER_CAP_def)
qed

lemma set_utc_holds:
  assumes "pl_holds l (e # h)"
  shows "pl_holds (set_utc (latest_index l) utc l) (e\<lparr>pe_utcSec := utc\<rparr> # h)"
proof -
  note li = latest_index_holds [OF assms]
  have c: "ring_cap (pl_ring l) = POWER_CAP" using assms by (simp add: pl_holds_def)
  have "(rg_items (pl_ring l))[latest_index l := e\<lparr>pe_utcSec := utc\<rparr>] ! ((length h - j) mod POWER_CAP)
        = (e\<lparr>pe_utcSec := utc\<rparr> # h) ! j" if "j < min (Suc (length h)) POWER_CAP" for j
  proof (cases j)
    case 0
    have "length h mod POWER_CAP < length (rg_items (pl_ring l))"
      using c by (simp add: ring_cap_def POWER_CAP_def)
    with 0 show ?thesis by (simp add: li(2))
  next
    case (Suc k)
    with that have "length h mod POWER_CAP \<noteq> (length h - j) mod POWER_CAP"
      by (intro slots_differ) auto
    then show ?thesis
      using assms that Suc c by (auto simp: li(2) pl_holds_def ring_holds_def)
  qed
  with assms c li show ?thesis
    by (simp add: pl_holds_def ring_holds_def set_utc_def ring_cap_def)
qed

text \<open>A back-fill either dates the newest event, which is an undated Wake, and that has reached
  the store, or it leaves the log in RAM exactly as it was, so it can be retried.\<close>

theorem power_backfill_atomic:
  assumes "nvs_lawful nv" and "pl_holds l (e # h)"
    and "pl_backfill nv utc (l, st) = ((l', st'), ok)"
  shows "if ok then pe_kind e = powerEventKind Wake \<and> pe_utcSec e = 0 \<and> utc \<noteq> 0
              \<and> (\<forall>n. pl_snapshot l' n = take (min n POWER_CAP) (e\<lparr>pe_utcSec := utc\<rparr> # h))
              \<and> (\<forall>n. pl_snapshot (reboot nv st') n = pl_snapshot l' n)
         else l' = l"
  using assms(3)
proof (cases rule: backfill_cases)
  case applied
  have "pl_holds l' (e\<lparr>pe_utcSec := utc\<rparr> # h)"
    using set_utc_holds [OF assms(2)] applied(6) by (simp add: pl_holds_def)
  from pl.snapshot_holds [OF this] this have
    "pl_snapshot l' n = take (min n POWER_CAP) (e\<lparr>pe_utcSec := utc\<rparr> # h)" for n
    by (simp add: pl_holds_def)
  moreover have "pl_snapshot (reboot nv st') n = pl_snapshot l' n" for n
    using persist_sync [OF assms(1) applied(7) applied(6)] by (simp add: in_sync_def pl_snapshot_def)
  ultimately show ?thesis
    using applied(1,2,4,5) by (simp add: latest_index_holds(1) [OF assms(2)])
qed (auto simp: set_utc_back)

lemma power_backfill_atomic_witness:
  "pl_snapshot (fst (fst (pl_backfill blob_store 77
      (pl_push (power_slot Wake 5 False 0 1 no_boot no_sleep) pl_init, None)))) 1
    = [(power_slot Wake 5 False 0 1 no_boot no_sleep)\<lparr>pe_utcSec := 77\<rparr>]"
proof -
  let ?e = "power_slot Wake 5 False 0 1 no_boot no_sleep"
  let ?r = "pl_backfill blob_store 77 (pl_push ?e pl_init, None)"
  have h: "pl_holds (pl_push ?e pl_init) [?e]" by (rule pl.holds_push [OF pl_init_holds]) simp
  have w: "rg_writes (pl_ring (pl_push ?e pl_init)) = 1"
    by (simp add: pl_push_def ring_push_def pl_init_def ring_empty_def)
  obtain l' st' ok where r: "?r = ((l', st'), ok)" by (metis surj_pair)
  have "snd ?r"
    using latest_index_holds(1) [OF h] w
    by (simp add: pl_backfill_def Let_def power_slot_def pl_persist_def blob_store_def)
  with r have ok by simp
  with power_backfill_atomic [OF blob_store_lawful(1) h r] r show ?thesis
    by (auto simp: POWER_CAP_def)
qed

end
