(* ===== verification/PowerSaving.thy ===== *)
theory PowerSaving
  imports Prelude
begin

text \<open>
  The idle policy (\<open>src/src/power/PowerSavingPolicy.h\<close> and \<open>.cpp\<close>): dim the display, then power
  off. The display, the battery gauge, the PMIC and the clock are outside: an operation takes what
  it reads from them and returns the commands it sends them, in order. \<open>millis()\<close> is read twice on
  every path of \<open>update\<close>, so there are two clock readings.
\<close>

section \<open>Effects\<close>

datatype saving_effect =
    SetBrightness u8
  | LogBatteryStatus
  | RecordSleepEvent
  | PreSleepCallback
  | EnableWakeUpOnMotionAndShutdown bool    \<comment> \<open>and whether it succeeded\<close>
  | DisableWakeUpOnMotion
  | PowerOff

text \<open>Operations of a component that commands its surroundings are run in sequence.\<close>

type_synonym ('s, 'e) op = "'s \<Rightarrow> 's \<times> 'e list"

definition then_op :: "('s, 'e) op \<Rightarrow> ('s, 'e) op \<Rightarrow> ('s, 'e) op" where
  "then_op f g s = (case f s of (s1, e1) \<Rightarrow> case g s1 of (s2, e2) \<Rightarrow> (s2, e1 @ e2))"

fun do_all :: "('s, 'e) op list \<Rightarrow> ('s, 'e) op" where
  "do_all [] s = (s, [])"
| "do_all (f # fs) s = then_op f (do_all fs) s"

definition do_nothing :: "('s, 'e) op" where
  "do_nothing s = (s, [])"

lemma then_op_simps [simp]:
  "fst (then_op f g s) = fst (g (fst (f s)))"
  "snd (then_op f g s) = snd (f s) @ snd (g (fst (f s)))"
  by (simp_all add: then_op_def split: prod.splits)

lemma do_nothing_simps [simp]: "fst (do_nothing s) = s" "snd (do_nothing s) = []"
  by (simp_all add: do_nothing_def)

section \<open>The policy\<close>

record power_saving =
  sv_screenDimTimeout :: i32
  sv_autoPowerOffTimeout :: i32
  sv_wakeOnMotion :: bool
  sv_lastActivityMs :: u32
  sv_lastBrightness :: u16
  sv_screenDimmed :: bool
  sv_preSleepCallback :: bool    \<comment> \<open>whether one is set\<close>

record saving_env =
  se_now1 :: u32
  se_now2 :: u32
  se_brightness :: u8
  se_hasExternalPower :: bool
  se_motionWakeOk :: bool

definition sv_init :: "u32 \<Rightarrow> power_saving" where
  "sv_init now = \<lparr>sv_screenDimTimeout = 60 * 1000, sv_autoPowerOffTimeout = 5 * 60 * 1000,
     sv_wakeOnMotion = True, sv_lastActivityMs = now, sv_lastBrightness = 0,
     sv_screenDimmed = False, sv_preSleepCallback = False\<rparr>"

definition setScreenDimmingTimeoutSeconds :: "i32 \<Rightarrow> power_saving \<Rightarrow> power_saving" where
  "setScreenDimmingTimeoutSeconds seconds p = p\<lparr>sv_screenDimTimeout := seconds * 1000\<rparr>"

definition disableScreenDimming :: "power_saving \<Rightarrow> power_saving" where
  "disableScreenDimming p = p\<lparr>sv_screenDimTimeout := -1\<rparr>"

definition setAutoPowerOffTimeoutSeconds :: "i32 \<Rightarrow> bool \<Rightarrow> power_saving \<Rightarrow> power_saving" where
  "setAutoPowerOffTimeoutSeconds seconds wake p =
     p\<lparr>sv_autoPowerOffTimeout := seconds * 1000, sv_wakeOnMotion := wake\<rparr>"

definition disableAutoPowerOff :: "power_saving \<Rightarrow> power_saving" where
  "disableAutoPowerOff p = p\<lparr>sv_autoPowerOffTimeout := -1\<rparr>"

definition setPreSleepCallback :: "bool \<Rightarrow> power_saving \<Rightarrow> power_saving" where
  "setPreSleepCallback cb p = p\<lparr>sv_preSleepCallback := cb\<rparr>"

definition registerActivity :: "u32 \<Rightarrow> (power_saving, saving_effect) op" where
  "registerActivity now p =
     (let p1 = p\<lparr>sv_lastActivityMs := now\<rparr> in
      if sv_screenDimmed p1 then (p1\<lparr>sv_screenDimmed := False\<rparr>, [SetBrightness (ucast (sv_lastBrightness p1))])
      else (p1, []))"

definition performShutdown :: "saving_env \<Rightarrow> power_saving \<Rightarrow> saving_effect list \<times> bool" where
  "performShutdown e p =
     ([LogBatteryStatus, RecordSleepEvent]
      @ (if sv_preSleepCallback p then [PreSleepCallback] else [])
      @ (if sv_wakeOnMotion p then
           (if se_motionWakeOk e then [EnableWakeUpOnMotionAndShutdown True]
            else [EnableWakeUpOnMotionAndShutdown False, DisableWakeUpOnMotion, PowerOff])
         else [PowerOff]), True)"

definition shutdownIfOnBattery :: "saving_env \<Rightarrow> power_saving \<Rightarrow> saving_effect list \<times> bool" where
  "shutdownIfOnBattery e p = (if se_hasExternalPower e then ([], False) else performShutdown e p)"

definition shutdown :: "saving_env \<Rightarrow> power_saving \<Rightarrow> saving_effect list \<times> bool" where
  "shutdown e p = performShutdown e p"

text \<open>
  \<open>static_cast<unsigned long>\<close> reads the timeout's 32 bits as unsigned, so the comparison is the
  one on words, and a timeout of -1 is never exceeded.
\<close>

definition saving_update :: "saving_env \<Rightarrow> (power_saving, saving_effect) op" where
  "saving_update e p =
     (if se_now1 e - sv_lastActivityMs p > sv_autoPowerOffTimeout p then
        (let (fx, ok) = shutdownIfOnBattery e p in
         (if \<not> ok then p\<lparr>sv_lastActivityMs := se_now2 e\<rparr> else p, fx))
      else if \<not> sv_screenDimmed p \<and> se_now2 e - sv_lastActivityMs p > sv_screenDimTimeout p then
        (p\<lparr>sv_lastBrightness := ucast (se_brightness e), sv_screenDimmed := True\<rparr>, [SetBrightness 1])
      else (p, []))"

section \<open>Powering off\<close>

text \<open>The two commands that cut the power.\<close>

fun cuts_power :: "saving_effect \<Rightarrow> bool" where
  "cuts_power PowerOff = True"
| "cuts_power (EnableWakeUpOnMotionAndShutdown ok) = ok"
| "cuts_power _ = False"

text \<open>A proper shutdown: logged and announced first, cut once and last, no half-configured motion wake.\<close>

definition proper_shutdown :: "power_saving \<Rightarrow> saving_effect list \<Rightarrow> bool" where
  "proper_shutdown p fx \<longleftrightarrow>
     (\<exists>before cut. fx = before @ [cut] \<and> cuts_power cut \<and> list_all (\<lambda>x. \<not> cuts_power x) before
        \<and> RecordSleepEvent \<in> set before \<and> (PreSleepCallback \<in> set before \<longleftrightarrow> sv_preSleepCallback p)
        \<and> (EnableWakeUpOnMotionAndShutdown False \<in> set before \<longleftrightarrow> DisableWakeUpOnMotion \<in> set before))"

lemma performShutdown_proper: "proper_shutdown p (fst (performShutdown e p))"
proof -
  define before where "before = butlast (fst (performShutdown e p))"
  define cut where "cut = last (fst (performShutdown e p))"
  have "fst (performShutdown e p) = before @ [cut]" "cuts_power cut"
    "list_all (\<lambda>x. \<not> cuts_power x) before" "RecordSleepEvent \<in> set before"
    "PreSleepCallback \<in> set before \<longleftrightarrow> sv_preSleepCallback p"
    "EnableWakeUpOnMotionAndShutdown False \<in> set before \<longleftrightarrow> DisableWakeUpOnMotion \<in> set before"
    by (auto simp: before_def cut_def performShutdown_def)
  then show ?thesis unfolding proper_shutdown_def by blast
qed

lemma performShutdown_cuts: "list_ex cuts_power (fst (performShutdown e p))"
  by (simp add: performShutdown_def)

lemma timeout_disabled: "\<not> (-1 :: 32 word) < x"
  by (simp add: word_order.extremum_strict)

lemma saving_update_shutdown_iff:
  "list_ex cuts_power (snd (saving_update e p)) \<longleftrightarrow>
      \<not> se_hasExternalPower e \<and> sv_autoPowerOffTimeout p \<noteq> -1
      \<and> unat (sv_autoPowerOffTimeout p) < unat (se_now1 e - sv_lastActivityMs p)"
proof (cases "se_now1 e - sv_lastActivityMs p > sv_autoPowerOffTimeout p")
  case True
  then have "sv_autoPowerOffTimeout p \<noteq> -1" using timeout_disabled by auto
  with True show ?thesis
    using performShutdown_cuts [of e p]
    by (auto simp: saving_update_def shutdownIfOnBattery_def performShutdown_def word_less_nat_alt)
next
  case False
  then show ?thesis
    by (auto simp: saving_update_def word_less_nat_alt)
qed

text \<open>The idle policy cuts the power exactly when the device is on battery and has been idle longer
  than a timeout that is not disabled, and then by a proper shutdown sequence; on external
  power it only restarts the idle time.\<close>

theorem saving_update_shutdown:
  "(list_ex cuts_power (snd (saving_update e p)) \<longleftrightarrow>
      \<not> se_hasExternalPower e \<and> sv_autoPowerOffTimeout p \<noteq> -1
      \<and> unat (sv_autoPowerOffTimeout p) < unat (se_now1 e - sv_lastActivityMs p))
   \<and> (list_ex cuts_power (snd (saving_update e p)) \<longrightarrow>
        proper_shutdown p (snd (saving_update e p)) \<and> fst (saving_update e p) = p)
   \<and> (se_hasExternalPower e \<and> unat (sv_autoPowerOffTimeout p) < unat (se_now1 e - sv_lastActivityMs p)
        \<longrightarrow> saving_update e p = (p\<lparr>sv_lastActivityMs := se_now2 e\<rparr>, []))"
  using performShutdown_proper [of p e]
  by (intro conjI saving_update_shutdown_iff)
    (auto simp: saving_update_def shutdownIfOnBattery_def performShutdown_def word_less_nat_alt)

lemma saving_update_shutdown_witness:
  "list_ex cuts_power (snd (saving_update \<lparr>se_now1 = 300001, se_now2 = 300001, se_brightness = 9,
      se_hasExternalPower = False, se_motionWakeOk = False\<rparr> (sv_init 0)))"
  using saving_update_shutdown [of "\<lparr>se_now1 = 300001, se_now2 = 300001, se_brightness = 9,
      se_hasExternalPower = False, se_motionWakeOk = False\<rparr>" "sv_init 0"]
  by (simp add: sv_init_def)

section \<open>Dimming\<close>

text \<open>The policy with the display it drives: brightness is what was last set.\<close>

fun display_after :: "u8 \<Rightarrow> saving_effect list \<Rightarrow> u8" where
  "display_after b [] = b"
| "display_after b (SetBrightness b' # fx) = display_after b' fx"
| "display_after b (_ # fx) = display_after b fx"

datatype saving_request =
    Activity u32
  | Update saving_env
  | DimTimeout i32
  | DisableDimming
  | OffTimeout i32 bool
  | DisableOff

fun saving_call :: "power_saving \<times> u8 \<Rightarrow> saving_request \<Rightarrow> power_saving \<times> u8" where
  "saving_call (p, b) (Activity now) = (let (p', fx) = registerActivity now p in (p', display_after b fx))"
| "saving_call (p, b) (Update e) =
     (let (p', fx) = saving_update (e\<lparr>se_brightness := b\<rparr>) p in (p', display_after b fx))"
| "saving_call (p, b) (DimTimeout s) = (setScreenDimmingTimeoutSeconds s p, b)"
| "saving_call (p, b) DisableDimming = (disableScreenDimming p, b)"
| "saving_call (p, b) (OffTimeout s w) = (setAutoPowerOffTimeoutSeconds s w p, b)"
| "saving_call (p, b) DisableOff = (disableAutoPowerOff p, b)"

definition dim_inv :: "u8 \<Rightarrow> power_saving \<times> u8 \<Rightarrow> bool" where
  "dim_inv b0 s \<longleftrightarrow> (if sv_screenDimmed (fst s) then snd s = 1 \<and> sv_lastBrightness (fst s) = ucast b0
                      else snd s = b0)"

lemma ucast_back: "ucast (ucast b :: u16) = (b :: u8)"
  by (rule bit_word_eqI) (simp add: bit_simps)

lemma dim_inv_call: "dim_inv b0 s \<Longrightarrow> dim_inv b0 (saving_call s c)"
proof (cases s)
  case (Pair p b)
  assume "dim_inv b0 s"
  with Pair show ?thesis
    by (cases c)
      (auto simp: dim_inv_def registerActivity_def saving_update_def shutdownIfOnBattery_def
        performShutdown_def Let_def ucast_back setScreenDimmingTimeoutSeconds_def
        disableScreenDimming_def setAutoPowerOffTimeoutSeconds_def disableAutoPowerOff_def)
qed

text \<open>Dimming never loses the user's brightness: whatever the idle policy and its settings did
  since the display was last bright, the next activity restores the brightness of before, and
  the display shows that brightness or the dimmed one.\<close>

theorem dimming_restores:
  assumes "\<not> sv_screenDimmed p"
  shows "\<not> sv_screenDimmed (fst (saving_call (foldl saving_call (p, b) cs) (Activity now)))
       \<and> snd (saving_call (foldl saving_call (p, b) cs) (Activity now)) = b
       \<and> snd (foldl saving_call (p, b) cs) = (if sv_screenDimmed (fst (foldl saving_call (p, b) cs)) then 1 else b)"
proof -
  have "dim_inv b (foldl saving_call s cs)" if "dim_inv b s" for s
    using that by (induction cs arbitrary: s) (auto simp: dim_inv_call)
  moreover have "dim_inv b (p, b)" using assms by (simp add: dim_inv_def)
  ultimately have i: "dim_inv b (foldl saving_call (p, b) cs)" .
  obtain p' b' where e: "foldl saving_call (p, b) cs = (p', b')" by (metis surj_pair)
  have "\<not> sv_screenDimmed (fst (saving_call (p', b') (Activity now)))"
    by (auto simp: registerActivity_def Let_def)
  with dim_inv_call [OF i, of "Activity now"] i e show ?thesis by (auto simp: dim_inv_def split: if_splits)
qed

lemma dimming_restores_witness:
  "snd (saving_call (foldl saving_call (sv_init 0, 128)
      [Update \<lparr>se_now1 = 60001, se_now2 = 60001, se_brightness = 0, se_hasExternalPower = True,
               se_motionWakeOk = True\<rparr>, DisableDimming]) (Activity 70000)) = 128"
  using dimming_restores [of "sv_init 0" 128
      "[Update \<lparr>se_now1 = 60001, se_now2 = 60001, se_brightness = 0, se_hasExternalPower = True,
               se_motionWakeOk = True\<rparr>, DisableDimming]" 70000]
  by (simp add: sv_init_def)

end
