(* ===== verification/SpeakerCodec.thy ===== *)
theory SpeakerCodec
  imports Prelude
begin

text \<open>
  The speaker amplifier's lifecycle (\<open>src/src/power/SpeakerCodec.h\<close> and \<open>.cpp\<close>). Whether the
  hardware started, and whether a tone is playing, are inputs; the commands to it are returned.
\<close>

record speaker_codec =
  sc_keepUntilMs :: u32
  sc_keepActive :: bool
  sc_speakerRunning :: bool

datatype speaker_command = SpeakerBegin | SpeakerEnd | SetVolume u8

definition sc_init :: speaker_codec where
  "sc_init = \<lparr>sc_keepUntilMs = 0, sc_keepActive = False, sc_speakerRunning = False\<rparr>"

definition demandPresent :: "u32 \<Rightarrow> speaker_codec \<Rightarrow> bool" where
  "demandPresent now c \<longleftrightarrow> sc_keepActive c \<and> 0 < sint (sc_keepUntilMs c - now)"

definition sc_ensure :: "bool \<Rightarrow> speaker_codec \<Rightarrow> bool \<times> speaker_codec \<times> speaker_command list" where
  "sc_ensure beginOk c =
     (if sc_speakerRunning c then (True, c, [])
      else if \<not> beginOk then (False, c, [SpeakerBegin, SpeakerEnd])
      else (True, c\<lparr>sc_speakerRunning := True\<rparr>, [SpeakerBegin, SetVolume 255]))"

definition sc_release :: "speaker_codec \<Rightarrow> speaker_codec \<times> speaker_command list" where
  "sc_release c = (c\<lparr>sc_speakerRunning := False\<rparr>, [SpeakerEnd])"

definition keepUntil :: "bool \<Rightarrow> u32 \<Rightarrow> speaker_codec \<Rightarrow> bool \<times> speaker_codec \<times> speaker_command list" where
  "keepUntil beginOk deadline c =
     (case sc_ensure beginOk c of (ok, c', fx) \<Rightarrow>
        if \<not> ok then (False, c', fx)
        else (True, c'\<lparr>sc_keepUntilMs := deadline, sc_keepActive := True\<rparr>, fx))"

definition sc_tick :: "bool \<Rightarrow> u32 \<Rightarrow> speaker_codec \<Rightarrow> speaker_codec \<times> speaker_command list" where
  "sc_tick isPlaying now c =
     (if \<not> sc_speakerRunning c then (c, [])
      else if demandPresent now c then (c, [])
      else if isPlaying then (c, [])
      else sc_release c)"

lemmas speaker_defs = sc_ensure_def sc_release_def keepUntil_def sc_tick_def

section \<open>The hardware follows the flag\<close>

fun speaker_powered :: "bool \<Rightarrow> speaker_command list \<Rightarrow> bool" where
  "speaker_powered on [] = on"
| "speaker_powered on (SpeakerBegin # fx) = speaker_powered True fx"
| "speaker_powered on (SpeakerEnd # fx) = speaker_powered False fx"
| "speaker_powered on (SetVolume v # fx) = speaker_powered on fx"

datatype speaker_call = KeepUntil bool u32 | Tick bool u32

fun speaker_step :: "speaker_codec \<times> bool \<Rightarrow> speaker_call \<Rightarrow> (speaker_codec \<times> bool) \<times> bool" where
  "speaker_step (c, on) (KeepUntil ok d) =
     (case keepUntil ok d c of (r, c', fx) \<Rightarrow> ((c', speaker_powered on fx), r))"
| "speaker_step (c, on) (Tick pl now) =
     (case sc_tick pl now c of (c', fx) \<Rightarrow> ((c', speaker_powered on fx), True))"

definition speaker_inv :: "speaker_codec \<times> bool \<Rightarrow> bool" where
  "speaker_inv s \<longleftrightarrow> snd s = sc_speakerRunning (fst s)"

interpretation speaker: invariant_machine speaker_step speaker_inv "(sc_init, False)"
proof
  show "speaker_inv (sc_init, False)" by (simp add: speaker_inv_def sc_init_def)
next
  fix s i assume "speaker_inv s"
  then show "speaker_inv (fst (speaker_step s i))"
    by (cases s; cases i) (auto simp: speaker_inv_def speaker_defs)
qed

text \<open>Once a keep-alive was granted, after any history of calls and failed starts, any number of
  ticks before its deadline or while a tone plays leave the amplifier powered, and the
  object knows it.\<close>

theorem speaker_kept:
  assumes "speaker_step (run speaker_step (sc_init, False) cs) (KeepUntil ok d) = (s, True)"
    and "\<forall>c \<in> set ts. \<exists>pl now. c = Tick pl now \<and> (pl \<or> 0 < sint (d - now))"
  shows "snd (run speaker_step s ts) \<and> sc_speakerRunning (fst (run speaker_step s ts))"
proof -
  define kept where "kept = (\<lambda>s :: speaker_codec \<times> bool. sc_speakerRunning (fst s) \<and> sc_keepActive (fst s) \<and> sc_keepUntilMs (fst s) = d)"
  obtain c on where r: "run speaker_step (sc_init, False) cs = (c, on)" by (metis surj_pair)
  from assms(1) r have "kept s"
    by (auto simp: kept_def speaker_defs split: if_splits)
  with assms(2) have "kept (run speaker_step s ts)"
  proof (induction ts arbitrary: s)
    case Nil
    then show ?case by simp
  next
    case (Cons t ts)
    then obtain pl now where t: "t = Tick pl now" "pl \<or> 0 < sint (d - now)" by auto
    then have "kept (fst (speaker_step s t))"
      using Cons.prems(2) by (cases s) (auto simp: kept_def speaker_defs demandPresent_def)
    then show ?case using Cons by simp
  qed
  moreover have "s = run speaker_step (sc_init, False) (cs @ [KeepUntil ok d])"
    using assms(1) by simp
  then have "speaker_inv (run speaker_step s ts)"
    using speaker.inv_reach [of "(cs @ [KeepUntil ok d]) @ ts"] by simp
  ultimately show ?thesis by (simp add: kept_def speaker_inv_def)
qed

lemma speaker_kept_witness:
  "snd (run speaker_step (\<lparr>sc_keepUntilMs = 500, sc_keepActive = True, sc_speakerRunning = True\<rparr>, True)
     [Tick False 100, Tick True 900])"
proof -
  have "speaker_step (run speaker_step (sc_init, False) []) (KeepUntil True 500)
      = ((\<lparr>sc_keepUntilMs = 500, sc_keepActive = True, sc_speakerRunning = True\<rparr>, True), True)"
    by (simp add: sc_init_def speaker_defs)
  then show ?thesis by (rule speaker_kept [THEN conjunct1]) auto
qed

end
