(* ===== verification/PowerManager.thy ===== *)
theory PowerManager
  imports ScaleRadio LowBattery PowerSaving
begin

text \<open>
  The device-wide power policy (\<open>src/src/power/PowerManager.h\<close> and \<open>.cpp\<close>) over the idle policy,
  the low-battery policy and the scale radio machine. What an operation reads from the hardware
  and from \<open>BleScaleService\<close> is in \<open>pm_env\<close>, one field per reading; what it commands is the list of
  effects it returns, in order. A reading inside the decision chain is indexed by the rounds left.
\<close>

section \<open>Data\<close>

datatype BleScaleState = SCALE_OFF | SCALE_SCANNING | SCALE_RECONNECTING | SCALE_CONNECTING | SCALE_READY

record scale_view =
  vw_state :: BleScaleState
  vw_controller :: ControllerState
  vw_connectWanted :: bool
  vw_diagnosticScanWanted :: bool

record scale_radio_status =
  rs_policy :: ScaleRadioPolicy
  rs_controller :: ControllerState
  rs_shouldRun :: bool
  rs_settled :: bool
  rs_failed :: bool

record power_manager =
  pm_saving :: power_saving
  pm_lowBattery :: low_battery
  pm_radio :: radio_machine
  pm_adaptiveEnabled :: bool
  pm_foregroundFull :: bool
  pm_applicationFull :: bool
  pm_appliedCpuMhz :: u16
  pm_failedCpuTargetMhz :: u16
  pm_ledSavingEnabled :: bool
  pm_lowBatteryShutdownEnabled :: bool
  pm_lowBatteryDisplay :: bool
  pm_ledEnabled :: bool
  pm_batteryPollStarted :: bool
  pm_lastBatteryPollMs :: u32
  pm_buttonPollStarted :: bool
  pm_buttonReadFailed :: bool
  pm_buttonSleepEnabled :: bool
  pm_buttonDown :: bool
  pm_buttonPressPending :: bool
  pm_lastButtonPollMs :: u32
  pm_buttonReleasedMs :: u32
  pm_radioStatus :: scale_radio_status
  pm_appliedSuspended :: bool
  pm_wakeStartedMs :: u32
  pm_awaitingScale :: bool

record pm_env =
  en_now :: u32
  en_button :: "(bool \<times> bool) option"      \<comment> \<open>\<open>wasPressed\<close>, \<open>isPressed\<close>, or a failed read\<close>
  en_buttonShutdown :: saving_env
  en_saving :: saving_env
  en_cpuOk :: bool
  en_ledOk :: bool
  en_battery :: "int \<times> bool"                \<comment> \<open>voltage, external power\<close>
  en_lowShutdown :: saving_env
  en_serviceStarted :: bool
  en_view :: scale_view
  en_chain :: "nat \<Rightarrow> bool \<times> scale_view"    \<comment> \<open>request accepted, and the view after it\<close>
  en_connectWanted :: "nat \<Rightarrow> bool"
  en_statusView :: scale_view
  en_readyState :: BleScaleState

datatype pm_effect =
    Saving saving_effect
  | SetCpuFrequency u16 bool
  | SetStatusLed bool bool
  | DisplayPowerSave bool
  | SpeakerTick u32
  | RequestControllerStop bool
  | RequestControllerStart bool
  | PushNetFailure nat "string option"
  | SetPowerSuspended bool

definition kIdleLoopDelayMs :: u32 where "kIdleLoopDelayMs = 10"
definition kBatteryPollIntervalMs :: u32 where "kBatteryPollIntervalMs = 5000"
definition kPowerButtonPollIntervalMs :: u32 where "kPowerButtonPollIntervalMs = 200"
definition kReducedCpuMhz :: u16 where "kReducedCpuMhz = 80"
definition kFullCpuMhz :: u16 where "kFullCpuMhz = 240"
definition kPowerButtonDoubleClickWindowMs :: u32 where "kPowerButtonDoubleClickWindowMs = 500"

definition pm_init :: "u32 \<Rightarrow> power_manager" where
  "pm_init now = \<lparr>pm_saving = sv_init now, pm_lowBattery = lb_init, pm_radio = radio_init,
     pm_adaptiveEnabled = True, pm_foregroundFull = False, pm_applicationFull = False,
     pm_appliedCpuMhz = 0, pm_failedCpuTargetMhz = 0, pm_ledSavingEnabled = True,
     pm_lowBatteryShutdownEnabled = True, pm_lowBatteryDisplay = False, pm_ledEnabled = True,
     pm_batteryPollStarted = False, pm_lastBatteryPollMs = 0, pm_buttonPollStarted = False,
     pm_buttonReadFailed = False, pm_buttonSleepEnabled = True, pm_buttonDown = False,
     pm_buttonPressPending = False, pm_lastButtonPollMs = 0, pm_buttonReleasedMs = 0,
     pm_radioStatus = \<lparr>rs_policy = Demand, rs_controller = Stopped, rs_shouldRun = False,
       rs_settled = False, rs_failed = False\<rparr>,
     pm_appliedSuspended = False, pm_wakeStartedMs = 0, pm_awaitingScale = False\<rparr>"

type_synonym pm_op = "(power_manager, pm_effect) op"

fun serviceState :: "BleScaleState \<Rightarrow> ScaleServiceState" where
  "serviceState SCALE_OFF = Off"
| "serviceState SCALE_SCANNING = Disconnected"
| "serviceState SCALE_RECONNECTING = Disconnected"
| "serviceState SCALE_CONNECTING = Connecting"
| "serviceState SCALE_READY = Ready"

section \<open>CPU frequency and loop pacing\<close>

definition fullPerformanceRequired :: "power_manager \<Rightarrow> bool" where
  "fullPerformanceRequired m \<longleftrightarrow> pm_foregroundFull m \<or> pm_applicationFull m"

definition performanceTarget :: "power_manager \<Rightarrow> u16 \<times> u32" where
  "performanceTarget m =
     (let full = fullPerformanceRequired m;
          delay = (if pm_adaptiveEnabled m \<and> \<not> full then kIdleLoopDelayMs else 0);
          mhz = (if pm_adaptiveEnabled m \<and> sv_screenDimmed (pm_saving m) \<and> \<not> full
                 then kReducedCpuMhz else kFullCpuMhz)
      in (mhz, delay))"

definition loopDelayMs :: "power_manager \<Rightarrow> u32" where
  "loopDelayMs m = snd (performanceTarget m)"

text \<open>\<open>performanceStatus\<close> is the measured frequency with the delay and the two flags.\<close>

definition performanceStatus :: "u32 \<Rightarrow> power_manager \<Rightarrow> u32 \<times> u32 \<times> bool \<times> bool" where
  "performanceStatus mhz m =
     (mhz, snd (performanceTarget m), pm_adaptiveEnabled m, fullPerformanceRequired m)"

definition applyCpuPolicy :: "bool \<Rightarrow> pm_op" where
  "applyCpuPolicy ok m =
     (if \<not> pm_adaptiveEnabled m then (m, [])
      else let target = fst (performanceTarget m) in
           if pm_appliedCpuMhz m = target then (m, [])
           else if pm_failedCpuTargetMhz m = target then (m, [])
           else if \<not> ok then (m\<lparr>pm_failedCpuTargetMhz := target\<rparr>, [SetCpuFrequency target False])
           else (m\<lparr>pm_appliedCpuMhz := target, pm_failedCpuTargetMhz := 0\<rparr>, [SetCpuFrequency target True]))"

definition retryCpuPolicy :: "bool \<Rightarrow> pm_op" where
  "retryCpuPolicy ok m = applyCpuPolicy ok (m\<lparr>pm_failedCpuTargetMhz := 0\<rparr>)"

definition disableAdaptivePerformance :: "bool \<Rightarrow> pm_op" where
  "disableAdaptivePerformance ok m =
     (m\<lparr>pm_adaptiveEnabled := False, pm_failedCpuTargetMhz := 0, pm_appliedCpuMhz := 0\<rparr>,
      [SetCpuFrequency kFullCpuMhz ok])"

definition enableAdaptivePerformance :: "bool \<Rightarrow> pm_op" where
  "enableAdaptivePerformance ok m = retryCpuPolicy ok (m\<lparr>pm_adaptiveEnabled := True\<rparr>)"

definition setForegroundFullPerformanceRequired :: "bool \<Rightarrow> bool \<Rightarrow> pm_op" where
  "setForegroundFullPerformanceRequired required ok m =
     (if pm_foregroundFull m = required then (m, [])
      else retryCpuPolicy ok (m\<lparr>pm_foregroundFull := required\<rparr>))"

definition setApplicationFullPerformanceRequired :: "bool \<Rightarrow> bool \<Rightarrow> pm_op" where
  "setApplicationFullPerformanceRequired required ok m =
     (if pm_applicationFull m = required then (m, [])
      else retryCpuPolicy ok (m\<lparr>pm_applicationFull := required\<rparr>))"

section \<open>Activity\<close>

definition saving_op :: "(power_saving, saving_effect) op \<Rightarrow> pm_op" where
  "saving_op f m = (case f (pm_saving m) of (s, fx) \<Rightarrow> (m\<lparr>pm_saving := s\<rparr>, map Saving fx))"

definition notifyActivity :: "u32 \<Rightarrow> bool \<Rightarrow> pm_op" where
  "notifyActivity now ok = do_all
     [saving_op (registerActivity now),
      (\<lambda>m. (m\<lparr>pm_radio := radio_notifyActivity (pm_radio m)\<rparr>, [])),
      retryCpuPolicy ok]"

definition keepAwake :: "u32 \<Rightarrow> bool \<Rightarrow> pm_op" where
  "keepAwake now ok = do_all [saving_op (registerActivity now), applyCpuPolicy ok]"

section \<open>Status LED and battery\<close>

definition applyStatusLedState :: "bool \<Rightarrow> bool \<Rightarrow> pm_op" where
  "applyStatusLedState enabled ok m =
     (if pm_ledEnabled m = enabled then (m, [])
      else if \<not> ok then (m, [SetStatusLed enabled False])
      else (m\<lparr>pm_ledEnabled := enabled\<rparr>, [SetStatusLed enabled True]))"

definition applyLowBatteryDisplayMode :: "bool \<Rightarrow> pm_op" where
  "applyLowBatteryDisplayMode enabled m =
     (if pm_lowBatteryDisplay m = enabled then (m, [])
      else (m\<lparr>pm_lowBatteryDisplay := enabled\<rparr>, [DisplayPowerSave enabled]))"

definition enableStatusLedPowerSaving :: "power_manager \<Rightarrow> power_manager" where
  "enableStatusLedPowerSaving m = m\<lparr>pm_ledSavingEnabled := True, pm_batteryPollStarted := False\<rparr>"

definition disableStatusLedPowerSaving :: "bool \<Rightarrow> pm_op" where
  "disableStatusLedPowerSaving ok m = applyStatusLedState True ok (m\<lparr>pm_ledSavingEnabled := False\<rparr>)"

definition enableLowBatteryShutdown :: "power_manager \<Rightarrow> power_manager" where
  "enableLowBatteryShutdown m =
     m\<lparr>pm_lowBatteryShutdownEnabled := True, pm_lowBattery := lb_reset (pm_lowBattery m),
       pm_batteryPollStarted := False\<rparr>"

definition disableLowBatteryShutdown :: pm_op where
  "disableLowBatteryShutdown m =
     applyLowBatteryDisplayMode False
       (m\<lparr>pm_lowBatteryShutdownEnabled := False, pm_lowBattery := lb_reset (pm_lowBattery m)\<rparr>)"

definition lowBatteryStep :: "pm_env \<Rightarrow> pm_op" where
  "lowBatteryStep e m =
     (case lb_update (fst (en_battery e)) (snd (en_battery e)) (en_now e) (pm_lowBattery m) of
        (decision, lb) \<Rightarrow>
          then_op (applyLowBatteryDisplayMode (confirmationActive lb))
            (\<lambda>m. if decision = LbShutdown then
                   (case shutdownIfOnBattery (en_lowShutdown e) (pm_saving m) of
                      (fx, ok) \<Rightarrow>
                        (if \<not> ok then m\<lparr>pm_lowBattery := lb_reset (pm_lowBattery m)\<rparr> else m,
                         map Saving fx))
                 else (m, []))
            (m\<lparr>pm_lowBattery := lb\<rparr>))"

definition updateBatteryPolicies :: "pm_env \<Rightarrow> pm_op" where
  "updateBatteryPolicies e m =
     (if \<not> pm_ledSavingEnabled m \<and> \<not> pm_lowBatteryShutdownEnabled m then (m, [])
      else if pm_batteryPollStarted m \<and> en_now e - pm_lastBatteryPollMs m < kBatteryPollIntervalMs
        then (m, [])
      else do_all
        [(\<lambda>m. if pm_ledSavingEnabled m then applyStatusLedState (snd (en_battery e)) (en_ledOk e) m
              else (m, [])),
         (\<lambda>m. if \<not> pm_lowBatteryShutdownEnabled m then (m, []) else lowBatteryStep e m)]
        (m\<lparr>pm_batteryPollStarted := True, pm_lastBatteryPollMs := en_now e\<rparr>))"

section \<open>The power button\<close>

definition button_sample :: "u32 \<Rightarrow> (bool \<times> bool) option \<Rightarrow> power_manager \<Rightarrow> power_manager" where
  "button_sample now sample m =
     (case sample of
        None \<Rightarrow> m\<lparr>pm_buttonReadFailed := True\<rparr>
      | Some (wasPressed, isPressed) \<Rightarrow>
          (let m = m\<lparr>pm_buttonReadFailed := False\<rparr>;
               m = (if wasPressed \<or> isPressed
                    then m\<lparr>pm_buttonDown := True, pm_buttonPressPending := False\<rparr> else m)
           in if pm_buttonDown m \<and> \<not> isPressed
              then m\<lparr>pm_buttonDown := False, pm_buttonPressPending := True, pm_buttonReleasedMs := now\<rparr>
              else m))"

definition button_poll :: "u32 \<Rightarrow> (bool \<times> bool) option \<Rightarrow> power_manager \<Rightarrow> power_manager" where
  "button_poll now sample m =
     (if \<not> pm_buttonPollStarted m \<or> now - pm_lastButtonPollMs m \<ge> kPowerButtonPollIntervalMs
      then button_sample now sample (m\<lparr>pm_buttonPollStarted := True, pm_lastButtonPollMs := now\<rparr>)
      else m)"

definition updatePowerButton :: "pm_env \<Rightarrow> power_manager \<Rightarrow> (power_manager \<times> pm_effect list) \<times> bool" where
  "updatePowerButton e m =
     (if \<not> pm_buttonSleepEnabled m then ((m, []), False)
      else let m = button_poll (en_now e) (en_button e) m in
        if \<not> pm_buttonPressPending m
           \<or> en_now e - pm_buttonReleasedMs m < kPowerButtonDoubleClickWindowMs + kPowerButtonPollIntervalMs
        then ((m, []), False)
        else (case shutdown (en_buttonShutdown e) (pm_saving m) of
                (fx, ok) \<Rightarrow> ((m\<lparr>pm_buttonPressPending := False\<rparr>, map Saving fx), ok)))"

definition disablePowerButtonSleep :: "power_manager \<Rightarrow> power_manager" where
  "disablePowerButtonSleep m =
     m\<lparr>pm_buttonSleepEnabled := False, pm_buttonDown := False, pm_buttonPressPending := False\<rparr>"

section \<open>The scale radio\<close>

definition radioInputs :: "u32 \<Rightarrow> scale_view \<Rightarrow> power_manager \<Rightarrow> radio_inputs" where
  "radioInputs now v m =
     \<lparr>ri_service = serviceState (vw_state v), ri_controller = vw_controller v, ri_nowMs = now,
      ri_screenDimmed = sv_screenDimmed (pm_saving m), ri_connectWanted = vw_connectWanted v,
      ri_diagnosticScanWanted = vw_diagnosticScanWanted v\<rparr>"

text \<open>\<open>kFailureCodes\<close>, as the numbers of \<open>diagnostics::BleFailureCode\<close> (Connect = 0, ...).\<close>

fun failureCode :: "FailureArea \<Rightarrow> nat" where
  "failureCode ServiceStop = 3"
| "failureCode ControllerStop = 4"
| "failureCode ControllerStart = 5"
| "failureCode ControllerUnusable = 6"

definition reportRadioEvent :: "radio_event \<Rightarrow> u32 \<Rightarrow> bool \<Rightarrow> pm_op" where
  "reportRadioEvent ev now connectWanted m =
     (case re_kind ev of
        NoEvent \<Rightarrow> (m, [])
      | StopStarted \<Rightarrow> (m\<lparr>pm_wakeStartedMs := 0, pm_awaitingScale := False\<rparr>, [])
      | EvControllerStopped \<Rightarrow> (m, [])
      | WakeRequested \<Rightarrow> (m\<lparr>pm_wakeStartedMs := now\<rparr>, [])
      | ControllerRestarted \<Rightarrow> (m\<lparr>pm_awaitingScale := connectWanted\<rparr>, [])
      | EvFailure \<Rightarrow> (m, [PushNetFailure (failureCode (re_failureArea ev)) (re_reason ev)]))"

fun pm_chain :: "nat \<Rightarrow> pm_env \<Rightarrow> radio_decision \<Rightarrow> pm_op" where
  "pm_chain 0 e d m = (m, [])"
| "pm_chain (Suc k) e d m =
     then_op (reportRadioEvent (rd_event d) (en_now e) (en_connectWanted e k))
       (\<lambda>m. case rd_action d of
          NoAction \<Rightarrow> (m, [])
        | StopController \<Rightarrow>
            (case radio_resolve StopController (fst (en_chain e k))
                    (radioInputs (en_now e) (snd (en_chain e k)) m) (pm_radio m) of
               (d', r) \<Rightarrow> (case pm_chain k e d' (m\<lparr>pm_radio := r\<rparr>) of
                  (m', fx) \<Rightarrow> (m', RequestControllerStop (fst (en_chain e k)) # fx)))
        | StartController \<Rightarrow>
            (case radio_resolve StartController (fst (en_chain e k))
                    (radioInputs (en_now e) (snd (en_chain e k)) m) (pm_radio m) of
               (d', r) \<Rightarrow> (case pm_chain k e d' (m\<lparr>pm_radio := r\<rparr>) of
                  (m', fx) \<Rightarrow> (m', RequestControllerStart (fst (en_chain e k)) # fx)))) m"

definition pm_applyRadioDecision :: "pm_env \<Rightarrow> radio_decision \<Rightarrow> pm_op" where
  "pm_applyRadioDecision e d = pm_chain kDecisionCycleLimit e d"

definition applyRadioSuspension :: pm_op where
  "applyRadioSuspension m =
     (let suspended = wantsServiceSuspended (pm_radio m) in
      if suspended = pm_appliedSuspended m then (m, [])
      else (m\<lparr>pm_appliedSuspended := suspended\<rparr>, [SetPowerSuspended suspended]))"

definition refreshRadioStatus :: "u32 \<Rightarrow> scale_view \<Rightarrow> pm_op" where
  "refreshRadioStatus now v m =
     (let i = radioInputs now v m;
          shouldRun = radioTarget (rm_policy (pm_radio m)) (conditionsOf i);
          failed = hasFailed (pm_radio m);
          atTarget = (if shouldRun then ri_controller i = Running else ri_controller i = Stopped)
      in (m\<lparr>pm_radioStatus := \<lparr>rs_policy = rm_policy (pm_radio m), rs_controller = ri_controller i,
              rs_shouldRun = shouldRun,
              rs_settled = (\<not> failed \<and> \<not> inTransition (pm_radio m) \<and> atTarget),
              rs_failed = failed\<rparr>\<rparr>, []))"

definition reportScaleReadyAfterWake :: "BleScaleState \<Rightarrow> pm_op" where
  "reportScaleReadyAfterWake st m =
     (if \<not> pm_awaitingScale m then (m, [])
      else if serviceState st \<noteq> Ready then (m, [])
      else (m\<lparr>pm_awaitingScale := False\<rparr>, []))"

definition setScaleRadioPolicy :: "ScaleRadioPolicy \<Rightarrow> pm_env \<Rightarrow> power_manager \<Rightarrow> (power_manager \<times> pm_effect list) \<times> bool" where
  "setScaleRadioPolicy policy e m =
     (if policy = ExternalControl \<and> rm_policy (pm_radio m) \<noteq> ExternalControl
         \<and> ri_controller (radioInputs (en_now e) (en_view e) m) \<noteq> Running then ((m, []), False)
      else case radio_setPolicy policy (pm_radio m) of
        (ok, r) \<Rightarrow>
          if \<not> ok then ((m\<lparr>pm_radio := r\<rparr>, []), False)
          else (do_all [applyRadioSuspension, refreshRadioStatus (en_now e) (en_statusView e)]
                  (m\<lparr>pm_radio := r\<rparr>), True))"

section \<open>The main loop's call\<close>

definition pm_step_radio :: "pm_env \<Rightarrow> pm_op" where
  "pm_step_radio e m =
     (case radio_update (radioInputs (en_now e) (en_view e) m) (pm_radio m) of
        (d, r) \<Rightarrow> pm_applyRadioDecision e d (m\<lparr>pm_radio := r\<rparr>))"

definition pm_policies :: "pm_env \<Rightarrow> pm_op" where
  "pm_policies e = do_all
     [saving_op (saving_update (en_saving e)), applyCpuPolicy (en_cpuOk e), updateBatteryPolicies e,
      (\<lambda>m. (m, [SpeakerTick (en_now e)]))]"

definition pm_service_policies :: "pm_env \<Rightarrow> pm_op" where
  "pm_service_policies e m =
     (if \<not> en_serviceStarted e then (m, [])
      else do_all [pm_step_radio e, applyRadioSuspension,
                   refreshRadioStatus (en_now e) (en_statusView e),
                   reportScaleReadyAfterWake (en_readyState e)] m)"

definition pm_update :: "pm_env \<Rightarrow> pm_op" where
  "pm_update e m =
     (case updatePowerButton e m of
        ((m', fx), slept) \<Rightarrow>
          if slept then (m', fx)
          else (case then_op (pm_policies e) (pm_service_policies e) m' of (m'', fx') \<Rightarrow> (m'', fx @ fx')))"

definition disableIdlePowerSaving :: "bool \<Rightarrow> bool \<Rightarrow> pm_op" where
  "disableIdlePowerSaving cpuOk ledOk = do_all
     [(\<lambda>m. (m\<lparr>pm_saving := disableAutoPowerOff (disableScreenDimming (pm_saving m))\<rparr>, [])),
      disableAdaptivePerformance cpuOk, disableStatusLedPowerSaving ledOk, disableLowBatteryShutdown]"

definition pm_setScreenDimmingTimeoutSeconds :: "i32 \<Rightarrow> power_manager \<Rightarrow> power_manager" where
  "pm_setScreenDimmingTimeoutSeconds s m =
     m\<lparr>pm_saving := setScreenDimmingTimeoutSeconds s (pm_saving m)\<rparr>"

definition pm_setPreSleepCallback :: "bool \<Rightarrow> power_manager \<Rightarrow> power_manager" where
  "pm_setPreSleepCallback cb m = m\<lparr>pm_saving := setPreSleepCallback cb (pm_saving m)\<rparr>"

section \<open>What each policy touches\<close>

text \<open>The radio, the saving policy and the button are independent; these lemmas say what is left alone.\<close>

lemma applyCpuPolicy_frame [simp]:
  "pm_saving (fst (applyCpuPolicy ok m)) = pm_saving m"
  "pm_radio (fst (applyCpuPolicy ok m)) = pm_radio m"
  "pm_lowBattery (fst (applyCpuPolicy ok m)) = pm_lowBattery m"
  "pm_appliedSuspended (fst (applyCpuPolicy ok m)) = pm_appliedSuspended m"
  by (simp_all add: applyCpuPolicy_def Let_def)

lemma saving_op_frame [simp]:
  "pm_saving (fst (saving_op f m)) = fst (f (pm_saving m))"
  "pm_radio (fst (saving_op f m)) = pm_radio m"
  "pm_lowBattery (fst (saving_op f m)) = pm_lowBattery m"
  "pm_appliedSuspended (fst (saving_op f m)) = pm_appliedSuspended m"
  "snd (saving_op f m) = map Saving (snd (f (pm_saving m)))"
  by (simp_all add: saving_op_def split: prod.splits)

lemma lowBattery_display_frame [simp]:
  "pm_saving (fst (applyLowBatteryDisplayMode b m)) = pm_saving m"
  "pm_radio (fst (applyLowBatteryDisplayMode b m)) = pm_radio m"
  "pm_appliedSuspended (fst (applyLowBatteryDisplayMode b m)) = pm_appliedSuspended m"
  by (simp_all add: applyLowBatteryDisplayMode_def)

lemma statusLed_frame [simp]:
  "pm_saving (fst (applyStatusLedState b ok m)) = pm_saving m"
  "pm_radio (fst (applyStatusLedState b ok m)) = pm_radio m"
  "pm_lowBattery (fst (applyStatusLedState b ok m)) = pm_lowBattery m"
  "pm_lowBatteryShutdownEnabled (fst (applyStatusLedState b ok m)) = pm_lowBatteryShutdownEnabled m"
  "pm_appliedSuspended (fst (applyStatusLedState b ok m)) = pm_appliedSuspended m"
  by (simp_all add: applyStatusLedState_def)

lemma lowBatteryStep_frame [simp]:
  "pm_saving (fst (lowBatteryStep e m)) = pm_saving m"
  "pm_radio (fst (lowBatteryStep e m)) = pm_radio m"
  "pm_appliedSuspended (fst (lowBatteryStep e m)) = pm_appliedSuspended m"
  by (simp_all add: lowBatteryStep_def split: prod.splits)

lemma updateBatteryPolicies_frame [simp]:
  "pm_saving (fst (updateBatteryPolicies e m)) = pm_saving m"
  "pm_radio (fst (updateBatteryPolicies e m)) = pm_radio m"
  "pm_appliedSuspended (fst (updateBatteryPolicies e m)) = pm_appliedSuspended m"
  by (simp_all add: updateBatteryPolicies_def)

lemma button_poll_frame [simp]:
  "pm_saving (button_poll now smp m) = pm_saving m"
  "pm_radio (button_poll now smp m) = pm_radio m"
  "pm_lowBattery (button_poll now smp m) = pm_lowBattery m"
  "pm_appliedSuspended (button_poll now smp m) = pm_appliedSuspended m"
  "pm_buttonSleepEnabled (button_poll now smp m) = pm_buttonSleepEnabled m"
  by (simp_all add: button_poll_def button_sample_def Let_def split: option.splits prod.splits)

lemma updatePowerButton_frame [simp]:
  "pm_saving (fst (fst (updatePowerButton e m))) = pm_saving m"
  "pm_radio (fst (fst (updatePowerButton e m))) = pm_radio m"
  "pm_lowBattery (fst (fst (updatePowerButton e m))) = pm_lowBattery m"
  "pm_appliedSuspended (fst (fst (updatePowerButton e m))) = pm_appliedSuspended m"
  "pm_buttonSleepEnabled (fst (fst (updatePowerButton e m))) = pm_buttonSleepEnabled m"
  by (simp_all add: updatePowerButton_def Let_def split: prod.splits)

lemma pm_policies_frame [simp]:
  "pm_radio (fst (pm_policies e m)) = pm_radio m"
  "pm_appliedSuspended (fst (pm_policies e m)) = pm_appliedSuspended m"
  by (simp_all add: pm_policies_def)

lemma reportRadioEvent_frame [simp]:
  "pm_radio (fst (reportRadioEvent ev now w m)) = pm_radio m"
  "pm_saving (fst (reportRadioEvent ev now w m)) = pm_saving m"
  "pm_appliedSuspended (fst (reportRadioEvent ev now w m)) = pm_appliedSuspended m"
  by (simp_all add: reportRadioEvent_def split: RadioEventKind.splits)

text \<open>The chain with its effects runs the machine's decision chain of the radio component.\<close>

lemma pm_chain_radio:
  "pm_radio (fst (pm_chain k e d m)) =
     snd (snd (decision_chain k (\<lambda>k. (fst (en_chain e k), radioInputs (en_now e) (snd (en_chain e k)) m)) d (pm_radio m)))
   \<and> pm_saving (fst (pm_chain k e d m)) = pm_saving m
   \<and> pm_appliedSuspended (fst (pm_chain k e d m)) = pm_appliedSuspended m"
proof (induction k arbitrary: d m)
  case 0
  then show ?case by simp
next
  case (Suc k)
  have inputs: "radioInputs now v (fst (reportRadioEvent ev t w m)) = radioInputs now v m"
    "radioInputs now v (m'\<lparr>pm_radio := r\<rparr>) = radioInputs now v m'" for now v ev t w m' r
    by (simp_all add: radioInputs_def)
  show ?case
  proof (cases "rd_action d = NoAction")
    case True
    then show ?thesis by simp
  next
    case False
    let ?m1 = "fst (reportRadioEvent (rd_event d) (en_now e) (en_connectWanted e k) m)"
    obtain d' r where res: "radio_resolve (rd_action d) (fst (en_chain e k))
        (radioInputs (en_now e) (snd (en_chain e k)) m) (pm_radio m) = (d', r)"
      by (metis surj_pair)
    with False have "fst (pm_chain (Suc k) e d m) = fst (pm_chain k e d' (?m1\<lparr>pm_radio := r\<rparr>))"
      by (cases "rd_action d") (simp_all add: inputs del: radio_resolve.simps split: prod.splits)
    moreover have "snd (snd (decision_chain (Suc k) (\<lambda>k. (fst (en_chain e k), radioInputs (en_now e) (snd (en_chain e k)) m)) d (pm_radio m)))
        = snd (snd (decision_chain k (\<lambda>k. (fst (en_chain e k), radioInputs (en_now e) (snd (en_chain e k)) m)) d' r))"
      using False res by (simp split: prod.splits)
    ultimately show ?thesis
      using Suc.IH [of d' "?m1\<lparr>pm_radio := r\<rparr>"] by (simp add: inputs)
  qed
qed

section \<open>The calls, as a machine\<close>

datatype pm_call =
    CallUpdate pm_env
  | CallPolicy ScaleRadioPolicy pm_env
  | CallActivity u32 bool
  | CallKeepAwake u32 bool
  | CallForeground bool bool
  | CallApplication bool bool
  | CallEnableAdaptive bool
  | CallEnableLed
  | CallEnableLowBattery
  | CallDisableIdle bool bool
  | CallDisableButton
  | CallDimTimeout i32
  | CallPreSleep bool

fun pm_step :: "power_manager \<Rightarrow> pm_call \<Rightarrow> power_manager \<times> pm_effect list" where
  "pm_step m (CallUpdate e) = pm_update e m"
| "pm_step m (CallPolicy p e) = fst (setScaleRadioPolicy p e m)"
| "pm_step m (CallActivity now ok) = notifyActivity now ok m"
| "pm_step m (CallKeepAwake now ok) = keepAwake now ok m"
| "pm_step m (CallForeground b ok) = setForegroundFullPerformanceRequired b ok m"
| "pm_step m (CallApplication b ok) = setApplicationFullPerformanceRequired b ok m"
| "pm_step m (CallEnableAdaptive ok) = enableAdaptivePerformance ok m"
| "pm_step m CallEnableLed = (enableStatusLedPowerSaving m, [])"
| "pm_step m CallEnableLowBattery = (enableLowBatteryShutdown m, [])"
| "pm_step m (CallDisableIdle cpuOk ledOk) = disableIdlePowerSaving cpuOk ledOk m"
| "pm_step m CallDisableButton = (disablePowerButtonSleep m, [])"
| "pm_step m (CallDimTimeout s) = (pm_setScreenDimmingTimeoutSeconds s m, [])"
| "pm_step m (CallPreSleep cb) = (pm_setPreSleepCallback cb m, [])"

section \<open>Suspension of the scale service\<close>

definition pm_in_step :: "power_manager \<Rightarrow> bool" where
  "pm_in_step m \<longleftrightarrow> radio_coherent (pm_radio m)
                  \<and> pm_appliedSuspended m = wantsServiceSuspended (pm_radio m)"

text \<open>A monitor of the effects: what the service was last told, and whether requests respect it.\<close>

fun told :: "bool \<Rightarrow> pm_effect list \<Rightarrow> bool" where
  "told b [] = b"
| "told b (SetPowerSuspended s # fx) = told s fx"
| "told b (_ # fx) = told b fx"

fun requests_guarded :: "bool \<Rightarrow> pm_effect list \<Rightarrow> bool" where
  "requests_guarded b [] = True"
| "requests_guarded b (SetPowerSuspended s # fx) = requests_guarded s fx"
| "requests_guarded b (RequestControllerStop ok # fx) = (b \<and> requests_guarded b fx)"
| "requests_guarded b (RequestControllerStart ok # fx) = (b \<and> requests_guarded b fx)"
| "requests_guarded b (_ # fx) = requests_guarded b fx"

lemma told_append [simp]: "told b (xs @ ys) = told (told b xs) ys"
  by (induction b xs rule: told.induct) auto

lemma requests_guarded_append [simp]:
  "requests_guarded b (xs @ ys) \<longleftrightarrow> requests_guarded b xs \<and> requests_guarded (told b xs) ys"
  by (induction b xs rule: requests_guarded.induct) auto

text \<open>Most effects have nothing to do with the radio.\<close>

fun about_radio :: "pm_effect \<Rightarrow> bool" where
  "about_radio (SetPowerSuspended b) = True"
| "about_radio (RequestControllerStop b) = True"
| "about_radio (RequestControllerStart b) = True"
| "about_radio _ = False"

definition silent :: "pm_effect list \<Rightarrow> bool" where
  "silent fx \<longleftrightarrow> list_all (\<lambda>x. \<not> about_radio x) fx"

lemma silent_simps [simp]:
  "silent []" "silent (x # fx) \<longleftrightarrow> \<not> about_radio x \<and> silent fx"
  "silent (xs @ ys) \<longleftrightarrow> silent xs \<and> silent ys" "silent (map Saving sx)"
  by (auto simp: silent_def list_all_iff)

lemma silent_told: "silent fx \<Longrightarrow> told b fx = b \<and> requests_guarded b fx"
proof (induction fx)
  case Nil
  then show ?case by simp
next
  case (Cons x fx)
  then show ?case by (cases x) auto
qed

lemma silent_ops [simp]:
  "silent (snd (applyCpuPolicy ok m))"
  "silent (snd (retryCpuPolicy ok m))"
  "silent (snd (saving_op f m))"
  "silent (snd (applyStatusLedState b ok m))"
  "silent (snd (applyLowBatteryDisplayMode b m))"
  "silent (snd (lowBatteryStep e m))"
  "silent (snd (updateBatteryPolicies e m))"
  "silent (snd (fst (updatePowerButton e m)))"
  "silent (snd (pm_policies e m))"
  "silent (snd (reportRadioEvent ev now w m))"
  "silent (snd (refreshRadioStatus now v m))"
  "silent (snd (reportScaleReadyAfterWake st m))"
proof -
  show cpu: "silent (snd (applyCpuPolicy ok m))" for m by (simp add: applyCpuPolicy_def Let_def)
  show "silent (snd (retryCpuPolicy ok m))" by (simp add: retryCpuPolicy_def cpu)
  show sv: "silent (snd (saving_op f m))" for f m by simp
  show led: "silent (snd (applyStatusLedState b ok m))" for b ok m by (simp add: applyStatusLedState_def)
  show disp: "silent (snd (applyLowBatteryDisplayMode b m))" for b m
    by (simp add: applyLowBatteryDisplayMode_def)
  show low: "silent (snd (lowBatteryStep e m))" for m
    by (simp add: lowBatteryStep_def disp split: prod.splits)
  show bat: "silent (snd (updateBatteryPolicies e m))" for m
    by (simp add: updateBatteryPolicies_def low led)
  show "silent (snd (fst (updatePowerButton e m)))"
    by (simp add: updatePowerButton_def Let_def split: prod.splits)
  show "silent (snd (pm_policies e m))"
    using cpu by (simp add: pm_policies_def bat applyCpuPolicy_def Let_def)
  show "silent (snd (reportRadioEvent ev now w m))"
    by (simp add: reportRadioEvent_def split: RadioEventKind.splits)
  show "silent (snd (refreshRadioStatus now v m))" by (simp add: refreshRadioStatus_def Let_def)
  show "silent (snd (reportScaleReadyAfterWake st m))" by (simp add: reportScaleReadyAfterWake_def)
qed

text \<open>Within an update only a machine that already wanted the service suspended makes a request.\<close>

lemma radio_update_request_suspended:
  assumes "radio_coherent m" "radio_update i m = (d, m')" "rd_action d \<noteq> NoAction"
  shows "wantsServiceSuspended m"
  using assms
  by (cases "rm_state m"; cases "ri_controller i")
    (auto simp: radio_update_defs radio_coherent_def decision_defs Let_def wantsServiceSuspended_def
       radio_fail_def ct_update_pending split: if_splits prod.splits)

lemma pm_chain_quiet:
  "rd_action d = NoAction \<Longrightarrow> silent (snd (pm_chain k e d m))"
  by (cases k) simp_all

lemma pm_chain_guarded:
  assumes "rd_action d \<noteq> NoAction \<Longrightarrow> radio_requested (rd_action d) (pm_radio m) \<and> b"
  shows "told b (snd (pm_chain k e d m)) = b \<and> requests_guarded b (snd (pm_chain k e d m))"
proof (cases "rd_action d = NoAction")
  case True
  then show ?thesis using pm_chain_quiet silent_told by blast
next
  case False
  show ?thesis
  proof (cases k)
    case 0
    then show ?thesis by simp
  next
    case (Suc j)
    let ?m1 = "fst (reportRadioEvent (rd_event d) (en_now e) (en_connectWanted e j) m)"
    obtain d' r where res: "radio_resolve (rd_action d) (fst (en_chain e j))
        (radioInputs (en_now e) (snd (en_chain e j)) ?m1) (pm_radio m) = (d', r)"
      by (metis surj_pair)
    with False assms have "rd_action d' = NoAction" using radio_resolve_coherent by blast
    then have q: "silent (snd (pm_chain j e d' m'))" for m' by (rule pm_chain_quiet)
    have "b" using assms False by simp
    have "snd (pm_chain k e d m) = snd (reportRadioEvent (rd_event d) (en_now e) (en_connectWanted e j) m)
        @ (if rd_action d = StopController then RequestControllerStop (fst (en_chain e j))
           else RequestControllerStart (fst (en_chain e j)))
        # snd (pm_chain j e d' (?m1\<lparr>pm_radio := r\<rparr>))"
      using False res Suc by (cases "rd_action d") (simp_all del: radio_resolve.simps split: prod.splits)
    then show ?thesis
      using silent_told [OF q] silent_told [OF silent_ops(10)] \<open>b\<close> by simp
  qed
qed

lemma pm_in_step_frame:
  "pm_radio m' = pm_radio m \<Longrightarrow> pm_appliedSuspended m' = pm_appliedSuspended m
     \<Longrightarrow> pm_in_step m \<Longrightarrow> pm_in_step m'"
  by (simp add: pm_in_step_def)

lemma refreshRadioStatus_frame [simp]:
  "pm_radio (fst (refreshRadioStatus now v m)) = pm_radio m"
  "pm_appliedSuspended (fst (refreshRadioStatus now v m)) = pm_appliedSuspended m"
  "pm_radio (fst (reportScaleReadyAfterWake st m)) = pm_radio m"
  "pm_appliedSuspended (fst (reportScaleReadyAfterWake st m)) = pm_appliedSuspended m"
  by (simp_all add: refreshRadioStatus_def reportScaleReadyAfterWake_def Let_def)

text \<open>What every call owes the scale service.\<close>

definition pm_honest :: "power_manager \<Rightarrow> power_manager \<times> pm_effect list \<Rightarrow> bool" where
  "pm_honest m r \<longleftrightarrow> pm_in_step (fst r) \<and> told (pm_appliedSuspended m) (snd r) = pm_appliedSuspended (fst r)
                   \<and> requests_guarded (pm_appliedSuspended m) (snd r)"

lemma pm_honest_silent:
  assumes "pm_in_step m" "silent (snd r)" "pm_radio (fst r) = pm_radio m"
    "pm_appliedSuspended (fst r) = pm_appliedSuspended m"
  shows "pm_honest m r"
  using assms silent_told [OF assms(2)] by (simp add: pm_honest_def pm_in_step_def)

lemma applyRadioSuspension_honest:
  assumes "radio_coherent (pm_radio m)"
  shows "pm_in_step (fst (applyRadioSuspension m))"
    and "told (pm_appliedSuspended m) (snd (applyRadioSuspension m)) = pm_appliedSuspended (fst (applyRadioSuspension m))"
    and "requests_guarded b (snd (applyRadioSuspension m))"
  using assms by (auto simp: applyRadioSuspension_def Let_def pm_in_step_def)

lemma pm_step_radio_coherent:
  assumes "radio_coherent (pm_radio m)"
  shows "radio_coherent (pm_radio (fst (pm_step_radio e m)))"
    and "pm_appliedSuspended (fst (pm_step_radio e m)) = pm_appliedSuspended m"
proof -
  obtain d r where u: "radio_update (radioInputs (en_now e) (en_view e) m) (pm_radio m) = (d, r)"
    by (metis surj_pair)
  let ?env = "\<lambda>k. (fst (en_chain e k), radioInputs (en_now e) (snd (en_chain e k)) (m\<lparr>pm_radio := r\<rparr>))"
  note chain = pm_chain_radio [of kDecisionCycleLimit e d "m\<lparr>pm_radio := r\<rparr>"]
  have "pm_radio (fst (pm_step_radio e m))
      = fst (radio_step (pm_radio m) (OpUpdate (radioInputs (en_now e) (en_view e) m) ?env))"
    using chain u by (simp add: pm_step_radio_def pm_applyRadioDecision_def applyRadioDecision_def split: prod.splits)
  then show "radio_coherent (pm_radio (fst (pm_step_radio e m)))"
    by (simp only: radio_step_coherent [OF assms])
  show "pm_appliedSuspended (fst (pm_step_radio e m)) = pm_appliedSuspended m"
    using chain u by (simp add: pm_step_radio_def pm_applyRadioDecision_def)
qed

lemma pm_step_radio_guarded:
  assumes "pm_in_step m"
  shows "told (pm_appliedSuspended m) (snd (pm_step_radio e m)) = pm_appliedSuspended m
       \<and> requests_guarded (pm_appliedSuspended m) (snd (pm_step_radio e m))"
proof -
  obtain d r where u: "radio_update (radioInputs (en_now e) (en_view e) m) (pm_radio m) = (d, r)"
    by (metis surj_pair)
  have c: "radio_coherent (pm_radio m)" using assms by (simp add: pm_in_step_def)
  have "radio_requested (rd_action d) r \<and> pm_appliedSuspended m" if "rd_action d \<noteq> NoAction"
    using radio_update_coherent [OF c u] radio_update_request_suspended [OF c u that] that assms
    by (auto simp: pm_in_step_def)
  then show ?thesis
    using pm_chain_guarded [of d "m\<lparr>pm_radio := r\<rparr>" "pm_appliedSuspended m" kDecisionCycleLimit e] u
    by (simp add: pm_step_radio_def pm_applyRadioDecision_def)
qed

lemma pm_service_honest:
  assumes "pm_in_step m"
  shows "pm_honest m (pm_service_policies e m)"
proof (cases "en_serviceStarted e")
  case False
  with assms show ?thesis by (simp add: pm_service_policies_def pm_honest_def)
next
  case True
  have c: "radio_coherent (pm_radio m)" using assms by (simp add: pm_in_step_def)
  note r = pm_step_radio_coherent [OF c, of e] and g = pm_step_radio_guarded [OF assms, of e]
  let ?m1 = "fst (pm_step_radio e m)"
  note a = applyRadioSuspension_honest [OF r(1)]
  have s: "silent (snd (refreshRadioStatus (en_now e) (en_statusView e) (fst (applyRadioSuspension ?m1)))
      @ snd (reportScaleReadyAfterWake (en_readyState e)
          (fst (refreshRadioStatus (en_now e) (en_statusView e) (fst (applyRadioSuspension ?m1))))))"
    by simp
  from silent_told [OF s] True a r g show ?thesis
    by (auto simp: pm_service_policies_def pm_honest_def pm_in_step_def)
qed

lemma pm_update_honest:
  assumes "pm_in_step m"
  shows "pm_honest m (pm_update e m)"
proof -
  obtain m1 fx1 slept where b: "updatePowerButton e m = ((m1, fx1), slept)" by (metis surj_pair)
  have q: "silent fx1" "pm_radio m1 = pm_radio m" "pm_appliedSuspended m1 = pm_appliedSuspended m"
    using silent_ops(8) [of e m] updatePowerButton_frame(2,4) [of e m] b by simp_all
  show ?thesis
  proof (cases slept)
    case True
    with b q assms show ?thesis by (auto simp: pm_update_def intro: pm_honest_silent)
  next
    case False
    obtain m2 fx2 m3 fx3 where p: "pm_policies e m1 = (m2, fx2)" "pm_service_policies e m2 = (m3, fx3)"
      by (metis surj_pair)
    have m2: "silent fx2" "pm_radio m2 = pm_radio m" "pm_appliedSuspended m2 = pm_appliedSuspended m"
      using silent_ops(9) [of e m1] pm_policies_frame [of e m1] p q by simp_all
    then have "pm_in_step m2" using assms by (simp add: pm_in_step_def)
    from pm_service_honest [OF this, of e] p m2 have "pm_in_step m3"
      "told (pm_appliedSuspended m) fx3 = pm_appliedSuspended m3" "requests_guarded (pm_appliedSuspended m) fx3"
      by (simp_all add: pm_honest_def)
    moreover have "pm_update e m = (m3, fx1 @ fx2 @ fx3)"
      using b p False by (simp add: pm_update_def then_op_def)
    ultimately show ?thesis
      using silent_told [OF q(1)] silent_told [OF m2(1)] by (simp add: pm_honest_def)
  qed
qed

lemma setScaleRadioPolicy_honest:
  assumes "pm_in_step m"
  shows "pm_honest m (fst (setScaleRadioPolicy p e m))"
proof -
  obtain ok r where u: "radio_setPolicy p (pm_radio m) = (ok, r)" by (metis surj_pair)
  have c: "radio_coherent r" "wantsServiceSuspended r = wantsServiceSuspended (pm_radio m)"
    using radio_setPolicy_coherent [of "pm_radio m" p] u assms
    by (auto simp: pm_in_step_def radio_setPolicy_def wantsServiceSuspended_def split: if_splits)
  with u assms show ?thesis
    by (auto simp: setScaleRadioPolicy_def pm_honest_def pm_in_step_def applyRadioSuspension_def
        refreshRadioStatus_def Let_def)
qed

lemma notifyActivity_honest:
  assumes "pm_in_step m"
  shows "pm_honest m (notifyActivity now ok m)"
proof -
  have w: "wantsServiceSuspended (radio_notifyActivity r) = wantsServiceSuspended r" for r
    by (simp add: radio_notifyActivity_def wantsServiceSuspended_def)
  have "silent (snd (notifyActivity now ok m))" by (simp add: notifyActivity_def)
  from silent_told [OF this] assms show ?thesis
    by (simp add: pm_honest_def notifyActivity_def retryCpuPolicy_def pm_in_step_def w radio_notify_coherent)
qed

lemmas pm_setting_defs = keepAwake_def
  setForegroundFullPerformanceRequired_def setApplicationFullPerformanceRequired_def
  enableAdaptivePerformance_def retryCpuPolicy_def enableStatusLedPowerSaving_def
  enableLowBatteryShutdown_def disableIdlePowerSaving_def disableAdaptivePerformance_def
  disableStatusLedPowerSaving_def disableLowBatteryShutdown_def disablePowerButtonSleep_def
  pm_setScreenDimmingTimeoutSeconds_def pm_setPreSleepCallback_def

lemma pm_step_honest: "pm_in_step m \<Longrightarrow> pm_honest m (pm_step m c)"
proof (cases c)
  case (CallUpdate e)
  then show "pm_in_step m \<Longrightarrow> ?thesis" by (simp add: pm_update_honest)
next
  case (CallPolicy p e)
  then show "pm_in_step m \<Longrightarrow> ?thesis" by (simp add: setScaleRadioPolicy_honest)
next
  case (CallActivity now ok)
  then show "pm_in_step m \<Longrightarrow> ?thesis" by (simp add: notifyActivity_honest)
qed (erule pm_honest_silent; simp add: pm_setting_defs)+

interpretation pm: invariant_machine pm_step pm_in_step "pm_init t0"
  by unfold_locales
    (use pm_step_honest in \<open>auto simp: pm_honest_def pm_in_step_def pm_init_def radio_init_coherent
       wantsServiceSuspended_def, simp add: radio_init_def\<close>)

lemma pm_trace_honest:
  "pm_in_step m \<Longrightarrow> requests_guarded (pm_appliedSuspended m) (concat (outputs pm_step m cs))
     \<and> told (pm_appliedSuspended m) (concat (outputs pm_step m cs)) = pm_appliedSuspended (run pm_step m cs)"
proof (induction cs arbitrary: m)
  case Nil
  then show ?case by simp
next
  case (Cons c cs)
  then show ?case using pm_step_honest [OF Cons.prems, of c] by (simp add: pm_honest_def)
qed

text \<open>C39: over any calls from boot, the scale service has at every moment been told to suspend exactly
  when the radio machine wants it to, and every request to stop or start the controller is
  made only while the service has already been told to be suspended.\<close>

theorem pm_suspends_before_requests:
  "requests_guarded False (concat (outputs pm_step (pm_init t0) cs))
   \<and> told False (concat (outputs pm_step (pm_init t0) cs)) = wantsServiceSuspended (pm_radio (run pm_step (pm_init t0) cs))"
proof -
  have "pm_appliedSuspended (pm_init t0) = False" by (simp add: pm_init_def)
  with pm_trace_honest [OF pm.inv_init, of t0 cs] pm.inv_reach [of t0 cs] show ?thesis
    by (simp add: pm_in_step_def)
qed

section \<open>Powering off\<close>

fun cuts :: "pm_effect \<Rightarrow> bool" where
  "cuts (Saving x) = cuts_power x"
| "cuts _ = False"

lemma cuts_map [simp]: "list_ex cuts (map Saving fx) = list_ex cuts_power fx"
  by (induction fx) auto

lemma cuts_ops [simp]:
  "\<not> list_ex cuts (snd (applyCpuPolicy ok m))"
  "\<not> list_ex cuts (snd (applyStatusLedState b ok m))"
  "\<not> list_ex cuts (snd (applyLowBatteryDisplayMode b m))"
  "\<not> list_ex cuts (snd (reportRadioEvent ev now w m))"
  by (simp_all add: applyCpuPolicy_def Let_def applyStatusLedState_def applyLowBatteryDisplayMode_def
      reportRadioEvent_def split: RadioEventKind.splits)

lemma cuts_chain [simp]: "\<not> list_ex cuts (snd (pm_chain k e d m))"
proof (induction k arbitrary: d m)
  case 0
  then show ?case by simp
next
  case (Suc k)
  then show ?case
    by (cases "rd_action d") (simp_all del: radio_resolve.simps split: prod.splits, (metis snd_conv)+)
qed

lemma cuts_service [simp]: "\<not> list_ex cuts (snd (pm_service_policies e m))"
  by (simp add: pm_service_policies_def pm_step_radio_def pm_applyRadioDecision_def
      applyRadioSuspension_def refreshRadioStatus_def reportScaleReadyAfterWake_def Let_def
      del: radio_resolve.simps split: prod.splits)

lemma performShutdown_true [simp]: "snd (performShutdown e p)"
  by (simp add: performShutdown_def)

lemma cuts_lowBattery:
  assumes "list_ex cuts (snd (lowBatteryStep e m))"
  shows "fst (lb_update (fst (en_battery e)) (snd (en_battery e)) (en_now e) (pm_lowBattery m)) = LbShutdown
       \<and> \<not> se_hasExternalPower (en_lowShutdown e)"
  using assms by (auto simp: lowBatteryStep_def shutdownIfOnBattery_def split: prod.splits if_splits)

lemma cuts_battery:
  assumes "list_ex cuts (snd (updateBatteryPolicies e m))"
  shows "pm_lowBatteryShutdownEnabled m
       \<and> fst (lb_update (fst (en_battery e)) (snd (en_battery e)) (en_now e) (pm_lowBattery m)) = LbShutdown
       \<and> \<not> se_hasExternalPower (en_lowShutdown e)"
  using assms
  by (auto simp: updateBatteryPolicies_def dest: cuts_lowBattery split: if_splits)

lemma cuts_button:
  assumes "list_ex cuts (snd (fst (updatePowerButton e m)))"
  shows "pm_buttonSleepEnabled m \<and> pm_buttonPressPending (button_poll (en_now e) (en_button e) m)
       \<and> 700 \<le> en_now e - pm_buttonReleasedMs (button_poll (en_now e) (en_button e) m)"
  using assms
  by (auto simp: updatePowerButton_def Let_def kPowerButtonDoubleClickWindowMs_def
      kPowerButtonPollIntervalMs_def not_less split: prod.splits if_splits)

lemma pm_update_cut_cases:
  assumes "list_ex cuts (snd (pm_update e m))"
  obtains
      (button) "pm_buttonSleepEnabled m" "pm_buttonPressPending (button_poll (en_now e) (en_button e) m)"
        "700 \<le> en_now e - pm_buttonReleasedMs (button_poll (en_now e) (en_button e) m)"
    | (idle) "\<not> se_hasExternalPower (en_saving e)" "sv_autoPowerOffTimeout (pm_saving m) \<noteq> -1"
        "sv_autoPowerOffTimeout (pm_saving m) < se_now1 (en_saving e) - sv_lastActivityMs (pm_saving m)"
    | (low_battery) "snd (lb_step (pm_lowBattery m) (fst (en_battery e), snd (en_battery e), en_now e)) = LbShutdown"
        "\<not> se_hasExternalPower (en_lowShutdown e)"
proof -
  obtain m1 fx1 slept where b: "updatePowerButton e m = ((m1, fx1), slept)" by (metis surj_pair)
  then have m1: "pm_saving m1 = pm_saving m" "pm_lowBattery m1 = pm_lowBattery m"
    using updatePowerButton_frame [of e m] by simp_all
  consider "list_ex cuts fx1" | "list_ex cuts (snd (then_op (pm_policies e) (pm_service_policies e) m1))"
    using assms b by (auto simp: pm_update_def case_prod_beta split: if_splits)
  then show thesis
  proof cases
    case 1
    with cuts_button [of e m] b show thesis by (auto intro: button)
  next
    case 2
    then consider "list_ex cuts_power (snd (saving_update (en_saving e) (pm_saving m)))"
      | m2 where "list_ex cuts (snd (updateBatteryPolicies e m2))" "pm_lowBattery m2 = pm_lowBattery m"
      using m1 by (auto simp: pm_policies_def)
    then show thesis
    proof cases
      case 1
      then show thesis using saving_update_shutdown_iff by (auto intro!: idle simp: word_less_nat_alt)
    next
      case 2
      with cuts_battery [OF 2(1)] show thesis by (auto intro!: low_battery split: prod.splits)
    qed
  qed
qed

text \<open>The main loop cuts the power for three reasons only: a power-button press released at
  least 700 ms ago and not followed by another one, an idle time over the limit on battery,
  or a confirmed low battery while no external power is seen.\<close>

theorem pm_power_cut_reasons:
  assumes "list_ex cuts (snd (pm_update e m))"
  shows "pm_buttonSleepEnabled m \<and> pm_buttonPressPending (button_poll (en_now e) (en_button e) m)
           \<and> 700 \<le> en_now e - pm_buttonReleasedMs (button_poll (en_now e) (en_button e) m)
       \<or> \<not> se_hasExternalPower (en_saving e) \<and> sv_autoPowerOffTimeout (pm_saving m) \<noteq> -1
           \<and> sv_autoPowerOffTimeout (pm_saving m) < se_now1 (en_saving e) - sv_lastActivityMs (pm_saving m)
       \<or> snd (lb_step (pm_lowBattery m) (fst (en_battery e), snd (en_battery e), en_now e)) = LbShutdown
           \<and> \<not> se_hasExternalPower (en_lowShutdown e)"
  using assms by (cases rule: pm_update_cut_cases) blast+

text \<open>Concrete surroundings for the witnesses: plugged in, charged, a running scale service.\<close>

definition calm_env :: "u32 \<Rightarrow> (bool \<times> bool) option \<Rightarrow> pm_env" where
  "calm_env now button =
     (let sv = \<lparr>se_now1 = now, se_now2 = now, se_brightness = 100, se_hasExternalPower = True,
                se_motionWakeOk = True\<rparr>;
          v = \<lparr>vw_state = SCALE_OFF, vw_controller = Running, vw_connectWanted = False,
               vw_diagnosticScanWanted = False\<rparr>
      in \<lparr>en_now = now, en_button = button, en_buttonShutdown = sv, en_saving = sv, en_cpuOk = True,
          en_ledOk = True, en_battery = (4000, True), en_lowShutdown = sv, en_serviceStarted = False,
          en_view = v, en_chain = (\<lambda>_. (True, v)), en_connectWanted = (\<lambda>_. False),
          en_statusView = v, en_readyState = SCALE_OFF\<rparr>)"

definition idle_env :: pm_env where
  "idle_env = (calm_env 300001 None)\<lparr>en_saving := \<lparr>se_now1 = 300001, se_now2 = 300001,
     se_brightness = 100, se_hasExternalPower = False, se_motionWakeOk = True\<rparr>\<rparr>"

lemma calm_env_simps [simp]:
  "en_now (calm_env t b) = t" "en_button (calm_env t b) = b" "en_now idle_env = 300001"
  "en_button idle_env = None" "\<not> se_hasExternalPower (en_saving idle_env)"
  "se_now1 (en_saving idle_env) = 300001"
  by (simp_all add: calm_env_def idle_env_def Let_def)

lemma pm_init_simps [simp]:
  "pm_saving (pm_init t) = sv_init t" "pm_lowBattery (pm_init t) = lb_init"
  "pm_buttonSleepEnabled (pm_init t)" "\<not> pm_buttonPollStarted (pm_init t)"
  "\<not> pm_buttonPressPending (pm_init t)" "\<not> pm_buttonDown (pm_init t)"
  by (simp_all add: pm_init_def)

lemma pm_power_cut_reasons_witness:
  "list_ex cuts (snd (pm_update idle_env (pm_init 0)))
   \<and> sv_autoPowerOffTimeout (sv_init 0) < se_now1 (en_saving idle_env) - sv_lastActivityMs (sv_init 0)"
proof -
  have off: "\<not> snd (updatePowerButton idle_env (pm_init 0))"
    by (simp add: updatePowerButton_def button_poll_def button_sample_def)
  have "list_ex cuts_power (snd (saving_update (en_saving idle_env) (sv_init 0)))"
    by (simp add: saving_update_shutdown_iff sv_init_def)
  with off have c: "list_ex cuts (snd (pm_update idle_env (pm_init 0)))"
    by (simp add: pm_update_def case_prod_beta pm_policies_def)
  from pm_power_cut_reasons [OF c] c show ?thesis
    by (auto simp: button_poll_def button_sample_def lb_init_def lb_update_def idle_env_def calm_env_def Let_def)
qed

section \<open>The power button\<close>

definition button_step :: "power_manager \<Rightarrow> pm_env \<Rightarrow> power_manager \<times> bool" where
  "button_step m e = (fst (fst (updatePowerButton e m)), snd (updatePowerButton e m))"

text \<open>Polls that see nothing: a failed read, or a button neither pressed now nor since the last read.\<close>

definition button_quiet :: "pm_env \<Rightarrow> bool" where
  "button_quiet e \<longleftrightarrow> en_button e = None \<or> en_button e = Some (False, False)"

definition button_poll_due :: "pm_env \<Rightarrow> power_manager \<Rightarrow> bool" where
  "button_poll_due e m \<longleftrightarrow> \<not> pm_buttonPollStarted m \<or> kPowerButtonPollIntervalMs \<le> en_now e - pm_lastButtonPollMs m"

definition press_released :: "u32 \<Rightarrow> power_manager \<Rightarrow> bool" where
  "press_released t m \<longleftrightarrow> pm_buttonSleepEnabled m \<and> pm_buttonPressPending m \<and> \<not> pm_buttonDown m
                        \<and> pm_buttonReleasedMs m = t"

lemma button_quiet_poll:
  "press_released t m \<Longrightarrow> button_quiet e \<Longrightarrow> press_released t (button_poll (en_now e) (en_button e) m)"
  by (auto simp: press_released_def button_quiet_def button_poll_def button_sample_def)

lemma button_wait:
  assumes "press_released t m" "button_quiet e" "en_now e - t < 700"
  shows "button_step m e = (fst (button_step m e), False)" "press_released t (fst (button_step m e))"
  using button_quiet_poll [OF assms(1,2)] assms(1,3)
  by (auto simp: button_step_def updatePowerButton_def Let_def press_released_def
      kPowerButtonDoubleClickWindowMs_def kPowerButtonPollIntervalMs_def)

lemma button_expire:
  assumes "press_released t m" "button_quiet e" "700 \<le> en_now e - t"
  shows "snd (updatePowerButton e m)" "\<not> pm_buttonPressPending (fst (fst (updatePowerButton e m)))"
    "snd (fst (updatePowerButton e m)) = map Saving (fst (performShutdown (en_buttonShutdown e) (pm_saving m)))"
  using button_quiet_poll [OF assms(1,2)] assms(1,3)
  by (auto simp: updatePowerButton_def Let_def press_released_def shutdown_def
      kPowerButtonDoubleClickWindowMs_def kPowerButtonPollIntervalMs_def case_prod_beta)

lemma button_release:
  assumes "pm_buttonSleepEnabled m" "button_poll_due e m" "en_button e = Some (w, False)" "w \<or> pm_buttonDown m"
  shows "button_step m e = (fst (button_step m e), False)" "press_released (en_now e) (fst (button_step m e))"
  using assms
  by (auto simp: button_step_def updatePowerButton_def Let_def press_released_def button_poll_due_def
      button_poll_def button_sample_def kPowerButtonDoubleClickWindowMs_def kPowerButtonPollIntervalMs_def)

text \<open>A single press sleeps, once and not before the double-click window is over: after the poll that
  sees the button released, any calls within 700 ms that see no new press do nothing, and the
  first one later requests the shutdown, with the full shutdown sequence.\<close>

theorem power_button_single_press:
  assumes "pm_buttonSleepEnabled m" and "button_poll_due e1 m"
    and "en_button e1 = Some (w, False)" and "w \<or> pm_buttonDown m"
    and "\<forall>e \<in> set es. button_quiet e \<and> en_now e - en_now e1 < 700"
    and "button_quiet e2" and "700 \<le> en_now e2 - en_now e1"
  shows "outputs button_step m (e1 # es @ [e2]) = replicate (Suc (length es)) False @ [True]
       \<and> (\<exists>p fx. snd (fst (updatePowerButton e2 (run button_step m (e1 # es)))) = map Saving fx \<and> proper_shutdown p fx)
       \<and> \<not> pm_buttonPressPending (run button_step m (e1 # es @ [e2]))"
proof -
  have wait: "outputs button_step m' es = replicate (length es) False
      \<and> press_released (en_now e1) (run button_step m' es)" if "press_released (en_now e1) m'" for m'
    using that assms(5)
  proof (induction es arbitrary: m')
    case Nil
    then show ?case by simp
  next
    case (Cons e es)
    then have "button_quiet e" "en_now e - en_now e1 < 700" by auto
    note w = button_wait [OF Cons.prems(1) this]
    from w(1) have "snd (button_step m' e) = False" by (metis snd_conv)
    then show ?case using Cons.IH [OF w(2)] Cons.prems(2) by simp
  qed
  note r = button_release [OF assms(1-4)]
  from r(1) have s1: "snd (button_step m e1) = False" by (metis snd_conv)
  let ?m1 = "fst (button_step m e1)"
  note w = wait [OF r(2)]
  note x = button_expire [OF w [THEN conjunct2] assms(6,7)]
  from s1 w x(1) have "outputs button_step m (e1 # es @ [e2]) = replicate (Suc (length es)) False @ [True]"
    by (simp add: button_step_def)
  moreover have "\<exists>p fx. snd (fst (updatePowerButton e2 (run button_step m (e1 # es)))) = map Saving fx \<and> proper_shutdown p fx"
    using x(3) performShutdown_proper by auto
  moreover have "\<not> pm_buttonPressPending (run button_step m (e1 # es @ [e2]))"
    using x(2) by (simp add: button_step_def)
  ultimately show ?thesis by blast
qed

lemma power_button_single_press_witness:
  "outputs button_step (pm_init 0) (calm_env 1000 (Some (True, False)) # [calm_env 1200 (Some (False, False))]
     @ [calm_env 1700 None]) = replicate (Suc (length [calm_env 1200 (Some (False, False))])) False @ [True]"
  by (rule power_button_single_press [where w = True, THEN conjunct1])
    (simp_all add: button_poll_due_def button_quiet_def)

text \<open>A second press leaves the decision to the PMIC: a poll that sees the button pressed or held
  cancels a pending sleep, and no call sleeps from then on while it is held or the reads
  fail, whatever the times.\<close>

theorem power_button_second_press:
  assumes "button_poll_due e m" and "en_button e = Some (w, True)"
    and "\<forall>e' \<in> set es. en_button e' = None \<or> (\<exists>w. en_button e' = Some (w, True))"
  shows "outputs button_step m (e # es) = replicate (Suc (length es)) False"
proof -
  have held: "outputs button_step m' es = replicate (length es) False" if "\<not> pm_buttonPressPending m'" for m'
    using that assms(3)
  proof (induction es arbitrary: m')
    case Nil
    then show ?case by simp
  next
    case (Cons e' es)
    then have "\<not> pm_buttonPressPending (button_poll (en_now e') (en_button e') m')"
      by (auto simp: button_poll_def button_sample_def)
    with Cons.prems(1) have "snd (button_step m' e') = False" "\<not> pm_buttonPressPending (fst (button_step m' e'))"
      by (simp_all add: button_step_def updatePowerButton_def Let_def)
    with Cons show ?case by simp
  qed
  show ?thesis
  proof (cases "pm_buttonSleepEnabled m")
    case True
    have "\<not> pm_buttonPressPending (button_poll (en_now e) (en_button e) m)"
      using assms(1,2) by (auto simp: button_poll_def button_sample_def button_poll_due_def)
    then have "snd (button_step m e) = False" "\<not> pm_buttonPressPending (fst (button_step m e))"
      using True by (simp_all add: button_step_def updatePowerButton_def Let_def)
    with held show ?thesis by simp
  next
    case False
    then have "outputs button_step m xs = replicate (length xs) False" for xs
      by (induction xs) (simp_all add: button_step_def updatePowerButton_def)
    then show ?thesis by (metis length_Cons)
  qed
qed

lemma power_button_second_press_witness:
  "outputs button_step ((pm_init 0)\<lparr>pm_buttonPressPending := True, pm_buttonPollStarted := True,
        pm_lastButtonPollMs := 1000\<rparr>)
     (calm_env 1200 (Some (True, True)) # [calm_env 9000 (Some (False, True))]) = replicate (Suc 1) False"
  using power_button_second_press [of "calm_env 1200 (Some (True, True))" "(pm_init 0)\<lparr>
      pm_buttonPressPending := True, pm_buttonPollStarted := True, pm_lastButtonPollMs := 1000\<rparr>" True
      "[calm_env 9000 (Some (False, True))]"]
  by (auto simp: button_poll_due_def kPowerButtonPollIntervalMs_def)

section \<open>CPU frequency\<close>

text \<open>The frequency of the hardware is the one last set successfully.\<close>

fun cpu_after :: "u16 \<Rightarrow> pm_effect list \<Rightarrow> u16" where
  "cpu_after f [] = f"
| "cpu_after f (SetCpuFrequency g ok # fx) = cpu_after (if ok then g else f) fx"
| "cpu_after f (_ # fx) = cpu_after f fx"

lemma cpu_after_append [simp]: "cpu_after f (xs @ ys) = cpu_after (cpu_after f xs) ys"
  by (induction f xs rule: cpu_after.induct) auto

fun sets_cpu :: "pm_effect \<Rightarrow> bool" where
  "sets_cpu (SetCpuFrequency f ok) = True"
| "sets_cpu _ = False"

lemma cpu_after_none: "\<not> list_ex sets_cpu fx \<Longrightarrow> cpu_after f fx = f"
proof (induction fx)
  case Nil
  then show ?case by simp
next
  case (Cons x fx)
  then show ?case by (cases x) auto
qed

text \<open>Only the CPU policy sets the frequency or changes what it depends on.\<close>

lemma cpu_free [simp]:
  "\<not> list_ex sets_cpu (map Saving fx)"
  "\<not> list_ex sets_cpu (snd (applyStatusLedState b ok m))"
  "\<not> list_ex sets_cpu (snd (applyLowBatteryDisplayMode b m))"
  "\<not> list_ex sets_cpu (snd (lowBatteryStep e m))"
  "\<not> list_ex sets_cpu (snd (updateBatteryPolicies e m))"
  "\<not> list_ex sets_cpu (snd (reportRadioEvent ev now w m))"
  "\<not> list_ex sets_cpu (snd (fst (updatePowerButton e m)))"
proof -
  show sv: "\<not> list_ex sets_cpu (map Saving fx)" for fx by (induction fx) auto
  show led: "\<not> list_ex sets_cpu (snd (applyStatusLedState b ok m))" for b ok m
    by (simp add: applyStatusLedState_def)
  show disp: "\<not> list_ex sets_cpu (snd (applyLowBatteryDisplayMode b m))" for b m
    by (simp add: applyLowBatteryDisplayMode_def)
  show low: "\<not> list_ex sets_cpu (snd (lowBatteryStep e m))" for m
    by (simp add: lowBatteryStep_def disp sv split: prod.splits)
  show "\<not> list_ex sets_cpu (snd (updateBatteryPolicies e m))"
    by (simp add: updateBatteryPolicies_def low led)
  show "\<not> list_ex sets_cpu (snd (reportRadioEvent ev now w m))"
    by (simp add: reportRadioEvent_def split: RadioEventKind.splits)
  show "\<not> list_ex sets_cpu (snd (fst (updatePowerButton e m)))"
    by (simp add: updatePowerButton_def Let_def sv split: prod.splits)
qed

lemma cpu_free_chain [simp]: "\<not> list_ex sets_cpu (snd (pm_chain k e d m))"
proof (induction k arbitrary: d m)
  case 0
  then show ?case by simp
next
  case (Suc k)
  then show ?case
    by (cases "rd_action d") (simp_all del: radio_resolve.simps split: prod.splits, (metis snd_conv)+)
qed

lemma cpu_free_service [simp]: "\<not> list_ex sets_cpu (snd (pm_service_policies e m))"
  by (simp add: pm_service_policies_def pm_step_radio_def pm_applyRadioDecision_def
      applyRadioSuspension_def refreshRadioStatus_def reportScaleReadyAfterWake_def Let_def
      del: radio_resolve.simps split: prod.splits)

text \<open>What the CPU policy depends on and keeps.\<close>

definition cpu_view :: "power_manager \<Rightarrow> bool \<times> bool \<times> bool \<times> bool \<times> u16 \<times> u16" where
  "cpu_view m = (pm_adaptiveEnabled m, pm_foregroundFull m, pm_applicationFull m,
     sv_screenDimmed (pm_saving m), pm_appliedCpuMhz m, pm_failedCpuTargetMhz m)"

lemma cpu_view_frame [simp]:
  "cpu_view (fst (applyStatusLedState b ok m)) = cpu_view m"
  "cpu_view (fst (applyLowBatteryDisplayMode b m)) = cpu_view m"
  "cpu_view (fst (lowBatteryStep e m)) = cpu_view m"
  "cpu_view (fst (updateBatteryPolicies e m)) = cpu_view m"
  "cpu_view (fst (fst (updatePowerButton e m))) = cpu_view m"
  "cpu_view (fst (reportRadioEvent ev now w m)) = cpu_view m"
  "cpu_view (fst (applyRadioSuspension m)) = cpu_view m"
  "cpu_view (fst (refreshRadioStatus now v m)) = cpu_view m"
  "cpu_view (fst (reportScaleReadyAfterWake st m)) = cpu_view m"
proof -
  show led: "cpu_view (fst (applyStatusLedState b ok m)) = cpu_view m" for b ok m
    by (simp add: applyStatusLedState_def cpu_view_def)
  show disp: "cpu_view (fst (applyLowBatteryDisplayMode b m)) = cpu_view m" for b m
    by (simp add: applyLowBatteryDisplayMode_def cpu_view_def)
  have lbu: "cpu_view (m\<lparr>pm_lowBattery := lb\<rparr>) = cpu_view m" for m lb by (simp add: cpu_view_def)
  show low: "cpu_view (fst (lowBatteryStep e m)) = cpu_view m" for m
    by (simp add: lowBatteryStep_def disp lbu split: prod.splits)
  have polled: "cpu_view (m\<lparr>pm_batteryPollStarted := True, pm_lastBatteryPollMs := t\<rparr>) = cpu_view m" for m t
    by (simp add: cpu_view_def)
  show "cpu_view (fst (updateBatteryPolicies e m)) = cpu_view m"
    by (simp add: updateBatteryPolicies_def low led polled)
  show "cpu_view (fst (fst (updatePowerButton e m))) = cpu_view m"
    by (simp add: updatePowerButton_def Let_def button_poll_def button_sample_def cpu_view_def
        split: prod.splits option.splits)
  show "cpu_view (fst (reportRadioEvent ev now w m)) = cpu_view m"
    by (simp add: reportRadioEvent_def cpu_view_def split: RadioEventKind.splits)
  show "cpu_view (fst (applyRadioSuspension m)) = cpu_view m"
    by (simp add: applyRadioSuspension_def cpu_view_def Let_def)
  show "cpu_view (fst (refreshRadioStatus now v m)) = cpu_view m"
    by (simp add: refreshRadioStatus_def cpu_view_def Let_def)
  show "cpu_view (fst (reportScaleReadyAfterWake st m)) = cpu_view m"
    by (simp add: reportScaleReadyAfterWake_def cpu_view_def)
qed

lemma cpu_view_radio [simp]: "cpu_view (m\<lparr>pm_radio := r\<rparr>) = cpu_view m"
  by (simp add: cpu_view_def)

lemma cpu_view_chain [simp]: "cpu_view (fst (pm_chain k e d m)) = cpu_view m"
proof (induction k arbitrary: d m)
  case 0
  then show ?case by simp
next
  case (Suc k)
  have "cpu_view (fst (pm_chain k e d' (fst (reportRadioEvent ev now w m)\<lparr>pm_radio := r\<rparr>))) = cpu_view m"
    for d' ev now w r by (simp add: Suc.IH)
  then show ?case
    by (cases "rd_action d") (simp_all del: radio_resolve.simps split: prod.splits, (metis fst_conv)+)
qed

lemma cpu_view_service [simp]: "cpu_view (fst (pm_service_policies e m)) = cpu_view m"
  by (simp add: pm_service_policies_def pm_step_radio_def pm_applyRadioDecision_def split: prod.splits)

definition cpu_known :: "u16 \<Rightarrow> power_manager \<Rightarrow> bool" where
  "cpu_known hw m \<longleftrightarrow> pm_failedCpuTargetMhz m = 0 \<and> (pm_appliedCpuMhz m \<noteq> 0 \<longrightarrow> pm_appliedCpuMhz m = hw)"

definition cpu_settled :: "u16 \<Rightarrow> power_manager \<Rightarrow> bool" where
  "cpu_settled hw m \<longleftrightarrow> cpu_known hw m
     \<and> (pm_adaptiveEnabled m \<and> pm_appliedCpuMhz m \<noteq> 0 \<longrightarrow> pm_appliedCpuMhz m = fst (performanceTarget m))"

lemma cpu_view_cong:
  assumes "cpu_view m = cpu_view m'"
  shows "cpu_known hw m = cpu_known hw m'" "cpu_settled hw m = cpu_settled hw m'"
    "fst (performanceTarget m) = fst (performanceTarget m')" "pm_adaptiveEnabled m = pm_adaptiveEnabled m'"
    "pm_appliedCpuMhz m = pm_appliedCpuMhz m'"
  using assms
  by (simp_all add: cpu_view_def cpu_known_def cpu_settled_def performanceTarget_def
      fullPerformanceRequired_def Let_def)

lemma performanceTarget_cases: "fst (performanceTarget m) = 80 \<or> fst (performanceTarget m) = 240"
  by (simp add: performanceTarget_def Let_def kReducedCpuMhz_def kFullCpuMhz_def)

lemma performanceTarget_applied [simp]:
  "performanceTarget (m\<lparr>pm_appliedCpuMhz := a, pm_failedCpuTargetMhz := b\<rparr>) = performanceTarget m"
  "performanceTarget (m\<lparr>pm_failedCpuTargetMhz := b\<rparr>) = performanceTarget m"
  "performanceTarget (m\<lparr>pm_appliedCpuMhz := a\<rparr>) = performanceTarget m"
  by (simp_all add: performanceTarget_def fullPerformanceRequired_def)

lemma cpu_apply:
  assumes "cpu_known hw m"
  shows "cpu_settled (cpu_after hw (snd (applyCpuPolicy True m))) (fst (applyCpuPolicy True m))"
    and "pm_adaptiveEnabled m \<Longrightarrow> fst (performanceTarget (fst (applyCpuPolicy True m)))
           = cpu_after hw (snd (applyCpuPolicy True m))"
    and "pm_adaptiveEnabled (fst (applyCpuPolicy True m)) = pm_adaptiveEnabled m"
  using assms performanceTarget_cases [of m]
  by (auto simp: applyCpuPolicy_def cpu_known_def cpu_settled_def Let_def)

lemma cpu_saving:
  "cpu_known hw (fst (saving_op f m)) = cpu_known hw m"
  "pm_adaptiveEnabled (fst (saving_op f m)) = pm_adaptiveEnabled m"
  by (simp_all add: saving_op_def cpu_known_def split: prod.splits)

lemma cpu_update:
  assumes "cpu_settled hw m" and "en_cpuOk e"
  shows "cpu_settled (cpu_after hw (snd (pm_update e m))) (fst (pm_update e m))"
    and "\<not> snd (updatePowerButton e m) \<Longrightarrow> pm_adaptiveEnabled (fst (pm_update e m))
           \<Longrightarrow> cpu_after hw (snd (pm_update e m)) = fst (performanceTarget (fst (pm_update e m)))"
proof -
  obtain m1 fx1 slept where b: "updatePowerButton e m = ((m1, fx1), slept)" by (metis surj_pair)
  then have v1: "cpu_view m1 = cpu_view m" and q1: "cpu_after hw fx1 = hw"
    using cpu_view_frame(5) [of e m] cpu_free(7) [of e m] by (simp_all add: cpu_after_none)
  define m2 where "m2 = fst (saving_op (saving_update (en_saving e)) m1)"
  define m3 where "m3 = fst (applyCpuPolicy True m2)"
  define hw' where "hw' = cpu_after hw (snd (applyCpuPolicy True m2))"
  have "cpu_known hw m2"
    using assms(1) v1 cpu_view_cong(1) [OF v1] by (simp add: m2_def cpu_saving cpu_settled_def)
  note a = cpu_apply [OF this, folded m3_def hw'_def]
  define m' where "m' = fst (then_op (pm_policies e) (pm_service_policies e) m1)"
  have v': "cpu_view m' = cpu_view m3"
    using assms(2) by (simp add: m'_def m3_def m2_def pm_policies_def)
  have fx': "cpu_after hw (snd (then_op (pm_policies e) (pm_service_policies e) m1)) = hw'"
    using assms(2) by (simp add: hw'_def m2_def pm_policies_def cpu_after_none)
  show "cpu_settled (cpu_after hw (snd (pm_update e m))) (fst (pm_update e m))"
  proof (cases slept)
    case True
    then show ?thesis using b q1 assms(1) cpu_view_cong(2) [OF v1] by (simp add: pm_update_def)
  next
    case False
    then have "fst (pm_update e m) = m'" "cpu_after hw (snd (pm_update e m)) = hw'"
      using b q1 fx' by (simp_all add: pm_update_def m'_def case_prod_beta)
    then show ?thesis using a(1) cpu_view_cong(2) [OF v'] by simp
  qed
  assume "\<not> snd (updatePowerButton e m)" and ad: "pm_adaptiveEnabled (fst (pm_update e m))"
  then have u: "fst (pm_update e m) = m'" "cpu_after hw (snd (pm_update e m)) = hw'"
    using b q1 fx' by (simp_all add: pm_update_def m'_def case_prod_beta)
  with ad a(2,3) cpu_view_cong [OF v'] show
    "cpu_after hw (snd (pm_update e m)) = fst (performanceTarget (fst (pm_update e m)))" by simp
qed

fun cpu_ok :: "pm_call \<Rightarrow> bool" where
  "cpu_ok (CallUpdate e) = en_cpuOk e"
| "cpu_ok (CallActivity now ok) = ok"
| "cpu_ok (CallKeepAwake now ok) = ok"
| "cpu_ok (CallForeground b ok) = ok"
| "cpu_ok (CallApplication b ok) = ok"
| "cpu_ok (CallEnableAdaptive ok) = ok"
| "cpu_ok (CallDisableIdle ok ledOk) = ok"
| "cpu_ok _ = True"

lemma cpu_retry:
  assumes "cpu_known hw m"
  shows "cpu_settled (cpu_after hw (snd (retryCpuPolicy True m))) (fst (retryCpuPolicy True m))"
  using cpu_apply(1) [of hw "m\<lparr>pm_failedCpuTargetMhz := 0\<rparr>"] assms
  by (simp add: retryCpuPolicy_def cpu_known_def)

lemma cpu_setPolicy:
  "cpu_view (fst (fst (setScaleRadioPolicy p e m))) = cpu_view m
   \<and> \<not> list_ex sets_cpu (snd (fst (setScaleRadioPolicy p e m)))"
proof -
  have "\<not> list_ex sets_cpu (snd (applyRadioSuspension m'))"
    "\<not> list_ex sets_cpu (snd (refreshRadioStatus now v m'))" for m' now v
    by (simp_all add: applyRadioSuspension_def refreshRadioStatus_def Let_def)
  then show ?thesis by (simp add: setScaleRadioPolicy_def split: prod.splits)
qed

lemma cpu_step:
  assumes "cpu_settled hw m" and "cpu_ok c"
  shows "cpu_settled (cpu_after hw (snd (pm_step m c))) (fst (pm_step m c))"
proof (cases c)
  case (CallUpdate e)
  then show ?thesis using cpu_update(1) assms by simp
next
  case (CallPolicy p e)
  then show ?thesis
    using cpu_setPolicy [of p e m] cpu_view_cong(2) [of "fst (fst (setScaleRadioPolicy p e m))" m] assms(1)
    by (simp add: cpu_after_none)
next
  case (CallActivity now ok)
  have "cpu_known hw ((fst (saving_op (registerActivity now) m))\<lparr>pm_radio := r\<rparr>)" for r
    using assms(1) cpu_saving(1) by (simp add: cpu_settled_def cpu_known_def)
  with cpu_retry CallActivity assms show ?thesis
    by (simp add: notifyActivity_def cpu_after_none)
next
  case (CallKeepAwake now ok)
  with cpu_apply(1) [of hw "fst (saving_op (registerActivity now) m)"] assms show ?thesis
    by (simp add: keepAwake_def cpu_after_none cpu_saving cpu_settled_def)
next
  case (CallForeground b ok)
  with cpu_retry [of hw "m\<lparr>pm_foregroundFull := b\<rparr>"] assms show ?thesis
    by (simp add: setForegroundFullPerformanceRequired_def cpu_settled_def cpu_known_def)
next
  case (CallApplication b ok)
  with cpu_retry [of hw "m\<lparr>pm_applicationFull := b\<rparr>"] assms show ?thesis
    by (simp add: setApplicationFullPerformanceRequired_def cpu_settled_def cpu_known_def)
next
  case (CallEnableAdaptive ok)
  with cpu_retry [of hw "m\<lparr>pm_adaptiveEnabled := True\<rparr>"] assms show ?thesis
    by (simp add: enableAdaptivePerformance_def cpu_settled_def cpu_known_def)
next
  case (CallDisableIdle ok ledOk)
  let ?m = "fst (disableAdaptivePerformance True (m\<lparr>pm_saving := disableAutoPowerOff (disableScreenDimming (pm_saving m))\<rparr>))"
  have v: "cpu_view (m'\<lparr>pm_ledSavingEnabled := b\<rparr>) = cpu_view m'"
    "cpu_view (m'\<lparr>pm_lowBattery := lb, pm_lowBatteryShutdownEnabled := b\<rparr>) = cpu_view m'"
    "cpu_view (m'\<lparr>pm_lowBatteryShutdownEnabled := b, pm_lowBattery := lb\<rparr>) = cpu_view m'" for m' b lb
    by (simp_all add: cpu_view_def)
  have e: "cpu_view (fst (disableIdlePowerSaving True ledOk m)) = cpu_view ?m"
    by (simp add: disableIdlePowerSaving_def disableStatusLedPowerSaving_def disableLowBatteryShutdown_def v)
  have "cpu_settled g ?m" for g
    by (simp add: disableAdaptivePerformance_def cpu_settled_def cpu_known_def)
  then have "cpu_settled g (fst (disableIdlePowerSaving True ledOk m))" for g
    by (simp only: cpu_view_cong(2) [OF e])
  then show ?thesis using CallDisableIdle assms(2) by simp
next
  case CallEnableLed
  then show ?thesis
    using assms(1) cpu_view_cong(2) [of "enableStatusLedPowerSaving m" m]
    by (simp add: enableStatusLedPowerSaving_def cpu_view_def)
next
  case CallEnableLowBattery
  then show ?thesis
    using assms(1) cpu_view_cong(2) [of "enableLowBatteryShutdown m" m]
    by (simp add: enableLowBatteryShutdown_def cpu_view_def)
next
  case CallDisableButton
  then show ?thesis
    using assms(1) cpu_view_cong(2) [of "disablePowerButtonSleep m" m]
    by (simp add: disablePowerButtonSleep_def cpu_view_def)
next
  case (CallDimTimeout s)
  then show ?thesis
    using assms(1) cpu_view_cong(2) [of "pm_setScreenDimmingTimeoutSeconds s m" m]
    by (simp add: pm_setScreenDimmingTimeoutSeconds_def setScreenDimmingTimeoutSeconds_def cpu_view_def)
next
  case (CallPreSleep cb)
  then show ?thesis
    using assms(1) cpu_view_cong(2) [of "pm_setPreSleepCallback cb m" m]
    by (simp add: pm_setPreSleepCallback_def setPreSleepCallback_def cpu_view_def)
qed

text \<open>The clock follows the need: whatever calls came before (frequency changes succeeding), an update
  that does not go to sleep leaves the CPU at the frequency the policy asks for: full speed
  whenever the foreground or the application requires it or the display is bright.\<close>

theorem pm_cpu_follows_need:
  assumes "\<forall>c \<in> set cs. cpu_ok c" and "en_cpuOk e"
    and "\<not> snd (updatePowerButton e (run pm_step (pm_init t0) cs))"
    and "run pm_step (pm_init t0) (cs @ [CallUpdate e]) = m" and "pm_adaptiveEnabled m"
  shows "cpu_after hw (concat (outputs pm_step (pm_init t0) (cs @ [CallUpdate e]))) =
    (if pm_foregroundFull m \<or> pm_applicationFull m \<or> \<not> sv_screenDimmed (pm_saving m) then 240 else 80)"
proof -
  have "cpu_settled (cpu_after hw (concat (outputs pm_step m0 cs))) (run pm_step m0 cs)"
    if "cpu_settled hw m0" for hw m0
    using that assms(1)
    by (induction cs arbitrary: hw m0) (auto simp: cpu_step)
  moreover have "cpu_settled hw (pm_init t0)"
    by (simp add: cpu_settled_def cpu_known_def pm_init_def)
  ultimately have s: "cpu_settled (cpu_after hw (concat (outputs pm_step (pm_init t0) cs))) (run pm_step (pm_init t0) cs)" .
  from cpu_update(2) [OF s assms(2,3)] assms(4,5) show ?thesis
    by (auto simp: performanceTarget_def fullPerformanceRequired_def Let_def kFullCpuMhz_def kReducedCpuMhz_def)
qed

end
