(* ===== verification/Bytes.thy ===== *)
theory Bytes
  imports Prelude
begin

unbundle bit_operations_syntax

text \<open>
  The integers of the record format (\<open>src/src/apps/extraction/extraction_encoding.h\<close> and \<open>.cpp\<close>,
  and the varint readers of \<open>ExtractionWire.cpp\<close>): fixed-width little-endian words, LEB128
  varints and zigzag. A writer returns the bytes it stores at \<open>dst\<close>; a reader takes the bytes
  that are left. A signed integer is its word, read by \<open>sint\<close>.
\<close>

section \<open>Codecs\<close>

text \<open>
  What every reader promises about its writer: whatever follows the encoding of a value, the
  reader returns the value and leaves what follows.
\<close>

locale codec =
  fixes enc :: "'a \<Rightarrow> u8 list"
    and dec :: "'a reader"
  assumes dec_enc: "dec (enc x @ rest) = Some (x, rest)"
begin

lemma enc_inject:
  assumes "enc x @ r = enc y @ s"
  shows "x = y \<and> r = s"
proof -
  have "Some (x, r) = Some (y, s)"
    using dec_enc [of x r, symmetric] dec_enc [of y s] by (simp only: assms)
  then show ?thesis by simp
qed

text \<open>No encoding is a prefix of another one.\<close>

lemma enc_prefix_free: "enc x = enc y @ s \<Longrightarrow> x = y \<and> s = []"
  using enc_inject [of x "[]" y s] by simp

lemma dec_exact: "dec (enc x) = Some (x, [])"
  using dec_enc [of x "[]"] by simp

end

text \<open>
  A stream of items whose encoding depends on the ones before it (delta coding), written and read
  by a loop.
\<close>

primrec encode_all :: "('s \<Rightarrow> 'a \<Rightarrow> u8 list) \<Rightarrow> ('s \<Rightarrow> 'a \<Rightarrow> 's) \<Rightarrow> 's \<Rightarrow> 'a list \<Rightarrow> u8 list" where
  "encode_all enc nxt s [] = []"
| "encode_all enc nxt s (x # xs) = enc s x @ encode_all enc nxt (nxt s x) xs"

primrec decode_all :: "('s \<Rightarrow> ('a \<times> 's) reader) \<Rightarrow> nat \<Rightarrow> 's \<Rightarrow> 'a list reader" where
  "decode_all dec 0 s = read_return []"
| "decode_all dec (Suc n) s =
     read_bind (dec s) (\<lambda>(x, s'). read_bind (decode_all dec n s') (\<lambda>xs. read_return (x # xs)))"

text \<open>
  The law of such a stream: \<open>norm\<close> is what is left of an item after a round trip, for the items
  that are \<open>valid\<close>, while the state is \<open>ok\<close>.
\<close>

locale stream_codec =
  fixes enc :: "'s \<Rightarrow> 'a \<Rightarrow> u8 list"
    and dec :: "'s \<Rightarrow> ('a \<times> 's) reader"
    and nxt :: "'s \<Rightarrow> 'a \<Rightarrow> 's"
    and norm :: "'a \<Rightarrow> 'a"
    and ok :: "'s \<Rightarrow> bool"
    and valid :: "'a \<Rightarrow> bool"
    and bound :: nat
  assumes dec_enc: "ok s \<Longrightarrow> valid x \<Longrightarrow> dec s (enc s x @ rest) = Some ((norm x, nxt s x), rest)"
    and ok_next: "ok s \<Longrightarrow> valid x \<Longrightarrow> ok (nxt s x)"
    and enc_length: "ok s \<Longrightarrow> valid x \<Longrightarrow> length (enc s x) \<le> bound"
begin

lemma decode_encode_all:
  "ok s \<Longrightarrow> list_all valid xs
    \<Longrightarrow> decode_all dec (length xs) s (encode_all enc nxt s xs @ rest) = Some (map norm xs, rest)"
proof (induction xs arbitrary: s)
  case Nil
  then show ?case by simp
next
  case (Cons x xs)
  then have "ok (nxt s x)" by (simp add: ok_next)
  with Cons show ?case by (simp add: dec_enc read_bind_def)
qed

lemma encode_all_length:
  "ok s \<Longrightarrow> list_all valid xs \<Longrightarrow> length (encode_all enc nxt s xs) \<le> length xs * bound"
proof (induction xs arbitrary: s)
  case Nil
  then show ?case by simp
next
  case (Cons x xs)
  then have "length (enc s x) \<le> bound" "length (encode_all enc nxt (nxt s x) xs) \<le> length xs * bound"
    by (simp_all add: enc_length ok_next)
  then show ?case by simp
qed

end

section \<open>Raw bytes\<close>

text \<open>\<open>src(dst, len)\<close>: exactly \<open>len\<close> bytes, or failure.\<close>

definition read_bytes :: "nat \<Rightarrow> u8 list reader" where
  "read_bytes n bs = (if n \<le> length bs then Some (take n bs, drop n bs) else None)"

definition read_u8 :: "u8 reader" where
  "read_u8 bs = (case bs of [] \<Rightarrow> None | b # r \<Rightarrow> Some (b, r))"

lemma read_u8_Cons [simp]: "read_u8 (b # r) = Some (b, r)"
  by (simp add: read_u8_def)

lemma read_bytes_append [simp]: "length xs = n \<Longrightarrow> read_bytes n (xs @ r) = Some (xs, r)"
  by (simp add: read_bytes_def)

section \<open>Fixed width\<close>

definition writeU32LE :: "u32 \<Rightarrow> u8 list" where
  "writeU32LE v = [ucast v, ucast (drop_bit 8 v), ucast (drop_bit 16 v), ucast (drop_bit 24 v)]"

definition writeU16LE :: "u16 \<Rightarrow> u8 list" where
  "writeU16LE v = [ucast v, ucast (drop_bit 8 v)]"

definition writeI32LE :: "i32 \<Rightarrow> u8 list" where
  "writeI32LE v = writeU32LE v"

definition writeI16LE :: "i16 \<Rightarrow> u8 list" where
  "writeI16LE v = [ucast v, ucast (drop_bit 8 v)]"

definition readU32LE :: "u8 list \<Rightarrow> u32" where
  "readU32LE src = ucast (src ! 0) OR push_bit 8 (ucast (src ! 1)) OR push_bit 16 (ucast (src ! 2))
                 OR push_bit 24 (ucast (src ! 3))"

definition readU16LE :: "u8 list \<Rightarrow> u16" where
  "readU16LE src = ucast (src ! 0) OR push_bit 8 (ucast (src ! 1))"

definition readI32LE :: "u8 list \<Rightarrow> i32" where
  "readI32LE src = readU32LE src"

definition readI16LE :: "u8 list \<Rightarrow> i16" where
  "readI16LE src = readU16LE src"

lemma write_length [simp]:
  "length (writeU32LE v) = 4" "length (writeI32LE v) = 4" "length (writeU16LE w) = 2" "length (writeI16LE w) = 2"
  by (simp_all add: writeU32LE_def writeI32LE_def writeU16LE_def writeI16LE_def)

lemma readU32LE_write [simp]: "readU32LE (writeU32LE v @ r) = v"
proof (rule bit_word_eqI)
  fix n assume "n < LENGTH(32)"
  moreover have "24 \<le> n \<Longrightarrow> 24 + (n - 24) = n" by simp
  ultimately show "bit (readU32LE (writeU32LE v @ r)) n \<longleftrightarrow> bit v n"
    unfolding readU32LE_def writeU32LE_def
    by (cases "n < 8"; cases "n < 16"; cases "n < 24") (auto simp: bit_simps)
qed

lemma readU16LE_write [simp]: "readU16LE (writeU16LE v @ r) = v"
  unfolding readU16LE_def writeU16LE_def
  by (rule bit_word_eqI) (auto simp: bit_simps)

lemma readI32LE_write [simp]: "readI32LE (writeI32LE v @ r) = v"
  by (simp add: readI32LE_def writeI32LE_def)

lemma readI16LE_write [simp]: "readI16LE (writeI16LE v @ r) = v"
  unfolding readI16LE_def readU16LE_def writeI16LE_def
  by (rule bit_word_eqI) (auto simp: bit_simps)

text \<open>The bits of the masks that occur below.\<close>

lemma bit_128: "bit (128 :: int) n \<longleftrightarrow> n = 7"
proof -
  have "(128 :: int) = 2 ^ 7" by simp
  then show ?thesis by (simp only: bit_exp_iff) auto
qed

lemma bit_127: "bit (127 :: int) n \<longleftrightarrow> n < 7"
proof -
  have "(127 :: int) = mask 7" by (simp add: mask_eq_exp_minus_1)
  then show ?thesis by (simp only: bit_mask_iff) auto
qed

lemma bit_ff: "bit (4294967295 :: int) n \<longleftrightarrow> n < 32"
proof -
  have "(4294967295 :: int) = mask 32" by (simp add: mask_eq_exp_minus_1)
  then show ?thesis by (simp only: bit_mask_iff) auto
qed

lemmas bit_literals = bit_128 bit_127 bit_ff

section \<open>Zigzag\<close>

text \<open>\<open>v < 0\<close> is \<open>sint v < 0\<close>; the shifts and the subtraction are on \<open>uint32_t\<close>.\<close>

definition zigzag :: "i32 \<Rightarrow> u32" where
  "zigzag v = push_bit 1 v XOR (if sint v < 0 then 0xFFFFFFFF else 0)"

definition unzigzag :: "u32 \<Rightarrow> i32" where
  "unzigzag v = drop_bit 1 v XOR (0 - (v AND 1))"

lemma sint_neg_bit: "sint v < 0 \<longleftrightarrow> bit v 31" for v :: i32
proof -
  have "bit v 31 \<longleftrightarrow> bit (uint v) 31" by (simp add: bit_uint_iff)
  also have "\<dots> \<longleftrightarrow> odd (uint v div 2 ^ 31)" by (rule bit_iff_odd)
  also have "\<dots> \<longleftrightarrow> 2 ^ 31 \<le> uint v"
  proof (cases "2 ^ 31 \<le> uint v")
    case True
    then have "uint v div 2 ^ 31 = 1" using uint_lt2p [of v] by simp
    with True show ?thesis by simp
  next
    case False
    then have "uint v div 2 ^ 31 = 0" using uint_ge_0 [of v] by simp
    with False show ?thesis by simp
  qed
  finally show ?thesis using uint_lt2p [of v] by (auto simp: sint_u32)
qed

lemma neg_and_one: "(0 - (v AND 1) :: u32) = (if bit v 0 then 0xFFFFFFFF else 0)"
  by (simp add: and_one_eq bit_0 odd_iff_mod_2_eq_one)

lemma unzigzag_zigzag [simp]: "unzigzag (zigzag v) = v"
proof (rule bit_word_eqI)
  fix n assume n: "n < LENGTH(32)"
  have z: "bit (zigzag v) k \<longleftrightarrow> (if k < 32 then (1 \<le> k \<and> bit v (k - 1)) \<noteq> bit v 31 else False)" for k
    unfolding zigzag_def sint_neg_bit bit_xor_iff bit_push_bit_iff
    by (auto simp: bit_literals)
  have "bit (unzigzag (zigzag v)) n \<longleftrightarrow> (bit (zigzag v) (Suc n) \<noteq> (bit (zigzag v) 0 \<and> n < 32))"
    unfolding unzigzag_def neg_and_one by (auto simp: bit_simps bit_literals)
  also have "\<dots> \<longleftrightarrow> bit v n"
    using n by (cases "n = 31") (auto simp: z)
  finally show "bit (unzigzag (zigzag v)) n \<longleftrightarrow> bit v n" .
qed

section \<open>Varints\<close>

lemma unat_drop7: "unat (drop_bit 7 v) = unat v div 128" for v :: u32
proof -
  have "unat (drop_bit 7 v) = drop_bit 7 (unat v)" by (rule unat_drop_bit_eq)
  then show ?thesis by (simp only: drop_bit_eq_div) simp
qed

lemma drop7_bound: "unat v < 128 * b \<Longrightarrow> unat (drop_bit 7 v) < b" for v :: u32
  by (simp only: unat_drop7 less_mult_imp_div_less mult.commute [of 128])

lemma drop7_less: "(0x80 :: u32) \<le> v \<Longrightarrow> unat (drop_bit 7 v) < unat v"
  by (simp only: unat_drop7 word_le_nat_alt) simp

function writeUvarint :: "u32 \<Rightarrow> u8 list" where
  "writeUvarint v = (if 0x80 \<le> v then (ucast v OR 0x80) # writeUvarint (drop_bit 7 v) else [ucast v])"
  by auto
termination by (relation "measure unat") (auto simp: drop7_less)

declare writeUvarint.simps [simp del]

function uvarintSize :: "u32 \<Rightarrow> nat" where
  "uvarintSize v = (if 0x80 \<le> v then Suc (uvarintSize (drop_bit 7 v)) else 1)"
  by auto
termination by (relation "measure unat") (auto simp: drop7_less)

declare uvarintSize.simps [simp del]

definition writeSvarint :: "i32 \<Rightarrow> u8 list" where
  "writeSvarint v = writeUvarint (zigzag v)"

text \<open>The reader's loop: \<open>n\<close> more bytes are allowed, \<open>i\<close> is the index of the next one.\<close>

fun read_uvarint_loop :: "nat \<Rightarrow> nat \<Rightarrow> u32 \<Rightarrow> u32 reader" where
  "read_uvarint_loop 0 i v bs = None"
| "read_uvarint_loop (Suc n) i v bs =
     (case bs of
        [] \<Rightarrow> None
      | b # r \<Rightarrow>
          (let v = v OR push_bit (7 * i) (ucast (b AND 0x7F)) in
           if b AND 0x80 = 0 then Some (v, r) else read_uvarint_loop n (Suc i) v r))"

definition readUvarintSrc :: "u32 reader" where
  "readUvarintSrc = read_uvarint_loop 5 0 0"

definition readSvarintSrc :: "i32 reader" where
  "readSvarintSrc = read_bind readUvarintSrc (\<lambda>u. read_return (unzigzag u))"

lemma uvarintSize_length: "uvarintSize v = length (writeUvarint v)"
  by (induction v rule: writeUvarint.induct) (simp add: writeUvarint.simps uvarintSize.simps)

text \<open>One more byte for every seven bits.\<close>

lemma writeUvarint_length:
  "unat v < 2 ^ (7 * Suc k) \<Longrightarrow> length (writeUvarint v) \<le> Suc k"
proof (induction k arbitrary: v)
  case 0
  then show ?case by (simp add: writeUvarint.simps [of v] word_le_nat_alt)
next
  case (Suc k)
  then have "unat (drop_bit 7 v) < 2 ^ (7 * Suc k)"
    by (intro drop7_bound) (simp add: power_add)
  from Suc.IH [OF this] show ?case by (simp add: writeUvarint.simps [of v])
qed

lemma writeUvarint_length5: "length (writeUvarint v) \<le> 5"
  using writeUvarint_length [of v 4] unsigned_less [where 'a = nat, of v] by simp

lemma writeUvarint_nonempty [simp]: "writeUvarint v \<noteq> []"
  by (simp add: writeUvarint.simps [of v])

lemma more_byte: "(ucast v OR 0x80 :: u8) AND 0x80 \<noteq> 0" for v :: u32
proof
  assume "(ucast v OR 0x80 :: u8) AND 0x80 = 0"
  then have "\<not> bit ((ucast v OR 0x80 :: u8) AND 0x80) 7" by simp
  then show False by (simp add: bit_simps bit_literals)
qed

lemma last_byte:
  fixes v :: u32
  assumes "\<not> 0x80 \<le> v"
  shows "(ucast v :: u8) AND 0x80 = 0" "ucast ((ucast v :: u8) AND 0x7F) = v"
proof -
  from assms have "unat v < 2 ^ 7" by (simp add: word_le_nat_alt)
  then have "v = take_bit 7 v"
    by (intro word_unat_eq_iff [THEN iffD2]) (simp add: unsigned_take_bit_eq take_bit_nat_eq_self)
  then have b: "bit v n \<Longrightarrow> n < 7" for n by (metis bit_take_bit_iff)
  show "(ucast v :: u8) AND 0x80 = 0" by (rule bit_word_eqI) (use b in \<open>auto simp: bit_simps bit_literals\<close>)
  show "ucast ((ucast v :: u8) AND 0x7F) = v"
    by (rule bit_word_eqI) (use b in \<open>auto simp: bit_simps bit_literals dest: b\<close>)
qed

lemma split_byte:
  "push_bit k (ucast ((ucast v OR 0x80 :: u8) AND 0x7F)) OR push_bit (k + 7) (drop_bit 7 v) = push_bit k v"
  for v :: u32
proof (rule bit_word_eqI)
  fix n assume "n < LENGTH(32)"
  then show "bit (push_bit k (ucast ((ucast v OR 0x80 :: u8) AND 0x7F)) OR push_bit (k + 7) (drop_bit 7 v)) n
      \<longleftrightarrow> bit (push_bit k v) n"
    by (cases "n < k + 7") (auto simp: bit_simps bit_literals)
qed

lemma read_uvarint_loop_write:
  "unat v < 2 ^ (7 * n) \<Longrightarrow> 0 < n
    \<Longrightarrow> read_uvarint_loop n i a (writeUvarint v @ rest) = Some (a OR push_bit (7 * i) v, rest)"
proof (induction n arbitrary: v i a)
  case 0
  then show ?case by simp
next
  case (Suc n)
  show ?case
  proof (cases "0x80 \<le> v")
    case False
    then show ?thesis by (simp add: writeUvarint.simps [of v] last_byte)
  next
    case True
    then have n: "0 < n" using Suc.prems by (cases n) (auto simp: word_le_nat_alt)
    have "unat (drop_bit 7 v) < 2 ^ (7 * n)"
      using Suc.prems(1)
      by (intro drop7_bound) (simp add: power_add)
    note IH = Suc.IH [OF this n]
    have "read_uvarint_loop (Suc n) i a (writeUvarint v @ rest)
        = read_uvarint_loop n (Suc i) (a OR push_bit (7 * i) (ucast ((ucast v OR 0x80 :: u8) AND 0x7F)))
            (writeUvarint (drop_bit 7 v) @ rest)"
      using True
      by (simp only: writeUvarint.simps [of v] if_True append_Cons read_uvarint_loop.simps list.case
          Let_def more_byte if_False)
    then show ?thesis
      using IH split_byte [of "7 * i" v] by (simp only: or.assoc mult_Suc_right add.commute)
  qed
qed

lemma readUvarintSrc_write [simp]: "readUvarintSrc (writeUvarint v @ rest) = Some (v, rest)"
  using read_uvarint_loop_write [of v 5 0 0 rest] unsigned_less [where 'a = nat, of v]
  by (simp add: readUvarintSrc_def)

lemma readSvarintSrc_write [simp]: "readSvarintSrc (writeSvarint v @ rest) = Some (v, rest)"
  by (simp add: readSvarintSrc_def writeSvarint_def read_bind_def)

interpretation uvarint: codec writeUvarint readUvarintSrc
  by unfold_locales simp

interpretation svarint: codec writeSvarint readSvarintSrc
  by unfold_locales simp

text \<open>A varint that does not end within what is given is refused, never read past.\<close>

lemma read_uvarint_loop_suffix:
  "read_uvarint_loop n i v bs = Some (x, r) \<Longrightarrow> \<exists>p. bs = p @ r \<and> 0 < length p \<and> length p \<le> n"
proof (induction n arbitrary: i v bs)
  case 0
  then show ?case by simp
next
  case (Suc n)
  then obtain b bs' where bs: "bs = b # bs'" by (cases bs) auto
  show ?case
  proof (cases "b AND 0x80 = 0")
    case True
    with Suc.prems bs show ?thesis by (intro exI [of _ "[b]"]) (auto simp: Let_def)
  next
    case False
    with Suc.prems bs have "read_uvarint_loop n (Suc i) (v OR push_bit (7 * i) (ucast (b AND 0x7F))) bs' = Some (x, r)"
      by (simp add: Let_def)
    from Suc.IH [OF this] obtain p where "bs' = p @ r" "0 < length p \<and> length p \<le> n" by blast
    with bs show ?thesis by (intro exI [of _ "b # p"]) auto
  qed
qed

end
