(* ===== verification/ExtractionData.thy ===== *)
theory ExtractionData
  imports Bytes
begin

text \<open>
  The record of an espresso extraction (\<open>src/src/apps/extraction/Extraction.h\<close>). An \<open>enum class\<close>
  over \<open>uint8_t\<close> is a datatype with the byte of each constructor; a field of such a type holds the
  byte, because the decoder casts whatever byte it reads. A fixed array with its count is the
  list of the counted elements.
\<close>

section \<open>Enumerations\<close>

datatype Phase = PHASE_IDLE | PHASE_RUNNING | PHASE_POST_PUMP | PHASE_DONE

fun phase_byte :: "Phase \<Rightarrow> u8" where
  "phase_byte PHASE_IDLE = 0"
| "phase_byte PHASE_RUNNING = 1"
| "phase_byte PHASE_POST_PUMP = 2"
| "phase_byte PHASE_DONE = 3"

datatype EndCause = END_NONE | END_STABLE | END_TIMEOUT

fun end_cause_byte :: "EndCause \<Rightarrow> u8" where
  "end_cause_byte END_NONE = 0"
| "end_cause_byte END_STABLE = 1"
| "end_cause_byte END_TIMEOUT = 2"

datatype YieldStatus = YIELD_NONE | YIELD_OK | YIELD_DISTURBED

fun yield_status_byte :: "YieldStatus \<Rightarrow> u8" where
  "yield_status_byte YIELD_NONE = 0"
| "yield_status_byte YIELD_OK = 1"
| "yield_status_byte YIELD_DISTURBED = 2"

datatype EventKind = EV_BEGIN | EV_TARE | EV_PUMP_ON | EV_PUMP_OFF_CONFIRMED | EV_SCALE_CONNECTED
  | EV_SCALE_DISCONNECTED | EV_STABLE_DETECTED | EV_END | EV_ALARM_TRIGGERED

fun event_kind_byte :: "EventKind \<Rightarrow> u8" where
  "event_kind_byte EV_BEGIN = 0"
| "event_kind_byte EV_TARE = 1"
| "event_kind_byte EV_PUMP_ON = 2"
| "event_kind_byte EV_PUMP_OFF_CONFIRMED = 3"
| "event_kind_byte EV_SCALE_CONNECTED = 4"
| "event_kind_byte EV_SCALE_DISCONNECTED = 5"
| "event_kind_byte EV_STABLE_DETECTED = 6"
| "event_kind_byte EV_END = 7"
| "event_kind_byte EV_ALARM_TRIGGERED = 8"

definition VERSION_UNKNOWN :: u8 where "VERSION_UNKNOWN = 0"
definition VERSION_V6 :: u8 where "VERSION_V6 = 6"
definition VERSION_V7 :: u8 where "VERSION_V7 = 7"
definition kCurrentExtractionVersion :: u8 where "kCurrentExtractionVersion = VERSION_V7"

lemmas version_defs = VERSION_UNKNOWN_def VERSION_V6_def VERSION_V7_def kCurrentExtractionVersion_def

section \<open>Records\<close>

record event =
  ev_tMs :: u32
  ev_kind :: u8
  ev_signalDecayLeadMsPlusOne :: u16    \<comment> \<open>\<open>payload.pumpOffConfirmed\<close>\<close>

definition hasSignalDecayOnset :: "u16 \<Rightarrow> bool" where
  "hasSignalDecayOnset plusOne \<longleftrightarrow> plusOne \<noteq> 0"

definition signalDecayLeadMs :: "u16 \<Rightarrow> u16" where
  "signalDecayLeadMs plusOne = (if hasSignalDecayOnset plusOne then plusOne - 1 else 0)"

definition signalDecayOnsetMs :: "u16 \<Rightarrow> u32 \<Rightarrow> u32" where
  "signalDecayOnsetMs plusOne confirmationMs = confirmationMs - ucast (signalDecayLeadMs plusOne)"

record target_coeffs =
  tc_targetCg :: i16
  tc_armed :: bool
  tc_tauMs :: u16
  tc_cCg :: i16
  tc_reactionLeadMs :: u16

record alarm_context =
  ac_yieldCg :: i16
  ac_flowCgPerS :: i16
  ac_flowValid :: bool
  ac_projectedFinalCg :: i16

record alarm_trigger =
  at_tMs :: u32
  at_ctx :: alarm_context

definition UNKNOWN_MS :: u32 where "UNKNOWN_MS = 0xFFFFFFFF"

record sample =
  sm_tMs :: u32
  sm_cg :: i16
  sm_scaleTimerMs :: u32

definition sampleHasScaleTimer :: "sample \<Rightarrow> bool" where
  "sampleHasScaleTimer s \<longleftrightarrow> sm_scaleTimerMs s \<noteq> UNKNOWN_MS"

definition sampleRangeHasScaleTimer :: "sample list \<Rightarrow> bool" where
  "sampleRangeHasScaleTimer ss = list_ex sampleHasScaleTimer ss"

definition MAX_SAMPLES :: nat where "MAX_SAMPLES = 768"
definition MAX_EVENTS :: nat where "MAX_EVENTS = 64"
definition NO_WEIGHT :: i16 where "NO_WEIGHT = 0x8000"    \<comment> \<open>\<open>INT16_MIN\<close>\<close>
definition kMinTargetCg :: i16 where "kMinTargetCg = 1000"

record extraction =
  ex_version :: u8
  ex_phase :: u8
  ex_endCause :: u8
  ex_beginMs :: u32
  ex_lastPumpOffConfirmedMs :: u32
  ex_stableMs :: u32
  ex_endMs :: u32
  ex_totalPumpOnMs :: u32
  ex_startUtcSec :: u32
  ex_yieldStatus :: u8
  ex_yieldCg :: i16
  ex_startRawCg :: i16
  ex_settledRawCg :: i16
  ex_observedSampleCount :: u16
  ex_pourMs :: u32
  ex_decisionGainCg :: i32
  ex_eventsOverflowed :: bool
  ex_events :: "event list"
  ex_samples :: "sample list"
  ex_hasTargetSnapshot :: bool
  ex_target :: target_coeffs
  ex_alarm :: alarm_trigger

definition default_target :: target_coeffs where
  "default_target = \<lparr>tc_targetCg = 0, tc_armed = False, tc_tauMs = 1000, tc_cCg = 0, tc_reactionLeadMs = 0\<rparr>"

definition default_alarm :: alarm_trigger where
  "default_alarm = \<lparr>at_tMs = 0, at_ctx = \<lparr>ac_yieldCg = NO_WEIGHT, ac_flowCgPerS = 0,
     ac_flowValid = False, ac_projectedFinalCg = NO_WEIGHT\<rparr>\<rparr>"

definition default_extraction :: extraction where
  "default_extraction = \<lparr>ex_version = VERSION_UNKNOWN, ex_phase = phase_byte PHASE_IDLE,
     ex_endCause = end_cause_byte END_NONE, ex_beginMs = 0, ex_lastPumpOffConfirmedMs = 0,
     ex_stableMs = 0, ex_endMs = 0, ex_totalPumpOnMs = 0, ex_startUtcSec = 0,
     ex_yieldStatus = yield_status_byte YIELD_NONE, ex_yieldCg = NO_WEIGHT,
     ex_startRawCg = NO_WEIGHT, ex_settledRawCg = NO_WEIGHT, ex_observedSampleCount = 0,
     ex_pourMs = 0, ex_decisionGainCg = 0, ex_eventsOverflowed = False, ex_events = [],
     ex_samples = [], ex_hasTargetSnapshot = False, ex_target = default_target,
     ex_alarm = default_alarm\<rparr>"

section \<open>Helpers\<close>

definition saturateCg :: "i32 \<Rightarrow> i16" where
  "saturateCg v = (if sint v < -32767 then word_of_int (-32767)
                   else if sint v > 32767 then 32767 else ucast v)"

definition hasSampleData :: "extraction \<Rightarrow> bool" where
  "hasSampleData e \<longleftrightarrow> 0 < ex_observedSampleCount e"

definition extractionElapsedMs :: "extraction \<Rightarrow> u32 \<Rightarrow> u32" where
  "extractionElapsedMs e nowMs =
     (if ex_phase e = phase_byte PHASE_IDLE then 0
      else if ex_phase e = phase_byte PHASE_DONE then ex_endMs e - ex_beginMs e
      else nowMs - ex_beginMs e)"

definition resolveReplayCoeffs :: "extraction \<Rightarrow> target_coeffs \<Rightarrow> target_coeffs" where
  "resolveReplayCoeffs shot live = (if ex_hasTargetSnapshot shot then ex_target shot else live)"

section \<open>Weights\<close>

lemma sint_i16_cases:
  fixes c :: i16
  obtains "sint c = uint c" "0 \<le> uint c" "uint c < 32768"
    | "sint c = uint c - 65536" "32768 \<le> uint c" "uint c < 65536"
  using sint_u16 [of c] uint_lt2p [of c] uint_ge_0 [of c]
  by (cases "uint c < 32768") auto

lemma sint_i16_range: "-32768 \<le> sint c" "sint c \<le> 32767" for c :: i16
  by (cases rule: sint_i16_cases [of c]; linarith)+

lemma sint_i16_of_int: "-32768 \<le> k \<Longrightarrow> k \<le> 32767 \<Longrightarrow> sint (word_of_int k :: i16) = k"
  by (simp add: signed_of_int signed_take_bit_int_eq_self)

lemma sint_scast16: "sint (scast c :: i32) = sint c" for c :: i16
  by (simp add: signed_scast_eq signed_take_bit_int_eq_self_iff)
    (use sint_i16_range [of c] in simp)

lemma sint_no_weight: "sint c = -32768 \<longleftrightarrow> c = NO_WEIGHT" for c :: i16
proof
  assume "c = NO_WEIGHT"
  then show "sint c = -32768" by (simp add: NO_WEIGHT_def sint_u16)
next
  assume s: "sint c = -32768"
  have "uint c = 32768"
    by (cases rule: sint_i16_cases [of c]) (use s in linarith)+
  then have "uint c = uint (0x8000 :: i16)" by simp
  then show "c = NO_WEIGHT" unfolding NO_WEIGHT_def by (rule word_uint_eqI)
qed

lemma saturateCg_range: "-32767 \<le> sint (saturateCg v)" "saturateCg v \<noteq> NO_WEIGHT"
proof -
  have u: "sint (ucast v :: i16) = sint v" if "-32767 \<le> sint v" "sint v \<le> 32767"
  proof -
    have "(ucast v :: i16) = word_of_int (sint v)"
      by (rule bit_word_eqI) (simp add: bit_simps)
    then show ?thesis using that by (simp only: sint_i16_of_int)
  qed
  show r: "-32767 \<le> sint (saturateCg v)"
  proof (cases "sint v < -32767 \<or> sint v > 32767")
    case True
    then show ?thesis
    proof
      assume "sint v < -32767"
      then have "saturateCg v = word_of_int (-32767)" by (simp add: saturateCg_def)
      then show ?thesis by (simp only: sint_i16_of_int [of "-32767"])
    next
      assume "sint v > 32767"
      then have "saturateCg v = 32767" by (simp add: saturateCg_def)
      then show ?thesis using sint_i16_of_int [of 32767] by simp
    qed
  next
    case False
    then show ?thesis using u by (simp add: saturateCg_def)
  qed
  show "saturateCg v \<noteq> NO_WEIGHT"
    using r sint_no_weight [of "saturateCg v"] by auto
qed

lemma saturateCg_scast [simp]: "c \<noteq> NO_WEIGHT \<Longrightarrow> saturateCg (scast c) = c" for c :: i16
proof -
  assume "c \<noteq> NO_WEIGHT"
  then have "sint c \<noteq> -32768" by (simp add: sint_no_weight)
  with sint_i16_range [of c] have "\<not> sint c < -32767" "\<not> sint c > 32767" by auto
  moreover have "(ucast (scast c :: i32) :: i16) = c"
    by (rule bit_word_eqI) (auto simp: bit_simps)
  ultimately show ?thesis by (simp add: saturateCg_def sint_scast16)
qed

end
