(* ===== verification/Wire.thy ===== *)
theory Wire
  imports ExtractionData
begin

text \<open>
  The compact record format (\<open>src/src/apps/extraction/ExtractionWire.h\<close> and \<open>.cpp\<close>, with the
  sample deltas of \<open>extraction_encoding.cpp\<close>): one encoder for HTTP and the file system, one
  decoder. The sink is the list of the chunks it was given; the source is the bytes that are left.
\<close>

section \<open>Constants\<close>

definition kCompactHeaderBytes :: nat where "kCompactHeaderBytes = 54"
definition kCompactTargetBlockBytes :: nat where "kCompactTargetBlockBytes = 20"
definition kMaxVarint32Bytes :: nat where "kMaxVarint32Bytes = 5"
definition kMaxEventPayloadVarintBytes :: nat where "kMaxEventPayloadVarintBytes = 3"
definition kMaxWeightDeltaVarintBytes :: nat where "kMaxWeightDeltaVarintBytes = 3"

definition kMaxCompactRecordBytes :: nat where
  "kMaxCompactRecordBytes = kCompactHeaderBytes
     + MAX_EVENTS * (kMaxVarint32Bytes + 1 + kMaxEventPayloadVarintBytes)
     + MAX_SAMPLES * (2 * kMaxVarint32Bytes + kMaxWeightDeltaVarintBytes)
     + kCompactTargetBlockBytes"

definition kCompactVersion :: u8 where "kCompactVersion = kCurrentExtractionVersion"

definition isCompactVersionSupported :: "u8 \<Rightarrow> bool" where
  "isCompactVersionSupported v \<longleftrightarrow> v = VERSION_V6 \<or> v = VERSION_V7"

definition FLAG_EVENTS_OVERFLOWED :: u8 where "FLAG_EVENTS_OVERFLOWED = 0x01"
definition FLAG_SCALE_TIMERS :: u8 where "FLAG_SCALE_TIMERS = 0x02"

lemmas wire_consts = kCompactHeaderBytes_def kCompactTargetBlockBytes_def kMaxVarint32Bytes_def
  kMaxEventPayloadVarintBytes_def kMaxWeightDeltaVarintBytes_def kMaxCompactRecordBytes_def
  kCompactVersion_def

section \<open>The chunked writer\<close>

record chunked_writer =
  cw_buf :: "u8 list"
  cw_sink :: "u8 list list"

definition CW_SIZE :: nat where "CW_SIZE = 256"

definition cw_init :: chunked_writer where
  "cw_init = \<lparr>cw_buf = [], cw_sink = []\<rparr>"

definition cw_flush :: "chunked_writer \<Rightarrow> chunked_writer" where
  "cw_flush w = (if cw_buf w \<noteq> [] then \<lparr>cw_buf = [], cw_sink = cw_sink w @ [cw_buf w]\<rparr> else w)"

function cw_put :: "u8 list \<Rightarrow> chunked_writer \<Rightarrow> chunked_writer" where
  "cw_put data w =
     (if data = [] then w
      else let avail = CW_SIZE - length (cw_buf w);
               w' = (if avail = 0 then cw_flush w else w);
               avail = (if avail = 0 then CW_SIZE else avail);
               n = (if length data < avail then length data else avail)
           in cw_put (drop n data) (w'\<lparr>cw_buf := cw_buf w' @ take n data\<rparr>))"
  by auto
termination
  by (relation "measure (\<lambda>(data, w). length data)") (auto simp: CW_SIZE_def Let_def)

declare cw_put.simps [simp del]

text \<open>What the sink has been given and will be given: everything put so far.\<close>

definition cw_bytes :: "chunked_writer \<Rightarrow> u8 list" where
  "cw_bytes w = concat (cw_sink w) @ cw_buf w"

definition cw_inv :: "chunked_writer \<Rightarrow> bool" where
  "cw_inv w \<longleftrightarrow> length (cw_buf w) \<le> CW_SIZE \<and> (\<forall>c \<in> set (cw_sink w). length c = CW_SIZE)"

lemma cw_put_step:
  assumes "data \<noteq> []" and "cw_inv w"
  obtains n v where "cw_put data w = cw_put (drop n data) v" "0 < n" "cw_bytes v = cw_bytes w @ take n data" "cw_inv v"
proof -
  define room where "room = (if length (cw_buf w) = CW_SIZE then cw_flush w else w)"
  define avail where "avail = CW_SIZE - length (cw_buf room)"
  define n where "n = (if length data < avail then length data else avail)"
  have room: "cw_inv room" "cw_bytes room = cw_bytes w" "length (cw_buf room) < CW_SIZE"
    using assms(2) by (auto simp: room_def cw_inv_def cw_flush_def cw_bytes_def CW_SIZE_def)
  have full: "CW_SIZE - length (cw_buf w) = 0 \<longleftrightarrow> length (cw_buf w) = CW_SIZE"
    using assms(2) by (auto simp: cw_inv_def)
  have avail: "(if CW_SIZE - length (cw_buf w) = 0 then CW_SIZE else CW_SIZE - length (cw_buf w)) = avail"
    using assms(2) by (auto simp: avail_def room_def cw_inv_def cw_flush_def CW_SIZE_def)
  have "cw_put data w = cw_put (drop n data) (room\<lparr>cw_buf := cw_buf room @ take n data\<rparr>)"
    using assms(1) by (subst cw_put.simps)
      (simp only: Let_def if_False avail n_def [symmetric], simp only: full room_def)
  moreover have "0 < n" using assms(1) room(3) by (simp add: n_def avail_def)
  moreover have "cw_bytes (room\<lparr>cw_buf := cw_buf room @ take n data\<rparr>) = cw_bytes w @ take n data"
    using room(2) by (simp add: cw_bytes_def)
  moreover have "cw_inv (room\<lparr>cw_buf := cw_buf room @ take n data\<rparr>)"
    using room by (auto simp: cw_inv_def n_def avail_def)
  ultimately show thesis using that by blast
qed

lemma cw_put_correct: "cw_inv w \<Longrightarrow> cw_inv (cw_put data w) \<and> cw_bytes (cw_put data w) = cw_bytes w @ data"
proof (induction data arbitrary: w rule: length_induct)
  case (1 data)
  show ?case
  proof (cases "data = []")
    case True
    then show ?thesis using 1 by (simp add: cw_put.simps)
  next
    case False
    then obtain n v where v: "cw_put data w = cw_put (drop n data) v" "0 < n"
      "cw_bytes v = cw_bytes w @ take n data" "cw_inv v"
      using cw_put_step 1 by blast
    then have "length (drop n data) < length data" using False by simp
    with 1 v show ?thesis by (metis append.assoc append_take_drop_id)
  qed
qed

section \<open>Events\<close>

definition writeEvent :: "u32 \<Rightarrow> event \<Rightarrow> u8 list" where
  "writeEvent previousTMs e =
     writeUvarint (ev_tMs e - previousTMs) @ [ev_kind e]
     @ (if ev_kind e = event_kind_byte EV_PUMP_OFF_CONFIRMED
        then writeUvarint (ucast (ev_signalDecayLeadMsPlusOne e)) else [])"

definition readEvent :: "u8 \<Rightarrow> u32 \<Rightarrow> (event \<times> u32) reader" where
  "readEvent version previousTMs =
     read_bind readUvarintSrc (\<lambda>delta.
       let t = previousTMs + delta in
       read_bind read_u8 (\<lambda>kind.
         if VERSION_V7 \<le> version \<and> kind = event_kind_byte EV_PUMP_OFF_CONFIRMED then
           read_bind readUvarintSrc (\<lambda>lead.
             if lead > 0xFFFF then read_fail
             else read_return (\<lparr>ev_tMs = t, ev_kind = kind, ev_signalDecayLeadMsPlusOne = ucast lead\<rparr>, t))
         else read_return (\<lparr>ev_tMs = t, ev_kind = kind, ev_signalDecayLeadMsPlusOne = 0\<rparr>, t)))"

text \<open>The state of the event stream is the time of the last event.\<close>

definition event_next :: "u32 \<Rightarrow> event \<Rightarrow> u32" where
  "event_next t e = ev_tMs e"

text \<open>A payload belongs to one kind of event only.\<close>

definition event_norm :: "event \<Rightarrow> event" where
  "event_norm e = (if ev_kind e = event_kind_byte EV_PUMP_OFF_CONFIRMED then e
                   else e\<lparr>ev_signalDecayLeadMsPlusOne := 0\<rparr>)"

lemma ucast_u16_u32: "ucast (ucast w :: u32) = (w :: u16)" "\<not> (0xFFFF :: u32) < ucast w"
proof -
  show "ucast (ucast w :: u32) = (w :: u16)" by (rule bit_word_eqI) (simp add: bit_simps)
  have "unat (ucast w :: u32) = unat w"
    using unsigned_less [where 'a = nat, of w]
    by (simp add: unsigned_ucast_eq take_bit_nat_eq_self)
  then show "\<not> (0xFFFF :: u32) < ucast w"
    using unsigned_less [where 'a = nat, of w] by (simp add: word_less_nat_alt)
qed

lemma writeEvent_length: "length (writeEvent t e) \<le> 9"
proof -
  have "unat (ucast (ev_signalDecayLeadMsPlusOne e) :: u32) \<le> 65535"
    using ucast_u16_u32(2) [of "ev_signalDecayLeadMsPlusOne e"] by (simp add: word_less_nat_alt)
  then have "length (writeUvarint (ucast (ev_signalDecayLeadMsPlusOne e))) \<le> 3"
    using writeUvarint_length [of "ucast (ev_signalDecayLeadMsPlusOne e)" 2] by simp
  then show ?thesis
    using writeUvarint_length5 [of "ev_tMs e - t"] by (simp add: writeEvent_def)
qed

interpretation events: stream_codec writeEvent "readEvent VERSION_V7" event_next event_norm
  "\<lambda>_. True" "\<lambda>_. True" 9
proof
  fix t e rest
  show "readEvent VERSION_V7 t (writeEvent t e @ rest) = Some ((event_norm e, event_next t e), rest)"
    by (auto simp: readEvent_def writeEvent_def event_norm_def event_next_def read_bind_def Let_def
        ucast_u16_u32)
qed (simp_all add: writeEvent_length)

section \<open>Samples\<close>

record sample_cursor =
  cu_prevTMs :: u32
  cu_prevCg :: i32
  cu_includeScaleTimers :: bool

definition sample_advance :: "sample_cursor \<Rightarrow> sample \<Rightarrow> sample_cursor" where
  "sample_advance c s = c\<lparr>cu_prevTMs := sm_tMs s, cu_prevCg := scast (sm_cg s)\<rparr>"

definition sampleDeltaEncodedSize :: "sample_cursor \<Rightarrow> sample \<Rightarrow> nat \<times> sample_cursor" where
  "sampleDeltaEncodedSize c s =
     (let dt = sm_tMs s - cu_prevTMs c; dc = scast (sm_cg s) - cu_prevCg c in
      (uvarintSize dt + uvarintSize (zigzag dc)
       + (if cu_includeScaleTimers c then uvarintSize (sm_scaleTimerMs s) else 0), sample_advance c s))"

definition writeSampleDelta :: "sample_cursor \<Rightarrow> sample \<Rightarrow> u8 list" where
  "writeSampleDelta c s =
     (let dt = sm_tMs s - cu_prevTMs c; dc = scast (sm_cg s) - cu_prevCg c in
      writeUvarint dt @ writeSvarint dc
      @ (if cu_includeScaleTimers c then writeUvarint (sm_scaleTimerMs s) else []))"

definition readSample :: "sample_cursor \<Rightarrow> (sample \<times> sample_cursor) reader" where
  "readSample c =
     read_bind readUvarintSrc (\<lambda>dt. read_bind readSvarintSrc (\<lambda>dc.
       let t = cu_prevTMs c + dt; cg = cu_prevCg c + dc in
       read_bind (if cu_includeScaleTimers c then readUvarintSrc else read_return UNKNOWN_MS) (\<lambda>timer.
         read_return (\<lparr>sm_tMs = t, sm_cg = saturateCg cg, sm_scaleTimerMs = timer\<rparr>,
                      c\<lparr>cu_prevTMs := t, cu_prevCg := cg\<rparr>))))"

text \<open>While the cursor is within 16 bits a weight delta is below \<open>2 ^ 16\<close>, so it fits three bytes.\<close>

definition cursor_ok :: "sample_cursor \<Rightarrow> bool" where
  "cursor_ok c \<longleftrightarrow> -32768 \<le> sint (cu_prevCg c) \<and> sint (cu_prevCg c) \<le> 32767"

definition sample_valid :: "bool \<Rightarrow> sample \<Rightarrow> bool" where
  "sample_valid timers s \<longleftrightarrow> sm_cg s \<noteq> NO_WEIGHT \<and> (\<not> timers \<longrightarrow> sm_scaleTimerMs s = UNKNOWN_MS)"

lemma zigzag_small:
  assumes "-65535 \<le> sint v" "sint v \<le> 65535"
  shows "unat (zigzag v) < 2 ^ 21"
proof -
  have u: "uint v < 2 ^ 32" "0 \<le> uint v" using uint_lt2p [of v] uint_ge_0 [of v] by auto
  have "uint (zigzag v) < 2 ^ 21"
  proof (cases "sint v < 0")
    case False
    then have "uint v \<le> 65535" using assms sint_u32 [of v] u by (auto split: if_splits)
    moreover from this have "uint (push_bit 1 v) = 2 * uint v"
      by (simp add: push_bit_eq_mult uint_word_ariths)
    ultimately show ?thesis using False by (simp add: zigzag_def)
  next
    case True
    then have big: "2 ^ 32 - 65535 \<le> uint v" using assms sint_u32 [of v] u by (auto split: if_splits)
    have "(0xFFFFFFFF :: u32) = - 1" by simp
    then have "zigzag v = push_bit 1 v XOR - 1" using True by (simp only: zigzag_def if_True)
    also have "\<dots> = NOT (push_bit 1 v)" by (rule bit_word_eqI) (auto simp: bit_xor_iff bit_not_iff bit_minus_1_iff)
    also have "\<dots> = - 1 - push_bit 1 v" by (simp add: not_eq_complement)
    also have "\<dots> = - 1 - 2 * v" by (simp add: push_bit_eq_mult)
    finally have z: "zigzag v = - 1 - 2 * v" .
    have "- 1 - 2 * v = word_of_int (- 1 - 2 * uint v)" by simp
    then have "uint (- 1 - 2 * v) = (- 1 - 2 * uint v) mod 2 ^ 32"
      by (simp only: uint_word_of_int) simp
    also have "- 1 - 2 * uint v = (2 ^ 33 - 1 - 2 * uint v) + 2 ^ 32 * (- 2)" by simp
    also have "\<dots> mod 2 ^ 32 = (2 ^ 33 - 1 - 2 * uint v) mod 2 ^ 32" by (rule mod_mult_self2)
    also have "\<dots> = 2 ^ 33 - 1 - 2 * uint v"
      using big u by (intro mod_pos_pos_trivial) auto
    finally have "uint (zigzag v) = 2 ^ 33 - 1 - 2 * uint v" by (simp only: z)
    moreover have "(2 :: int) ^ 33 = 8589934592" "(2 :: int) ^ 32 = 4294967296" "(2 :: int) ^ 21 = 2097152" by simp_all
    ultimately show ?thesis using big by linarith
  qed
  moreover have "int (unat (zigzag v)) = uint (zigzag v)" by simp
  ultimately have "int (unat (zigzag v)) < int (2 ^ 21)" by simp
  then show ?thesis by (simp only: of_nat_less_iff)
qed

lemma sint_i32_of_int: "-2147483648 \<le> k \<Longrightarrow> k \<le> 2147483647 \<Longrightarrow> sint (word_of_int k :: i32) = k"
  by (simp add: signed_of_int signed_take_bit_int_eq_self)

lemma sample_dc_small:
  fixes c :: i16 and p :: i32
  assumes "-32768 \<le> sint p" "sint p \<le> 32767"
  shows "-65535 \<le> sint (scast c - p)" "sint (scast c - p) \<le> 65535"
proof -
  have r: "-32768 \<le> sint c" "sint c \<le> 32767" by (rule sint_i16_range)+
  have "scast c - p = word_of_int (sint c - sint p)"
    by simp
  moreover have "sint (word_of_int (sint c - sint p) :: i32) = sint c - sint p"
    by (rule sint_i32_of_int) (use r assms in linarith)+
  ultimately have "sint (scast c - p) = sint c - sint p" by (simp only:)
  with r assms show "-65535 \<le> sint (scast c - p)" "sint (scast c - p) \<le> 65535" by linarith+
qed

lemma writeSampleDelta_length: "cursor_ok c \<Longrightarrow> length (writeSampleDelta c s) \<le> 13"
proof -
  assume "cursor_ok c"
  then have "unat (zigzag (scast (sm_cg s) - cu_prevCg c)) < 2 ^ 21"
    using sample_dc_small [of "cu_prevCg c" "sm_cg s"] by (intro zigzag_small) (auto simp: cursor_ok_def)
  then have "length (writeSvarint (scast (sm_cg s) - cu_prevCg c)) \<le> 3"
    using writeUvarint_length [of "zigzag (scast (sm_cg s) - cu_prevCg c)" 2] by (simp add: writeSvarint_def)
  then show ?thesis
    using writeUvarint_length5 [of "sm_tMs s - cu_prevTMs c"] writeUvarint_length5 [of "sm_scaleTimerMs s"]
    by (simp add: writeSampleDelta_def Let_def)
qed

lemma sampleDeltaEncodedSize_length:
  "sampleDeltaEncodedSize c s = (length (writeSampleDelta c s), sample_advance c s)"
  by (simp add: sampleDeltaEncodedSize_def writeSampleDelta_def writeSvarint_def uvarintSize_length Let_def)

lemma readSample_write:
  assumes "sample_valid (cu_includeScaleTimers c) s"
  shows "readSample c (writeSampleDelta c s @ rest) = Some ((s, sample_advance c s), rest)"
  using assms
  by (auto simp: readSample_def writeSampleDelta_def read_bind_def Let_def sample_valid_def sample_advance_def)

interpretation samples: stream_codec writeSampleDelta readSample sample_advance "\<lambda>s. s"
  "\<lambda>c. cursor_ok c \<and> cu_includeScaleTimers c = b" "sample_valid b" 13 for b
  by unfold_locales
    (auto simp: readSample_write writeSampleDelta_length sample_advance_def cursor_ok_def
      sint_scast16 sint_i16_range)

section \<open>The record\<close>

definition flagsByte :: "extraction \<Rightarrow> u8" where
  "flagsByte e = (if ex_eventsOverflowed e then FLAG_EVENTS_OVERFLOWED else 0)
             OR (if sampleRangeHasScaleTimer (ex_samples e) then FLAG_SCALE_TIMERS else 0)"

definition writeTargetBlock :: "extraction \<Rightarrow> u8 list" where
  "writeTargetBlock e =
     writeU16LE (tc_targetCg (ex_target e)) @ [if tc_armed (ex_target e) then 1 else 0]
     @ writeU16LE (tc_tauMs (ex_target e)) @ writeI16LE (tc_cCg (ex_target e))
     @ writeU16LE (tc_reactionLeadMs (ex_target e)) @ writeU32LE (at_tMs (ex_alarm e))
     @ writeI16LE (ac_yieldCg (at_ctx (ex_alarm e))) @ writeI16LE (ac_flowCgPerS (at_ctx (ex_alarm e)))
     @ [if ac_flowValid (at_ctx (ex_alarm e)) then 1 else 0]
     @ writeI16LE (ac_projectedFinalCg (at_ctx (ex_alarm e)))"

definition readTargetBlock :: "extraction \<Rightarrow> extraction reader" where
  "readTargetBlock out = read_bind (read_bytes kCompactTargetBlockBytes) (\<lambda>buf.
     read_return (out\<lparr>
       ex_target := \<lparr>tc_targetCg = readU16LE buf, tc_armed = (buf ! 2 \<noteq> 0),
                     tc_tauMs = readU16LE (drop 3 buf), tc_cCg = readI16LE (drop 5 buf),
                     tc_reactionLeadMs = readU16LE (drop 7 buf)\<rparr>,
       ex_alarm := \<lparr>at_tMs = readU32LE (drop 9 buf),
                    at_ctx = \<lparr>ac_yieldCg = readI16LE (drop 13 buf), ac_flowCgPerS = readI16LE (drop 15 buf),
                              ac_flowValid = (buf ! 17 \<noteq> 0),
                              ac_projectedFinalCg = readI16LE (drop 18 buf)\<rparr>\<rparr>\<rparr>))"

definition magic :: "u8 list" where
  "magic = [0x45, 0x58, 0x54, 0x52]"    \<comment> \<open>\<open>EXTR\<close>\<close>

definition writeHeader :: "extraction \<Rightarrow> u8 list" where
  "writeHeader e =
     magic @ [kCompactVersion, ex_phase e, ex_endCause e, flagsByte e]
     @ writeU32LE (ex_beginMs e) @ writeU32LE (ex_lastPumpOffConfirmedMs e) @ writeU32LE (ex_stableMs e)
     @ writeU32LE (ex_endMs e) @ writeU32LE (ex_totalPumpOnMs e) @ writeU32LE (ex_startUtcSec e)
     @ writeI16LE (ex_yieldCg e) @ writeI16LE (ex_startRawCg e) @ writeI16LE (ex_settledRawCg e)
     @ writeU16LE (ex_observedSampleCount e) @ writeU16LE (of_nat (length (ex_events e)))
     @ writeU16LE (of_nat (length (ex_samples e))) @ [ex_yieldStatus e, 0]
     @ writeU32LE (ex_pourMs e) @ writeI32LE (ex_decisionGainCg e)"

definition first_cursor :: "extraction \<Rightarrow> sample_cursor" where
  "first_cursor e = \<lparr>cu_prevTMs = ex_beginMs e, cu_prevCg = 0,
     cu_includeScaleTimers = sampleRangeHasScaleTimer (ex_samples e)\<rparr>"

text \<open>The loops of \<open>encodeCompact\<close> put one item after the other.\<close>

fun put_events :: "u32 \<Rightarrow> event list \<Rightarrow> chunked_writer \<Rightarrow> chunked_writer" where
  "put_events t [] w = w"
| "put_events t (e # es) w = put_events (event_next t e) es (cw_put (writeEvent t e) w)"

fun put_samples :: "sample_cursor \<Rightarrow> sample list \<Rightarrow> chunked_writer \<Rightarrow> chunked_writer" where
  "put_samples c [] w = w"
| "put_samples c (s # ss) w = put_samples (sample_advance c s) ss (cw_put (writeSampleDelta c s) w)"

text \<open>The chunks the sink is given, or refusal.\<close>

definition encodeCompact :: "extraction \<Rightarrow> u8 list list option" where
  "encodeCompact e =
     (if \<not> isCompactVersionSupported (ex_version e) then None
      else let w = cw_put (writeHeader e) cw_init;
               w = put_events (ex_beginMs e) (ex_events e) w;
               w = put_samples (first_cursor e) (ex_samples e) w;
               w = cw_put (writeTargetBlock e) w
           in Some (cw_sink (cw_flush w)))"

fun events_size :: "u32 \<Rightarrow> event list \<Rightarrow> nat" where
  "events_size t [] = 0"
| "events_size t (e # es) = length (writeEvent t e) + events_size (event_next t e) es"

fun samples_size :: "sample_cursor \<Rightarrow> sample list \<Rightarrow> nat" where
  "samples_size c [] = 0"
| "samples_size c (s # ss) = (case sampleDeltaEncodedSize c s of (n, c') \<Rightarrow> n + samples_size c' ss)"

definition encodeCompactSize :: "extraction \<Rightarrow> bool \<times> nat" where
  "encodeCompactSize e =
     (if \<not> isCompactVersionSupported (ex_version e) then (False, 0)
      else (True, kCompactHeaderBytes + events_size (ex_beginMs e) (ex_events e)
                  + samples_size (first_cursor e) (ex_samples e) + kCompactTargetBlockBytes))"

definition decodeHeader :: "u8 list \<Rightarrow> extraction" where
  "decodeHeader hdr = default_extraction\<lparr>
     ex_phase := hdr ! 5, ex_endCause := hdr ! 6, ex_version := hdr ! 4,
     ex_eventsOverflowed := (hdr ! 7 AND FLAG_EVENTS_OVERFLOWED \<noteq> 0),
     ex_beginMs := readU32LE (drop 8 hdr), ex_lastPumpOffConfirmedMs := readU32LE (drop 12 hdr),
     ex_stableMs := readU32LE (drop 16 hdr), ex_endMs := readU32LE (drop 20 hdr),
     ex_totalPumpOnMs := readU32LE (drop 24 hdr), ex_startUtcSec := readU32LE (drop 28 hdr),
     ex_yieldCg := readI16LE (drop 32 hdr), ex_startRawCg := readI16LE (drop 34 hdr),
     ex_settledRawCg := readI16LE (drop 36 hdr), ex_observedSampleCount := readU16LE (drop 38 hdr),
     ex_yieldStatus := hdr ! 44, ex_pourMs := readU32LE (drop 46 hdr),
     ex_decisionGainCg := readI32LE (drop 50 hdr)\<rparr>"

definition decodeCompact :: "extraction reader" where
  "decodeCompact = read_bind (read_bytes kCompactHeaderBytes) (\<lambda>hdr.
     if take 4 hdr \<noteq> magic then read_fail
     else if \<not> isCompactVersionSupported (hdr ! 4) then read_fail
     else if hdr ! 6 > end_cause_byte END_TIMEOUT then read_fail
     else let out = decodeHeader hdr;
              eventCount = unat (readU16LE (drop 40 hdr));
              sampleCount = unat (readU16LE (drop 42 hdr)) in
       if eventCount > MAX_EVENTS then read_fail
       else if sampleCount > MAX_SAMPLES then read_fail
       else read_bind (decode_all (readEvent (hdr ! 4)) eventCount (ex_beginMs out)) (\<lambda>events.
         read_bind (decode_all readSample sampleCount
             \<lparr>cu_prevTMs = ex_beginMs out, cu_prevCg = 0,
              cu_includeScaleTimers = (hdr ! 7 AND FLAG_SCALE_TIMERS \<noteq> 0)\<rparr>) (\<lambda>samples.
           read_bind (readTargetBlock (out\<lparr>ex_events := events, ex_samples := samples\<rparr>)) (\<lambda>out.
             read_return (out\<lparr>ex_hasTargetSnapshot := True\<rparr>)))))"

section \<open>What is encoded\<close>

definition record_bytes :: "extraction \<Rightarrow> u8 list" where
  "record_bytes e = writeHeader e @ encode_all writeEvent event_next (ex_beginMs e) (ex_events e)
     @ encode_all writeSampleDelta sample_advance (first_cursor e) (ex_samples e) @ writeTargetBlock e"

lemma put_events_bytes:
  "cw_inv w \<Longrightarrow> cw_inv (put_events t es w)
     \<and> cw_bytes (put_events t es w) = cw_bytes w @ encode_all writeEvent event_next t es"
  by (induction t es w rule: put_events.induct) (simp_all add: cw_put_correct)

lemma put_samples_bytes:
  "cw_inv w \<Longrightarrow> cw_inv (put_samples c ss w)
     \<and> cw_bytes (put_samples c ss w) = cw_bytes w @ encode_all writeSampleDelta sample_advance c ss"
  by (induction c ss w rule: put_samples.induct) (simp_all add: cw_put_correct)

lemma events_size_length: "events_size t es = length (encode_all writeEvent event_next t es)"
  by (induction t es rule: events_size.induct) simp_all

lemma samples_size_length: "samples_size c ss = length (encode_all writeSampleDelta sample_advance c ss)"
  by (induction ss arbitrary: c) (simp_all add: sampleDeltaEncodedSize_length)

lemma header_length [simp]: "length (writeHeader e) = 54" "length (writeTargetBlock e) = 20"
  by (simp_all add: writeHeader_def writeTargetBlock_def magic_def)

lemma cw_flush_bytes:
  "concat (cw_sink (cw_flush w)) = cw_bytes w"
  "cw_inv w \<Longrightarrow> c \<in> set (cw_sink (cw_flush w)) \<Longrightarrow> c \<noteq> [] \<and> length c \<le> CW_SIZE"
proof -
  show "concat (cw_sink (cw_flush w)) = cw_bytes w" by (simp add: cw_flush_def cw_bytes_def)
  assume "cw_inv w" "c \<in> set (cw_sink (cw_flush w))"
  then show "c \<noteq> [] \<and> length c \<le> CW_SIZE"
    by (cases "cw_buf w = []") (auto simp: cw_flush_def cw_inv_def CW_SIZE_def)
qed

lemma encodeCompact_bytes:
  assumes "encodeCompact e = Some chunks"
  shows "concat chunks = record_bytes e" "\<forall>c \<in> set chunks. c \<noteq> [] \<and> length c \<le> CW_SIZE"
    "isCompactVersionSupported (ex_version e)"
proof -
  have i: "cw_inv cw_init" "cw_bytes cw_init = []" by (simp_all add: cw_inv_def cw_init_def cw_bytes_def)
  define w where "w = cw_put (writeTargetBlock e) (put_samples (first_cursor e) (ex_samples e)
      (put_events (ex_beginMs e) (ex_events e) (cw_put (writeHeader e) cw_init)))"
  have w: "cw_inv w" "cw_bytes w = record_bytes e"
    using i by (simp_all add: w_def cw_put_correct put_samples_bytes put_events_bytes record_bytes_def)
  from assms have "chunks = cw_sink (cw_flush w)" "isCompactVersionSupported (ex_version e)"
    by (auto simp: encodeCompact_def w_def Let_def split: if_splits)
  with w cw_flush_bytes show "concat chunks = record_bytes e" "\<forall>c \<in> set chunks. c \<noteq> [] \<and> length c \<le> CW_SIZE"
    "isCompactVersionSupported (ex_version e)" by auto
qed

section \<open>Reading back\<close>

lemma readBack [simp]:
  "readU32LE (writeU32LE v) = v" "readI32LE (writeI32LE v) = v"
  "readU16LE (writeU16LE w) = w" "readI16LE (writeI16LE w) = w" "readI16LE (writeU16LE w) = w"
  "readU16LE (writeI16LE w @ r) = w" "readU16LE (writeI16LE w) = w" "readI16LE (writeU16LE w @ r) = w"
  using readU32LE_write [of v "[]"] readI32LE_write [of v "[]"] readU16LE_write [of w "[]"]
    readI16LE_write [of w "[]"] readI16LE_write [of w r] readU16LE_write [of w r]
  by (simp_all add: readI16LE_def)

lemma header_fields:
  "take 4 (writeHeader e) = magic" "writeHeader e ! 4 = VERSION_V7" "writeHeader e ! 5 = ex_phase e"
  "writeHeader e ! 6 = ex_endCause e" "writeHeader e ! 7 = flagsByte e"
  "writeHeader e ! 44 = ex_yieldStatus e"
  "readU32LE (drop 8 (writeHeader e)) = ex_beginMs e"
  "readU32LE (drop 12 (writeHeader e)) = ex_lastPumpOffConfirmedMs e"
  "readU32LE (drop 16 (writeHeader e)) = ex_stableMs e"
  "readU32LE (drop 20 (writeHeader e)) = ex_endMs e"
  "readU32LE (drop 24 (writeHeader e)) = ex_totalPumpOnMs e"
  "readU32LE (drop 28 (writeHeader e)) = ex_startUtcSec e"
  "readI16LE (drop 32 (writeHeader e)) = ex_yieldCg e"
  "readI16LE (drop 34 (writeHeader e)) = ex_startRawCg e"
  "readI16LE (drop 36 (writeHeader e)) = ex_settledRawCg e"
  "readU16LE (drop 38 (writeHeader e)) = ex_observedSampleCount e"
  "readU16LE (drop 40 (writeHeader e)) = of_nat (length (ex_events e))"
  "readU16LE (drop 42 (writeHeader e)) = of_nat (length (ex_samples e))"
  "readU32LE (drop 46 (writeHeader e)) = ex_pourMs e"
  "readI32LE (drop 50 (writeHeader e)) = ex_decisionGainCg e"
  by (simp_all add: writeHeader_def magic_def kCompactVersion_def kCurrentExtractionVersion_def nth_append)

lemma flags_bits:
  "flagsByte e AND FLAG_EVENTS_OVERFLOWED \<noteq> 0 \<longleftrightarrow> ex_eventsOverflowed e"
  "flagsByte e AND FLAG_SCALE_TIMERS \<noteq> 0 \<longleftrightarrow> sampleRangeHasScaleTimer (ex_samples e)"
  by (simp_all add: flagsByte_def FLAG_EVENTS_OVERFLOWED_def FLAG_SCALE_TIMERS_def)

lemma readTargetBlock_write:
  "readTargetBlock out (writeTargetBlock e @ rest) = Some (out\<lparr>ex_target := ex_target e, ex_alarm := ex_alarm e\<rparr>, rest)"
  by (simp add: readTargetBlock_def read_bind_def kCompactTargetBlockBytes_def)
    (simp add: writeTargetBlock_def nth_append)

text \<open>What the recorder guarantees of a record, and what a round trip forgets.\<close>

definition wire_wf :: "extraction \<Rightarrow> bool" where
  "wire_wf e \<longleftrightarrow> length (ex_events e) \<le> MAX_EVENTS \<and> length (ex_samples e) \<le> MAX_SAMPLES
     \<and> ex_endCause e \<le> end_cause_byte END_TIMEOUT \<and> list_all (\<lambda>s. sm_cg s \<noteq> NO_WEIGHT) (ex_samples e)"

definition wire_norm :: "extraction \<Rightarrow> extraction" where
  "wire_norm e = e\<lparr>ex_version := VERSION_V7, ex_events := map event_norm (ex_events e),
                   ex_hasTargetSnapshot := True\<rparr>"

lemma wire_samples_valid:
  "list_all (\<lambda>s. sm_cg s \<noteq> NO_WEIGHT) ss \<Longrightarrow> list_all (sample_valid (sampleRangeHasScaleTimer ss)) ss"
  by (auto simp: list_all_iff sample_valid_def sampleRangeHasScaleTimer_def list_ex_iff sampleHasScaleTimer_def)

lemma first_cursor_ok: "cursor_ok (first_cursor e) \<and> cu_includeScaleTimers (first_cursor e) = sampleRangeHasScaleTimer (ex_samples e)"
  by (simp add: cursor_ok_def first_cursor_def)

lemma wire_counts:
  assumes "wire_wf e"
  shows "unat (of_nat (length (ex_events e)) :: u16) = length (ex_events e)"
    "unat (of_nat (length (ex_samples e)) :: u16) = length (ex_samples e)"
  using assms by (simp_all add: wire_wf_def MAX_EVENTS_def MAX_SAMPLES_def unat_of_nat take_bit_nat_eq_self)

lemma decodeHeader_write:
  "decodeHeader (writeHeader e) = e\<lparr>ex_version := VERSION_V7, ex_events := [], ex_samples := [],
     ex_hasTargetSnapshot := False, ex_target := default_target, ex_alarm := default_alarm\<rparr>"
  by (simp add: decodeHeader_def header_fields flags_bits default_extraction_def)

lemma decode_record_bytes:
  assumes "wire_wf e"
  shows "decodeCompact (record_bytes e @ rest) = Some (wire_norm e, rest)"
proof -
  let ?T = "writeTargetBlock e @ rest"
  let ?S = "encode_all writeSampleDelta sample_advance (first_cursor e) (ex_samples e) @ ?T"
  let ?E = "encode_all writeEvent event_next (ex_beginMs e) (ex_events e) @ ?S"
  have hdr: "read_bytes kCompactHeaderBytes (writeHeader e @ ?E) = Some (writeHeader e, ?E)"
    by (simp add: kCompactHeaderBytes_def)
  have ev: "decode_all (readEvent VERSION_V7) (length (ex_events e)) (ex_beginMs e) ?E
      = Some (map event_norm (ex_events e), ?S)"
    by (rule events.decode_encode_all) (simp_all add: list_all_iff)
  have sm: "decode_all readSample (length (ex_samples e)) (first_cursor e) ?S = Some (ex_samples e, ?T)"
    using samples.decode_encode_all [OF first_cursor_ok wire_samples_valid] assms
    by (simp add: wire_wf_def)
  have limits: "\<not> MAX_EVENTS < length (ex_events e)" "\<not> MAX_SAMPLES < length (ex_samples e)"
    "\<not> end_cause_byte END_TIMEOUT < ex_endCause e"
    using assms by (simp_all add: wire_wf_def not_less)
  have "record_bytes e @ rest = writeHeader e @ ?E" by (simp add: record_bytes_def)
  then show ?thesis
    using hdr ev sm limits
    by (simp add: decodeCompact_def read_bind_def header_fields wire_counts [OF assms] flags_bits
        isCompactVersionSupported_def Let_def decodeHeader_write first_cursor_def readTargetBlock_write
        wire_norm_def)
qed

lemma record_roundtrip_plain:
  "wire_wf e \<Longrightarrow> encodeCompact e = Some chunks \<Longrightarrow> decodeCompact (concat chunks) = Some (wire_norm e, [])"
  using decode_record_bytes [of e "[]"] encodeCompact_bytes(1) by fastforce


definition sample_record :: extraction where
  "sample_record = default_extraction\<lparr>ex_version := VERSION_V7, ex_phase := phase_byte PHASE_DONE,
     ex_beginMs := 1000, ex_events := [\<lparr>ev_tMs = 1000, ev_kind = 3, ev_signalDecayLeadMsPlusOne = 151\<rparr>],
     ex_samples := [\<lparr>sm_tMs = 900, sm_cg = -5, sm_scaleTimerMs = UNKNOWN_MS\<rparr>,
                    \<lparr>sm_tMs = 1200, sm_cg = 3600, sm_scaleTimerMs = 700\<rparr>]\<rparr>"

lemma sample_record_wf: "wire_wf sample_record" "encodeCompact sample_record \<noteq> None"
  by (simp_all add: wire_wf_def sample_record_def default_extraction_def MAX_EVENTS_def MAX_SAMPLES_def
      NO_WEIGHT_def encodeCompact_def isCompactVersionSupported_def Let_def)


lemma encoded_length:
  assumes "encodeCompact e = Some chunks" "wire_wf e"
  shows "length (concat chunks) \<le> kMaxCompactRecordBytes"
proof -
  note b = encodeCompact_bytes [OF assms(1)]
  have "length (encode_all writeEvent event_next (ex_beginMs e) (ex_events e)) \<le> length (ex_events e) * 9"
    by (rule events.encode_all_length) (simp_all add: list_all_iff)
  moreover have "length (encode_all writeSampleDelta sample_advance (first_cursor e) (ex_samples e))
      \<le> length (ex_samples e) * 13"
    using assms(2) by (intro samples.encode_all_length [OF first_cursor_ok wire_samples_valid]) (simp add: wire_wf_def)
  ultimately show ?thesis
    using assms(2) b(1) by (simp add: record_bytes_def wire_consts wire_wf_def MAX_EVENTS_def MAX_SAMPLES_def)
qed

text \<open>The size announced is the size sent, for every record the encoder accepts, and no well-formed
  record is longer than the limit the store and its reader enforce; the sink only gets
  non-empty chunks of at most the buffer's size.\<close>

theorem record_size:
  assumes "encodeCompact e = Some chunks"
  shows "encodeCompactSize e = (True, length (concat chunks))
       \<and> (wire_wf e \<longrightarrow> length (concat chunks) \<le> kMaxCompactRecordBytes)
       \<and> (\<forall>c \<in> set chunks. c \<noteq> [] \<and> length c \<le> CW_SIZE)"
proof (intro conjI)
  note b = encodeCompact_bytes [OF assms]
  show "encodeCompactSize e = (True, length (concat chunks))"
    using b by (simp add: encodeCompactSize_def record_bytes_def events_size_length samples_size_length
        kCompactHeaderBytes_def kCompactTargetBlockBytes_def)
  show "wire_wf e \<longrightarrow> length (concat chunks) \<le> kMaxCompactRecordBytes"
    using encoded_length [OF assms] by blast
  show "\<forall>c \<in> set chunks. c \<noteq> [] \<and> length c \<le> CW_SIZE" by (rule b(2))
qed

section \<open>Truncated and foreign bytes\<close>

text \<open>A reader that succeeds reads the same when more bytes follow.\<close>

definition stable :: "'a reader \<Rightarrow> bool" where
  "stable r \<longleftrightarrow> (\<forall>bs x rest s. r bs = Some (x, rest) \<longrightarrow> r (bs @ s) = Some (x, rest @ s))"

lemma stable_bind: "stable r \<Longrightarrow> (\<And>x. stable (k x)) \<Longrightarrow> stable (read_bind r k)"
  by (auto simp: stable_def read_bind_def split: option.splits)

lemma stable_basic: "stable (read_return x)" "stable read_fail" "stable read_u8" "stable (read_bytes n)"
  by (auto simp: stable_def read_return_def read_fail_def read_u8_def read_bytes_def split: list.splits if_splits)

lemma stable_if: "stable r \<Longrightarrow> stable r' \<Longrightarrow> stable (if b then r else r')"
  by simp

lemma stable_let: "stable (f x) \<Longrightarrow> stable (Let x f)"
  by simp

lemma stable_uvarint: "stable readUvarintSrc"
proof -
  have "read_uvarint_loop n i v bs = Some (x, rest) \<Longrightarrow> read_uvarint_loop n i v (bs @ s) = Some (x, rest @ s)"
    for n i v bs x rest s
    by (induction n i v bs rule: read_uvarint_loop.induct)
      (auto simp: Let_def split: list.splits if_splits)
  then show ?thesis by (simp add: stable_def readUvarintSrc_def)
qed

lemma stable_decode_all: "(\<And>s. stable (dec s)) \<Longrightarrow> stable (decode_all dec n s)"
  by (induction n arbitrary: s) (auto intro!: stable_bind stable_basic split: prod.splits)

lemmas stable_intros = stable_bind stable_basic stable_if stable_let stable_uvarint stable_decode_all

lemma stable_decodeCompact: "stable decodeCompact"
proof -
  have sv: "stable readSvarintSrc"
    unfolding readSvarintSrc_def by (intro stable_intros)
  have ev: "stable (readEvent v t)" for v t
    unfolding readEvent_def by (intro stable_intros)
  have sm: "stable (readSample c)" for c
    unfolding readSample_def by (intro stable_intros sv)
  have tb: "stable (readTargetBlock out)" for out
    unfolding readTargetBlock_def by (intro stable_intros)
  show ?thesis
    unfolding decodeCompact_def by (intro stable_intros ev sm tb)
qed

lemma record_size_witness:
  "\<exists>chunks. encodeCompact sample_record = Some chunks \<and> length (concat chunks) \<le> 10634
     \<and> encodeCompactSize sample_record = (True, length (concat chunks))"
proof -
  obtain chunks where c: "encodeCompact sample_record = Some chunks" using sample_record_wf(2) by blast
  from record_size [OF c] sample_record_wf(1) c show ?thesis
    by (auto simp: wire_consts MAX_EVENTS_def MAX_SAMPLES_def)
qed

text \<open>A truncated record is never accepted: no proper prefix of an encoded record decodes, so a
  record cut short by a power loss or a broken transfer is an error.\<close>

theorem record_truncation_rejected:
  assumes "wire_wf e" and "encodeCompact e = Some chunks" and "concat chunks = p @ s" and "s \<noteq> []"
  shows "decodeCompact p = None"
proof (rule ccontr)
  assume "decodeCompact p \<noteq> None"
  then obtain x rest where "decodeCompact p = Some (x, rest)" by auto
  then have "decodeCompact (p @ s) = Some (x, rest @ s)"
    using stable_decodeCompact unfolding stable_def by blast
  moreover have "decodeCompact (p @ s) = Some (wire_norm e, [])"
    using record_roundtrip_plain [OF assms(1,2)] assms(3) by simp
  ultimately show False using assms(4) by simp
qed

lemma record_truncation_rejected_witness:
  "\<exists>chunks. encodeCompact sample_record = Some chunks \<and> decodeCompact (butlast (concat chunks)) = None"
proof -
  obtain chunks where c: "encodeCompact sample_record = Some chunks" using sample_record_wf(2) by blast
  have "concat chunks \<noteq> []"
    using encodeCompact_bytes(1) [OF c] by (auto simp: record_bytes_def writeHeader_def magic_def)
  then have "concat chunks = butlast (concat chunks) @ [last (concat chunks)]" by simp
  from record_truncation_rejected [OF sample_record_wf(1) c this] c show ?thesis by simp
qed

lemma decode_all_all:
  assumes "\<And>s bs x s' r. dec s bs = Some ((x, s'), r) \<Longrightarrow> P x"
  shows "decode_all dec n s bs = Some (xs, r) \<Longrightarrow> length xs = n \<and> list_all P xs"
proof (induction n arbitrary: s bs xs r)
  case 0
  then show ?case by simp
next
  case (Suc n)
  from Suc.prems obtain x s' bs' where d: "dec s bs = Some ((x, s'), bs')"
    by (auto simp: read_bind_def split: option.splits prod.splits)
  with Suc.prems obtain xs' r' where "decode_all dec n s' bs' = Some (xs', r')" "xs = x # xs'"
    by (auto simp: read_bind_def read_return_def split: option.splits)
  with Suc.IH assms [OF d] show ?case by fastforce
qed

lemma readEvent_norm:
  assumes "readEvent v t bs = Some ((e, t'), r)"
  shows "event_norm e = e"
  using assms
  by (auto simp: readEvent_def read_bind_def Let_def event_norm_def read_return_def read_fail_def
      split: option.splits if_splits)

lemma readSample_weight:
  assumes "readSample c bs = Some ((s, c'), r)"
  shows "sm_cg s \<noteq> NO_WEIGHT"
  using assms saturateCg_range(2)
  by (auto simp: readSample_def read_bind_def Let_def read_return_def split: option.splits if_splits)

lemma decodeCompact_wf:
  assumes "decodeCompact bs = Some (e, rest)"
  shows "wire_wf e" "isCompactVersionSupported (ex_version e)" "map event_norm (ex_events e) = ex_events e"
    "ex_hasTargetSnapshot e"
proof -
  from assms obtain hdr b1 evs b2 sms b3 out b4 where h: "isCompactVersionSupported (hdr ! 4)"
    "\<not> hdr ! 6 > end_cause_byte END_TIMEOUT"
    "\<not> unat (readU16LE (drop 40 hdr)) > MAX_EVENTS" "\<not> unat (readU16LE (drop 42 hdr)) > MAX_SAMPLES"
    "decode_all (readEvent (hdr ! 4)) (unat (readU16LE (drop 40 hdr))) (ex_beginMs (decodeHeader hdr)) b1 = Some (evs, b2)"
    "decode_all readSample (unat (readU16LE (drop 42 hdr))) \<lparr>cu_prevTMs = ex_beginMs (decodeHeader hdr), cu_prevCg = 0,
              cu_includeScaleTimers = (hdr ! 7 AND FLAG_SCALE_TIMERS \<noteq> 0)\<rparr> b2 = Some (sms, b3)"
    "readTargetBlock ((decodeHeader hdr)\<lparr>ex_events := evs, ex_samples := sms\<rparr>) b3 = Some (out, b4)"
    "e = out\<lparr>ex_hasTargetSnapshot := True\<rparr>"
    by (auto simp: decodeCompact_def read_bind_def Let_def read_return_def read_fail_def
        split: option.splits if_splits prod.splits)
  have out: "ex_events out = evs" "ex_samples out = sms" "ex_version out = hdr ! 4" "ex_endCause out = hdr ! 6"
    using h(7) by (auto simp: readTargetBlock_def read_bind_def read_return_def decodeHeader_def split: option.splits)
  have ev: "length evs = unat (readU16LE (drop 40 hdr)) \<and> list_all (\<lambda>e. event_norm e = e) evs"
    by (rule decode_all_all [OF _ h(5)]) (rule readEvent_norm)
  have sm: "length sms = unat (readU16LE (drop 42 hdr)) \<and> list_all (\<lambda>s. sm_cg s \<noteq> NO_WEIGHT) sms"
    by (rule decode_all_all [OF _ h(6)]) (rule readSample_weight)
  show "wire_wf e" using ev sm h out by (simp add: wire_wf_def not_less)
  show "isCompactVersionSupported (ex_version e)" using h out by simp
  show "map event_norm (ex_events e) = ex_events e"
    using ev h(8) out by (simp add: list_all_iff map_idI)
  show "ex_hasTargetSnapshot e" using h(8) by simp
qed

text \<open>Whatever bytes the decoder accepts, also forged ones, the record is within its arrays, has a
  valid end cause and no sample with the no-weight value, and storing it again with the
  current version changes nothing.\<close>

theorem decoded_records_are_stable:
  assumes "decodeCompact bs = Some (e, rest)"
  shows "wire_wf e \<and> (\<exists>chunks. encodeCompact e = Some chunks
           \<and> decodeCompact (concat chunks) = Some (e\<lparr>ex_version := VERSION_V7\<rparr>, []))"
proof -
  note w = decodeCompact_wf [OF assms]
  from w(2) obtain chunks where c: "encodeCompact e = Some chunks" by (simp add: encodeCompact_def Let_def)
  have "wire_norm e = e\<lparr>ex_version := VERSION_V7\<rparr>" using w(3,4) by (cases e) (simp add: wire_norm_def)
  with record_roundtrip_plain [OF w(1) c] w(1) c show ?thesis by simp
qed

lemma decoded_records_are_stable_witness:
  "wire_wf (wire_norm sample_record)
   \<and> (\<exists>chunks. encodeCompact (wire_norm sample_record) = Some chunks
        \<and> decodeCompact (concat chunks) = Some ((wire_norm sample_record)\<lparr>ex_version := VERSION_V7\<rparr>, []))"
  using decoded_records_are_stable [OF decode_record_bytes [OF sample_record_wf(1), of "[]"]] .

end
