(* ===== verification/ShotId.thy ===== *)
theory ShotId
  imports Prelude "HOL-Library.Char_ord"
begin

text \<open>
  Shot ids: their file names (\<open>parseIdFromName\<close> and \<open>_pathFor\<close> of
  \<open>src/src/apps/extraction/history/ShotStore.cpp\<close>) and their reservation in NVS
  (\<open>shot_id_reservation.h\<close> and \<open>.cpp\<close>). NVS is third-party code: a parameter.
\<close>

section \<open>File names\<close>

definition kShotIdDigits :: nat where "kShotIdDigits = 8"

fun maxIdForDigits :: "nat \<Rightarrow> u32" where
  "maxIdForDigits 0 = 0"
| "maxIdForDigits (Suc n) = maxIdForDigits n * 10 + 9"

definition kMaxShotId :: u32 where "kMaxShotId = maxIdForDigits kShotIdDigits"

lemma kMaxShotId_value: "kMaxShotId = 99999999"
  by (simp add: kMaxShotId_def kShotIdDigits_def eval_nat_numeral)

definition kShotsDir :: string where "kShotsDir = ''/shots''"

definition digit_char :: "nat \<Rightarrow> char" where
  "digit_char d = char_of (48 + d)"

text \<open>\<open>%u\<close>, and \<open>%0*u\<close> with width \<open>kShotIdDigits\<close>.\<close>

fun decimal :: "nat \<Rightarrow> string" where
  "decimal n = (if n < 10 then [digit_char n] else decimal (n div 10) @ [digit_char (n mod 10)])"

declare decimal.simps [simp del]

definition padded :: "nat \<Rightarrow> string" where
  "padded n = replicate (kShotIdDigits - length (decimal n)) (CHR ''0'') @ decimal n"

definition fileName :: "u32 \<Rightarrow> string" where
  "fileName sid = padded (unat sid) @ ''.bin''"

definition pathFor :: "u32 \<Rightarrow> string" where
  "pathFor sid = kShotsDir @ ''/'' @ fileName sid"

definition basename :: "string \<Rightarrow> string" where
  "basename s = rev (takeWhile (\<lambda>c. c \<noteq> CHR ''/'') (rev s))"

definition digit_of :: "char \<Rightarrow> u32 option" where
  "digit_of c = (if of_char c < (48 :: nat) \<or> of_char c > (57 :: nat) then None
                 else Some (of_nat (of_char c - 48)))"

fun parse_digits :: "string \<Rightarrow> u32 \<Rightarrow> u32 option" where
  "parse_digits [] sid = Some sid"
| "parse_digits (c # cs) sid =
     (case digit_of c of None \<Rightarrow> None | Some d \<Rightarrow> parse_digits cs (sid * 10 + d))"

definition parseIdFromName :: "string \<Rightarrow> u32" where
  "parseIdFromName name =
     (let base = basename name in
      if length base \<noteq> kShotIdDigits + 4 \<or> drop kShotIdDigits base \<noteq> ''.bin'' then 0
      else (case parse_digits (take kShotIdDigits base) 0 of None \<Rightarrow> 0 | Some sid \<Rightarrow> sid))"

text \<open>Fixed-width digits, and the number they spell.\<close>

fun fixed :: "nat \<Rightarrow> nat \<Rightarrow> string" where
  "fixed 0 n = []"
| "fixed (Suc k) n = fixed k (n div 10) @ [digit_char (n mod 10)]"

lemma fixed_zero: "fixed k 0 = replicate k (CHR ''0'')"
proof -
  have "digit_char 0 = CHR ''0''"
    using char_of_char [of "CHR ''0''", where 'a = nat] by (simp add: digit_char_def)
  then show ?thesis by (induction k) (simp_all add: replicate_append_same)
qed

lemma length_fixed [simp]: "length (fixed k n) = k"
  by (induction k arbitrary: n) simp_all

lemma fixed_decimal:
  "n < 10 ^ k \<Longrightarrow> 0 < k \<Longrightarrow> fixed k n = replicate (k - length (decimal n)) (CHR ''0'') @ decimal n \<and> length (decimal n) \<le> k"
proof (induction k arbitrary: n)
  case 0
  then show ?case by simp
next
  case (Suc k)
  show ?case
  proof (cases "n < 10")
    case True
    then show ?thesis by (simp add: decimal.simps [of n] fixed_zero)
  next
    case False
    then have k: "0 < k" using Suc.prems by (cases k) auto
    have "n div 10 < 10 ^ k" using Suc.prems by (simp add: less_mult_imp_div_less mult.commute)
    from Suc.IH [OF this k] False show ?thesis by (simp add: decimal.simps [of n])
  qed
qed

lemma padded_fixed: "n < 10 ^ 8 \<Longrightarrow> padded n = fixed 8 n"
  using fixed_decimal [of n 8] by (simp add: padded_def kShotIdDigits_def)

lemma digit_of_char: "d < 10 \<Longrightarrow> digit_of (digit_char d) = Some (of_nat d)"
  by (simp add: digit_of_def digit_char_def)

lemma digit_of_Some:
  assumes "digit_of c = Some d"
  shows "\<exists>k < 10. d = of_nat k \<and> c = digit_char k"
proof (intro exI conjI)
  let ?k = "of_char c - 48 :: nat"
  have r: "48 \<le> (of_char c :: nat)" "(of_char c :: nat) \<le> 57"
    using assms by (auto simp: digit_of_def not_less split: if_splits)
  then show "?k < 10" "d = of_nat ?k" "c = digit_char ?k"
    using assms by (auto simp: digit_of_def digit_char_def split: if_splits)
qed

lemma parse_digits_append:
  "parse_digits (xs @ ys) sid = (case parse_digits xs sid of None \<Rightarrow> None | Some sid' \<Rightarrow> parse_digits ys sid')"
  by (induction xs arbitrary: sid) (auto split: option.splits)

lemma parse_fixed: "n < 10 ^ k \<Longrightarrow> parse_digits (fixed k n) 0 = Some (of_nat n)"
proof (induction k arbitrary: n)
  case 0
  then show ?case by simp
next
  case (Suc k)
  have "n div 10 < 10 ^ k" using Suc.prems by (simp add: less_mult_imp_div_less mult.commute)
  moreover have "of_nat (n div 10) * 10 + of_nat (n mod 10) = (of_nat n :: u32)"
  proof -
    have "of_nat (n div 10 * 10 + n mod 10) = (of_nat n :: u32)" by (simp only: div_mult_mod_eq)
    then show ?thesis by (simp only: of_nat_add of_nat_mult of_nat_numeral)
  qed
  ultimately show ?case using Suc.IH by (simp add: parse_digits_append digit_of_char)
qed

lemma parse_digits_fixed:
  "parse_digits cs 0 = Some sid \<Longrightarrow> \<exists>n < 10 ^ length cs. sid = of_nat n \<and> cs = fixed (length cs) n"
proof (induction cs arbitrary: sid rule: rev_induct)
  case Nil
  then show ?case by simp
next
  case (snoc c cs)
  then obtain sid' d where p: "parse_digits cs 0 = Some sid'" "digit_of c = Some d" "sid = sid' * 10 + d"
    by (auto simp: parse_digits_append split: option.splits)
  from snoc.IH [OF p(1)] obtain n where n: "n < 10 ^ length cs" "sid' = of_nat n" "cs = fixed (length cs) n"
    by auto
  from digit_of_Some [OF p(2)] obtain k where k: "k < 10" "d = of_nat k" "c = digit_char k" by auto
  have "(n * 10 + k) div 10 = n" "(n * 10 + k) mod 10 = k" using k(1) by simp_all
  then show ?case
    using n k p(3) by (intro exI [of _ "n * 10 + k"]) auto
qed

lemma unat_of_small: "n < 10 ^ 8 \<Longrightarrow> unat (of_nat n :: u32) = n"
  by (simp add: unat_of_nat take_bit_nat_eq_self)

lemma basename_dir: "CHR ''/'' \<notin> set s \<Longrightarrow> basename (d @ ''/'' @ s) = s"
proof -
  assume "CHR ''/'' \<notin> set s"
  then have "takeWhile (\<lambda>c. c \<noteq> CHR ''/'') (rev s @ CHR ''/'' # rev d) = rev s @ takeWhile (\<lambda>c. c \<noteq> CHR ''/'') (CHR ''/'' # rev d)"
    by (intro takeWhile_append2) auto
  then show ?thesis by (simp add: basename_def)
qed

lemma basename_plain: "CHR ''/'' \<notin> set s \<Longrightarrow> basename s = s"
proof -
  assume "CHR ''/'' \<notin> set s"
  then have "takeWhile (\<lambda>c. c \<noteq> CHR ''/'') (rev s) = rev s"
    by (intro takeWhile_eq_all_conv [THEN iffD2]) auto
  then show ?thesis by (simp only: basename_def rev_rev_ident)
qed

lemma fixed_no_slash: "CHR ''/'' \<notin> set (fixed k n)"
proof -
  have "digit_char d \<noteq> CHR ''/''" if "d < 10" for d
    using digit_of_char [OF that] by (auto simp: digit_of_def)
  then show ?thesis by (induction k arbitrary: n) (auto simp: eq_commute [of "CHR ''/''"])
qed

lemma fileName_no_slash: "unat sid < 10 ^ 8 \<Longrightarrow> CHR ''/'' \<notin> set (fileName sid)"
  using fixed_no_slash by (simp add: fileName_def padded_fixed)

text \<open>A name parses to an id exactly when it is that id's file name, with or without a directory.\<close>

lemma parseIdFromName_iff:
  assumes "sid \<noteq> 0"
  shows "parseIdFromName name = sid \<longleftrightarrow> sid \<le> kMaxShotId \<and> basename name = fileName sid"
proof
  assume p: "parseIdFromName name = sid"
  let ?b = "basename name"
  from p assms have b: "length ?b = 12" "drop 8 ?b = ''.bin''" "parse_digits (take 8 ?b) 0 = Some sid"
    by (auto simp: parseIdFromName_def Let_def kShotIdDigits_def split: if_splits option.splits)
  from parse_digits_fixed [OF b(3)] b(1) obtain n where n: "n < 10 ^ 8" "sid = of_nat n" "take 8 ?b = fixed 8 n"
    by auto
  have "?b = take 8 ?b @ drop 8 ?b" by simp
  with n b(2) have "?b = fileName sid" by (simp add: fileName_def unat_of_small padded_fixed)
  moreover have "sid \<le> kMaxShotId"
    using n by (simp add: kMaxShotId_value word_le_nat_alt unat_of_small)
  ultimately show "sid \<le> kMaxShotId \<and> ?b = fileName sid" by simp
next
  assume a: "sid \<le> kMaxShotId \<and> basename name = fileName sid"
  then have "unat sid < 10 ^ 8" by (simp add: kMaxShotId_value word_le_nat_alt)
  with a show "parseIdFromName name = sid"
    by (simp add: parseIdFromName_def Let_def kShotIdDigits_def fileName_def padded_fixed parse_fixed)
qed

lemma usable_small: "i \<le> kMaxShotId \<Longrightarrow> unat i < 10 ^ 8"
  by (simp add: kMaxShotId_value word_le_nat_alt)

lemma pathFor_inj: "i \<le> kMaxShotId \<Longrightarrow> j \<le> kMaxShotId \<Longrightarrow> pathFor i = pathFor j \<Longrightarrow> i = j"
proof -
  assume a: "i \<le> kMaxShotId" "j \<le> kMaxShotId" "pathFor i = pathFor j"
  then have "fixed 8 (unat i) = fixed 8 (unat j)"
    using usable_small by (simp add: pathFor_def fileName_def padded_fixed)
  then have "parse_digits (fixed 8 (unat i)) 0 = parse_digits (fixed 8 (unat j)) 0" by simp
  then show "i = j" using parse_fixed usable_small a by simp
qed

text \<open>File names round-trip: the path written for a usable id parses back to it, whether the file
  system reports it with its directory or without, and no two ids share a path.\<close>

theorem shot_name_roundtrip:
  assumes "0 < sid" and "sid \<le> kMaxShotId"
  shows "parseIdFromName (pathFor sid) = sid \<and> parseIdFromName (fileName sid) = sid
       \<and> (\<forall>sid' \<le> kMaxShotId. pathFor sid' = pathFor sid \<longrightarrow> sid' = sid)"
proof -
  have b: "basename (pathFor sid) = fileName sid" "basename (fileName sid) = fileName sid"
    using basename_dir basename_plain fileName_no_slash [OF usable_small [OF assms(2)]] by (simp_all add: pathFor_def)
  have p: "parseIdFromName (pathFor sid) = sid" "parseIdFromName (fileName sid) = sid"
    using assms b parseIdFromName_iff [of sid] by auto
  have "\<forall>sid' \<le> kMaxShotId. pathFor sid' = pathFor sid \<longrightarrow> sid' = sid"
    using pathFor_inj assms(2) by blast
  with p show ?thesis by blast
qed

lemma shot_name_roundtrip_witness: "parseIdFromName (pathFor 1234) = 1234"
  using shot_name_roundtrip [of 1234] by (simp add: kMaxShotId_value)

section \<open>Reservation\<close>

datatype nvs_read = NvsValue u32 | NvsNotFound | NvsError

record 'n id_nvs =
  in_open :: "'n \<Rightarrow> bool"
  in_get :: "'n \<Rightarrow> nvs_read"
  in_set :: "u32 \<Rightarrow> 'n \<Rightarrow> 'n \<times> bool"
  in_commit :: "'n \<Rightarrow> 'n \<times> bool"

definition reserveNextShotId :: "'n id_nvs \<Rightarrow> u32 \<Rightarrow> 'n \<Rightarrow> 'n \<times> u32" where
  "reserveNextShotId nv greatest st =
     (if \<not> in_open nv st then (st, 0)
      else case in_get nv st of
        NvsError \<Rightarrow> (st, 0)
      | r \<Rightarrow>
        (let stored = (case r of NvsValue v \<Rightarrow> v | _ \<Rightarrow> 0);
             last = max stored greatest in
         if last \<ge> kMaxShotId then (st, 0)
         else let next = last + 1 in
           (case in_set nv next st of
              (st1, False) \<Rightarrow> (st1, 0)
            | (st1, True) \<Rightarrow> (case in_commit nv st1 of
                (st2, False) \<Rightarrow> (st2, 0)
              | (st2, True) \<Rightarrow> (st2, next)))))"

text \<open>
  What NVS documents: a write that was committed is read back; a write or commit that failed
  leaves the old value or the new one. A read that fails says nothing, so the value is that
  of an abstract store.
\<close>

definition id_nvs_lawful :: "'n id_nvs \<Rightarrow> ('n \<Rightarrow> u32) \<Rightarrow> bool" where
  "id_nvs_lawful nv val \<longleftrightarrow>
     (\<forall>st v. in_get nv st = NvsValue v \<longrightarrow> v = val st)
   \<and> (\<forall>st. in_get nv st = NvsNotFound \<longrightarrow> val st = 0)
   \<and> (\<forall>st v. val (fst (in_set nv v st)) \<in> {val st, v})
   \<and> (\<forall>st v. snd (in_set nv v st) \<longrightarrow> snd (in_commit nv (fst (in_set nv v st)))
         \<longrightarrow> val (fst (in_commit nv (fst (in_set nv v st)))) = v)
   \<and> (\<forall>st v. snd (in_set nv v st) \<longrightarrow> val (fst (in_commit nv (fst (in_set nv v st)))) \<in> {val st, v})"

lemma word_plus_one: "x < y \<Longrightarrow> unat (x + 1) = Suc (unat x)" for x y :: u32
proof -
  assume "x < y"
  then have "unat x < unat y" by (simp add: word_less_nat_alt)
  with unsigned_less [where 'a = nat, of y] have "Suc (unat x) < 2 ^ 32" by simp
  then show ?thesis by (simp add: unat_word_ariths)
qed

lemma reserve_step:
  assumes "id_nvs_lawful nv val" and "reserveNextShotId nv g st = (st', sid)"
  shows "val st \<le> val st'" and "sid \<noteq> 0 \<Longrightarrow> val st < sid \<and> g < sid \<and> sid \<le> kMaxShotId \<and> val st' = sid"
proof -
  let ?last = "max (val st) g"
  have last: "(case in_get nv st of NvsValue v \<Rightarrow> v | _ \<Rightarrow> 0) = val st" if "in_get nv st \<noteq> NvsError"
    using assms(1) that by (cases "in_get nv st") (auto simp: id_nvs_lawful_def)
  consider (kept) "st' = st" "sid = 0"
    | (tried) "?last < kMaxShotId" "\<not> snd (in_set nv (?last + 1) st)" "st' = fst (in_set nv (?last + 1) st)" "sid = 0"
    | (wrote) "?last < kMaxShotId" "snd (in_set nv (?last + 1) st)"
        "st' = fst (in_commit nv (fst (in_set nv (?last + 1) st)))"
        "sid = (if snd (in_commit nv (fst (in_set nv (?last + 1) st))) then ?last + 1 else 0)"
  proof (cases "in_open nv st \<and> in_get nv st \<noteq> NvsError \<and> ?last < kMaxShotId")
    case False
    have "reserveNextShotId nv g st = (st, 0)"
    proof (cases "in_open nv st \<and> in_get nv st \<noteq> NvsError")
      case True
      then have le: "(kMaxShotId \<le> ?last) = True" and op: "in_open nv st" using False by (auto simp: not_less le_max_iff_disj)
      show ?thesis
        using True op le last
        by (cases "in_get nv st") (simp_all only: reserveNextShotId_def Let_def nvs_read.simps if_True not_True_eq_False if_False simp_thms)
    next
      case False
      then show ?thesis by (cases "in_get nv st") (auto simp: reserveNextShotId_def)
    qed
    with assms(2) have "st' = st" "sid = 0" by simp_all
    then show ?thesis by (rule kept)
  next
    case True
    obtain st1 b1 where s1: "in_set nv (?last + 1) st = (st1, b1)" by (metis surj_pair)
    obtain st2 b2 where s2: "in_commit nv st1 = (st2, b2)" by (metis surj_pair)
    have lt: "(kMaxShotId \<le> ?last) = False" using True by (simp add: not_le)
    have op: "in_open nv st" using True by simp
    have r: "reserveNextShotId nv g st = (if b1 then (if b2 then (st2, ?last + 1) else (st2, 0)) else (st1, 0))"
    proof (cases "in_get nv st")
      case (NvsValue v)
      then have "val st = v" using last by simp
      then show ?thesis
        using NvsValue op lt s1 s2 by (simp only: reserveNextShotId_def Let_def nvs_read.case if_True not_True_eq_False if_False) (simp split: bool.splits)
    next
      case NvsNotFound
      then have "val st = 0" using last by simp
      then show ?thesis
        using NvsNotFound op lt s1 s2 by (simp only: reserveNextShotId_def Let_def nvs_read.case if_True not_True_eq_False if_False) (simp split: bool.splits)
    qed (use True in simp)
    show ?thesis
    proof (cases b1)
      case True
      show ?thesis by (rule wrote) (use r True s1 s2 assms(2) \<open>in_open nv st \<and> _\<close> in \<open>auto split: if_splits\<close>)
    next
      case False
      show ?thesis by (rule tried) (use r False s1 assms(2) \<open>in_open nv st \<and> _\<close> in \<open>auto split: if_splits\<close>)
    qed
  qed
  then have "val st \<le> val st' \<and> (sid \<noteq> 0 \<longrightarrow> val st < sid \<and> g < sid \<and> sid \<le> kMaxShotId \<and> val st' = sid)"
  proof cases
    case kept
    then show ?thesis by simp
  next
    case tried
    have n: "unat (?last + 1) = Suc (unat ?last)" by (rule word_plus_one [OF tried(1)])
    have le: "val st \<le> ?last + 1"
      using n max.cobounded1 [of "val st" g] by (simp add: word_le_nat_alt)
    have "val st' \<in> {val st, ?last + 1}"
      using assms(1) unfolding tried(3) id_nvs_lawful_def by blast
    with le tried(4) show ?thesis by auto
  next
    case wrote
    have n: "unat (?last + 1) = Suc (unat ?last)" by (rule word_plus_one [OF wrote(1)])
    have le: "val st < ?last + 1" "g < ?last + 1" "?last + 1 \<le> kMaxShotId"
      using n max.cobounded1 [of "val st" g] max.cobounded2 [of g "val st"] wrote(1)
      by (simp_all add: word_le_nat_alt word_less_nat_alt)
    have v: "val st' \<in> {val st, ?last + 1}"
      using assms(1) wrote(2) unfolding wrote(3) id_nvs_lawful_def by blast
    have "sid \<noteq> 0 \<Longrightarrow> val st' = ?last + 1"
      using assms(1) wrote(2,4) unfolding wrote(3) id_nvs_lawful_def by (metis (full_types))
    with v le wrote(4) show ?thesis by (auto split: if_splits)
  qed
  then show "val st \<le> val st'" "sid \<noteq> 0 \<Longrightarrow> val st < sid \<and> g < sid \<and> sid \<le> kMaxShotId \<and> val st' = sid"
    by auto
qed

fun reserve_all :: "'n id_nvs \<Rightarrow> u32 list \<Rightarrow> 'n \<Rightarrow> u32 list" where
  "reserve_all nv [] st = []"
| "reserve_all nv (g # gs) st =
     (case reserveNextShotId nv g st of (st', sid) \<Rightarrow> sid # reserve_all nv gs st')"

text \<open>Ids are never reused: whatever the greatest existing id is at each reservation, and however
  the store fails in between, the ids granted are strictly increasing, and each is greater
  than the greatest existing one at its time and fits a file name.\<close>

theorem reserved_ids_increase:
  assumes "id_nvs_lawful nv val"
  shows "sorted_wrt (<) (filter (\<lambda>sid. sid \<noteq> 0) (reserve_all nv gs st))
       \<and> list_all2 (\<lambda>g sid. sid \<noteq> 0 \<longrightarrow> g < sid \<and> sid \<le> kMaxShotId) gs (reserve_all nv gs st)"
proof -
  have "(\<forall>sid \<in> set (reserve_all nv gs st). sid \<noteq> 0 \<longrightarrow> val st < sid)
      \<and> sorted_wrt (<) (filter (\<lambda>sid. sid \<noteq> 0) (reserve_all nv gs st))
      \<and> list_all2 (\<lambda>g sid. sid \<noteq> 0 \<longrightarrow> g < sid \<and> sid \<le> kMaxShotId) gs (reserve_all nv gs st)" for st
  proof (induction gs arbitrary: st)
    case Nil
    then show ?case by simp
  next
    case (Cons g gs)
    obtain st' sid where r: "reserveNextShotId nv g st = (st', sid)" by (metis surj_pair)
    note s = reserve_step [OF assms r]
    have "val st < i" if "i \<in> set (reserve_all nv gs st')" "i \<noteq> 0" for i
      using Cons.IH [of st'] s(1) that by auto
    moreover have "sid < i" if "sid \<noteq> 0" "i \<in> set (reserve_all nv gs st')" "i \<noteq> 0" for i
      using Cons.IH [of st'] s(2) [OF that(1)] that by auto
    ultimately show ?case using Cons.IH [of st'] s(2) r by auto
  qed
  then show ?thesis by blast
qed

definition word_nvs :: "u32 id_nvs" where
  "word_nvs = \<lparr>in_open = (\<lambda>_. True), in_get = (\<lambda>v. if v = 0 then NvsNotFound else NvsValue v),
               in_set = (\<lambda>v st. if v = 5 then (st, False) else (v, True)), in_commit = (\<lambda>v. (v, True))\<rparr>"

lemma word_nvs_lawful: "id_nvs_lawful word_nvs (\<lambda>v. v)"
  by (simp add: word_nvs_def id_nvs_lawful_def)

lemma reserved_ids_increase_witness:
  "sorted_wrt (<) (filter (\<lambda>sid. sid \<noteq> 0) (reserve_all word_nvs [0, 3, 1, 9] 0))"
  using reserved_ids_increase [OF word_nvs_lawful] by blast

end
