(* ===== verification/ShotStore.thy ===== *)
theory ShotStore
  imports Wire ShotId "HOL-Library.AList"
begin

text \<open>
  The shot history (\<open>src/src/apps/extraction/history/ShotStore.h\<close> and \<open>.cpp\<close>): finished records
  as files of a LittleFS directory, newest 250 kept. The file system is third-party code: the
  record \<open>littlefs\<close> of its calls on an abstract store, with its documented behaviour in
  \<open>lfs_lawful\<close>. The mutex makes every operation one step.
\<close>

section \<open>The file system\<close>

record dir_entry =
  de_isDirectory :: bool
  de_name :: string
  de_bytes :: "u8 list"

text \<open>
  \<open>exists\<close> and \<open>mkdir\<close> are for the shots directory; \<open>scan\<close> is the \<open>openNextFile\<close> walk of it, \<open>None\<close>
  when it cannot be opened as a directory; \<open>append\<close> is \<open>File::write\<close> on the file opened for writing
  and says how many bytes it wrote.
\<close>

record 'f littlefs =
  lf_exists :: "'f \<Rightarrow> bool"
  lf_mkdir :: "'f \<Rightarrow> 'f \<times> bool"
  lf_scan :: "'f \<Rightarrow> dir_entry list option"
  lf_read :: "string \<Rightarrow> 'f \<Rightarrow> u8 list option"
  lf_create :: "string \<Rightarrow> 'f \<Rightarrow> 'f \<times> bool"
  lf_append :: "string \<Rightarrow> u8 list \<Rightarrow> 'f \<Rightarrow> 'f \<times> nat"
  lf_remove :: "string \<Rightarrow> 'f \<Rightarrow> 'f \<times> bool"

text \<open>The path of a name in the shots directory.\<close>

definition shots_path :: "string \<Rightarrow> string" where
  "shots_path base = kShotsDir @ ''/'' @ base"

text \<open>
  The behaviour relied on, for the reachable stores \<open>good\<close> and the contents of their files: a call
  changes at most the file it names; a successful create empties it, a write appends the bytes
  it reports, a remove removes it or fails without effect; the walk lists every file of the
  directory once, with its bytes.
\<close>

definition lfs_scan_law :: "'f littlefs \<Rightarrow> ('f \<Rightarrow> string \<Rightarrow> u8 list option) \<Rightarrow> 'f \<Rightarrow> bool" where
  "lfs_scan_law fs content st \<longleftrightarrow> (\<forall>es. lf_scan fs st = Some es \<longrightarrow>
       distinct (map (\<lambda>e. basename (de_name e)) (filter (\<lambda>e. \<not> de_isDirectory e) es))
     \<and> (\<forall>e \<in> set es. \<not> de_isDirectory e \<longrightarrow> content st (shots_path (basename (de_name e))) = Some (de_bytes e))
     \<and> (\<forall>b bs. CHR ''/'' \<notin> set b \<longrightarrow> content st (shots_path b) = Some bs \<longrightarrow>
          (\<exists>e \<in> set es. \<not> de_isDirectory e \<and> basename (de_name e) = b \<and> de_bytes e = bs)))"

definition lfs_lawful :: "'f littlefs \<Rightarrow> ('f \<Rightarrow> string \<Rightarrow> u8 list option) \<Rightarrow> ('f \<Rightarrow> bool) \<Rightarrow> bool" where
  "lfs_lawful fs content good \<longleftrightarrow>
     (\<forall>st. good st \<longrightarrow>
        (\<forall>p. lf_read fs p st = content st p)
      \<and> (\<forall>st' ok. lf_mkdir fs st = (st', ok) \<longrightarrow> good st' \<and> content st' = content st)
      \<and> (\<not> lf_exists fs st \<longrightarrow> (\<forall>b. content st (shots_path b) = None))
      \<and> (\<forall>p st' ok. lf_create fs p st = (st', ok) \<longrightarrow> good st'
           \<and> (\<forall>q. q \<noteq> p \<longrightarrow> content st' q = content st q) \<and> (ok \<longrightarrow> content st' p = Some []))
      \<and> (\<forall>p d st' n. lf_append fs p d st = (st', n) \<longrightarrow> good st'
           \<and> (\<forall>q. q \<noteq> p \<longrightarrow> content st' q = content st q)
           \<and> (\<forall>b. content st p = Some b \<longrightarrow> content st' p = Some (b @ take n d)))
      \<and> (\<forall>p st' ok. lf_remove fs p st = (st', ok) \<longrightarrow> good st'
           \<and> content st' = (if ok then (content st)(p := None) else content st))
      \<and> lfs_scan_law fs content st)"

lemma lfs_read_law:
  assumes "lfs_lawful fs content good" "good st"
  shows "lf_read fs p st = content st p"
  by (rule assms(1) [unfolded lfs_lawful_def, THEN spec, THEN mp, OF assms(2), THEN conjunct1, THEN spec])

lemmas lfs_at = lfs_lawful_def [THEN iffD1, THEN spec, THEN mp]

lemma lfs_remove_law:
  assumes "lfs_lawful fs content good" "good st" "lf_remove fs p st = (st', ok)"
  shows "good st'" "content st' = (if ok then (content st)(p := None) else content st)"
proof -
  have "\<forall>p st' ok. lf_remove fs p st = (st', ok) \<longrightarrow> good st'
      \<and> content st' = (if ok then (content st)(p := None) else content st)"
    using lfs_at [OF assms(1,2)] by (elim conjE)
  then show "good st'" "content st' = (if ok then (content st)(p := None) else content st)"
    using assms(3) by blast+
qed

lemma lfs_mkdir_law:
  assumes "lfs_lawful fs content good" "good st" "lf_mkdir fs st = (st', ok)"
  shows "good st'" "content st' = content st"
proof -
  have "\<forall>st' ok. lf_mkdir fs st = (st', ok) \<longrightarrow> good st' \<and> content st' = content st"
    using lfs_at [OF assms(1,2)] by (elim conjE)
  then show "good st'" "content st' = content st" using assms(3) by blast+
qed

lemma lfs_scan_laws:
  assumes "lfs_lawful fs content good" "good st" "lf_scan fs st = Some es"
  shows "distinct (map (\<lambda>e. basename (de_name e)) (filter (\<lambda>e. \<not> de_isDirectory e) es))"
    and "e \<in> set es \<Longrightarrow> \<not> de_isDirectory e \<Longrightarrow> content st (shots_path (basename (de_name e))) = Some (de_bytes e)"
    and "CHR ''/'' \<notin> set b \<Longrightarrow> content st (shots_path b) = Some bs
      \<Longrightarrow> \<exists>e \<in> set es. \<not> de_isDirectory e \<and> basename (de_name e) = b \<and> de_bytes e = bs"
proof -
  have "lfs_scan_law fs content st" using assms(1,2) unfolding lfs_lawful_def by blast
  note l = this [unfolded lfs_scan_law_def, rule_format, OF assms(3)]
  from l show "distinct (map (\<lambda>e. basename (de_name e)) (filter (\<lambda>e. \<not> de_isDirectory e) es))" by (rule conjunct1)
  from l show "e \<in> set es \<Longrightarrow> \<not> de_isDirectory e \<Longrightarrow> content st (shots_path (basename (de_name e))) = Some (de_bytes e)" by blast
  from l show "CHR ''/'' \<notin> set b \<Longrightarrow> content st (shots_path b) = Some bs
      \<Longrightarrow> \<exists>e \<in> set es. \<not> de_isDirectory e \<and> basename (de_name e) = b \<and> de_bytes e = bs" by blast
qed

section \<open>Operations\<close>

definition kMaxShots :: nat where "kMaxShots = 250"

record ('f, 'n) shot_store =
  ss_fs :: 'f
  ss_nvs :: 'n
  ss_revision :: u32

record shot_meta =
  sm_id :: u32
  sm_startUtcSec :: u32
  sm_beginMs :: u32
  sm_durationMs :: u32
  sm_totalPumpOnMs :: u32
  sm_yieldCg :: i16

definition hasSupportedShotHeader :: "u8 list \<Rightarrow> bool" where
  "hasSupportedShotHeader header \<longleftrightarrow>
     header ! 0 = 0x45 \<and> header ! 1 = 0x58 \<and> header ! 2 = 0x54 \<and> header ! 3 = 0x52
     \<and> isCompactVersionSupported (header ! 4)"

definition isValidShotHeader :: "u8 list \<Rightarrow> bool" where
  "isValidShotHeader header \<longleftrightarrow> length header = kCompactHeaderBytes \<and> hasSupportedShotHeader header"

definition shot_ids :: "dir_entry list \<Rightarrow> u32 list" where
  "shot_ids es = filter (\<lambda>i. i \<noteq> 0) (map (\<lambda>e. parseIdFromName (de_name e)) (filter (\<lambda>e. \<not> de_isDirectory e) es))"

definition scanIds :: "'f littlefs \<Rightarrow> 'f \<Rightarrow> u32 list option" where
  "scanIds fs st =
     (if \<not> lf_exists fs st then Some []
      else case lf_scan fs st of None \<Rightarrow> None | Some es \<Rightarrow> Some (sort (shot_ids es)))"

definition readMeta :: "'f littlefs \<Rightarrow> u32 \<Rightarrow> 'f \<Rightarrow> shot_meta option" where
  "readMeta fs sid st =
     (case lf_read fs (pathFor sid) st of
        None \<Rightarrow> None
      | Some bytes \<Rightarrow>
          (let header = take kCompactHeaderBytes bytes in
           if \<not> isValidShotHeader header then None
           else Some \<lparr>sm_id = sid, sm_startUtcSec = readU32LE (drop 28 header),
                      sm_beginMs = readU32LE (drop 8 header),
                      sm_durationMs = readU32LE (drop 20 header) - readU32LE (drop 8 header),
                      sm_totalPumpOnMs = readU32LE (drop 24 header),
                      sm_yieldCg = readI16LE (drop 32 header)\<rparr>))"

text \<open>The sink of the encoder: after a short write nothing more is written.\<close>

fun write_chunks :: "'f littlefs \<Rightarrow> string \<Rightarrow> u8 list list \<Rightarrow> 'f \<times> bool \<Rightarrow> 'f \<times> bool" where
  "write_chunks fs p [] s = s"
| "write_chunks fs p (c # cs) (st, ok) =
     (if ok then (case lf_append fs p c st of (st', n) \<Rightarrow> write_chunks fs p cs (st', n = length c))
      else write_chunks fs p cs (st, ok))"

definition writeRecord :: "'f littlefs \<Rightarrow> extraction \<Rightarrow> u32 \<Rightarrow> nat \<Rightarrow> 'f \<Rightarrow> 'f \<times> bool" where
  "writeRecord fs e sid encodedSize st =
     (case lf_create fs (pathFor sid) st of
        (st1, False) \<Rightarrow> (st1, False)
      | (st1, True) \<Rightarrow>
          (let chunks = (case encodeCompact e of None \<Rightarrow> [] | Some cs \<Rightarrow> cs);
               encoded = (encodeCompact e \<noteq> None);
               (st2, writeOk) = write_chunks fs (pathFor sid) chunks (st1, True);
               (fileSize, header) = (case lf_read fs (pathFor sid) st2 of
                  None \<Rightarrow> (0, []) | Some bytes \<Rightarrow> (length bytes, take kCompactHeaderBytes bytes));
               verified = (encoded \<and> writeOk \<and> fileSize = encodedSize \<and> isValidShotHeader header)
           in if verified then (st2, True) else (fst (lf_remove fs (pathFor sid) st2), False)))"

text \<open>Oldest first, until a removal fails; every removal advances the revision.\<close>

fun remove_oldest :: "'f littlefs \<Rightarrow> u32 list \<Rightarrow> 'f \<times> u32 \<Rightarrow> 'f \<times> u32" where
  "remove_oldest fs [] s = s"
| "remove_oldest fs (i # is) (st, revn) =
     (case lf_remove fs (pathFor i) st of
        (st', False) \<Rightarrow> (st', revn)
      | (st', True) \<Rightarrow> remove_oldest fs is (st', revn + 1))"

definition enforceRetention :: "'f littlefs \<Rightarrow> u32 list \<Rightarrow> 'f \<times> u32 \<Rightarrow> 'f \<times> u32" where
  "enforceRetention fs ids s =
     remove_oldest fs (take (if kMaxShots < length ids then length ids - kMaxShots else 0) ids) s"

definition ss_save ::
  "'f littlefs \<Rightarrow> 'n id_nvs \<Rightarrow> bool \<Rightarrow> extraction \<Rightarrow> ('f, 'n) shot_store \<Rightarrow> ('f, 'n) shot_store \<times> bool" where
  "ss_save fs nv mounted e s =
     (if \<not> mounted then (s, False)
      else if ex_version e \<noteq> kCurrentExtractionVersion then (s, False)
      else case encodeCompactSize e of
        (False, _) \<Rightarrow> (s, False)
      | (True, encodedSize) \<Rightarrow>
          (let (f1, dirOk) = (if lf_exists fs (ss_fs s) then (ss_fs s, True) else lf_mkdir fs (ss_fs s));
               s1 = s\<lparr>ss_fs := f1\<rparr> in
           if \<not> dirOk then (s1, False)
           else case scanIds fs f1 of
             None \<Rightarrow> (s1, False)
           | Some ids \<Rightarrow>
               (let (n1, sid) = reserveNextShotId nv (if ids = [] then 0 else last ids) (ss_nvs s);
                    s2 = s1\<lparr>ss_nvs := n1\<rparr> in
                if sid = 0 then (s2, False)
                else let (f2, ok) = writeRecord fs e sid encodedSize f1; s3 = s2\<lparr>ss_fs := f2\<rparr> in
                  if \<not> ok then (s3, False)
                  else let (f3, revn) = enforceRetention fs (ids @ [sid]) (f2, ss_revision s + 1) in
                    (s3\<lparr>ss_fs := f3, ss_revision := revn\<rparr>, True))))"

definition ss_page :: "'f littlefs \<Rightarrow> u32 \<Rightarrow> nat \<Rightarrow> ('f, 'n) shot_store \<Rightarrow> u32 list \<times> bool \<times> nat \<times> u32" where
  "ss_page fs before limit s =
     (let es = (case lf_scan fs (ss_fs s) of None \<Rightarrow> [] | Some es \<Rightarrow> es);
          valid = filter (\<lambda>e. \<not> de_isDirectory e \<and> parseIdFromName (de_name e) \<noteq> 0
                             \<and> isValidShotHeader (take kCompactHeaderBytes (de_bytes e))) es;
          ids = filter (\<lambda>i. before = 0 \<or> i < before) (map (\<lambda>e. parseIdFromName (de_name e)) valid);
          ids = rev (sort ids)
      in (take limit ids, limit < length ids, length valid, ss_revision s))"

definition readBinary :: "'f littlefs \<Rightarrow> bool \<Rightarrow> u32 \<Rightarrow> 'f \<Rightarrow> u8 list option" where
  "readBinary fs allocOk sid st =
     (case lf_read fs (pathFor sid) st of
        None \<Rightarrow> None
      | Some bytes \<Rightarrow>
          (if length bytes < kCompactHeaderBytes \<or> kMaxCompactRecordBytes < length bytes then None
           else if \<not> allocOk then None
           else if \<not> hasSupportedShotHeader bytes then None else Some bytes))"

definition ss_load :: "'f littlefs \<Rightarrow> u32 \<Rightarrow> 'f \<Rightarrow> extraction option" where
  "ss_load fs sid st =
     (case lf_read fs (pathFor sid) st of
        None \<Rightarrow> None
      | Some bytes \<Rightarrow> (case decodeCompact bytes of None \<Rightarrow> None | Some (e, rest) \<Rightarrow> Some e))"

definition ss_erase :: "'f littlefs \<Rightarrow> u32 \<Rightarrow> ('f, 'n) shot_store \<Rightarrow> ('f, 'n) shot_store \<times> bool" where
  "ss_erase fs sid s =
     (case lf_remove fs (pathFor sid) (ss_fs s) of
        (f, False) \<Rightarrow> (s\<lparr>ss_fs := f\<rparr>, False)
      | (f, True) \<Rightarrow> (s\<lparr>ss_fs := f, ss_revision := ss_revision s + 1\<rparr>, True))"

definition newestId :: "'f littlefs \<Rightarrow> 'f \<Rightarrow> u32" where
  "newestId fs st =
     (if \<not> lf_exists fs st then 0
      else case scanIds fs st of
        None \<Rightarrow> 0
      | Some ids \<Rightarrow> (case find (\<lambda>i. readMeta fs i st \<noteq> None) (rev ids) of None \<Rightarrow> 0 | Some i \<Rightarrow> i))"

section \<open>The ids of the history\<close>

definition shot_exists :: "('f \<Rightarrow> string \<Rightarrow> u8 list option) \<Rightarrow> 'f \<Rightarrow> u32 \<Rightarrow> bool" where
  "shot_exists content st i \<longleftrightarrow> 0 < i \<and> i \<le> kMaxShotId \<and> content st (pathFor i) \<noteq> None"

lemma pathFor_shots: "pathFor i = shots_path (fileName i)"
  by (simp add: pathFor_def shots_path_def)

lemma u32_pos: "0 < (i :: u32) \<longleftrightarrow> i \<noteq> 0"
  by (simp add: word_neq_0_conv)

text \<open>The ids of the files whose bytes satisfy a condition, in the order of the walk.\<close>

definition entry_ids :: "(u8 list \<Rightarrow> bool) \<Rightarrow> dir_entry list \<Rightarrow> u32 list" where
  "entry_ids P es = map (\<lambda>e. parseIdFromName (de_name e))
     (filter (\<lambda>e. \<not> de_isDirectory e \<and> parseIdFromName (de_name e) \<noteq> 0 \<and> P (de_bytes e)) es)"

lemma entry_ids_correct:
  assumes law: "lfs_lawful fs content good" "good st" and es: "lf_scan fs st = Some es"
  shows "distinct (entry_ids P es)"
    and "set (entry_ids P es) = {i. shot_exists content st i \<and> P (the (content st (pathFor i)))}"
proof -
  let ?f = "filter (\<lambda>e. \<not> de_isDirectory e) es"
  let ?g = "filter (\<lambda>e. \<not> de_isDirectory e \<and> parseIdFromName (de_name e) \<noteq> 0 \<and> P (de_bytes e)) es"
  note laws = lfs_scan_laws [OF law es]
  have d: "distinct (map (\<lambda>e. basename (de_name e)) ?f)" by (rule laws(1))
  have inj: "e = e'" if "e \<in> set ?g" "e' \<in> set ?g" "parseIdFromName (de_name e) = parseIdFromName (de_name e')"
    for e e'
  proof -
    from that have nz: "parseIdFromName (de_name e) \<noteq> 0" by simp
    have "basename (de_name e) = fileName (parseIdFromName (de_name e))"
      using parseIdFromName_iff [OF nz, of "de_name e"] by simp
    moreover have "basename (de_name e') = fileName (parseIdFromName (de_name e))"
      using parseIdFromName_iff [OF nz, of "de_name e'"] that(3) by simp
    ultimately have "basename (de_name e) = basename (de_name e')" by simp
    with d that(1,2) show ?thesis by (auto simp: distinct_map dest: inj_onD)
  qed
  have "?g = filter (\<lambda>e. parseIdFromName (de_name e) \<noteq> 0 \<and> P (de_bytes e)) ?f"
    by (simp add: conj_ac)
  then have "distinct ?g" using d by (simp only: distinct_map distinct_filter)
  then show "distinct (entry_ids P es)"
    using inj unfolding entry_ids_def by (subst distinct_map) (auto simp: inj_on_def)
  have "i \<in> set (entry_ids P es) \<longleftrightarrow> shot_exists content st i \<and> P (the (content st (pathFor i)))" for i
  proof
    assume "i \<in> set (entry_ids P es)"
    then obtain e where e: "e \<in> set es" "\<not> de_isDirectory e" "parseIdFromName (de_name e) = i" "i \<noteq> 0" "P (de_bytes e)"
      by (auto simp: entry_ids_def)
    with parseIdFromName_iff [of i "de_name e"] laws(2) [OF e(1,2)]
    show "shot_exists content st i \<and> P (the (content st (pathFor i)))"
      by (auto simp: shot_exists_def pathFor_shots u32_pos)
  next
    assume a: "shot_exists content st i \<and> P (the (content st (pathFor i)))"
    then obtain bs where bs: "content st (shots_path (fileName i)) = Some bs"
      by (auto simp: shot_exists_def pathFor_shots)
    have "CHR ''/'' \<notin> set (fileName i)"
      using a by (auto simp: shot_exists_def intro!: fileName_no_slash usable_small)
    from laws(3) [OF this bs] obtain e where
      "e \<in> set es" "\<not> de_isDirectory e" "basename (de_name e) = fileName i" "de_bytes e = bs" by blast
    with a bs parseIdFromName_iff [of i "de_name e"] show "i \<in> set (entry_ids P es)"
      by (auto simp: entry_ids_def shot_exists_def pathFor_shots u32_pos image_iff)
  qed
  then show "set (entry_ids P es) = {i. shot_exists content st i \<and> P (the (content st (pathFor i)))}" by blast
qed

lemma scanIds_correct:
  assumes law: "lfs_lawful fs content good" "good st" and "scanIds fs st = Some ids"
  shows "sorted ids" "distinct ids" "set ids = {i. shot_exists content st i}"
proof -
  have "sorted ids \<and> distinct ids \<and> set ids = {i. shot_exists content st i}"
  proof (cases "lf_exists fs st")
    case False
    then have "content st (shots_path b) = None" for b
      using lfs_at [OF law] by simp
    then show ?thesis using False assms(3) by (auto simp: scanIds_def shot_exists_def pathFor_shots)
  next
    case True
    then obtain es where es: "lf_scan fs st = Some es" "ids = sort (shot_ids es)"
      using assms(3) by (auto simp: scanIds_def split: option.splits)
    have "shot_ids es = entry_ids (\<lambda>_. True) es"
      by (auto simp: shot_ids_def entry_ids_def filter_map o_def conj_commute intro: filter_cong)
    then show ?thesis using entry_ids_correct [OF law es(1), of "\<lambda>_. True"] es(2) by simp
  qed
  then show "sorted ids" "distinct ids" "set ids = {i. shot_exists content st i}" by auto
qed

lemma write_chunks_law:
  assumes law: "lfs_lawful fs content good"
  shows "good st \<Longrightarrow> write_chunks fs p cs (st, ok) = (st', ok') \<Longrightarrow>
    good st' \<and> (\<forall>q. q \<noteq> p \<longrightarrow> content st' q = content st q)
    \<and> (ok' \<longrightarrow> ok \<and> (\<forall>b. content st p = Some b \<longrightarrow> content st' p = Some (b @ concat cs)))"
proof (induction cs arbitrary: st ok)
  case Nil
  then show ?case by simp
next
  case (Cons c cs)
  show ?case
  proof (cases ok)
    case False
    with Cons.prems(2) have "write_chunks fs p cs (st, False) = (st', ok')" by simp
    from Cons.IH [OF Cons.prems(1) this] False show ?thesis by simp
  next
    case True
    obtain st1 n where a: "lf_append fs p c st = (st1, n)" by (metis surj_pair)
    then have l: "good st1" "\<forall>q. q \<noteq> p \<longrightarrow> content st1 q = content st q"
      "\<forall>b. content st p = Some b \<longrightarrow> content st1 p = Some (b @ take n c)"
      using law Cons.prems(1) unfolding lfs_lawful_def by blast+
    from True a Cons.prems(2) have "write_chunks fs p cs (st1, n = length c) = (st', ok')" by simp
    from Cons.IH [OF l(1) this] l True show ?thesis by auto
  qed
qed

lemma writeRecord_law:
  assumes law: "lfs_lawful fs content good" "good st"
    and "writeRecord fs e sid n st = (st', ok)"
  shows "good st'" "q \<noteq> pathFor sid \<Longrightarrow> content st' q = content st q"
    "ok \<Longrightarrow> \<exists>chunks. encodeCompact e = Some chunks \<and> content st' (pathFor sid) = Some (concat chunks)"
proof -
  let ?p = "pathFor sid"
  obtain st1 ok1 where c: "lf_create fs ?p st = (st1, ok1)" by (metis surj_pair)
  then have l1: "good st1" "\<forall>q. q \<noteq> ?p \<longrightarrow> content st1 q = content st q" "ok1 \<longrightarrow> content st1 ?p = Some []"
    using law unfolding lfs_lawful_def by blast+
  have "good st' \<and> (\<forall>q. q \<noteq> ?p \<longrightarrow> content st' q = content st q)
      \<and> (ok \<longrightarrow> (\<exists>chunks. encodeCompact e = Some chunks \<and> content st' ?p = Some (concat chunks)))"
  proof (cases ok1)
    case False
    with assms(3) c l1 show ?thesis by (auto simp: writeRecord_def)
  next
    case True
    let ?chunks = "case encodeCompact e of None \<Rightarrow> [] | Some cs \<Rightarrow> cs"
    obtain st2 ok2 where w: "write_chunks fs ?p ?chunks (st1, True) = (st2, ok2)" by (metis surj_pair)
    note l2 = write_chunks_law [OF law(1) l1(1) w]
    obtain st3 ok3 where r: "lf_remove fs ?p st2 = (st3, ok3)" by (metis surj_pair)
    have l3: "good st3" "content st3 = (if ok3 then (content st2)(?p := None) else content st2)"
      using law(1) l2 r unfolding lfs_lawful_def by blast+
    from assms(3) c True w r consider "st' = st3" "\<not> ok"
      | "st' = st2" "ok" "ok2" "encodeCompact e \<noteq> None"
      by (auto simp: writeRecord_def Let_def split: prod.splits if_splits)
    then show ?thesis
    proof cases
      case 1
      with l1 l2 l3 show ?thesis by auto
    next
      case 2
      with l1 l2 True show ?thesis by auto
    qed
  qed
  then show "good st'" "q \<noteq> pathFor sid \<Longrightarrow> content st' q = content st q"
    "ok \<Longrightarrow> \<exists>chunks. encodeCompact e = Some chunks \<and> content st' (pathFor sid) = Some (concat chunks)" by auto
qed

text \<open>Removing the oldest removes a prefix of the list, the whole of it when no removal fails.\<close>

lemma remove_oldest_law:
  assumes law: "lfs_lawful fs content good"
  shows "good st \<Longrightarrow> remove_oldest fs is (st, r) = (st', r') \<Longrightarrow>
    good st' \<and> (\<exists>k \<le> length is.
        content st' = (\<lambda>q. if q \<in> pathFor ` set (take k is) then None else content st q)
      \<and> ((\<forall>p st. snd (lf_remove fs p st)) \<longrightarrow> k = length is))"
proof (induction "is" arbitrary: st r)
  case Nil
  then show ?case by auto
next
  case (Cons i "is")
  obtain st1 ok where rm: "lf_remove fs (pathFor i) st = (st1, ok)" by (metis surj_pair)
  note l = lfs_remove_law [OF law Cons.prems(1) rm]
  show ?case
  proof (cases ok)
    case False
    with Cons.prems(2) rm have "st' = st1" by simp
    with l False rm show ?thesis by (intro conjI exI [of _ 0]) (auto, metis snd_conv)
  next
    case True
    with Cons.prems(2) rm have "remove_oldest fs is (st1, r + 1) = (st', r')" by simp
    from Cons.IH [OF l(1) this] obtain k where "good st'" "k \<le> length is"
      "content st' = (\<lambda>q. if q \<in> pathFor ` set (take k is) then None else content st1 q)"
      "(\<forall>p st. snd (lf_remove fs p st)) \<longrightarrow> k = length is" by blast
    then show ?thesis using l True by (intro conjI exI [of _ "Suc k"]) auto
  qed
qed

lemma ss_save_cases:
  assumes law: "lfs_lawful fs content good" "good (ss_fs s)" and "ss_save fs nv m e s = (s', ok)"
  obtains (early) "\<not> ok" "good (ss_fs s')" "content (ss_fs s') = content (ss_fs s)" "ss_revision s' = ss_revision s"
    | (failed) f1 ids n1 sid n where "\<not> ok" "good f1" "content f1 = content (ss_fs s)" "scanIds fs f1 = Some ids"
        "reserveNextShotId nv (if ids = [] then 0 else last ids) (ss_nvs s) = (n1, sid)" "sid \<noteq> 0"
        "writeRecord fs e sid n f1 = (ss_fs s', False)" "ss_revision s' = ss_revision s"
    | (saved) f1 ids n1 sid n f2 where "ok" "good f1" "content f1 = content (ss_fs s)" "scanIds fs f1 = Some ids"
        "reserveNextShotId nv (if ids = [] then 0 else last ids) (ss_nvs s) = (n1, sid)" "sid \<noteq> 0"
        "writeRecord fs e sid n f1 = (f2, True)"
        "enforceRetention fs (ids @ [sid]) (f2, ss_revision s + 1) = (ss_fs s', ss_revision s')"
proof (cases "m \<and> ex_version e = kCurrentExtractionVersion \<and> fst (encodeCompactSize e)")
  case False
  obtain b n where "encodeCompactSize e = (b, n)" by (metis surj_pair)
  with False assms(3) have "s' = s \<and> \<not> ok"
    by (cases m; cases "ex_version e = kCurrentExtractionVersion"; cases b) (simp_all add: ss_save_def)
  then show thesis using law(2) by (intro early) auto
next
  case True
  obtain n where n: "encodeCompactSize e = (True, n)" using True by (metis fst_conv surj_pair)
  obtain f1 d where f1: "(if lf_exists fs (ss_fs s) then (ss_fs s, True) else lf_mkdir fs (ss_fs s)) = (f1, d)"
    by (metis surj_pair)
  have g: "good f1" "content f1 = content (ss_fs s)"
    using lfs_mkdir_law [OF law] f1 law(2) by (auto split: if_splits)
  show thesis
  proof (cases "d \<and> scanIds fs f1 \<noteq> None")
    case False
    with True n f1 assms(3) have "\<not> ok" "ss_fs s' = f1" "ss_revision s' = ss_revision s"
      by (auto simp: ss_save_def Let_def split: option.splits if_splits)
    then show thesis using g by (intro early) auto
  next
    case d: True
    then obtain ids where ids: "scanIds fs f1 = Some ids" by auto
    obtain n1 sid where r: "reserveNextShotId nv (if ids = [] then 0 else last ids) (ss_nvs s) = (n1, sid)"
      by (metis surj_pair)
    show thesis
    proof (cases "sid = 0")
      case True
      with \<open>m \<and> _\<close> n f1 d ids r assms(3) have "\<not> ok" "ss_fs s' = f1" "ss_revision s' = ss_revision s"
        by (auto simp: ss_save_def Let_def)
      then show thesis using g by (intro early) auto
    next
      case False
      obtain f2 ok2 where w: "writeRecord fs e sid n f1 = (f2, ok2)" by (metis surj_pair)
      obtain f3 r3 where e: "enforceRetention fs (ids @ [sid]) (f2, ss_revision s + 1) = (f3, r3)" by (metis surj_pair)
      show thesis
      proof (cases ok2)
        case True
        with \<open>m \<and> _\<close> n f1 d ids r False w e assms(3) have "ok" "ss_fs s' = f3" "ss_revision s' = r3"
          by (auto simp: ss_save_def Let_def)
        with True g ids r False w e show thesis by (intro saved) auto
      next
        case F2: False
        with \<open>m \<and> _\<close> n f1 d ids r False w assms(3) have "\<not> ok" "ss_fs s' = f2" "ss_revision s' = ss_revision s"
          by (auto simp: ss_save_def Let_def)
        with F2 g ids r False w show thesis by (intro failed) auto
      qed
    qed
  qed
qed

text \<open>The id of a new record is above every id in the directory.\<close>

lemma reserved_above:
  assumes law: "lfs_lawful fs content good" "good f1" and nvs: "id_nvs_lawful nv val"
    and ids: "scanIds fs f1 = Some ids"
    and r: "reserveNextShotId nv (if ids = [] then 0 else last ids) st = (n1, sid)" "sid \<noteq> 0"
  shows "shot_exists content f1 i \<Longrightarrow> i < sid" and "sid \<le> kMaxShotId"
proof -
  note sc = scanIds_correct [OF law ids] and rs = reserve_step(2) [OF nvs r(1) r(2)]
  show "sid \<le> kMaxShotId" using rs by simp
  assume "shot_exists content f1 i"
  then have "i \<in> set ids" using sc(3) by simp
  then have "i \<le> last ids" "ids \<noteq> []"
    using sc(1) by (auto simp: sorted_wrt_append dest!: split_list)
  with rs show "i < sid" by auto
qed

section \<open>Properties\<close>

lemma shot_exists_content: "content st' = content st \<Longrightarrow> shot_exists content st' i = shot_exists content st i"
  by (simp add: shot_exists_def)

lemma take_snoc_removed:
  "take (if kMaxShots < length (ids @ [x]) then length (ids @ [x]) - kMaxShots else 0) (ids @ [x])
     = take (Suc (length ids) - kMaxShots) ids"
  by (simp add: kMaxShots_def)

lemma ss_load_content:
  assumes "lfs_lawful fs content good" "good st" "content st (pathFor sid) = Some (concat chunks)"
    and "wire_wf e" "encodeCompact e = Some chunks"
  shows "ss_load fs sid st = Some (wire_norm e)"
proof -
  have "lf_read fs (pathFor sid) st = Some (concat chunks)"
    using assms(1-3) unfolding lfs_lawful_def by metis
  then show ?thesis using record_roundtrip_plain [OF assms(4,5)] by (simp add: ss_load_def)
qed

text \<open>What a successful save does to the contents.\<close>

lemma ss_save_contents:
  assumes law: "lfs_lawful fs content good" "good (ss_fs s)" and nvs: "id_nvs_lawful nv val"
    and "ss_save fs nv m e s = (s', True)"
  obtains sid ids k chunks where "good (ss_fs s')" "0 < sid" "sid \<le> kMaxShotId"
    "sorted ids" "distinct ids" "set ids = {i. shot_exists content (ss_fs s) i}" "\<forall>i \<in> set ids. i < sid"
    "encodeCompact e = Some chunks" "k \<le> Suc (length ids) - kMaxShots"
    "(\<forall>p st. snd (lf_remove fs p st)) \<longrightarrow> k = Suc (length ids) - kMaxShots"
    "\<forall>i. shot_exists content (ss_fs s') i \<longleftrightarrow> i = sid \<or> i \<in> set ids - set (take k ids)"
    "content (ss_fs s') (pathFor sid) = Some (concat chunks)"
    "\<forall>i \<in> set ids - set (take k ids). content (ss_fs s') (pathFor i) = content (ss_fs s) (pathFor i)"
proof -
  from ss_save_cases [OF law assms(4)] obtain f1 ids n1 sid n f2 where g: "good f1" "content f1 = content (ss_fs s)"
    and ids: "scanIds fs f1 = Some ids"
    and r: "reserveNextShotId nv (if ids = [] then 0 else last ids) (ss_nvs s) = (n1, sid)" "sid \<noteq> 0"
    and w: "writeRecord fs e sid n f1 = (f2, True)"
    and e: "enforceRetention fs (ids @ [sid]) (f2, ss_revision s + 1) = (ss_fs s', ss_revision s')"
    by metis
  note sc = scanIds_correct [OF law(1) g(1) ids]
  have ex: "shot_exists content f1 i = shot_exists content (ss_fs s) i" for i
    using g(2) by (rule shot_exists_content)
  note above = reserved_above [OF law(1) g(1) nvs ids r]
  note wl = writeRecord_law [OF law(1) g(1) w]
  from wl(3) obtain chunks where ch: "encodeCompact e = Some chunks" "content f2 (pathFor sid) = Some (concat chunks)"
    by blast
  from e have "remove_oldest fs (take (Suc (length ids) - kMaxShots) ids) (f2, ss_revision s + 1) = (ss_fs s', ss_revision s')"
    by (simp only: enforceRetention_def take_snoc_removed)
  from remove_oldest_law [OF law(1) wl(1) this] obtain k where k0: "good (ss_fs s')"
    "k \<le> length (take (Suc (length ids) - kMaxShots) ids)"
    "content (ss_fs s') = (\<lambda>q. if q \<in> pathFor ` set (take k (take (Suc (length ids) - kMaxShots) ids)) then None else content f2 q)"
    "(\<forall>p st. snd (lf_remove fs p st)) \<longrightarrow> k = length (take (Suc (length ids) - kMaxShots) ids)"
    by blast
  have len: "length (take (Suc (length ids) - kMaxShots) ids) = Suc (length ids) - kMaxShots"
    by (simp add: kMaxShots_def)
  with k0(2) have "take k (take (Suc (length ids) - kMaxShots) ids) = take k ids" by (simp add: min_def)
  with k0 len have k: "good (ss_fs s')" "k \<le> Suc (length ids) - kMaxShots"
    "content (ss_fs s') = (\<lambda>q. if q \<in> pathFor ` set (take k ids) then None else content f2 q)"
    "(\<forall>p st. snd (lf_remove fs p st)) \<longrightarrow> k = Suc (length ids) - kMaxShots"
    by simp_all
  have usable: "i \<le> kMaxShotId \<and> 0 < i \<and> i < sid" if "i \<in> set ids" for i
    using that sc(3) above(1) by (auto simp: shot_exists_def)
  have other: "content (ss_fs s') (pathFor i) =
      (if i \<in> set (take k ids) then None else if i = sid then Some (concat chunks) else content (ss_fs s) (pathFor i))"
    if "i \<le> kMaxShotId" for i
  proof -
    have "pathFor i \<in> pathFor ` set (take k ids) \<longleftrightarrow> i \<in> set (take k ids)"
      using that usable pathFor_inj by (auto dest: in_set_takeD)
    moreover have "i \<noteq> sid \<Longrightarrow> pathFor i \<noteq> pathFor sid" using that above(2) pathFor_inj by blast
    ultimately show ?thesis using k(3) ch(2) wl(2) g(2) by auto
  qed
  have kept: "shot_exists content (ss_fs s') i \<longleftrightarrow> i = sid \<or> i \<in> set ids - set (take k ids)" for i
  proof (cases "i \<le> kMaxShotId")
    case True
    have "sid \<notin> set (take k ids)" using usable by (auto dest: in_set_takeD)
    with True other [OF True] sc(3) ex r(2) show ?thesis by (auto simp: shot_exists_def u32_pos)
  next
    case False
    then show ?thesis using usable above(2) by (auto simp: shot_exists_def)
  qed
  have "content (ss_fs s') (pathFor sid) = Some (concat chunks)"
    using other [OF above(2)] usable by (auto dest: in_set_takeD)
  moreover have "\<forall>i \<in> set ids - set (take k ids). content (ss_fs s') (pathFor i) = content (ss_fs s) (pathFor i)"
    using other usable by auto
  moreover have "set ids = {i. shot_exists content (ss_fs s) i}" using sc(3) ex by simp
  ultimately show thesis
    using that k ch(1) kept sc(1,2) usable above(2) r(2) by (simp add: u32_pos)
qed

text \<open>What is left of a sorted list of ids once its first \<open>k\<close> are gone.\<close>

lemma oldest_first:
  fixes ids :: "u32 list"
  assumes "sorted ids" and "distinct ids"
  shows "set ids - set (take k ids) = set (drop k ids)"
    and "i \<in> set (take k ids) \<Longrightarrow> j \<in> set (drop k ids) \<Longrightarrow> i < j"
proof -
  have d: "distinct (take k ids @ drop k ids)" using assms(2) by simp
  have u: "set ids = set (take k ids) \<union> set (drop k ids)" by (metis append_take_drop_id set_append)
  from d u show rest: "set ids - set (take k ids) = set (drop k ids)" unfolding distinct_append by blast
  show "i < j" if "i \<in> set (take k ids)" "j \<in> set (drop k ids)"
  proof -
    have "i \<le> j" using that assms(1) by (metis append_take_drop_id sorted_append)
    moreover have "i \<noteq> j" using that d unfolding distinct_append by blast
    ultimately show ?thesis by simp
  qed
qed

lemma card_kept: "card (insert x (set (drop k xs))) \<le> Suc (length xs - k)"
  using card_length [of "drop k xs"] card_insert_le_m1 [of "Suc (length xs - k)" "set (drop k xs)" x] by simp


text \<open>C27: a save that reports failure has lost nothing: every record that existed is there with the same
  bytes, and readers are not told of a change.\<close>

theorem shot_save_failure:
  assumes "lfs_lawful fs content good" and "good (ss_fs s)" and "id_nvs_lawful nv val"
    and "ss_save fs nv m e s = (s', False)" and "shot_exists content (ss_fs s) i"
  shows "content (ss_fs s') (pathFor i) = content (ss_fs s) (pathFor i)
       \<and> ss_load fs i (ss_fs s') = ss_load fs i (ss_fs s) \<and> ss_revision s' = ss_revision s"
proof -
  have ok: "content (ss_fs s') (pathFor i) = content (ss_fs s) (pathFor i) \<and> good (ss_fs s')
      \<and> ss_revision s' = ss_revision s"
  proof (cases rule: ss_save_cases [OF assms(1,2,4)])
    case early: 1
    then show ?thesis by simp
  next
    case failed: (2 f1 ids n1 sid n)
    have "shot_exists content f1 i" using assms(5) failed(3) shot_exists_content by metis
    from reserved_above [OF assms(1) failed(2) assms(3) failed(4-6)] this
    have "i < sid" "sid \<le> kMaxShotId" by auto
    then have ne: "pathFor i \<noteq> pathFor sid" using assms(5) pathFor_inj by (auto simp: shot_exists_def)
    note w = writeRecord_law(1) [OF assms(1) failed(2,7)] writeRecord_law(2) [OF assms(1) failed(2,7) ne]
    then show ?thesis by (simp only: failed(3,8) simp_thms)
  next
    case 3
    then show ?thesis by simp
  qed
  moreover have "lf_read fs (pathFor i) (ss_fs s) = content (ss_fs s) (pathFor i)"
    using assms(1,2) by (rule lfs_read_law)
  moreover have "lf_read fs (pathFor i) (ss_fs s') = content (ss_fs s') (pathFor i)"
    using assms(1) conjunct1 [OF conjunct2 [OF ok]] by (rule lfs_read_law)
  ultimately show ?thesis by (simp add: ss_load_def)
qed

text \<open>A record the pages show: its file has a valid header.\<close>

definition shot_usable :: "('f \<Rightarrow> string \<Rightarrow> u8 list option) \<Rightarrow> 'f \<Rightarrow> u32 \<Rightarrow> bool" where
  "shot_usable content st i \<longleftrightarrow> shot_exists content st i
     \<and> isValidShotHeader (take kCompactHeaderBytes (the (content st (pathFor i))))"

text \<open>A page of the history is the newest usable records below the cursor: sorted newest first, at most
  the limit, nothing skipped; the counts and the flag for more tell exactly what was left out.\<close>

theorem shot_page_newest:
  assumes "lfs_lawful fs content good" and "good (ss_fs s)" and "lf_scan fs (ss_fs s) \<noteq> None"
    and "ss_page fs before limit s = (ids, hasMore, count, revn)"
  shows "sorted_wrt (>) ids \<and> length ids \<le> limit
     \<and> (\<forall>i \<in> set ids. shot_usable content (ss_fs s) i \<and> (before = 0 \<or> i < before))
     \<and> (\<forall>i. shot_usable content (ss_fs s) i \<and> (before = 0 \<or> i < before) \<and> i \<notin> set ids
          \<longrightarrow> hasMore \<and> length ids = limit \<and> (\<forall>j \<in> set ids. i < j))
     \<and> (hasMore \<longrightarrow> (\<exists>i. shot_usable content (ss_fs s) i \<and> (before = 0 \<or> i < before) \<and> i \<notin> set ids))
     \<and> count = card {i. shot_usable content (ss_fs s) i} \<and> revn = ss_revision s"
proof -
  obtain es where es: "lf_scan fs (ss_fs s) = Some es" using assms(3) by blast
  let ?P = "\<lambda>bs. isValidShotHeader (take kCompactHeaderBytes bs)"
  define all where "all = entry_ids ?P es"
  define fit where "fit = rev (sort (filter (\<lambda>i. before = 0 \<or> i < before) all))"
  have d: "distinct all" and set_all: "set all = {i. shot_usable content (ss_fs s) i}"
    using entry_ids_correct [OF assms(1,2) es, of ?P] by (simp_all add: all_def shot_usable_def)
  have out: "ids = take limit fit" "hasMore = (limit < length fit)" "count = length all" "revn = ss_revision s"
    using assms(4) es by (auto simp: ss_page_def Let_def all_def fit_def entry_ids_def)
  have set_fit: "set fit = {i. shot_usable content (ss_fs s) i \<and> (before = 0 \<or> i < before)}"
    using set_all by (auto simp: fit_def)
  have dist_fit: "distinct fit" using d by (simp add: fit_def)
  have "sorted_wrt (\<ge>) fit" by (simp add: fit_def sorted_wrt_rev)
  then have sorted: "sorted_wrt (>) fit"
    using dist_fit by (induction fit) (auto simp: order_less_le)
  have split: "fit = ids @ drop limit fit" by (simp add: out(1))
  have below: "i < j" if "i \<in> set (drop limit fit)" "j \<in> set ids" for i j
    using sorted that by (subst (asm) split) (auto simp: sorted_wrt_append)
  have disj: "set ids \<inter> set (drop limit fit) = {}"
    using dist_fit by (subst (asm) split) (simp only: distinct_append)
  have set_split: "set fit = set ids \<union> set (drop limit fit)" by (subst split) (simp only: set_append)
  have "sorted_wrt (>) ids"
    using sorted by (subst (asm) split) (simp add: sorted_wrt_append)
  moreover have "length ids \<le> limit" by (simp add: out(1))
  moreover have "\<forall>i \<in> set ids. shot_usable content (ss_fs s) i \<and> (before = 0 \<or> i < before)"
    using set_split set_fit by blast
  moreover have "hasMore \<and> length ids = limit \<and> (\<forall>j \<in> set ids. i < j)"
    if "shot_usable content (ss_fs s) i \<and> (before = 0 \<or> i < before) \<and> i \<notin> set ids" for i
  proof -
    have i: "i \<in> set (drop limit fit)" using that set_split set_fit by blast
    then have "limit < length fit" by (metis drop_all empty_iff list.set(1) not_le_imp_less)
    then show ?thesis using below i by (auto simp: out)
  qed
  moreover have "\<exists>i. shot_usable content (ss_fs s) i \<and> (before = 0 \<or> i < before) \<and> i \<notin> set ids" if hasMore
  proof -
    have "fit ! limit \<in> set (drop limit fit)" using that out(2) by (metis Cons_nth_drop_Suc list.set_intros(1))
    then show ?thesis using disj set_split set_fit by blast
  qed
  moreover have "count = card {i. shot_usable content (ss_fs s) i}"
    using distinct_card [OF d] by (simp add: out(3) set_all)
  ultimately show ?thesis using out(4) by blast
qed

section \<open>A file system in memory\<close>

text \<open>The contract of the file system has an instance: a list of names with their bytes.\<close>

type_synonym ram_disk = "(string \<times> u8 list) list"

definition ram_name :: "string \<Rightarrow> string option" where
  "ram_name p = (if take 7 p = ''/shots/'' \<and> CHR ''/'' \<notin> set (drop 7 p) then Some (drop 7 p) else None)"

definition ram_content :: "ram_disk \<Rightarrow> string \<Rightarrow> u8 list option" where
  "ram_content st p = (case ram_name p of None \<Rightarrow> None | Some b \<Rightarrow> map_of st b)"

definition ram_fs :: "ram_disk littlefs" where
  "ram_fs = \<lparr>lf_exists = (\<lambda>st. True), lf_mkdir = (\<lambda>st. (st, True)),
     lf_scan = (\<lambda>st. Some (map (\<lambda>(b, bs). \<lparr>de_isDirectory = False, de_name = b, de_bytes = bs\<rparr>) st)),
     lf_read = (\<lambda>p st. ram_content st p),
     lf_create = (\<lambda>p st. case ram_name p of None \<Rightarrow> (st, False) | Some b \<Rightarrow> (AList.update b [] st, True)),
     lf_append = (\<lambda>p d st. case ram_name p of None \<Rightarrow> (st, 0)
        | Some b \<Rightarrow> (case map_of st b of None \<Rightarrow> (st, 0) | Some bs \<Rightarrow> (AList.update b (bs @ d) st, length d))),
     lf_remove = (\<lambda>p st. case ram_name p of None \<Rightarrow> (st, False)
        | Some b \<Rightarrow> if map_of st b = None then (st, False) else (AList.delete b st, True))\<rparr>"

definition ram_good :: "ram_disk \<Rightarrow> bool" where
  "ram_good st \<longleftrightarrow> distinct (map fst st) \<and> (\<forall>b \<in> set (map fst st). CHR ''/'' \<notin> set b)"

lemma ram_name_Some: "ram_name p = Some b \<longleftrightarrow> p = shots_path b \<and> CHR ''/'' \<notin> set b"
proof
  assume "ram_name p = Some b"
  then have "take 7 p = ''/shots/''" "drop 7 p = b" "CHR ''/'' \<notin> set b"
    by (auto simp: ram_name_def split: if_splits)
  then show "p = shots_path b \<and> CHR ''/'' \<notin> set b"
    using append_take_drop_id [of 7 p] by (simp add: shots_path_def kShotsDir_def)
qed (auto simp: ram_name_def shots_path_def kShotsDir_def)

lemma ram_name_shots: "ram_name (shots_path b) = (if CHR ''/'' \<in> set b then None else Some b)"
  using ram_name_Some [of "shots_path b"] by (auto simp: ram_name_def shots_path_def kShotsDir_def)

lemma ram_name_inj: "ram_name p = Some b \<Longrightarrow> ram_name q = Some b \<longleftrightarrow> q = p"
  by (auto simp: ram_name_Some)

lemma ram_content_update:
  assumes "ram_name p = Some b"
  shows "ram_content (AList.update b d st) = (ram_content st)(p := Some d)"
proof
  fix q
  show "ram_content (AList.update b d st) q = ((ram_content st)(p := Some d)) q"
    using ram_name_inj [OF assms, of q] by (auto simp: ram_content_def update_conv split: option.splits)
qed

lemma ram_content_delete:
  assumes "ram_name p = Some b"
  shows "ram_content (AList.delete b st) = (ram_content st)(p := None)"
proof
  fix q
  show "ram_content (AList.delete b st) q = ((ram_content st)(p := None)) q"
    using ram_name_inj [OF assms, of q] by (auto simp: ram_content_def delete_conv split: option.splits)
qed

lemma ram_good_update: "ram_good st \<Longrightarrow> CHR ''/'' \<notin> set b \<Longrightarrow> ram_good (AList.update b d st)"
  by (auto simp: ram_good_def update_keys)

lemma ram_good_delete: "ram_good st \<Longrightarrow> ram_good (AList.delete b st)"
  unfolding ram_good_def delete_keys by (metis distinct_removeAll filter_is_subset removeAll_filter_not_eq subsetD)

lemma ram_scan_law:
  assumes "ram_good st"
  shows "lfs_scan_law ram_fs ram_content st"
proof -
  let ?es = "map (\<lambda>(b, bs). \<lparr>de_isDirectory = False, de_name = b, de_bytes = bs\<rparr>) st"
  have names: "map (\<lambda>e. basename (de_name e)) (filter (\<lambda>e. \<not> de_isDirectory e) ?es) = map fst st"
    using assms by (auto simp: ram_good_def filter_map o_def case_prod_beta basename_plain)
  have "ram_content st (shots_path (basename b)) = Some bs" if "(b, bs) \<in> set st" for b bs
    using that assms by (force simp: ram_content_def ram_name_shots ram_good_def basename_plain)
  moreover have "\<exists>e \<in> set ?es. \<not> de_isDirectory e \<and> basename (de_name e) = b \<and> de_bytes e = bs"
    if "CHR ''/'' \<notin> set b" "ram_content st (shots_path b) = Some bs" for b bs
    using that by (force simp: ram_content_def ram_name_shots basename_plain dest: map_of_SomeD)
  ultimately show ?thesis using names assms
    by (auto simp: lfs_scan_law_def ram_fs_def ram_good_def)
qed

lemma ram_lawful: "lfs_lawful ram_fs ram_content ram_good"
proof -
  have create: "ram_good st' \<and> (\<forall>q. q \<noteq> p \<longrightarrow> ram_content st' q = ram_content st q) \<and> (ok \<longrightarrow> ram_content st' p = Some [])"
    if "ram_good st" "lf_create ram_fs p st = (st', ok)" for st p st' ok
    using that by (auto simp: ram_fs_def ram_content_update ram_good_update ram_name_Some split: option.splits)
  have append: "ram_good st' \<and> (\<forall>q. q \<noteq> p \<longrightarrow> ram_content st' q = ram_content st q)
      \<and> (\<forall>b. ram_content st p = Some b \<longrightarrow> ram_content st' p = Some (b @ take n d))"
    if "ram_good st" "lf_append ram_fs p d st = (st', n)" for st p d st' n
  proof (cases "ram_name p")
    case None
    with that show ?thesis by (auto simp: ram_fs_def ram_content_def)
  next
    case (Some b)
    then have "CHR ''/'' \<notin> set b" by (simp add: ram_name_Some)
    with that Some show ?thesis
      by (cases "map_of st b") (auto simp: ram_fs_def ram_content_update ram_good_update ram_content_def [of st p])
  qed
  have remove: "ram_good st' \<and> ram_content st' = (if ok then (ram_content st)(p := None) else ram_content st)"
    if "ram_good st" "lf_remove ram_fs p st = (st', ok)" for st p st' ok
    using that by (auto simp: ram_fs_def ram_content_delete ram_good_delete split: option.splits if_splits)
  show ?thesis
    unfolding lfs_lawful_def
  proof (intro allI impI, intro conjI)
    fix st assume g: "ram_good st"
    show "\<forall>p. lf_read ram_fs p st = ram_content st p" by (simp add: ram_fs_def)
    show "\<forall>st' ok. lf_mkdir ram_fs st = (st', ok) \<longrightarrow> ram_good st' \<and> ram_content st' = ram_content st"
      using g by (simp add: ram_fs_def)
    show "\<not> lf_exists ram_fs st \<longrightarrow> (\<forall>b. ram_content st (shots_path b) = None)" by (simp add: ram_fs_def)
    show "\<forall>p st' ok. lf_create ram_fs p st = (st', ok) \<longrightarrow> ram_good st'
        \<and> (\<forall>q. q \<noteq> p \<longrightarrow> ram_content st' q = ram_content st q) \<and> (ok \<longrightarrow> ram_content st' p = Some [])"
      by (intro allI impI) (rule create [OF g])
    show "\<forall>p d st' n. lf_append ram_fs p d st = (st', n) \<longrightarrow> ram_good st'
        \<and> (\<forall>q. q \<noteq> p \<longrightarrow> ram_content st' q = ram_content st q)
        \<and> (\<forall>b. ram_content st p = Some b \<longrightarrow> ram_content st' p = Some (b @ take n d))"
      by (intro allI impI) (rule append [OF g])
    show "\<forall>p st' ok. lf_remove ram_fs p st = (st', ok) \<longrightarrow> ram_good st'
        \<and> ram_content st' = (if ok then (ram_content st)(p := None) else ram_content st)"
      by (intro allI impI) (rule remove [OF g])
    show "lfs_scan_law ram_fs ram_content st" by (rule ram_scan_law [OF g])
  qed
qed

section \<open>Witnesses\<close>

definition ram_store :: "(ram_disk, u32) shot_store" where
  "ram_store = \<lparr>ss_fs = [(fileName 7, [1])], ss_nvs = 3, ss_revision = 0\<rparr>"

definition full_ram_store :: "(ram_disk, u32) shot_store" where
  "full_ram_store = ram_store\<lparr>ss_fs := [(fileName 7, concat (the (encodeCompact sample_record))),
     (fileName 9, [1]), (fileName 8, concat (the (encodeCompact sample_record)))]\<rparr>"

lemma ram_store_good: "ram_good (ss_fs ram_store)"
  by (code_simp)

lemma full_ram_store_good: "ram_good (ss_fs full_ram_store)"
  by (code_simp)

lemma ram_save_ok: "snd (ss_save ram_fs word_nvs True sample_record ram_store)"
  by code_simp

lemma ram_save_fails: "\<not> snd (ss_save ram_fs word_nvs True (sample_record\<lparr>ex_version := 3\<rparr>) ram_store)"
  by code_simp

lemma shot_exists_ram_store: "shot_exists ram_content (ss_fs ram_store) 7"
  by (code_simp)


lemma shot_save_failure_witness:
  "ram_content (ss_fs (fst (ss_save ram_fs word_nvs True (sample_record\<lparr>ex_version := 3\<rparr>) ram_store))) (pathFor 7)
     = ram_content (ss_fs ram_store) (pathFor 7)"
  using shot_save_failure [OF ram_lawful ram_store_good word_nvs_lawful _ shot_exists_ram_store, of True
      "sample_record\<lparr>ex_version := 3\<rparr>" "fst (ss_save ram_fs word_nvs True (sample_record\<lparr>ex_version := 3\<rparr>) ram_store)"]
    ram_save_fails by (metis prod.collapse)

lemma full_ram_page: "ss_page ram_fs 0 1 full_ram_store = ([8], True, 2, 0)"
  by code_simp

lemma shot_page_newest_witness:
  "\<exists>i. shot_usable ram_content (ss_fs full_ram_store) i \<and> i \<notin> set [8]"
  using shot_page_newest [OF ram_lawful full_ram_store_good _ full_ram_page] by (auto simp: ram_fs_def)

end
