(* ===== verification/Binary32.thy ===== *)
theory Binary32
  imports Prelude Complex_Main
begin

text \<open>
  The floating-point arithmetic of the flow estimate. A finite \<open>float\<close> or \<open>double\<close> is the rational
  number it denotes, and every operation of the source is the exact operation followed by the
  IEEE 754 rounding to nearest, ties to even, of its format. Overflow, NaN and signed zero do
  not arise from the operands the modelled code computes on: they are sums and quotients of at
  most sixteen 16-bit weights and times below 2^32 (\<open>Flow\<close> bounds them).
\<close>

section \<open>Rounding\<close>

definition round_even :: "rat \<Rightarrow> int" where
  "round_even q =
     (let k = \<lfloor>q\<rfloor>; d = q - of_int k
      in if d < 1 / 2 then k else if 1 / 2 < d then k + 1 else if even k then k else k + 1)"

function bits :: "int \<Rightarrow> nat" where
  "bits n = (if n \<le> 0 then 0 else Suc (bits (n div 2)))"
  by auto
termination by (relation "measure nat") auto

declare bits.simps [simp del]

definition pow2 :: "int \<Rightarrow> rat" where
  "pow2 k = (if 0 \<le> k then 2 ^ nat k else 1 / 2 ^ nat (- k))"

text \<open>The exponent of a positive number: \<open>2 ^ exponent q \<le> q < 2 ^ (exponent q + 1)\<close>.\<close>

definition exponent :: "rat \<Rightarrow> int" where
  "exponent q =
     (case quotient_of q of (a, b) \<Rightarrow>
        (let k = int (bits a) - int (bits b) in if pow2 k \<le> q then k else k - 1))"

definition fp_round :: "int \<Rightarrow> int \<Rightarrow> rat \<Rightarrow> rat" where
  "fp_round p emin q =
     (if q = 0 then 0
      else let ulp = pow2 (max (exponent \<bar>q\<bar>) emin - p + 1) in of_int (round_even (q / ulp)) * ulp)"

definition f32 :: "rat \<Rightarrow> rat" where "f32 q = fp_round 24 (- 126) q"
definition f64 :: "rat \<Rightarrow> rat" where "f64 q = fp_round 53 (- 1022) q"

text \<open>\<open>static_cast<int32_t>\<close> of a float truncates; \<open>std::round\<close> rounds halves away from zero.\<close>

definition truncate_int :: "rat \<Rightarrow> int" where
  "truncate_int q = (if 0 \<le> q then \<lfloor>q\<rfloor> else \<lceil>q\<rceil>)"

definition round_away :: "rat \<Rightarrow> rat" where
  "round_away q = (if 0 \<le> q then of_int \<lfloor>q + 1 / 2\<rfloor> else of_int \<lceil>q - 1 / 2\<rceil>)"

section \<open>Integers are exact\<close>

lemma round_even_int [simp]: "round_even (of_int k) = k"
  by (simp add: round_even_def)

lemma bits_zero [simp]: "bits 0 = 0"
  by (simp add: bits.simps)

lemma bits_one [simp]: "bits 1 = Suc 0"
  by (simp add: bits.simps)

lemma bits_bounds: "0 < n \<Longrightarrow> 2 ^ (bits n - 1) \<le> n \<and> n < 2 ^ bits n \<and> 0 < bits n"
proof (induction n rule: bits.induct)
  case (1 n)
  show ?case
  proof (cases "n div 2 = 0")
    case True
    with 1 have "n = 1" by auto
    then show ?thesis by simp
  next
    case False
    with 1 have ih: "2 ^ (bits (n div 2) - 1) \<le> n div 2" "n div 2 < 2 ^ bits (n div 2)" "0 < bits (n div 2)"
      by auto
    have b: "bits n = Suc (bits (n div 2))" using 1 by (simp add: bits.simps [of n])
    from ih(3) have p: "(2 :: int) ^ bits (n div 2) = 2 * 2 ^ (bits (n div 2) - 1)"
      by (cases "bits (n div 2)") auto
    have d: "2 * (n div 2) \<le> n" "n < 2 * (n div 2) + 2" by auto
    have "2 * 2 ^ (bits (n div 2) - 1) \<le> n" using ih(1) d by linarith
    moreover have "n < 2 * 2 ^ bits (n div 2)" using ih(2) d by linarith
    ultimately show ?thesis using p by (simp add: b)
  qed
qed

lemma pow2_nonneg: "pow2 (int n) = 2 ^ n"
  by (simp add: pow2_def)

lemma pow2_pos [simp]: "0 < pow2 k"
  by (simp add: pow2_def)

lemma exponent_int:
  assumes "0 < n"
  shows "exponent (of_int n) = int (bits n) - 1"
proof -
  have b: "2 ^ (bits n - 1) \<le> n" "n < 2 ^ bits n" "0 < bits n"
    using bits_bounds [of n] assms by auto
  have "pow2 (int (bits n) - 1) \<le> of_int n"
  proof -
    have "(of_int (2 ^ (bits n - 1)) :: rat) \<le> of_int n" using b(1) by (simp only: of_int_le_iff)
    moreover have "int (bits n) - 1 = int (bits n - 1)" using b(3) by (simp add: of_nat_diff)
    ultimately show ?thesis by (simp only: pow2_nonneg) simp
  qed
  moreover have "quotient_of (of_int n) = (n, 1)" by simp
  ultimately show ?thesis unfolding exponent_def by (simp only: Let_def prod.case bits_one One_nat_def) simp
qed

lemma fp_round_int:
  assumes "\<bar>n\<bar> < 2 ^ nat p" and "emin \<le> 0" and "0 < p"
  shows "fp_round p emin (of_int n) = of_int n"
proof (cases "n = 0")
  case True
  then show ?thesis by (simp add: fp_round_def)
next
  case False
  define e where "e = max (exponent (of_int \<bar>n\<bar>)) emin - p + 1"
  let ?b = "bits \<bar>n\<bar>"
  have bb: "2 ^ (?b - 1) \<le> \<bar>n\<bar>" "0 < ?b" using bits_bounds [of "\<bar>n\<bar>"] False by auto
  with assms(1) have "(2 :: int) ^ (?b - 1) < 2 ^ nat p" by linarith
  then have "?b - 1 < nat p" by (rule power_less_imp_less_exp [rotated]) simp
  with bb(2) have "int ?b \<le> p" using assms(3) by linarith
  then have e0: "e \<le> 0" using exponent_int [of "\<bar>n\<bar>"] False assms(2,3) bb(2) by (auto simp: e_def)
  have "of_int n / pow2 e = of_int (n * 2 ^ nat (- e))"
    using e0 by (cases "e = 0") (simp_all add: pow2_def)
  then have "of_int (round_even (of_int n / pow2 e)) * pow2 e = of_int (n * 2 ^ nat (- e)) * pow2 e"
    by (simp only: round_even_int)
  also have "\<dots> = of_int n"
    using e0 by (cases "e = 0") (simp_all add: pow2_def)
  finally show ?thesis using False by (simp add: fp_round_def Let_def e_def)
qed

lemma f32_int: "\<bar>n\<bar> < 2 ^ 24 \<Longrightarrow> f32 (of_int n) = of_int n"
  unfolding f32_def by (rule fp_round_int) simp_all

lemma f64_int: "\<bar>n\<bar> < 2 ^ 53 \<Longrightarrow> f64 (of_int n) = of_int n"
  unfolding f64_def by (rule fp_round_int) simp_all

lemma f32_zero [simp]: "f32 0 = 0"
  by (simp add: f32_def fp_round_def)

lemma truncate_int_of_int [simp]: "truncate_int (of_int n) = n"
  by (simp add: truncate_int_def)

section \<open>The rounding error\<close>

lemma pow2_add: "pow2 (a + b) = pow2 a * pow2 b"
proof -
  have *: "pow2 k = 2 powi k" for k
    by (simp add: pow2_def power_int_def power_one_over field_simps)
  show ?thesis by (simp add: * power_int_add)
qed

lemma pow2_mono: "a \<le> b \<Longrightarrow> pow2 a \<le> pow2 b"
proof -
  assume "a \<le> b"
  then have "pow2 b = pow2 a * pow2 (b - a)" "1 \<le> pow2 (b - a)"
    using pow2_add [of a "b - a"] by (auto simp: pow2_def)
  then show ?thesis using pow2_pos [of a] by (metis mult.right_neutral mult_le_cancel_left_pos)
qed

lemma bits_pow2:
  assumes "0 < n"
  shows "pow2 (int (bits n) - 1) \<le> of_int n" and "of_int n < pow2 (int (bits n))"
proof -
  note b = bits_bounds [OF assms]
  have "pow2 (int (bits n) - 1) = of_int (2 ^ (bits n - 1))"
    using b pow2_nonneg [of "bits n - 1"] by (simp add: of_nat_diff)
  then show "pow2 (int (bits n) - 1) \<le> of_int n" using b by (simp only: of_int_le_iff)
  have "pow2 (int (bits n)) = of_int (2 ^ bits n)" using pow2_nonneg [of "bits n"] by simp
  then show "of_int n < pow2 (int (bits n))" using b by (simp only: of_int_less_iff)
qed

lemma exponent_bounds:
  assumes "0 < q"
  shows "pow2 (exponent q) \<le> q" and "q < pow2 (exponent q + 1)"
proof -
  obtain a b where ab: "quotient_of q = (a, b)" by (cases "quotient_of q")
  have q: "q = of_int a / of_int b" using quotient_of_div [OF ab] .
  have b: "0 < b" using quotient_of_denom_pos [OF ab] .
  then have a: "0 < a" using assms q by (simp add: zero_less_divide_iff)
  note A = bits_pow2 [OF a] and B = bits_pow2 [OF b]
  define k where "k = int (bits a) - int (bits b)"
  have "pow2 (int (bits a)) = pow2 (k + 1) * pow2 (int (bits b) - 1)"
    by (simp add: pow2_add [symmetric] k_def)
  moreover have "pow2 (k + 1) * pow2 (int (bits b) - 1) \<le> pow2 (k + 1) * of_int b"
    using B(1) by (intro mult_left_mono) (simp_all add: less_imp_le)
  ultimately have "of_int a < pow2 (k + 1) * of_int b" using A(2) by linarith
  then have up: "q < pow2 (k + 1)" using b by (simp add: q divide_less_eq)
  have "pow2 (int (bits a) - 1) = pow2 (k - 1) * pow2 (int (bits b))"
    by (simp add: pow2_add [symmetric] k_def)
  moreover have "pow2 (k - 1) * of_int b \<le> pow2 (k - 1) * pow2 (int (bits b))"
    using B(2) by (intro mult_left_mono) (simp_all add: less_imp_le)
  ultimately have "pow2 (k - 1) * of_int b \<le> of_int a" using A(1) by linarith
  then have low: "pow2 (k - 1) \<le> q" using b by (simp add: q le_divide_eq)
  show "pow2 (exponent q) \<le> q" "q < pow2 (exponent q + 1)"
    using up low by (auto simp: exponent_def ab k_def Let_def)
qed

lemma round_even_error: "\<bar>of_int (round_even x) - x\<bar> \<le> 1 / 2"
proof -
  have "of_int \<lfloor>x\<rfloor> \<le> x" "x < of_int \<lfloor>x\<rfloor> + 1" by linarith+
  then show ?thesis by (auto simp: round_even_def Let_def)
qed

lemma fp_round_error:
  assumes "pow2 emin \<le> \<bar>q\<bar>"
  shows "\<bar>fp_round p emin q - q\<bar> \<le> \<bar>q\<bar> * pow2 (- p)"
proof -
  define e where "e = exponent \<bar>q\<bar>"
  have q0: "0 < \<bar>q\<bar>" using pow2_pos [of emin] assms by linarith
  have eb: "pow2 e \<le> \<bar>q\<bar>" "\<bar>q\<bar> < pow2 (e + 1)" using exponent_bounds [OF q0] by (simp_all add: e_def)
  have "emin \<le> e"
  proof (rule ccontr)
    assume "\<not> emin \<le> e"
    then have "pow2 (e + 1) \<le> pow2 emin" by (intro pow2_mono) simp
    then show False using assms eb by linarith
  qed
  then have m: "max e emin = e" by simp
  define u where "u = pow2 (e - p + 1)"
  have u: "0 < u" by (simp add: u_def)
  have half: "u / 2 = pow2 e * pow2 (- p)"
    using pow2_add [of "e - p" 1] pow2_add [of e "- p"] by (simp add: u_def pow2_def [of 1])
  have "fp_round p emin q = of_int (round_even (q / u)) * u"
    using q0 m by (auto simp: fp_round_def Let_def e_def u_def)
  then have "fp_round p emin q - q = (of_int (round_even (q / u)) - q / u) * u"
    using u by (simp add: field_simps)
  then have "\<bar>fp_round p emin q - q\<bar> = \<bar>of_int (round_even (q / u)) - q / u\<bar> * u"
    using u by (simp add: abs_mult)
  also have "\<dots> \<le> 1 / 2 * u" using round_even_error u by (intro mult_right_mono) simp_all
  also have "\<dots> = pow2 e * pow2 (- p)" using half by simp
  also have "\<dots> \<le> \<bar>q\<bar> * pow2 (- p)" using eb by (intro mult_right_mono) (simp_all add: less_imp_le)
  finally show ?thesis .
qed

lemma f32_error:
  assumes "1 / 1000 \<le> q"
  shows "\<bar>f32 q - q\<bar> \<le> q / 2 ^ 24"
proof -
  have "pow2 (- 126) \<le> 1 / 1000" by (simp add: pow2_def)
  then show ?thesis
    using fp_round_error [of "- 126" q 24] assms by (simp add: f32_def pow2_def)
qed

lemma round_even_minus: "round_even (- x) = - round_even x"
proof (cases "x = of_int \<lfloor>x\<rfloor>")
  case True
  then show ?thesis by (metis of_int_minus round_even_int)
next
  case False
  then have f: "\<lfloor>- x\<rfloor> = - \<lfloor>x\<rfloor> - 1" by linarith
  have "even (- \<lfloor>x\<rfloor> - 1) \<longleftrightarrow> odd \<lfloor>x\<rfloor>" by simp
  then show ?thesis by (auto simp: round_even_def Let_def f)
qed

lemma f32_minus: "f32 (- q) = - f32 q"
  by (simp add: f32_def fp_round_def Let_def round_even_minus)

lemma round_away_near:
  assumes "\<bar>x - of_int n\<bar> < 1 / 2"
  shows "round_away x = of_int n"
proof -
  have "\<lfloor>x + 1 / 2\<rfloor> = n" "\<lceil>x - 1 / 2\<rceil> = n" using assms by linarith+
  then show ?thesis by (simp add: round_away_def)
qed

section \<open>Weights\<close>

text \<open>
  A weight arrives as a \<open>float\<close> in grams: a finite value or an infinity or NaN. The saturated
  centigrams of it are \<open>gramsToCg\<close> of \<open>src/src/apps/extraction/Extraction.h\<close>.
\<close>

datatype grams = Finite rat | NotFinite

end
