(* ===== verification/Flow.thy ===== *)
theory Flow
  imports Binary32 ExtractionData
begin

text \<open>
  How fast the weight changes and what that makes of a sample: the shared thresholds
  (\<open>src/src/apps/extraction/FlowBands.h\<close>), the exponential average (\<open>src/src/util/ema.h\<close>), the
  least-squares estimator (\<open>FlowEstimator.h\<close>) and the per-sample classifier
  (\<open>CausalPourClassifier.h\<close>). Differences of two 16-bit weights are written as \<open>int\<close>: they are
  below 2^16 and never overflow the \<open>int32_t\<close> of the source.
\<close>

section \<open>Weights in centigrams\<close>

fun gramsToCg :: "grams \<Rightarrow> i16 option" where
  "gramsToCg NotFinite = None"
| "gramsToCg (Finite g) =
     (let cg = round_away (f32 (g * 100));
          cg = (if cg < - 32767 then - 32767 else cg);
          cg = (if 32767 < cg then 32767 else cg)
      in Some (word_of_int (truncate_int cg)))"

section \<open>Flow bands\<close>

definition kFloorCgPerS :: rat where "kFloorCgPerS = 30"
definition kCeilingCgPerS :: rat where "kCeilingCgPerS = 1000"
definition kSettleEpsCgPerS :: rat where "kSettleEpsCgPerS = 10"
definition kDiscontinuityCgPerS :: rat where "kDiscontinuityCgPerS = - 500"
definition kStepDiscontinuityCg :: int where "kStepDiscontinuityCg = 300"
definition kStepMarginCg :: int where "kStepMarginCg = 150"
definition kMaxSampleGapMs :: u32 where "kMaxSampleGapMs = 750"

lemmas band_consts = kFloorCgPerS_def kCeilingCgPerS_def kSettleEpsCgPerS_def kDiscontinuityCgPerS_def
  kStepDiscontinuityCg_def kStepMarginCg_def kMaxSampleGapMs_def

definition positiveStepLimitCg :: "u32 \<Rightarrow> int" where
  "positiveStepLimitCg dtMs =
     (let stepDtMs = (if dtMs < kMaxSampleGapMs then dtMs else kMaxSampleGapMs)
      in truncate_int (f32 (f32 (kCeilingCgPerS * f32 (of_int (uint stepDtMs))) / 1000)) + kStepMarginCg)"

definition isNonPourStep :: "int \<Rightarrow> u32 \<Rightarrow> bool" where
  "isNonPourStep rawStepCg dtMs \<longleftrightarrow>
     rawStepCg \<le> - kStepDiscontinuityCg \<or> positiveStepLimitCg dtMs \<le> rawStepCg"

definition isSteepDownwardSlope :: "int \<Rightarrow> u32 \<Rightarrow> bool" where
  "isSteepDownwardSlope rawStepCg dtMs \<longleftrightarrow>
     (if 0 \<le> rawStepCg \<or> dtMs = 0 then False
      else f32 (f32 (of_int rawStepCg) * 1000) \<le> f32 (kDiscontinuityCgPerS * f32 (of_int (uint dtMs))))"

definition isFlowBreakEdge :: "int \<Rightarrow> u32 \<Rightarrow> bool" where
  "isFlowBreakEdge rawStepCg dtMs \<longleftrightarrow> isNonPourStep rawStepCg dtMs \<or> isSteepDownwardSlope rawStepCg dtMs"

text \<open>The float arithmetic of the step limit is exact: one centigram per millisecond, and the margin.\<close>

lemma positiveStepLimitCg_value: "positiveStepLimitCg dtMs = min (uint dtMs) 750 + 150"
proof -
  have "positiveStepLimitCg dtMs = n + 150"
    if n: "n = min (uint dtMs) 750" for n
  proof -
    have r: "0 \<le> n" "n \<le> 750" using n by auto
    have u: "uint (if dtMs < kMaxSampleGapMs then dtMs else kMaxSampleGapMs) = n"
      using n by (auto simp: word_less_def kMaxSampleGapMs_def)
    have "f32 (of_int n) = of_int n" using r by (intro f32_int) simp
    moreover have "f32 (of_int (1000 * n)) = of_int (1000 * n)" using r by (intro f32_int) simp
    ultimately have "f32 (f32 (1000 * f32 (of_int n)) / 1000) = of_int n" by simp
    then show ?thesis
      unfolding positiveStepLimitCg_def Let_def u kCeilingCgPerS_def kStepMarginCg_def
      by (simp only: truncate_int_of_int)
  qed
  then show ?thesis by blast
qed

lemma isNonPourStep_value:
  "isNonPourStep d dtMs \<longleftrightarrow> d \<le> - 300 \<or> min (uint dtMs) 750 + 150 \<le> d"
  by (simp add: isNonPourStep_def positiveStepLimitCg_value kStepDiscontinuityCg_def)

section \<open>The exponential average\<close>

record ema =
  em_y :: rat
  em_primed :: bool

definition ema_reset :: ema where "ema_reset = \<lparr>em_y = 0, em_primed = False\<rparr>"

definition ema_update :: "rat \<Rightarrow> rat \<Rightarrow> ema \<Rightarrow> ema" where
  "ema_update alpha x e =
     (if \<not> em_primed e then e\<lparr>em_y := x, em_primed := True\<rparr>
      else e\<lparr>em_y := f32 (em_y e + f32 (alpha * f32 (x - em_y e)))\<rparr>)"

section \<open>The flow estimator\<close>

definition kRingSize :: nat where "kRingSize = 16"
definition kWindowMs :: u32 where "kWindowMs = 750"
definition kMinSpanMs :: u32 where "kMinSpanMs = 200"
definition kMinPoints :: nat where "kMinPoints = 3"

type_synonym pt = "u32 \<times> i16"

record flow_estimator =
  fe_ring :: "pt list"
  fe_count :: nat
  fe_head :: nat
  fe_newestT :: u32
  fe_estimable :: bool
  fe_ema :: ema

definition fe_init :: flow_estimator where
  "fe_init = \<lparr>fe_ring = replicate kRingSize (0, 0), fe_count = 0, fe_head = 0, fe_newestT = 0,
     fe_estimable = False, fe_ema = ema_reset\<rparr>"

definition fe_reset :: "flow_estimator \<Rightarrow> flow_estimator" where
  "fe_reset s = s\<lparr>fe_count := 0, fe_head := 0, fe_estimable := False, fe_ema := ema_reset\<rparr>"

text \<open>The points the fit walks, newest first.\<close>

definition fe_points :: "flow_estimator \<Rightarrow> pt list" where
  "fe_points s = map (\<lambda>i. fe_ring s ! ((fe_head s + 2 * kRingSize - 1 - i) mod kRingSize)) [0..<fe_count s]"

text \<open>
  The running sums. They are \<open>double\<close> in the source and integers here; \<open>fit_sums_exact\<close> shows
  that they and the products made of them are integers a \<open>double\<close> holds exactly.
\<close>

record fit =
  ft_n :: nat
  ft_sumT :: int
  ft_sumW :: int
  ft_sumTT :: int
  ft_sumTW :: int
  ft_maxAge :: u32

definition fit_zero :: fit where
  "fit_zero = \<lparr>ft_n = 0, ft_sumT = 0, ft_sumW = 0, ft_sumTT = 0, ft_sumTW = 0, ft_maxAge = 0\<rparr>"

definition fit_add :: "u32 \<Rightarrow> pt \<Rightarrow> fit \<Rightarrow> fit" where
  "fit_add newestT p f =
     (let age = newestT - fst p; tt = uint (kWindowMs - age); w = sint (snd p) in
      \<lparr>ft_n = ft_n f + 1, ft_sumT = ft_sumT f + tt, ft_sumW = ft_sumW f + w,
       ft_sumTT = ft_sumTT f + tt * tt, ft_sumTW = ft_sumTW f + tt * w,
       ft_maxAge = (if ft_maxAge f < age then age else ft_maxAge f)\<rparr>)"

fun fit_points :: "u32 \<Rightarrow> pt list \<Rightarrow> fit \<Rightarrow> fit" where
  "fit_points newestT [] f = f"
| "fit_points newestT (p # ps) f =
     (if kWindowMs < newestT - fst p then f else fit_points newestT ps (fit_add newestT p f))"

definition fit_denom :: "fit \<Rightarrow> int" where
  "fit_denom f = int (ft_n f) * ft_sumTT f - ft_sumT f * ft_sumT f"

definition fit_num :: "fit \<Rightarrow> int" where
  "fit_num f = int (ft_n f) * ft_sumTW f - ft_sumT f * ft_sumW f"

text \<open>Bounds of the sums over \<open>n\<close> points: times within 750 ms, weights of 16 bits.\<close>

definition fit_bounded :: "fit \<Rightarrow> bool" where
  "fit_bounded f \<longleftrightarrow> 0 \<le> ft_sumT f \<and> ft_sumT f \<le> 750 * int (ft_n f)
     \<and> \<bar>ft_sumW f\<bar> \<le> 32768 * int (ft_n f) \<and> 0 \<le> ft_sumTT f \<and> ft_sumTT f \<le> 562500 * int (ft_n f)
     \<and> \<bar>ft_sumTW f\<bar> \<le> 24576000 * int (ft_n f)"

lemma fit_add_bounded:
  assumes "fit_bounded f" and "newestT - fst p \<le> kWindowMs"
  shows "fit_bounded (fit_add newestT p f)"
proof -
  define tt where "tt = uint (kWindowMs - (newestT - fst p))"
  define w where "w = sint (snd p)"
  have "kWindowMs - (newestT - fst p) \<le> kWindowMs" using assms(2) by (rule word_sub_le)
  then have t: "0 \<le> tt" "tt \<le> 750" by (simp_all add: tt_def word_le_def kWindowMs_def)
  have w: "\<bar>w\<bar> \<le> 32768" using sint_range_size [of "snd p"] by (simp add: w_def word_size abs_le_iff)
  have "tt * tt \<le> 750 * 750" using t by (intro mult_mono) auto
  moreover have "\<bar>tt * w\<bar> \<le> 750 * 32768" unfolding abs_mult using t w by (intro mult_mono) auto
  moreover have "0 \<le> tt * tt" by simp
  ultimately show ?thesis
    using assms(1) t w unfolding fit_bounded_def fit_add_def Let_def tt_def [symmetric] w_def [symmetric]
    by (simp add: algebra_simps) arith
qed

lemma fit_points_bounded:
  "fit_bounded f \<Longrightarrow> fit_bounded (fit_points newestT ps f) \<and> ft_n (fit_points newestT ps f) \<le> ft_n f + length ps"
proof (induction ps arbitrary: f)
  case (Cons p ps)
  show ?case
  proof (cases "kWindowMs < newestT - fst p")
    case False
    then have "fit_bounded (fit_add newestT p f)" using Cons.prems by (intro fit_add_bounded) (simp_all add: not_less)
    moreover have "ft_n (fit_add newestT p f) = ft_n f + 1" by (simp add: fit_add_def Let_def)
    ultimately show ?thesis using Cons.IH [of "fit_add newestT p f"] False by simp
  qed (use Cons.prems in simp)
qed simp

lemma fit_sums_exact:
  assumes "length ps \<le> kRingSize" and f_def: "f = fit_points newestT ps fit_zero"
  shows "x \<in> {int (ft_n f), ft_sumT f, ft_sumW f, ft_sumTT f, ft_sumTW f, int (ft_n f) * ft_sumTT f, ft_sumT f * ft_sumT f,
      int (ft_n f) * ft_sumTW f, ft_sumT f * ft_sumW f, fit_denom f, fit_num f} \<Longrightarrow> f64 (of_int x) = of_int x"
proof -
  have "fit_bounded fit_zero" by (simp add: fit_bounded_def fit_zero_def)
  then have b: "fit_bounded f" and n: "ft_n f \<le> 16"
    using fit_points_bounded [of fit_zero newestT ps] assms(1) by (simp_all add: f_def fit_zero_def kRingSize_def)
  have c: "0 \<le> ft_sumT f" "ft_sumT f \<le> 12000" "\<bar>ft_sumW f\<bar> \<le> 524288" "0 \<le> ft_sumTT f" "ft_sumTT f \<le> 9000000"
      "\<bar>ft_sumTW f\<bar> \<le> 393216000"
    using b n by (auto simp: fit_bounded_def)
  have m1: "\<bar>int (ft_n f) * ft_sumTT f\<bar> \<le> 16 * 9000000" unfolding abs_mult using c n by (intro mult_mono) auto
  have m2: "\<bar>ft_sumT f * ft_sumT f\<bar> \<le> 12000 * 12000" unfolding abs_mult using c by (intro mult_mono) auto
  have m3: "\<bar>int (ft_n f) * ft_sumTW f\<bar> \<le> 16 * 393216000" unfolding abs_mult using c n by (intro mult_mono) auto
  have m4: "\<bar>ft_sumT f * ft_sumW f\<bar> \<le> 12000 * 524288" unfolding abs_mult using c by (intro mult_mono) auto
  have m5: "\<bar>fit_denom f\<bar> \<le> 288000000" unfolding fit_denom_def using m1 m2 by linarith
  have m6: "\<bar>fit_num f\<bar> \<le> 12582912000" unfolding fit_num_def using m3 m4 by linarith
  have small: "\<bar>x\<bar> < 2 ^ 53" if "x \<in> {int (ft_n f), ft_sumT f, ft_sumW f, ft_sumTT f, ft_sumTW f, int (ft_n f) * ft_sumTT f, ft_sumT f * ft_sumT f,
      int (ft_n f) * ft_sumTW f, ft_sumT f * ft_sumW f, fit_denom f, fit_num f}"
    using that c m1 m2 m3 m4 m5 m6 n by auto
  show "x \<in> {int (ft_n f), ft_sumT f, ft_sumW f, ft_sumTT f, ft_sumTW f, int (ft_n f) * ft_sumTT f, ft_sumT f * ft_sumT f,
      int (ft_n f) * ft_sumTW f, ft_sumT f * ft_sumW f, fit_denom f, fit_num f} \<Longrightarrow> f64 (of_int x) = of_int x"
    using f64_int [OF small] .
qed

definition fit_slope :: "fit \<Rightarrow> rat option" where
  "fit_slope f =
     (if ft_n f < kMinPoints then None
      else if ft_maxAge f < kMinSpanMs then None
      else if fit_denom f = 0 then None
      else Some (f32 (f64 (f64 (of_int (fit_num f) / of_int (fit_denom f)) * 1000))))"

definition estimateRaw :: "flow_estimator \<Rightarrow> rat option" where
  "estimateRaw s =
     (if fe_count s < kMinPoints then None
      else fit_slope (fit_points (fst (hd (fe_points s))) (fe_points s) fit_zero))"

definition fe_push :: "u32 \<Rightarrow> i16 \<Rightarrow> flow_estimator \<Rightarrow> flow_estimator" where
  "fe_push tMs cg s =
     (let s1 = s\<lparr>fe_ring := (fe_ring s)[fe_head s := (tMs, cg)], fe_head := (fe_head s + 1) mod kRingSize,
                 fe_count := (if fe_count s < kRingSize then fe_count s + 1 else fe_count s), fe_newestT := tMs\<rparr>
      in case estimateRaw s1 of
           None \<Rightarrow> s1\<lparr>fe_estimable := False\<rparr>
         | Some raw \<Rightarrow> s1\<lparr>fe_estimable := True, fe_ema := ema_update (1 / 4) raw (fe_ema s1)\<rparr>)"

definition fe_flow :: "u32 \<Rightarrow> flow_estimator \<Rightarrow> rat option" where
  "fe_flow nowMs s =
     (if \<not> fe_estimable s \<or> \<not> em_primed (fe_ema s) then None
      else if kWindowMs < nowMs - fe_newestT s then None
      else Some (em_y (fe_ema s)))"

section \<open>The classifier\<close>

datatype band = Unknown | Settled | Tail | Pour | StepBand | Discontinuity | Dropout

definition classifyCausalPourBand :: "bool \<Rightarrow> rat \<Rightarrow> band" where
  "classifyCausalPourBand haveFlow flowCgPerS =
     (if \<not> haveFlow then Dropout
      else if kCeilingCgPerS < flowCgPerS then StepBand
      else if flowCgPerS \<le> kDiscontinuityCgPerS then Discontinuity
      else if kFloorCgPerS \<le> flowCgPerS then Pour
      else if - kSettleEpsCgPerS < flowCgPerS \<and> flowCgPerS < kSettleEpsCgPerS then Settled
      else Tail)"

definition isPourBand :: "band \<Rightarrow> bool" where "isPourBand b \<longleftrightarrow> b = Pour"
definition isSettledBand :: "band \<Rightarrow> bool" where "isSettledBand b \<longleftrightarrow> b = Settled"
definition isRunBreakBand :: "band \<Rightarrow> bool" where
  "isRunBreakBand b \<longleftrightarrow> b = Dropout \<or> b = StepBand \<or> b = Discontinuity"

definition kRunCloseSamples :: nat where "kRunCloseSamples = 4"

record pour_sample =
  ps_accepted :: bool
  ps_tMs :: u32
  ps_rawCg :: i16
  ps_trustedStep :: bool
  ps_haveFlow :: bool
  ps_flowCgPerS :: rat
  ps_band :: band
  ps_pourStartCandidateCg :: i16

record classifier =
  cl_flow :: flow_estimator
  cl_lastTMs :: u32
  cl_haveLast :: bool
  cl_prevCg :: i16
  cl_lastSettledCg :: i16
  cl_haveSettled :: bool
  cl_flatRun :: nat

definition cl_init :: classifier where
  "cl_init = \<lparr>cl_flow = fe_init, cl_lastTMs = 0, cl_haveLast = False, cl_prevCg = 0, cl_lastSettledCg = 0,
     cl_haveSettled = False, cl_flatRun = 0\<rparr>"

definition cl_reset :: "classifier \<Rightarrow> classifier" where
  "cl_reset c = \<lparr>cl_flow = fe_reset (cl_flow c), cl_lastTMs = 0, cl_haveLast = False, cl_prevCg = 0,
     cl_lastSettledCg = 0, cl_haveSettled = False, cl_flatRun = 0\<rparr>"

definition isFlatStep :: "int \<Rightarrow> u32 \<Rightarrow> bool" where
  "isFlatStep rawStepCg dtMs \<longleftrightarrow>
     (if dtMs = 0 then True
      else let absStepCg = (if rawStepCg < 0 then - rawStepCg else rawStepCg)
           in f32 (f32 (of_int absStepCg) * 1000) \<le> f32 (kSettleEpsCgPerS * f32 (of_int (uint dtMs))))"

definition ignored_sample :: "u32 \<Rightarrow> i16 \<Rightarrow> pour_sample" where
  "ignored_sample tMs cg = \<lparr>ps_accepted = False, ps_tMs = tMs, ps_rawCg = cg, ps_trustedStep = False,
     ps_haveFlow = False, ps_flowCgPerS = 0, ps_band = Unknown, ps_pourStartCandidateCg = 0\<rparr>"

definition cl_update :: "u32 \<Rightarrow> i16 \<Rightarrow> classifier \<Rightarrow> classifier \<times> pour_sample" where
  "cl_update tMs cg c =
     (if cl_haveLast c \<and> tMs = cl_lastTMs c then (c, ignored_sample tMs cg)
      else
        let dtMs = (if cl_haveLast c then tMs - cl_lastTMs c else 0);
            rawStep = (if cl_haveLast c then sint cg - sint (cl_prevCg c) else 0);
            trusted = (\<not> isNonPourStep rawStep dtMs);
            have1 = (if \<not> trusted \<or> kMaxSampleGapMs < dtMs then False else cl_haveSettled c);
            flatStep = (trusted \<and> dtMs \<le> kMaxSampleGapMs \<and> isFlatStep rawStep dtMs);
            flatRun = (if flatStep then (if cl_flatRun c < kRunCloseSamples then cl_flatRun c + 1 else cl_flatRun c) else 0);
            fl = fe_push tMs cg (cl_flow c);
            haveFlow = (fe_flow tMs fl \<noteq> None);
            f = (case fe_flow tMs fl of None \<Rightarrow> 0 | Some f \<Rightarrow> f);
            b = classifyCausalPourBand haveFlow f;
            seed = (isSettledBand b \<and> flatStep \<or> kRunCloseSamples \<le> flatRun);
            settledCg = (if seed then cg else cl_lastSettledCg c);
            haveSettled = (if seed then True else have1)
        in (\<lparr>cl_flow = fl, cl_lastTMs = tMs, cl_haveLast = True, cl_prevCg = cg, cl_lastSettledCg = settledCg,
             cl_haveSettled = haveSettled, cl_flatRun = flatRun\<rparr>,
            \<lparr>ps_accepted = True, ps_tMs = tMs, ps_rawCg = cg, ps_trustedStep = trusted, ps_haveFlow = haveFlow,
             ps_flowCgPerS = f, ps_band = b,
             ps_pourStartCandidateCg = (if haveSettled then settledCg else cg)\<rparr>))"

section \<open>The ring is the newest sixteen points\<close>

definition fe_wf :: "flow_estimator \<Rightarrow> bool" where
  "fe_wf s \<longleftrightarrow> length (fe_ring s) = 16 \<and> fe_head s < 16 \<and> fe_count s \<le> 16"

lemma slot_of_older:
  assumes "h < 16" "i < 15"
  shows "((h + 1) mod 16 + 31 - Suc i) mod 16 = (h + 31 - i) mod (16 :: nat)"
proof (cases "h = 15")
  case True
  have "15 + 31 - i = (30 - i) + (16 :: nat)" using assms(2) by simp
  then show ?thesis using True by (simp only: mod_add_self2) simp
next
  case False
  with assms(1) have "(h + 1) mod 16 = h + 1" by simp
  moreover have "h + 1 + 31 - Suc i = h + 31 - i" using assms(2) by simp
  ultimately show ?thesis by (simp only:)
qed

lemma slot_not_head:
  assumes "h < 16" "i < 15"
  shows "(h + 31 - i) mod 16 \<noteq> (h :: nat)"
proof (cases "i < h")
  case True
  then have "h + 31 - i = (h - i - 1) + 16 * 2" by simp
  then have "(h + 31 - i) mod 16 = (h - i - 1) mod 16" by (simp only: mod_mult_self2)
  with True assms show ?thesis by simp
next
  case False
  then have "h + 31 - i = (h + 15 - i) + 16" using assms by simp
  then have "(h + 31 - i) mod 16 = (h + 15 - i) mod 16" by (simp only: mod_add_self2)
  with False assms show ?thesis by simp
qed

lemma slot_of_newest:
  assumes "h < 16"
  shows "(31 + (h + 1) mod 16) mod 16 = (h :: nat)"
proof (cases "h = 15")
  case False
  with assms have "31 + (h + 1) mod 16 = h + 16 * 2" by simp
  then have "(31 + (h + 1) mod 16) mod 16 = h mod 16" by (simp only: mod_mult_self2)
  with assms show ?thesis by simp
qed simp

definition fe_store :: "u32 \<Rightarrow> i16 \<Rightarrow> flow_estimator \<Rightarrow> flow_estimator" where
  "fe_store tMs cg s = s\<lparr>fe_ring := (fe_ring s)[fe_head s := (tMs, cg)], fe_head := (fe_head s + 1) mod kRingSize,
     fe_count := (if fe_count s < kRingSize then fe_count s + 1 else fe_count s), fe_newestT := tMs\<rparr>"

lemma fe_push_store:
  "fe_push tMs cg s = (case estimateRaw (fe_store tMs cg s) of
       None \<Rightarrow> (fe_store tMs cg s)\<lparr>fe_estimable := False\<rparr>
     | Some raw \<Rightarrow> (fe_store tMs cg s)\<lparr>fe_estimable := True, fe_ema := ema_update (1 / 4) raw (fe_ema s)\<rparr>)"
proof -
  have "fe_ema (fe_store tMs cg s) = fe_ema s" by (simp add: fe_store_def)
  then show ?thesis unfolding fe_push_def Let_def fe_store_def [symmetric] by (simp only:)
qed

lemma fe_store_wf: "fe_wf s \<Longrightarrow> fe_wf (fe_store tMs cg s)"
  by (simp add: fe_wf_def fe_store_def kRingSize_def)

lemma length_fe_points [simp]: "length (fe_points s) = fe_count s"
  by (simp add: fe_points_def)

lemma fe_points_store:
  assumes "fe_wf s"
  shows "fe_points (fe_store tMs cg s) = take 16 ((tMs, cg) # fe_points s)"
proof (rule nth_equalityI)
  show len: "length (fe_points (fe_store tMs cg s)) = length (take 16 ((tMs, cg) # fe_points s))"
    using assms by (auto simp: fe_store_def fe_wf_def kRingSize_def)
  fix i
  assume "i < length (fe_points (fe_store tMs cg s))"
  then have i: "i < fe_count (fe_store tMs cg s)" "i < 16" "i \<le> fe_count s"
    using assms by (auto simp: fe_store_def fe_wf_def kRingSize_def split: if_splits)
  have h: "fe_head s < 16" "length (fe_ring s) = 16" using assms by (auto simp: fe_wf_def)
  show "fe_points (fe_store tMs cg s) ! i = take 16 ((tMs, cg) # fe_points s) ! i"
  proof (cases i)
    case 0
    with i h slot_of_newest [of "fe_head s"] show ?thesis
      by (simp add: fe_points_def fe_store_def kRingSize_def del: upt_Suc)
  next
    case (Suc j)
    then have j: "j < 15" "j < fe_count s" using i by auto
    with Suc i h slot_of_older [of "fe_head s" j] slot_not_head [of "fe_head s" j] show ?thesis
      by (simp add: fe_points_def fe_store_def kRingSize_def add.commute [of "fe_head s" 31] del: upt_Suc)
  qed
qed

text \<open>Estimators that count the same points behave alike, whatever is in their other slots.\<close>

definition fe_same :: "flow_estimator \<Rightarrow> flow_estimator \<Rightarrow> bool" where
  "fe_same a b \<longleftrightarrow> fe_wf a \<and> fe_wf b \<and> fe_points a = fe_points b \<and> fe_estimable a = fe_estimable b
     \<and> fe_ema a = fe_ema b \<and> (fe_estimable a \<longrightarrow> fe_newestT a = fe_newestT b)"

lemma fe_same_count: "fe_same a b \<Longrightarrow> fe_count a = fe_count b"
  unfolding fe_same_def by (metis length_fe_points)

lemma estimateRaw_points: "fe_points a = fe_points b \<Longrightarrow> estimateRaw a = estimateRaw b"
  unfolding estimateRaw_def by (metis length_fe_points)

lemma fe_points_flags [simp]:
  "fe_points (s\<lparr>fe_estimable := x\<rparr>) = fe_points s" "fe_points (s\<lparr>fe_ema := e\<rparr>) = fe_points s"
  by (simp_all add: fe_points_def)

lemma fe_same_push:
  assumes "fe_same a b"
  shows "fe_same (fe_push t w a) (fe_push t w b)" "fe_flow n (fe_push t w a) = fe_flow n (fe_push t w b)"
proof -
  have pts: "fe_points (fe_store t w a) = fe_points (fe_store t w b)"
    using assms fe_points_store by (simp add: fe_same_def)
  note raw = estimateRaw_points [OF pts]
  have wf: "fe_wf (fe_store t w a)" "fe_wf (fe_store t w b)" using assms fe_store_wf by (simp_all add: fe_same_def)
  have flags: "fe_wf (s\<lparr>fe_estimable := x\<rparr>) = fe_wf s" "fe_wf (s\<lparr>fe_ema := e\<rparr>) = fe_wf s" for s x e by (simp_all add: fe_wf_def)
  have st: "fe_newestT (fe_store t w s) = t" "fe_ema (fe_store t w s) = fe_ema s" for s by (simp_all add: fe_store_def)
  show "fe_same (fe_push t w a) (fe_push t w b)"
    using assms wf pts by (simp add: fe_push_store raw fe_same_def flags st split: option.split)
  show "fe_flow n (fe_push t w a) = fe_flow n (fe_push t w b)"
    using assms by (simp add: fe_push_store raw fe_same_def fe_flow_def st split: option.split)
qed

lemma fe_same_reset: "fe_wf s \<Longrightarrow> fe_same (fe_reset s) fe_init"
  by (simp add: fe_same_def fe_wf_def fe_reset_def fe_init_def fe_points_def kRingSize_def)

lemma fe_same_refl: "fe_wf s \<Longrightarrow> fe_same s s"
  by (simp add: fe_same_def)

lemma fe_wf_push: "fe_wf s \<Longrightarrow> fe_wf (fe_push t w s)"
  using fe_same_push(1) [OF fe_same_refl] by (simp add: fe_same_def)

definition cl_same :: "classifier \<Rightarrow> classifier \<Rightarrow> bool" where
  "cl_same c d \<longleftrightarrow> fe_same (cl_flow c) (cl_flow d) \<and> cl_lastTMs c = cl_lastTMs d \<and> cl_haveLast c = cl_haveLast d
     \<and> cl_prevCg c = cl_prevCg d \<and> cl_lastSettledCg c = cl_lastSettledCg d \<and> cl_haveSettled c = cl_haveSettled d
     \<and> cl_flatRun c = cl_flatRun d"

lemma cl_same_update:
  assumes "cl_same c d"
  shows "cl_same (fst (cl_update t w c)) (fst (cl_update t w d))" "snd (cl_update t w c) = snd (cl_update t w d)"
proof -
  have f: "fe_same (fe_push t w (cl_flow c)) (fe_push t w (cl_flow d))"
    "fe_flow t (fe_push t w (cl_flow c)) = fe_flow t (fe_push t w (cl_flow d))"
    using assms fe_same_push [of "cl_flow c" "cl_flow d"] by (simp_all add: cl_same_def)
  have e: "cl_lastTMs c = cl_lastTMs d" "cl_haveLast c = cl_haveLast d" "cl_prevCg c = cl_prevCg d"
    "cl_lastSettledCg c = cl_lastSettledCg d" "cl_haveSettled c = cl_haveSettled d" "cl_flatRun c = cl_flatRun d"
    using assms by (simp_all add: cl_same_def)
  have "cl_same (fst (cl_update t w c)) (fst (cl_update t w d)) \<and> snd (cl_update t w c) = snd (cl_update t w d)"
  proof (cases "cl_haveLast d \<and> t = cl_lastTMs d")
    case True
    with e assms show ?thesis by (simp add: cl_update_def)
  next
    case False
    then show ?thesis
      unfolding cl_update_def Let_def e f(2) by (simp only: if_False fst_conv snd_conv) (simp add: cl_same_def f(1))
  qed
  then show "cl_same (fst (cl_update t w c)) (fst (cl_update t w d))" "snd (cl_update t w c) = snd (cl_update t w d)"
    by blast+
qed

definition cl_wf :: "classifier \<Rightarrow> bool" where
  "cl_wf c \<longleftrightarrow> fe_wf (cl_flow c)"

lemma cl_wf_init: "cl_wf cl_init"
  by (simp add: cl_wf_def cl_init_def fe_wf_def fe_init_def kRingSize_def)

lemma cl_wf_reset: "cl_wf c \<Longrightarrow> cl_wf (cl_reset c)"
  by (simp add: cl_wf_def cl_reset_def fe_wf_def fe_reset_def)

lemma cl_wf_update: "cl_wf c \<Longrightarrow> cl_wf (fst (cl_update t w c))"
  by (simp add: cl_wf_def cl_update_def Let_def fe_wf_push)

lemma cl_same_reset: "cl_wf c \<Longrightarrow> cl_same (cl_reset c) cl_init"
  by (simp add: cl_same_def cl_wf_def cl_reset_def cl_init_def fe_same_reset)

end
