(* ===== verification/PourEvidence.thy ===== *)
theory PourEvidence
  imports Flow
begin

text \<open>
  Pour runs, from the same classified samples in two ways: live, one sample at a time
  (\<open>src/src/apps/extraction/LivePourTracker.h\<close>), and at the end of a shot over the stored
  samples (\<open>computePourEvidence\<close> of \<open>RobustFlow.h\<close>).
\<close>

section \<open>The live tracker\<close>

definition kMeaningfulYieldCg :: int where "kMeaningfulYieldCg = 300"

record tracker =
  tr_classifier :: classifier
  tr_lastTMs :: u32
  tr_haveSample :: bool
  tr_prevCg :: i16
  tr_lastTrustedCg :: i16
  tr_lastSampleTrusted :: bool
  tr_haveFirstStart :: bool
  tr_firstStartCg :: i16
  tr_pourActive :: bool
  tr_sawPourBand :: bool
  tr_settledCount :: nat
  tr_settledSinceLastPour :: bool
  tr_hasMeaningfulYield :: bool
  tr_lastBand :: band
  tr_lastFlow :: rat
  tr_lastHaveFlow :: bool

definition tr_init :: tracker where
  "tr_init = \<lparr>tr_classifier = cl_init, tr_lastTMs = 0, tr_haveSample = False, tr_prevCg = 0, tr_lastTrustedCg = 0,
     tr_lastSampleTrusted = False, tr_haveFirstStart = False, tr_firstStartCg = 0, tr_pourActive = False,
     tr_sawPourBand = False, tr_settledCount = 0, tr_settledSinceLastPour = True, tr_hasMeaningfulYield = False,
     tr_lastBand = Unknown, tr_lastFlow = 0, tr_lastHaveFlow = False\<rparr>"

definition tr_reset :: "tracker \<Rightarrow> tracker" where
  "tr_reset t = tr_init\<lparr>tr_classifier := cl_reset (tr_classifier t)\<rparr>"

definition advanceLivePour :: "pour_sample \<Rightarrow> tracker \<Rightarrow> tracker" where
  "advanceLivePour s t =
     (if isPourBand (ps_band s) \<and> ps_trustedStep s then
        (let t1 = (if \<not> tr_haveFirstStart t
                   then t\<lparr>tr_firstStartCg := ps_pourStartCandidateCg s, tr_haveFirstStart := True\<rparr> else t)
         in t1\<lparr>tr_pourActive := True, tr_sawPourBand := True, tr_settledCount := 0, tr_settledSinceLastPour := False\<rparr>)
      else if isSettledBand (ps_band s) then
        (let n = (if tr_settledCount t < kRunCloseSamples then tr_settledCount t + 1 else tr_settledCount t);
             t1 = t\<lparr>tr_settledCount := n\<rparr>
         in if kRunCloseSamples \<le> n then t1\<lparr>tr_pourActive := False, tr_settledSinceLastPour := True\<rparr> else t1)
      else if ps_haveFlow s then t\<lparr>tr_settledCount := 0\<rparr>
      else t)"

definition updateMeaningfulYield :: "pour_sample \<Rightarrow> tracker \<Rightarrow> tracker" where
  "updateMeaningfulYield s t =
     (if tr_haveFirstStart t \<and> ps_trustedStep s
         \<and> kMeaningfulYieldCg \<le> sint (ps_rawCg s) - sint (tr_firstStartCg t)
      then t\<lparr>tr_hasMeaningfulYield := True\<rparr> else t)"

definition tr_take :: "pour_sample \<Rightarrow> tracker \<Rightarrow> tracker" where
  "tr_take s t =
     updateMeaningfulYield s (advanceLivePour s
       (t\<lparr>tr_lastTMs := ps_tMs s, tr_haveSample := True, tr_prevCg := ps_rawCg s,
          tr_lastSampleTrusted := ps_trustedStep s,
          tr_lastTrustedCg := (if ps_trustedStep s then ps_rawCg s else tr_lastTrustedCg t),
          tr_lastHaveFlow := ps_haveFlow s, tr_lastFlow := ps_flowCgPerS s, tr_lastBand := ps_band s\<rparr>))"

definition tr_update :: "u32 \<Rightarrow> i16 \<Rightarrow> tracker \<Rightarrow> tracker" where
  "tr_update tMs cg t =
     (case cl_update tMs cg (tr_classifier t) of
        (c, s) \<Rightarrow> (let t1 = t\<lparr>tr_classifier := c\<rparr> in if \<not> ps_accepted s then t1 else tr_take s t1))"

definition hasPourStartWeight :: "tracker \<Rightarrow> bool" where
  "hasPourStartWeight t \<longleftrightarrow> tr_haveFirstStart t"

definition firstPourStartRawCg :: "tracker \<Rightarrow> i16" where
  "firstPourStartRawCg t = (if tr_haveFirstStart t then tr_firstStartCg t else 0)"

definition hasUnsettledPour :: "tracker \<Rightarrow> bool" where
  "hasUnsettledPour t \<longleftrightarrow> tr_sawPourBand t \<and> \<not> tr_settledSinceLastPour t"

definition settledCountReached :: "tracker \<Rightarrow> bool" where
  "settledCountReached t \<longleftrightarrow> tr_hasMeaningfulYield t \<and> kRunCloseSamples \<le> tr_settledCount t"

record tracker_snapshot =
  ts_lastSampleMs :: u32
  ts_rawCg :: i16
  ts_haveFlow :: bool
  ts_flowCgPerS :: rat
  ts_band :: band
  ts_pourActive :: bool
  ts_yieldFromPourStartCg :: int
  ts_hasMeaningfulYield :: bool
  ts_lastSampleTrusted :: bool
  ts_settledCount :: nat
  ts_settledSinceLastPour :: bool

definition tr_snapshot :: "tracker \<Rightarrow> tracker_snapshot" where
  "tr_snapshot t = \<lparr>ts_lastSampleMs = tr_lastTMs t, ts_rawCg = tr_prevCg t, ts_haveFlow = tr_lastHaveFlow t,
     ts_flowCgPerS = tr_lastFlow t, ts_band = (if tr_haveSample t then tr_lastBand t else Unknown),
     ts_pourActive = tr_pourActive t,
     ts_yieldFromPourStartCg = (if tr_haveFirstStart t then sint (tr_prevCg t) - sint (tr_firstStartCg t) else 0),
     ts_hasMeaningfulYield = tr_hasMeaningfulYield t, ts_lastSampleTrusted = tr_lastSampleTrusted t,
     ts_settledCount = tr_settledCount t, ts_settledSinceLastPour = tr_settledSinceLastPour t\<rparr>"

section \<open>The shot-end pass\<close>

text \<open>
  \<open>gainCg\<close> is an \<open>int32_t\<close> summed from at most 768 gains below 2^17, so it does not overflow; it
  is an \<open>int\<close> here. \<open>runs\<close> is the state of the loop over the samples.
\<close>

record pour_evidence =
  pe_pourMs :: u32
  pe_gainCg :: int
  pe_hasPour :: bool
  pe_hasStartRawCg :: bool
  pe_startRawCg :: i16

record runs =
  ru_ev :: pour_evidence
  ru_inRun :: bool
  ru_outRun :: nat
  ru_settleRun :: nat
  ru_startMs :: u32
  ru_startCg :: i16
  ru_activeEndMs :: u32
  ru_peakCg :: i16

definition no_evidence :: pour_evidence where
  "no_evidence = \<lparr>pe_pourMs = 0, pe_gainCg = 0, pe_hasPour = False, pe_hasStartRawCg = False, pe_startRawCg = 0\<rparr>"

definition no_runs :: runs where
  "no_runs = \<lparr>ru_ev = no_evidence, ru_inRun = False, ru_outRun = 0, ru_settleRun = 0, ru_startMs = 0, ru_startCg = 0,
     ru_activeEndMs = 0, ru_peakCg = 0\<rparr>"

definition closeRun :: "runs \<Rightarrow> runs" where
  "closeRun r = r\<lparr>ru_ev := (ru_ev r)\<lparr>pe_gainCg := pe_gainCg (ru_ev r) + (sint (ru_peakCg r) - sint (ru_startCg r)),
                                     pe_pourMs := pe_pourMs (ru_ev r) + (ru_activeEndMs r - ru_startMs r)\<rparr>,
                   ru_inRun := False, ru_outRun := 0, ru_settleRun := 0\<rparr>"

definition liftPeak :: "pour_sample \<Rightarrow> runs \<Rightarrow> runs" where
  "liftPeak s r = (if ps_trustedStep s \<and> sint (ru_peakCg r) < sint (ps_rawCg s)
                   then r\<lparr>ru_peakCg := ps_rawCg s\<rparr> else r)"

definition openRun :: "pour_sample \<Rightarrow> runs \<Rightarrow> runs" where
  "openRun s r =
     (let e = ru_ev r;
          e1 = (if \<not> pe_hasStartRawCg e
                then e\<lparr>pe_hasStartRawCg := True, pe_startRawCg := ps_pourStartCandidateCg s\<rparr> else e)
      in r\<lparr>ru_inRun := True, ru_startMs := ps_tMs s, ru_startCg := ps_pourStartCandidateCg s,
           ru_ev := e1\<lparr>pe_hasPour := True\<rparr>, ru_activeEndMs := ps_tMs s, ru_peakCg := ps_rawCg s,
           ru_outRun := 0, ru_settleRun := 0\<rparr>)"

definition run_step :: "pour_sample \<Rightarrow> runs \<Rightarrow> runs" where
  "run_step s r =
     (if \<not> ps_accepted s then r
      else if \<not> ru_inRun r then
        (if isPourBand (ps_band s) \<and> ps_trustedStep s then openRun s r else r)
      else if isPourBand (ps_band s) then
        (liftPeak s (r\<lparr>ru_activeEndMs := ps_tMs s\<rparr>))\<lparr>ru_outRun := 0, ru_settleRun := 0\<rparr>
      else if isRunBreakBand (ps_band s) then
        (let r1 = r\<lparr>ru_settleRun := 0, ru_outRun := ru_outRun r + 1\<rparr>
         in if kRunCloseSamples \<le> ru_outRun r1 then closeRun r1 else r1)
      else
        (let r1 = (liftPeak s r)\<lparr>ru_outRun := 0\<rparr>
         in if isSettledBand (ps_band s)
            then (let r2 = r1\<lparr>ru_settleRun := ru_settleRun r1 + 1\<rparr>
                  in if kRunCloseSamples \<le> ru_settleRun r2 then closeRun r2 else r2)
            else r1\<lparr>ru_settleRun := 0\<rparr>))"

fun run_samples :: "sample list \<Rightarrow> classifier \<times> runs \<Rightarrow> classifier \<times> runs" where
  "run_samples [] cr = cr"
| "run_samples (x # xs) (c, r) =
     (case cl_update (sm_tMs x) (sm_cg x) c of (c', s) \<Rightarrow> run_samples xs (c', run_step s r))"

definition computePourEvidence :: "sample list \<Rightarrow> pour_evidence" where
  "computePourEvidence ss =
     (case run_samples ss (cl_init, no_runs) of (c, r) \<Rightarrow> ru_ev (if ru_inRun r then closeRun r else r))"

section \<open>Endpoints\<close>

definition kFlowScaleTimerDriftToleranceMs :: u32 where "kFlowScaleTimerDriftToleranceMs = 250"

definition flowDeltaMs :: "sample \<Rightarrow> sample \<Rightarrow> u32" where
  "flowDeltaMs before after =
     (let hostDt = sm_tMs after - sm_tMs before in
      if sampleHasScaleTimer before \<and> sampleHasScaleTimer after \<and> sm_scaleTimerMs before < sm_scaleTimerMs after
      then (let scaleDt = sm_scaleTimerMs after - sm_scaleTimerMs before;
                drift = (if hostDt < scaleDt then scaleDt - hostDt else hostDt - scaleDt)
            in if drift \<le> kFlowScaleTimerDriftToleranceMs then scaleDt else hostDt)
      else hostDt)"

fun first_discontinuity :: "u32 \<Rightarrow> sample list \<Rightarrow> i16 option" where
  "first_discontinuity pumpOffConfirmedMs (a # b # ss) =
     (if sint (sm_tMs b - pumpOffConfirmedMs) < 0 then first_discontinuity pumpOffConfirmedMs (b # ss)
      else if isNonPourStep (sint (sm_cg b) - sint (sm_cg a)) (flowDeltaMs a b) then Some (sm_cg a)
      else first_discontinuity pumpOffConfirmedMs (b # ss))"
| "first_discontinuity pumpOffConfirmedMs ss = None"

definition endpointBeforePostPumpDiscontinuity :: "sample list \<Rightarrow> u32 \<Rightarrow> i16 option" where
  "endpointBeforePostPumpDiscontinuity ss pumpOffConfirmedMs =
     (if length ss < 2 \<or> pumpOffConfirmedMs = 0 then None else first_discontinuity pumpOffConfirmedMs ss)"

section \<open>The verdict\<close>

definition isLikelyRealShot :: "extraction \<Rightarrow> bool" where
  "isLikelyRealShot e \<longleftrightarrow> 5000 \<le> ex_pourMs e \<and> 1000 \<le> sint (ex_decisionGainCg e)"

section \<open>The two passes agree\<close>

lemma tr_reset_start [simp]: "tr_haveFirstStart (tr_reset t) = False" "tr_classifier (tr_reset t) = cl_reset (tr_classifier t)"
  by (simp_all add: tr_reset_def tr_init_def)

text \<open>A reset estimator differs from a new one in dead storage only: slots not counted and the age of nothing.\<close>

fun tr_run :: "sample list \<Rightarrow> tracker \<Rightarrow> tracker" where
  "tr_run [] t = t"
| "tr_run (x # xs) t = tr_run xs (tr_update (sm_tMs x) (sm_cg x) t)"

text \<open>The live tracker and the batch pass, at the same classifier state, know the same pour start.\<close>

definition starts_agree :: "tracker \<Rightarrow> runs \<Rightarrow> bool" where
  "starts_agree t r \<longleftrightarrow> tr_haveFirstStart t = pe_hasStartRawCg (ru_ev r) \<and> pe_hasPour (ru_ev r) = pe_hasStartRawCg (ru_ev r)
     \<and> (if pe_hasStartRawCg (ru_ev r) then tr_firstStartCg t = pe_startRawCg (ru_ev r) else pe_startRawCg (ru_ev r) = 0)
     \<and> (ru_inRun r \<longrightarrow> pe_hasStartRawCg (ru_ev r))"

lemma closeRun_start [simp]:
  "pe_hasStartRawCg (ru_ev (closeRun r)) = pe_hasStartRawCg (ru_ev r)" "pe_startRawCg (ru_ev (closeRun r)) = pe_startRawCg (ru_ev r)"
  "pe_hasPour (ru_ev (closeRun r)) = pe_hasPour (ru_ev r)" "\<not> ru_inRun (closeRun r)"
  by (simp_all add: closeRun_def)

lemma liftPeak_frame [simp]:
  "ru_ev (liftPeak s r) = ru_ev r" "ru_inRun (liftPeak s r) = ru_inRun r" "ru_settleRun (liftPeak s r) = ru_settleRun r"
  "ru_startMs (liftPeak s r) = ru_startMs r" "ru_activeEndMs (liftPeak s r) = ru_activeEndMs r" "ru_startCg (liftPeak s r) = ru_startCg r"
  by (simp_all add: liftPeak_def)

text \<open>What one step makes of the start: only an opening run sets it.\<close>

lemma run_step_start:
  "ru_ev (run_step s r) = ru_ev r \<or> ru_ev (run_step s r) = ru_ev (openRun s r) \<and> ps_accepted s \<and> \<not> ru_inRun r
      \<and> isPourBand (ps_band s) \<and> ps_trustedStep s
   \<or> pe_hasStartRawCg (ru_ev (run_step s r)) = pe_hasStartRawCg (ru_ev r) \<and> pe_startRawCg (ru_ev (run_step s r)) = pe_startRawCg (ru_ev r)
      \<and> pe_hasPour (ru_ev (run_step s r)) = pe_hasPour (ru_ev r)"
  by (simp add: run_step_def Let_def)

lemma run_step_inRun:
  "ru_inRun (run_step s r) \<Longrightarrow> ru_inRun r \<or> ps_accepted s \<and> isPourBand (ps_band s) \<and> ps_trustedStep s"
  by (auto simp: run_step_def Let_def split: if_splits)

lemma tr_take_start:
  "tr_haveFirstStart (tr_take s t) = (tr_haveFirstStart t \<or> isPourBand (ps_band s) \<and> ps_trustedStep s)"
  "tr_firstStartCg (tr_take s t)
     = (if \<not> tr_haveFirstStart t \<and> isPourBand (ps_band s) \<and> ps_trustedStep s then ps_pourStartCandidateCg s else tr_firstStartCg t)"
  by (simp_all add: tr_take_def updateMeaningfulYield_def advanceLivePour_def Let_def)

lemma starts_agree_step:
  assumes "starts_agree t r" and c: "cl_update ts w (tr_classifier t) = (c', s)"
  shows "starts_agree (tr_update ts w t) (run_step s r)" "tr_classifier (tr_update ts w t) = c'"
proof -
  have t': "tr_update ts w t = (if \<not> ps_accepted s then t\<lparr>tr_classifier := c'\<rparr> else tr_take s (t\<lparr>tr_classifier := c'\<rparr>))"
    by (simp add: tr_update_def c Let_def)
  show "tr_classifier (tr_update ts w t) = c'"
    by (simp add: t' tr_take_def updateMeaningfulYield_def advanceLivePour_def Let_def)
  show "starts_agree (tr_update ts w t) (run_step s r)"
  proof (cases "ps_accepted s")
    case False
    then have "run_step s r = r" by (simp add: run_step_def)
    with False assms(1) show ?thesis by (simp add: t' starts_agree_def)
  next
    case True
    show ?thesis
    proof (cases "ru_inRun r")
      case True
      with \<open>ps_accepted s\<close> assms(1) run_step_start [of s r] show ?thesis
        by (auto simp: t' starts_agree_def tr_take_start)
    next
      case False
      with \<open>ps_accepted s\<close> assms(1) show ?thesis
        by (auto simp: t' starts_agree_def tr_take_start run_step_def openRun_def Let_def)
    qed
  qed
qed

lemma starts_agree_run:
  "starts_agree t r \<Longrightarrow> cl_same c (tr_classifier t) \<Longrightarrow> starts_agree (tr_run ss t) (snd (run_samples ss (c, r)))"
proof (induction ss arbitrary: t c r)
  case Nil
  then show ?case by simp
next
  case (Cons x ss)
  obtain c1 s1 where c: "cl_update (sm_tMs x) (sm_cg x) (tr_classifier t) = (c1, s1)" by (metis surj_pair)
  obtain d1 s2 where d: "cl_update (sm_tMs x) (sm_cg x) c = (d1, s2)" by (metis surj_pair)
  have sim: "cl_same d1 c1" "s2 = s1" using cl_same_update [OF Cons.prems(2), of "sm_tMs x" "sm_cg x"] c d by simp_all
  note st = starts_agree_step [OF Cons.prems(1) c]
  from Cons.IH [OF st(1)] st(2) sim show ?case by (simp add: d)
qed

lemma cl_same_sym: "cl_same c d \<Longrightarrow> cl_same d c"
  by (auto simp: cl_same_def fe_same_def)

lemma evidence_start:
  assumes "cl_wf (tr_classifier t)"
  shows "starts_agree (tr_run ss (tr_reset t)) (snd (run_samples ss (cl_init, no_runs)))"
proof (rule starts_agree_run)
  show "starts_agree (tr_reset t) no_runs" by (simp add: starts_agree_def no_runs_def no_evidence_def)
  show "cl_same cl_init (tr_classifier (tr_reset t))" using cl_same_sym [OF cl_same_reset [OF assms]] by simp
qed

lemma computePourEvidence_start:
  "pe_hasStartRawCg (computePourEvidence ss) = pe_hasStartRawCg (ru_ev (snd (run_samples ss (cl_init, no_runs))))"
  "pe_startRawCg (computePourEvidence ss) = pe_startRawCg (ru_ev (snd (run_samples ss (cl_init, no_runs))))"
  "pe_hasPour (computePourEvidence ss) = pe_hasPour (ru_ev (snd (run_samples ss (cl_init, no_runs))))"
  by (simp_all add: computePourEvidence_def case_prod_beta)

text \<open>C10: the tracker that follows a shot live and the pass over its stored samples find a pour in the
  same shots and start it at the same weight, whatever the tracker did before its reset.\<close>

theorem live_start_is_batch_start:
  assumes "cl_wf (tr_classifier t)"
  shows "hasPourStartWeight (tr_run ss (tr_reset t)) = pe_hasPour (computePourEvidence ss)
       \<and> hasPourStartWeight (tr_run ss (tr_reset t)) = pe_hasStartRawCg (computePourEvidence ss)
       \<and> firstPourStartRawCg (tr_run ss (tr_reset t)) = pe_startRawCg (computePourEvidence ss)"
  using evidence_start [OF assms, of ss]
  by (simp add: starts_agree_def computePourEvidence_start hasPourStartWeight_def firstPourStartRawCg_def split: if_splits)

lemma tr_init_wf: "cl_wf (tr_classifier tr_init)"
  using cl_wf_init by (simp add: tr_init_def)

lemma live_start_is_batch_start_witness:
  "hasPourStartWeight (tr_run [\<lparr>sm_tMs = 5, sm_cg = 7, sm_scaleTimerMs = UNKNOWN_MS\<rparr>] (tr_reset tr_init))
     = pe_hasPour (computePourEvidence [\<lparr>sm_tMs = 5, sm_cg = 7, sm_scaleTimerMs = UNKNOWN_MS\<rparr>])"
  by (rule conjunct1 [OF live_start_is_batch_start [OF tr_init_wf]])

section \<open>Bounds of the evidence\<close>

lemma cl_update_tMs: "cl_update t w c = (c', s) \<Longrightarrow> ps_tMs s = t \<and> ps_rawCg s = w"
  by (auto simp: cl_update_def ignored_sample_def Let_def split: if_splits)

definition run_inside :: "u32 \<Rightarrow> u32 \<Rightarrow> runs \<Rightarrow> bool" where
  "run_inside first now r \<longleftrightarrow> first \<le> now
     \<and> (if ru_inRun r then first \<le> ru_startMs r \<and> ru_startMs r \<le> ru_activeEndMs r \<and> ru_activeEndMs r \<le> now
           \<and> unat (pe_pourMs (ru_ev r)) \<le> unat (ru_startMs r) - unat first
         else unat (pe_pourMs (ru_ev r)) \<le> unat now - unat first)"

lemma run_inside_close:
  assumes "run_inside first now r" "ru_inRun r"
  shows "run_inside first now (closeRun r)"
proof -
  have le: "unat first \<le> unat (ru_startMs r)" "unat (ru_startMs r) \<le> unat (ru_activeEndMs r)" "unat (ru_activeEndMs r) \<le> unat now"
    "unat (pe_pourMs (ru_ev r)) \<le> unat (ru_startMs r) - unat first"
    using assms by (simp_all add: run_inside_def word_le_nat_alt)
  have "unat (ru_activeEndMs r - ru_startMs r) = unat (ru_activeEndMs r) - unat (ru_startMs r)"
    using le(2) by (simp add: unat_sub_if')
  moreover have "unat (pe_pourMs (ru_ev r) + (ru_activeEndMs r - ru_startMs r))
      \<le> unat (pe_pourMs (ru_ev r)) + unat (ru_activeEndMs r - ru_startMs r)"
    by (simp add: unat_word_ariths)
  ultimately have "unat (pe_pourMs (ru_ev r) + (ru_activeEndMs r - ru_startMs r)) \<le> unat now - unat first"
    using le by linarith
  then show ?thesis using assms(1) by (simp add: run_inside_def closeRun_def)
qed

lemma run_inside_later:
  assumes "run_inside first now r" "now \<le> t"
  shows "run_inside first t r"
proof -
  have "unat now \<le> unat t" using assms(2) by (simp add: word_le_nat_alt)
  with assms show ?thesis by (auto simp: run_inside_def)
qed

lemma run_inside_step:
  assumes "run_inside first now r" "now \<le> ps_tMs s"
  shows "run_inside first (ps_tMs s) (run_step s r)"
proof -
  note w = run_inside_later [OF assms]
  have bump: "run_inside first t (q\<lparr>ru_outRun := a\<rparr>) = run_inside first t q" "run_inside first t (q\<lparr>ru_settleRun := b\<rparr>) = run_inside first t q"
    for t q a b by (simp_all add: run_inside_def)
  have lift: "run_inside first t (liftPeak s q) = run_inside first t q" for t q by (simp add: run_inside_def)
  have "run_inside first (ps_tMs s) (openRun s r)" if "\<not> ru_inRun r"
    using w that by (auto simp: run_inside_def openRun_def Let_def)
  moreover have "run_inside first (ps_tMs s) (r\<lparr>ru_activeEndMs := ps_tMs s\<rparr>)" if "ru_inRun r"
    using w that by (auto simp: run_inside_def)
  ultimately show ?thesis
    using w by (auto simp: run_step_def Let_def bump lift run_inside_close)
qed

lemma run_inside_run:
  "run_inside first now r \<Longrightarrow> sorted (map sm_tMs ss) \<Longrightarrow> (\<forall>x \<in> set ss. now \<le> sm_tMs x)
   \<Longrightarrow> run_inside first (if ss = [] then now else sm_tMs (last ss)) (snd (run_samples ss (c, r)))"
proof (induction ss arbitrary: now c r)
  case Nil
  then show ?case by simp
next
  case (Cons x ss)
  obtain c1 s where c: "cl_update (sm_tMs x) (sm_cg x) c = (c1, s)" by (metis surj_pair)
  have t: "ps_tMs s = sm_tMs x" using cl_update_tMs [OF c] by simp
  have "run_inside first (sm_tMs x) (run_step s r)" using run_inside_step [of first now r s] Cons.prems t by simp
  from Cons.IH [OF this, of c1] Cons.prems show ?case by (cases ss) (simp_all add: c)
qed

text \<open>When the samples come in time order, the pour is never longer than the time from the first
  sample to the last: the runs do not overlap and nothing is counted twice.\<close>

theorem pour_time_bounded:
  assumes "ss \<noteq> []" and "sorted (map sm_tMs ss)"
  shows "pe_pourMs (computePourEvidence ss) \<le> sm_tMs (last ss) - sm_tMs (hd ss)"
proof -
  let ?f = "sm_tMs (hd ss)" and ?l = "sm_tMs (last ss)"
  define r where "r = snd (run_samples ss (cl_init, no_runs))"
  have "run_inside ?f ?f no_runs" by (simp add: run_inside_def no_runs_def no_evidence_def)
  moreover have "\<forall>x \<in> set ss. ?f \<le> sm_tMs x" using assms by (cases ss) auto
  ultimately have "run_inside ?f ?l r" using run_inside_run [of ?f ?f no_runs ss cl_init] assms by (simp add: r_def)
  then have w: "run_inside ?f ?l (if ru_inRun r then closeRun r else r)" by (simp add: run_inside_close)
  moreover have "\<not> ru_inRun (if ru_inRun r then closeRun r else r)" by simp
  moreover have "computePourEvidence ss = ru_ev (if ru_inRun r then closeRun r else r)"
    by (simp add: computePourEvidence_def r_def case_prod_beta)
  ultimately have "unat (pe_pourMs (computePourEvidence ss)) \<le> unat ?l - unat ?f" "?f \<le> ?l"
    by (simp_all add: run_inside_def)
  then show ?thesis by (simp add: word_le_nat_alt unat_sub_if')
qed

lemma pour_time_bounded_witness:
  "pe_pourMs (computePourEvidence [\<lparr>sm_tMs = 5, sm_cg = 7, sm_scaleTimerMs = UNKNOWN_MS\<rparr>,
      \<lparr>sm_tMs = 155, sm_cg = 9, sm_scaleTimerMs = UNKNOWN_MS\<rparr>]) \<le> 150"
  using pour_time_bounded [of "[\<lparr>sm_tMs = 5, sm_cg = 7, sm_scaleTimerMs = UNKNOWN_MS\<rparr>,
      \<lparr>sm_tMs = 155, sm_cg = 9, sm_scaleTimerMs = UNKNOWN_MS\<rparr>]"] by simp

text \<open>The summed gain stays far inside the \<open>int32_t\<close> of the source.\<close>

lemma closeRun_gain: "\<bar>pe_gainCg (ru_ev (closeRun r))\<bar> \<le> \<bar>pe_gainCg (ru_ev r)\<bar> + 65535"
  using sint_i16_range [of "ru_peakCg r"] sint_i16_range [of "ru_startCg r"] by (simp add: closeRun_def)

lemma run_step_gain: "\<bar>pe_gainCg (ru_ev (run_step s r))\<bar> \<le> \<bar>pe_gainCg (ru_ev r)\<bar> + 65535"
proof -
  have c: "\<bar>pe_gainCg (ru_ev (closeRun q))\<bar> \<le> \<bar>pe_gainCg (ru_ev r)\<bar> + 65535" if "ru_ev q = ru_ev r" for q
    using closeRun_gain [of q] that by simp
  have "pe_gainCg (ru_ev (openRun s r)) = pe_gainCg (ru_ev r)" by (simp add: openRun_def Let_def)
  then show ?thesis by (simp add: run_step_def Let_def c)
qed

lemma run_samples_gain:
  "\<bar>pe_gainCg (ru_ev (snd (run_samples ss (c, r))))\<bar> \<le> \<bar>pe_gainCg (ru_ev r)\<bar> + 65535 * int (length ss)"
proof (induction ss arbitrary: c r)
  case Nil
  then show ?case by simp
next
  case (Cons x ss)
  obtain c1 s where c: "cl_update (sm_tMs x) (sm_cg x) c = (c1, s)" by (metis surj_pair)
  from Cons.IH [of c1 "run_step s r"] run_step_gain [of s r] show ?case by (simp add: c)
qed

lemma evidence_gain: "\<bar>pe_gainCg (computePourEvidence ss)\<bar> \<le> 65535 * (int (length ss) + 1)"
  using run_samples_gain [of ss cl_init no_runs] closeRun_gain [of "snd (run_samples ss (cl_init, no_runs))"]
  by (simp add: computePourEvidence_def case_prod_beta no_runs_def no_evidence_def)

text \<open>Without a pour there is no time and no gain.\<close>

lemma no_pour_step:
  assumes "\<not> pe_hasPour (ru_ev (run_step s r))" "\<not> ru_inRun r \<or> pe_hasPour (ru_ev r)"
  shows "run_step s r = r" "\<not> pe_hasPour (ru_ev r)"
proof -
  have p: "\<not> pe_hasPour (ru_ev r)"
    using assms(1) run_step_start [of s r] by (auto simp: openRun_def Let_def)
  with assms(2) have "\<not> ru_inRun r" by simp
  with assms(1) show "run_step s r = r" by (auto simp: run_step_def openRun_def Let_def split: if_splits)
  show "\<not> pe_hasPour (ru_ev r)" by (rule p)
qed

lemma run_step_inv: "\<not> ru_inRun r \<or> pe_hasPour (ru_ev r) \<Longrightarrow> \<not> ru_inRun (run_step s r) \<or> pe_hasPour (ru_ev (run_step s r))"
  by (auto simp: run_step_def openRun_def Let_def)

lemma no_pour_run:
  "\<not> pe_hasPour (ru_ev (snd (run_samples ss (c, r)))) \<Longrightarrow> \<not> ru_inRun r \<or> pe_hasPour (ru_ev r)
   \<Longrightarrow> snd (run_samples ss (c, r)) = r"
proof (induction ss arbitrary: c r)
  case Nil
  then show ?case by simp
next
  case (Cons x ss)
  obtain c1 s where c: "cl_update (sm_tMs x) (sm_cg x) c = (c1, s)" by (metis surj_pair)
  with Cons.prems(1) have n: "\<not> pe_hasPour (ru_ev (snd (run_samples ss (c1, run_step s r))))" by simp
  from Cons.IH [OF n run_step_inv [OF Cons.prems(2)]] have eq: "snd (run_samples ss (c1, run_step s r)) = run_step s r" .
  with n no_pour_step [OF _ Cons.prems(2), of s] show ?case by (simp add: c)
qed

lemma no_pour_evidence:
  assumes "\<not> pe_hasPour (computePourEvidence ss)"
  shows "computePourEvidence ss = no_evidence"
proof -
  have "snd (run_samples ss (cl_init, no_runs)) = no_runs"
    using assms by (intro no_pour_run) (simp_all add: computePourEvidence_start, simp add: no_runs_def)
  then show ?thesis by (simp add: computePourEvidence_def case_prod_beta) (simp add: no_runs_def)
qed

end
