(* ===== verification/Recorder.thy ===== *)
theory Recorder
  imports PourEvidence Monotonic
begin

text \<open>
  The extraction recorder (\<open>src/src/apps/extraction/ExtractionRecorder.h\<close> and \<open>.cpp\<close>): pump
  activity and scale readings become an extraction record. The fixed arrays of the record are
  lists whose length is the count field.
\<close>

section \<open>Inputs\<close>

datatype PumpSignalState = PumpOff | PumpOn | DecayCandidate

record pump_signal =
  po_state :: PumpSignalState
  po_acceptedDecayOnsetMs :: u32
  po_hasAcceptedDecayOnset :: bool

definition no_pump_signal :: pump_signal where
  "no_pump_signal = \<lparr>po_state = PumpOff, po_acceptedDecayOnsetMs = 0, po_hasAcceptedDecayOnset = False\<rparr>"

definition isOn :: "pump_signal \<Rightarrow> bool" where
  "isOn p \<longleftrightarrow> po_state p \<noteq> PumpOff"

record scale_snapshot =
  sn_present :: bool
  sn_grams :: grams
  sn_timestampMs :: u32
  sn_scaleTimerMs :: u32
  sn_sequence :: u32

record trusted_yield =
  ty_yieldCg :: i16
  ty_tMs :: u32
  ty_seq :: u32

section \<open>Appending to the record\<close>

definition NO_NEW_SAMPLE_TIMEOUT_MS :: u32 where "NO_NEW_SAMPLE_TIMEOUT_MS = 3000"
definition OPEN_POUR_SETTLE_TIMEOUT_MS :: u32 where "OPEN_POUR_SETTLE_TIMEOUT_MS = 12000"
definition NO_SCALE_TIMEOUT_MS :: u32 where "NO_SCALE_TIMEOUT_MS = 5000"
definition EMPTY_SCALE_TIMEOUT_MS :: u32 where "EMPTY_SCALE_TIMEOUT_MS = NO_SCALE_TIMEOUT_MS"
definition MAX_NONFINALIZE_EVENTS :: nat where "MAX_NONFINALIZE_EVENTS = MAX_EVENTS - 2"

lemmas timeout_consts = NO_NEW_SAMPLE_TIMEOUT_MS_def OPEN_POUR_SETTLE_TIMEOUT_MS_def NO_SCALE_TIMEOUT_MS_def
  EMPTY_SCALE_TIMEOUT_MS_def MAX_NONFINALIZE_EVENTS_def MAX_EVENTS_def

definition plain_event :: "u32 \<Rightarrow> EventKind \<Rightarrow> event" where
  "plain_event tMs kind = \<lparr>ev_tMs = tMs, ev_kind = event_kind_byte kind, ev_signalDecayLeadMsPlusOne = 0\<rparr>"

definition appendEvent :: "u32 \<Rightarrow> EventKind \<Rightarrow> extraction \<Rightarrow> extraction" where
  "appendEvent tMs kind e =
     (if MAX_NONFINALIZE_EVENTS \<le> length (ex_events e) then e\<lparr>ex_eventsOverflowed := True\<rparr>
      else e\<lparr>ex_events := ex_events e @ [plain_event tMs kind]\<rparr>)"

definition appendPumpOffConfirmedEvent :: "u32 \<Rightarrow> pump_signal \<Rightarrow> extraction \<Rightarrow> extraction" where
  "appendPumpOffConfirmedEvent confirmedMs p e =
     (if MAX_NONFINALIZE_EVENTS \<le> length (ex_events e) then e\<lparr>ex_eventsOverflowed := True\<rparr>
      else
        let ev = plain_event confirmedMs EV_PUMP_OFF_CONFIRMED;
            leadMs = confirmedMs - po_acceptedDecayOnsetMs p;
            ev = (if po_hasAcceptedDecayOnset p \<and> leadMs < 65535
                  then ev\<lparr>ev_signalDecayLeadMsPlusOne := ucast (leadMs + 1)\<rparr> else ev)
        in e\<lparr>ex_events := ex_events e @ [ev]\<rparr>)"

definition appendFinalizeEvent :: "u32 \<Rightarrow> EventKind \<Rightarrow> extraction \<Rightarrow> extraction" where
  "appendFinalizeEvent tMs kind e =
     (if MAX_EVENTS \<le> length (ex_events e) then e
      else e\<lparr>ex_events := ex_events e @ [plain_event tMs kind]\<rparr>)"

definition appendSample :: "u32 \<Rightarrow> i16 \<Rightarrow> u32 \<Rightarrow> extraction \<Rightarrow> extraction" where
  "appendSample tMs cg scaleTimerMs e =
     (if MAX_SAMPLES \<le> length (ex_samples e) then e
      else e\<lparr>ex_samples := ex_samples e @ [\<lparr>sm_tMs = tMs, sm_cg = cg, sm_scaleTimerMs = scaleTimerMs\<rparr>]\<rparr>)"

section \<open>State\<close>

record recorder =
  rc_current :: extraction
  rc_lastScaleTimestampMs :: u32
  rc_lastScalePresent :: bool
  rc_lastPumpOn :: bool
  rc_pumpOnIntervalStartMs :: u32
  rc_lastRawCg :: i16
  rc_lastTrustedSampleTMs :: u32
  rc_lastTrustedSeq :: u32
  rc_lastRawSampleTMs :: u32
  rc_tracker :: tracker
  rc_lastFinished :: extraction
  rc_finishedSeq :: u32

definition rc_phase :: "recorder \<Rightarrow> u8" where
  "rc_phase r = ex_phase (rc_current r)"

definition rc_init :: recorder where
  "rc_init = \<lparr>rc_current = default_extraction\<lparr>ex_version := kCurrentExtractionVersion\<rparr>, rc_lastScaleTimestampMs = 0,
     rc_lastScalePresent = False, rc_lastPumpOn = False, rc_pumpOnIntervalStartMs = 0, rc_lastRawCg = NO_WEIGHT,
     rc_lastTrustedSampleTMs = 0, rc_lastTrustedSeq = 0, rc_lastRawSampleTMs = 0, rc_tracker = tr_init,
     rc_lastFinished = default_extraction, rc_finishedSeq = 0\<rparr>"

section \<open>Transitions\<close>

definition enter_idle :: "recorder \<Rightarrow> recorder" where
  "enter_idle r =
     r\<lparr>rc_current := default_extraction\<lparr>ex_version := kCurrentExtractionVersion, ex_phase := phase_byte PHASE_IDLE\<rparr>,
       rc_lastScaleTimestampMs := 0, rc_lastPumpOn := False, rc_pumpOnIntervalStartMs := 0, rc_lastRawCg := NO_WEIGHT,
       rc_lastTrustedSampleTMs := 0, rc_lastRawSampleTMs := 0, rc_tracker := tr_reset (rc_tracker r)\<rparr>"

definition enter_running :: "u32 \<Rightarrow> u32 \<Rightarrow> recorder \<Rightarrow> recorder" where
  "enter_running nowMs utcSec r =
     (let e = rc_current r;
          e1 = (if ex_phase e = phase_byte PHASE_IDLE
                then appendEvent nowMs EV_BEGIN (e\<lparr>ex_beginMs := nowMs, ex_startUtcSec := utcSec\<rparr>) else e);
          e2 = appendEvent nowMs EV_PUMP_ON e1
      in r\<lparr>rc_pumpOnIntervalStartMs := nowMs, rc_current := e2\<lparr>ex_phase := phase_byte PHASE_RUNNING\<rparr>\<rparr>)"

definition enter_post_pump :: "u32 \<Rightarrow> pump_signal \<Rightarrow> recorder \<Rightarrow> recorder" where
  "enter_post_pump nowMs p r =
     (let e = rc_current r;
          e1 = e\<lparr>ex_totalPumpOnMs := ex_totalPumpOnMs e + (nowMs - rc_pumpOnIntervalStartMs r),
                 ex_lastPumpOffConfirmedMs := nowMs\<rparr>
      in r\<lparr>rc_current := (appendPumpOffConfirmedEvent nowMs p e1)\<lparr>ex_phase := phase_byte PHASE_POST_PUMP\<rparr>\<rparr>)"

definition settle_evidence :: "i16 \<Rightarrow> extraction \<Rightarrow> extraction" where
  "settle_evidence lastRawCg e =
     (let ev = computePourEvidence (ex_samples e) in
      e\<lparr>ex_pourMs := pe_pourMs ev, ex_decisionGainCg := word_of_int (pe_gainCg ev),
        ex_yieldStatus := yield_status_byte (if pe_hasPour ev then YIELD_OK else YIELD_NONE),
        ex_startRawCg := (if pe_hasStartRawCg ev then pe_startRawCg ev else lastRawCg),
        ex_settledRawCg := lastRawCg\<rparr>)"

definition settle_yield :: "extraction \<Rightarrow> extraction" where
  "settle_yield e =
     (let ev = computePourEvidence (ex_samples e);
          realShot = isLikelyRealShot e;
          found = (if realShot \<and> pe_hasPour ev
                   then endpointBeforePostPumpDiscontinuity (ex_samples e) (ex_lastPumpOffConfirmedMs e) else None);
          endpointCg = (case found of None \<Rightarrow> ex_settledRawCg e | Some cg \<Rightarrow> cg);
          yieldCg = (if ex_startRawCg e \<noteq> NO_WEIGHT \<and> endpointCg \<noteq> NO_WEIGHT
                     then saturateCg (word_of_int (sint endpointCg - sint (ex_startRawCg e))) else NO_WEIGHT);
          e1 = e\<lparr>ex_yieldCg := yieldCg\<rparr>;
          e2 = (if found \<noteq> None then e1\<lparr>ex_yieldStatus := yield_status_byte YIELD_DISTURBED\<rparr> else e1)
      in if realShot \<and> yieldCg \<noteq> NO_WEIGHT \<and> 0 < pe_gainCg ev \<and> sint yieldCg * 4 \<le> pe_gainCg ev * 3
         then e2\<lparr>ex_yieldCg := saturateCg (ex_decisionGainCg e), ex_yieldStatus := yield_status_byte YIELD_DISTURBED\<rparr>
         else e2)"

definition trim_events :: "u32 \<Rightarrow> event list \<Rightarrow> event list" where
  "trim_events intendedEndMs evs = rev (dropWhile (\<lambda>ev. intendedEndMs < ev_tMs ev) (rev evs))"

definition close_record :: "u32 \<Rightarrow> EndCause \<Rightarrow> extraction \<Rightarrow> extraction" where
  "close_record nowMs cause e =
     (let intendedEndMs = (if cause = END_TIMEOUT \<and> \<not> hasSampleData e then ex_lastPumpOffConfirmedMs e else nowMs);
          evs = trim_events intendedEndMs (ex_events e);
          endMs = (if evs \<noteq> [] then ensureMonotonicTimestamp intendedEndMs (ev_tMs (last evs)) else intendedEndMs)
      in (appendFinalizeEvent endMs EV_END (e\<lparr>ex_events := evs, ex_endMs := endMs, ex_endCause := end_cause_byte cause\<rparr>))
           \<lparr>ex_phase := phase_byte PHASE_DONE\<rparr>)"

definition enter_done :: "u32 \<Rightarrow> EndCause \<Rightarrow> recorder \<Rightarrow> recorder" where
  "enter_done nowMs cause r =
     (let e = rc_current r;
          e1 = (if cause = END_STABLE then (appendFinalizeEvent nowMs EV_STABLE_DETECTED e)\<lparr>ex_stableMs := nowMs\<rparr> else e);
          e2 = close_record nowMs cause (settle_yield (settle_evidence (rc_lastRawCg r) e1))
      in r\<lparr>rc_current := e2, rc_lastFinished := e2, rc_finishedSeq := rc_finishedSeq r + 1\<rparr>)"

definition transitionTo :: "Phase \<Rightarrow> u32 \<Rightarrow> pump_signal \<Rightarrow> EndCause \<Rightarrow> u32 \<Rightarrow> recorder \<Rightarrow> recorder" where
  "transitionTo nxt nowMs p cause utcSec r =
     (if rc_phase r = phase_byte nxt then r
      else case nxt of
        PHASE_IDLE \<Rightarrow> enter_idle r
      | PHASE_RUNNING \<Rightarrow> enter_running nowMs utcSec r
      | PHASE_POST_PUMP \<Rightarrow> enter_post_pump nowMs p r
      | PHASE_DONE \<Rightarrow> enter_done nowMs cause r)"

section \<open>One tick\<close>

definition record_presence :: "scale_snapshot \<Rightarrow> u32 \<Rightarrow> recorder \<Rightarrow> recorder" where
  "record_presence s nowMs r =
     (if sn_present s \<and> \<not> rc_lastScalePresent r
      then r\<lparr>rc_current := appendEvent nowMs EV_SCALE_CONNECTED (rc_current r)\<rparr>
      else if \<not> sn_present s \<and> rc_lastScalePresent r
      then r\<lparr>rc_current := appendEvent nowMs EV_SCALE_DISCONNECTED (rc_current r)\<rparr>
      else r)"

definition record_sample :: "u32 \<Rightarrow> i16 \<Rightarrow> u32 \<Rightarrow> u32 \<Rightarrow> recorder \<Rightarrow> recorder" where
  "record_sample tMs rawCg scaleTimerMs nowMs r =
     (let t = tr_update tMs rawCg (rc_tracker r);
          r1 = r\<lparr>rc_tracker := t, rc_lastRawSampleTMs := nowMs\<rparr>;
          r2 = (if tr_lastSampleTrusted t
                then r1\<lparr>rc_lastTrustedSeq := rc_lastTrustedSeq r + 1, rc_lastTrustedSampleTMs := nowMs\<rparr> else r1);
          e = rc_current r;
          e1 = (if hasPourStartWeight t \<and> ex_startRawCg e = NO_WEIGHT
                then e\<lparr>ex_startRawCg := firstPourStartRawCg t\<rparr> else e);
          e2 = appendSample tMs rawCg scaleTimerMs e1;
          e3 = (if ex_observedSampleCount e2 < 65535
                then e2\<lparr>ex_observedSampleCount := ex_observedSampleCount e2 + 1\<rparr> else e2)
      in r2\<lparr>rc_current := e3, rc_lastRawCg := rawCg\<rparr>)"

definition recordLiveTick :: "scale_snapshot \<Rightarrow> u32 \<Rightarrow> recorder \<Rightarrow> recorder" where
  "recordLiveTick s nowMs r =
     (let r1 = record_presence s nowMs r in
      if sn_present s \<and> sn_timestampMs s \<noteq> 0 \<and> sn_timestampMs s \<noteq> rc_lastScaleTimestampMs r1 then
        (case gramsToCg (sn_grams s) of
           None \<Rightarrow> r1
         | Some rawCg \<Rightarrow>
             (let r2 = r1\<lparr>rc_lastScaleTimestampMs := sn_timestampMs s\<rparr> in
              if sint (sn_timestampMs s - ex_beginMs (rc_current r2)) < 0 then r2
              else record_sample (sn_timestampMs s) rawCg (sn_scaleTimerMs s) nowMs r2))
      else r1)"

definition onIdle :: "bool \<Rightarrow> u32 \<Rightarrow> u32 \<Rightarrow> recorder \<Rightarrow> recorder" where
  "onIdle pumpRising nowMs utcSec r =
     (if pumpRising then transitionTo PHASE_RUNNING nowMs no_pump_signal END_NONE utcSec r else r)"

definition onRunning :: "bool \<Rightarrow> u32 \<Rightarrow> pump_signal \<Rightarrow> recorder \<Rightarrow> recorder" where
  "onRunning pumpFalling nowMs p r =
     (if pumpFalling then transitionTo PHASE_POST_PUMP nowMs p END_NONE 0 r else r)"

definition shot_coalesces :: "u32 \<Rightarrow> bool \<Rightarrow> recorder \<Rightarrow> bool" where
  "shot_coalesces nowMs present r =
     (let sincePumpOff = nowMs - ex_lastPumpOffConfirmedMs (rc_current r) in
      if present then
        (if \<not> tr_hasMeaningfulYield (rc_tracker r) then sincePumpOff \<le> EMPTY_SCALE_TIMEOUT_MS
         else hasUnsettledPour (rc_tracker r))
      else sincePumpOff \<le> NO_SCALE_TIMEOUT_MS)"

definition resumeOrSplitShot :: "u32 \<Rightarrow> scale_snapshot \<Rightarrow> u32 \<Rightarrow> recorder \<Rightarrow> recorder" where
  "resumeOrSplitShot nowMs s utcSec r =
     (if shot_coalesces nowMs (sn_present s) r
      then transitionTo PHASE_RUNNING nowMs no_pump_signal END_NONE 0 r
      else
        let cause = (if sn_present s \<and> tr_hasMeaningfulYield (rc_tracker r) then END_STABLE else END_TIMEOUT);
            r1 = transitionTo PHASE_DONE nowMs no_pump_signal cause 0 r;
            r2 = transitionTo PHASE_IDLE nowMs no_pump_signal END_NONE 0 r1
        in transitionTo PHASE_RUNNING nowMs no_pump_signal END_NONE utcSec r2)"

definition finalizeIfShotEnded :: "u32 \<Rightarrow> recorder \<Rightarrow> recorder" where
  "finalizeIfShotEnded nowMs r =
     (if settledCountReached (rc_tracker r) then transitionTo PHASE_DONE nowMs no_pump_signal END_STABLE 0 r
      else if hasUnsettledPour (rc_tracker r) then
        (let streamStalled = (rc_lastRawSampleTMs r \<noteq> 0 \<and> NO_NEW_SAMPLE_TIMEOUT_MS < nowMs - rc_lastRawSampleTMs r);
             settleBackstop = (OPEN_POUR_SETTLE_TIMEOUT_MS < nowMs - ex_lastPumpOffConfirmedMs (rc_current r))
         in if streamStalled \<or> settleBackstop then transitionTo PHASE_DONE nowMs no_pump_signal END_TIMEOUT 0 r else r)
      else
        (let noScale = (\<not> hasSampleData (rc_current r));
             timeoutMs = (if noScale then NO_SCALE_TIMEOUT_MS else EMPTY_SCALE_TIMEOUT_MS)
         in if timeoutMs < nowMs - ex_lastPumpOffConfirmedMs (rc_current r)
            then transitionTo PHASE_DONE nowMs no_pump_signal END_TIMEOUT 0 r else r))"

definition onPostPump :: "bool \<Rightarrow> u32 \<Rightarrow> scale_snapshot \<Rightarrow> u32 \<Rightarrow> recorder \<Rightarrow> recorder" where
  "onPostPump pumpRising nowMs s utcSec r =
     (if pumpRising then resumeOrSplitShot nowMs s utcSec r else finalizeIfShotEnded nowMs r)"

definition onDone :: "bool \<Rightarrow> u32 \<Rightarrow> u32 \<Rightarrow> recorder \<Rightarrow> recorder" where
  "onDone pumpRising nowMs utcSec r =
     (if pumpRising
      then transitionTo PHASE_RUNNING nowMs no_pump_signal END_NONE utcSec
             (transitionTo PHASE_IDLE nowMs no_pump_signal END_NONE 0 r)
      else r)"

definition is_live :: "recorder \<Rightarrow> bool" where
  "is_live r \<longleftrightarrow> rc_phase r = phase_byte PHASE_RUNNING \<or> rc_phase r = phase_byte PHASE_POST_PUMP"

definition rc_update :: "u32 \<Rightarrow> pump_signal \<Rightarrow> scale_snapshot \<Rightarrow> u32 \<Rightarrow> recorder \<Rightarrow> recorder" where
  "rc_update nowMs p s utcSec r =
     (let r1 = (if is_live r then recordLiveTick s nowMs r else r);
          pumpOn = isOn p;
          pumpRising = (pumpOn \<and> \<not> rc_lastPumpOn r1);
          pumpFalling = (\<not> pumpOn \<and> rc_lastPumpOn r1);
          r2 = r1\<lparr>rc_lastScalePresent := sn_present s, rc_lastPumpOn := pumpOn\<rparr>
      in if rc_phase r2 = phase_byte PHASE_IDLE then onIdle pumpRising nowMs utcSec r2
         else if rc_phase r2 = phase_byte PHASE_RUNNING then onRunning pumpFalling nowMs p r2
         else if rc_phase r2 = phase_byte PHASE_POST_PUMP then onPostPump pumpRising nowMs s utcSec r2
         else if rc_phase r2 = phase_byte PHASE_DONE then onDone pumpRising nowMs utcSec r2
         else r2)"

section \<open>The other operations\<close>

definition rc_clear :: "recorder \<Rightarrow> recorder" where
  "rc_clear r = transitionTo PHASE_IDLE 0 no_pump_signal END_NONE 0 r"

definition setTargetSnapshot :: "target_coeffs \<Rightarrow> recorder \<Rightarrow> recorder" where
  "setTargetSnapshot tc r =
     (if \<not> is_live r then r
      else r\<lparr>rc_current := (rc_current r)\<lparr>ex_hasTargetSnapshot := True, ex_target := tc\<rparr>\<rparr>)"

definition triggerAlarm :: "alarm_trigger \<Rightarrow> recorder \<Rightarrow> recorder" where
  "triggerAlarm a r =
     (if at_tMs (ex_alarm (rc_current r)) \<noteq> 0 then r
      else if rc_phase r \<noteq> phase_byte PHASE_RUNNING then r
      else r\<lparr>rc_current := appendEvent (at_tMs a) EV_ALARM_TRIGGERED ((rc_current r)\<lparr>ex_alarm := a\<rparr>)\<rparr>)"

definition pourStartRawCg :: "recorder \<Rightarrow> i16" where
  "pourStartRawCg r =
     (if hasPourStartWeight (rc_tracker r) then firstPourStartRawCg (rc_tracker r) else NO_WEIGHT)"

definition endpointYieldCg :: "i16 \<Rightarrow> recorder \<Rightarrow> i16" where
  "endpointYieldCg rawCg r = saturateCg (word_of_int (sint rawCg - sint (firstPourStartRawCg (rc_tracker r))))"

definition currentYieldCg :: "scale_snapshot \<Rightarrow> recorder \<Rightarrow> i16 option" where
  "currentYieldCg s r =
     (if \<not> is_live r then None
      else if \<not> sn_present s \<or> \<not> hasPourStartWeight (rc_tracker r) then None
      else case gramsToCg (sn_grams s) of None \<Rightarrow> None | Some rawCg \<Rightarrow> Some (endpointYieldCg rawCg r))"

definition lastTrustedYieldSample :: "recorder \<Rightarrow> trusted_yield option" where
  "lastTrustedYieldSample r =
     (if rc_lastTrustedSeq r = 0 \<or> \<not> hasPourStartWeight (rc_tracker r) then None
      else Some \<lparr>ty_yieldCg = endpointYieldCg (tr_lastTrustedCg (rc_tracker r)) r,
                 ty_tMs = rc_lastTrustedSampleTMs r, ty_seq = rc_lastTrustedSeq r\<rparr>)"

end
