(* ===== verification/RecorderLaws.thy ===== *)
theory RecorderLaws
  imports Recorder Wire
begin

text \<open>
  What the recorder guarantees of the records it makes: their shape for any sequence of calls,
  their time line when the calls come in the order of the clock, their yield, the bound on the
  wait after the pump, and the agreement of the live pour start with the final one.
\<close>

section \<open>Calls\<close>

datatype rc_op = RcUpdate u32 pump_signal scale_snapshot u32 | RcClear | RcTarget target_coeffs | RcAlarm alarm_trigger

fun rc_apply :: "recorder \<Rightarrow> rc_op \<Rightarrow> recorder" where
  "rc_apply r (RcUpdate nowMs p s utcSec) = rc_update nowMs p s utcSec r"
| "rc_apply r RcClear = rc_clear r"
| "rc_apply r (RcTarget tc) = setTargetSnapshot tc r"
| "rc_apply r (RcAlarm a) = triggerAlarm a r"

definition rc_step :: "recorder \<Rightarrow> rc_op \<Rightarrow> recorder \<times> unit" where
  "rc_step r a = (rc_apply r a, ())"

lemma fst_rc_step [simp]: "fst (rc_step r a) = rc_apply r a"
  by (simp add: rc_step_def)

section \<open>Appending\<close>

lemma phase_byte_eq [simp]: "phase_byte a = phase_byte b \<longleftrightarrow> a = b"
  by (cases a; cases b) simp_all

lemma event_kind_byte_eq [simp]: "event_kind_byte a = event_kind_byte b \<longleftrightarrow> a = b"
  by (cases a; cases b) simp_all

lemma end_cause_byte_le [simp]: "end_cause_byte a \<le> end_cause_byte END_TIMEOUT"
  by (cases a) simp_all

declare phase_byte.simps [simp del] and event_kind_byte.simps [simp del] and end_cause_byte.simps [simp del]

lemma plain_event_sel [simp]:
  "ev_tMs (plain_event t k) = t" "ev_kind (plain_event t k) = event_kind_byte k"
  "event_norm (plain_event t k) = plain_event t k"
  by (simp_all add: plain_event_def event_norm_def)

lemma appendEvent_frame [simp]:
  "ex_phase (appendEvent t k e) = ex_phase e" "ex_samples (appendEvent t k e) = ex_samples e"
  "ex_endCause (appendEvent t k e) = ex_endCause e" "ex_version (appendEvent t k e) = ex_version e"
  "ex_beginMs (appendEvent t k e) = ex_beginMs e" "ex_lastPumpOffConfirmedMs (appendEvent t k e) = ex_lastPumpOffConfirmedMs e"
  "ex_startRawCg (appendEvent t k e) = ex_startRawCg e" "ex_observedSampleCount (appendEvent t k e) = ex_observedSampleCount e"
  by (simp_all add: appendEvent_def)

lemma appendPumpOff_frame [simp]:
  "ex_phase (appendPumpOffConfirmedEvent t p e) = ex_phase e"
  "ex_samples (appendPumpOffConfirmedEvent t p e) = ex_samples e"
  "ex_endCause (appendPumpOffConfirmedEvent t p e) = ex_endCause e"
  "ex_version (appendPumpOffConfirmedEvent t p e) = ex_version e"
  "ex_beginMs (appendPumpOffConfirmedEvent t p e) = ex_beginMs e"
  "ex_lastPumpOffConfirmedMs (appendPumpOffConfirmedEvent t p e) = ex_lastPumpOffConfirmedMs e"
  "ex_startRawCg (appendPumpOffConfirmedEvent t p e) = ex_startRawCg e"
  "ex_observedSampleCount (appendPumpOffConfirmedEvent t p e) = ex_observedSampleCount e"
  by (simp_all add: appendPumpOffConfirmedEvent_def Let_def)

lemma appendSample_frame [simp]:
  "ex_phase (appendSample t c m e) = ex_phase e" "ex_events (appendSample t c m e) = ex_events e"
  "ex_endCause (appendSample t c m e) = ex_endCause e" "ex_version (appendSample t c m e) = ex_version e"
  "ex_beginMs (appendSample t c m e) = ex_beginMs e"
  "ex_lastPumpOffConfirmedMs (appendSample t c m e) = ex_lastPumpOffConfirmedMs e"
  "ex_startRawCg (appendSample t c m e) = ex_startRawCg e"
  "ex_observedSampleCount (appendSample t c m e) = ex_observedSampleCount e"
  by (simp_all add: appendSample_def)

lemma appendFinalize_frame [simp]:
  "ex_phase (appendFinalizeEvent t k e) = ex_phase e" "ex_samples (appendFinalizeEvent t k e) = ex_samples e"
  "ex_endCause (appendFinalizeEvent t k e) = ex_endCause e" "ex_version (appendFinalizeEvent t k e) = ex_version e"
  "ex_beginMs (appendFinalizeEvent t k e) = ex_beginMs e"
  "ex_lastPumpOffConfirmedMs (appendFinalizeEvent t k e) = ex_lastPumpOffConfirmedMs e"
  "ex_endMs (appendFinalizeEvent t k e) = ex_endMs e"
  "ex_observedSampleCount (appendFinalizeEvent t k e) = ex_observedSampleCount e"
  by (simp_all add: appendFinalizeEvent_def)

lemma settle_frame [simp]:
  "ex_phase (settle_yield e) = ex_phase e" "ex_samples (settle_yield e) = ex_samples e"
  "ex_events (settle_yield e) = ex_events e" "ex_version (settle_yield e) = ex_version e"
  "ex_beginMs (settle_yield e) = ex_beginMs e"
  "ex_lastPumpOffConfirmedMs (settle_yield e) = ex_lastPumpOffConfirmedMs e"
  "ex_observedSampleCount (settle_yield e) = ex_observedSampleCount e"
  "ex_startRawCg (settle_yield e) = ex_startRawCg e" "ex_settledRawCg (settle_yield e) = ex_settledRawCg e"
  "ex_pourMs (settle_yield e) = ex_pourMs e" "ex_decisionGainCg (settle_yield e) = ex_decisionGainCg e"
  by (simp_all add: settle_yield_def Let_def)

lemma evidence_frame [simp]:
  "ex_phase (settle_evidence c e) = ex_phase e" "ex_samples (settle_evidence c e) = ex_samples e"
  "ex_events (settle_evidence c e) = ex_events e" "ex_version (settle_evidence c e) = ex_version e"
  "ex_beginMs (settle_evidence c e) = ex_beginMs e"
  "ex_lastPumpOffConfirmedMs (settle_evidence c e) = ex_lastPumpOffConfirmedMs e"
  "ex_observedSampleCount (settle_evidence c e) = ex_observedSampleCount e"
  by (simp_all add: settle_evidence_def Let_def)

lemma gramsToCg_weight: "gramsToCg g = Some c \<Longrightarrow> c \<noteq> NO_WEIGHT"
proof (induction g rule: gramsToCg.induct)
  case (2 g)
  have c: "c = word_of_int k \<Longrightarrow> - 32767 \<le> k \<Longrightarrow> k \<le> 32767 \<Longrightarrow> c \<noteq> NO_WEIGHT" for k
  proof -
    assume k: "c = word_of_int k" "- 32767 \<le> k" "k \<le> 32767"
    then have "sint c = k" by (simp add: sint_i16_of_int)
    moreover have "sint NO_WEIGHT = - 32768" by (simp add: NO_WEIGHT_def)
    ultimately show ?thesis using k by auto
  qed
  define q where "q = round_away (f32 (g * 100))"
  define cg where "cg = (if 32767 < (if q < - 32767 then - 32767 else q) then 32767 else (if q < - 32767 then - 32767 else q))"
  have "c = word_of_int (truncate_int cg)"
    using 2 unfolding cg_def q_def gramsToCg.simps Let_def by (auto simp only: option.inject)
  moreover have "- 32767 \<le> cg" "cg \<le> 32767" by (simp_all add: cg_def)
  then have "- 32767 \<le> truncate_int cg" "truncate_int cg \<le> 32767"
    by (auto simp: truncate_int_def le_floor_iff floor_le_iff ceiling_le_iff le_ceiling_iff)
  ultimately show ?case by (intro c)
qed simp

section \<open>Shape\<close>

definition own_event :: "event \<Rightarrow> bool" where
  "own_event ev \<longleftrightarrow> event_norm ev = ev \<and> ev_kind ev \<noteq> event_kind_byte EV_END \<and> ev_kind ev \<noteq> event_kind_byte EV_STABLE_DETECTED"

text \<open>A record still open: room for the two final events is left, and nothing final is in it.\<close>

definition open_shape :: "extraction \<Rightarrow> bool" where
  "open_shape e \<longleftrightarrow> length (ex_events e) \<le> MAX_NONFINALIZE_EVENTS \<and> length (ex_samples e) \<le> MAX_SAMPLES
     \<and> list_all (\<lambda>s. sm_cg s \<noteq> NO_WEIGHT) (ex_samples e) \<and> ex_version e = kCurrentExtractionVersion
     \<and> list_all own_event (ex_events e)"

text \<open>A finished record: it fits the wire format, and its one \<open>END\<close> is its last event.\<close>

definition closed_shape :: "extraction \<Rightarrow> bool" where
  "closed_shape e \<longleftrightarrow> wire_wf e \<and> ex_version e = kCurrentExtractionVersion \<and> ex_phase e = phase_byte PHASE_DONE
     \<and> ex_endCause e \<in> {end_cause_byte END_STABLE, end_cause_byte END_TIMEOUT}
     \<and> list_all (\<lambda>ev. event_norm ev = ev) (ex_events e)
     \<and> (\<exists>evs. ex_events e = evs @ [plain_event (ex_endMs e) EV_END]
            \<and> list_all (\<lambda>ev. ev_kind ev \<noteq> event_kind_byte EV_END) evs)"

definition recorder_shape :: "recorder \<Rightarrow> bool" where
  "recorder_shape r \<longleftrightarrow>
     (if rc_phase r = phase_byte PHASE_DONE then closed_shape (rc_current r) else open_shape (rc_current r))
     \<and> rc_phase r \<in> range phase_byte
     \<and> (rc_finishedSeq r \<noteq> 0 \<longrightarrow> closed_shape (rc_lastFinished r))"

lemma own_plain [simp]: "own_event (plain_event t k) \<longleftrightarrow> k \<noteq> EV_END \<and> k \<noteq> EV_STABLE_DETECTED"
  by (auto simp: own_event_def)

lemma open_appendEvent:
  "open_shape e \<Longrightarrow> k \<noteq> EV_END \<Longrightarrow> k \<noteq> EV_STABLE_DETECTED \<Longrightarrow> open_shape (appendEvent t k e)"
  by (simp add: open_shape_def appendEvent_def)

lemma open_appendPumpOff: "open_shape e \<Longrightarrow> open_shape (appendPumpOffConfirmedEvent t p e)"
  by (simp add: open_shape_def appendPumpOffConfirmedEvent_def Let_def own_event_def event_norm_def plain_event_def)

lemma open_appendSample: "open_shape e \<Longrightarrow> c \<noteq> NO_WEIGHT \<Longrightarrow> open_shape (appendSample t c m e)"
  by (simp add: open_shape_def appendSample_def)

lemma open_shape_update [simp]:
  "open_shape (e\<lparr>ex_phase := a\<rparr>) = open_shape e" "open_shape (e\<lparr>ex_startRawCg := b\<rparr>) = open_shape e"
  "open_shape (e\<lparr>ex_observedSampleCount := c\<rparr>) = open_shape e" "open_shape (e\<lparr>ex_beginMs := d\<rparr>) = open_shape e"
  "open_shape (e\<lparr>ex_startUtcSec := d\<rparr>) = open_shape e" "open_shape (e\<lparr>ex_totalPumpOnMs := d\<rparr>) = open_shape e"
  "open_shape (e\<lparr>ex_lastPumpOffConfirmedMs := d\<rparr>) = open_shape e"
  "open_shape (e\<lparr>ex_hasTargetSnapshot := h\<rparr>) = open_shape e" "open_shape (e\<lparr>ex_target := tc\<rparr>) = open_shape e"
  "open_shape (e\<lparr>ex_alarm := al\<rparr>) = open_shape e"
  by (simp_all add: open_shape_def)

lemma open_default: "open_shape (default_extraction\<lparr>ex_version := kCurrentExtractionVersion\<rparr>)"
  by (simp add: open_shape_def default_extraction_def)

lemma trim_events_prefix: "\<exists>zs. evs = trim_events t evs @ zs \<and> list_all (\<lambda>ev. t < ev_tMs ev) zs"
proof (intro exI conjI)
  have "rev (takeWhile (\<lambda>ev. t < ev_tMs ev) (rev evs) @ dropWhile (\<lambda>ev. t < ev_tMs ev) (rev evs)) = evs"
    by (simp only: takeWhile_dropWhile_id rev_rev_ident)
  then show "evs = trim_events t evs @ rev (takeWhile (\<lambda>ev. t < ev_tMs ev) (rev evs))"
    by (simp add: trim_events_def flip: rev_append)
  show "list_all (\<lambda>ev. t < ev_tMs ev) (rev (takeWhile (\<lambda>ev. t < ev_tMs ev) (rev evs)))"
    by (auto simp: list_all_iff dest: set_takeWhileD)
qed

lemma list_all_trim: "list_all P evs \<Longrightarrow> list_all P (trim_events t evs)"
  using trim_events_prefix [of evs t] by (metis list_all_append)

lemma length_trim: "length (trim_events t evs) \<le> length evs"
  using trim_events_prefix [of evs t] by (metis length_append le_add1)

text \<open>Closing an open record, with or without \<open>STABLE_DETECTED\<close> before.\<close>

lemma close_record_shape:
  assumes "length (ex_events e) < MAX_EVENTS" "length (ex_samples e) \<le> MAX_SAMPLES"
    "list_all (\<lambda>s. sm_cg s \<noteq> NO_WEIGHT) (ex_samples e)" "ex_version e = kCurrentExtractionVersion"
    "list_all (\<lambda>ev. event_norm ev = ev \<and> ev_kind ev \<noteq> event_kind_byte EV_END) (ex_events e)"
    and "cause = END_STABLE \<or> cause = END_TIMEOUT"
  shows "closed_shape (close_record nowMs cause e)"
proof -
  define t where "t = (if cause = END_TIMEOUT \<and> \<not> hasSampleData e then ex_lastPumpOffConfirmedMs e else nowMs)"
  define evs where "evs = trim_events t (ex_events e)"
  define endMs where "endMs = (if evs \<noteq> [] then ensureMonotonicTimestamp t (ev_tMs (last evs)) else t)"
  have evs: "length evs < MAX_EVENTS" "list_all (\<lambda>ev. event_norm ev = ev \<and> ev_kind ev \<noteq> event_kind_byte EV_END) evs"
    using assms(1,5) length_trim [of t "ex_events e"] list_all_trim [of _ "ex_events e" t] by (auto simp: evs_def)
  have c: "close_record nowMs cause e
      = (e\<lparr>ex_events := evs @ [plain_event endMs EV_END], ex_endMs := endMs, ex_endCause := end_cause_byte cause,
           ex_phase := phase_byte PHASE_DONE\<rparr>)"
    using evs(1) unfolding close_record_def Let_def t_def [symmetric] evs_def [symmetric] endMs_def [symmetric]
    by (simp add: appendFinalizeEvent_def)
  show ?thesis
    using assms evs unfolding closed_shape_def wire_wf_def c
    by (auto simp: list_all_iff)
qed

lemma appendFinalize_events:
  "ex_events (appendFinalizeEvent t k e) = (if length (ex_events e) < MAX_EVENTS then ex_events e @ [plain_event t k] else ex_events e)"
  by (simp add: appendFinalizeEvent_def)

lemma enter_done_shape:
  assumes "open_shape (rc_current r)" and "cause = END_STABLE \<or> cause = END_TIMEOUT"
  shows "closed_shape (rc_current (enter_done nowMs cause r))" "rc_lastFinished (enter_done nowMs cause r) = rc_current (enter_done nowMs cause r)"
    "rc_phase (enter_done nowMs cause r) = phase_byte PHASE_DONE"
    "rc_finishedSeq (enter_done nowMs cause r) = rc_finishedSeq r + 1"
proof -
  let ?e1 = "if cause = END_STABLE then (appendFinalizeEvent nowMs EV_STABLE_DETECTED (rc_current r))\<lparr>ex_stableMs := nowMs\<rparr> else rc_current r"
  have o: "length (ex_events (rc_current r)) \<le> 62"
    using assms(1) by (simp add: open_shape_def MAX_NONFINALIZE_EVENTS_def MAX_EVENTS_def)
  have "closed_shape (close_record nowMs cause (settle_yield (settle_evidence (rc_lastRawCg r) ?e1)))"
  proof (rule close_record_shape)
    show "length (ex_events (settle_yield (settle_evidence (rc_lastRawCg r) ?e1))) < MAX_EVENTS"
      using o by (simp add: appendFinalize_events MAX_EVENTS_def)
    show "list_all (\<lambda>ev. event_norm ev = ev \<and> ev_kind ev \<noteq> event_kind_byte EV_END)
        (ex_events (settle_yield (settle_evidence (rc_lastRawCg r) ?e1)))"
      using assms(1) by (auto simp: appendFinalize_events open_shape_def own_event_def list_all_iff)
  qed (use assms in \<open>simp_all add: open_shape_def\<close>)
  then show "closed_shape (rc_current (enter_done nowMs cause r))"
    by (simp add: enter_done_def Let_def)
  then show "rc_phase (enter_done nowMs cause r) = phase_byte PHASE_DONE"
    by (simp add: rc_phase_def closed_shape_def)
qed (simp_all add: enter_done_def Let_def)

section \<open>Every call keeps the shape\<close>

lemma rc_phase_record [simp]:
  "rc_phase (r\<lparr>rc_lastScaleTimestampMs := a\<rparr>) = rc_phase r" "rc_phase (r\<lparr>rc_lastScalePresent := b\<rparr>) = rc_phase r"
  "rc_phase (r\<lparr>rc_lastPumpOn := c\<rparr>) = rc_phase r" "rc_phase (r\<lparr>rc_current := e\<rparr>) = ex_phase e"
  by (simp_all add: rc_phase_def)

lemma shape_open:
  "recorder_shape r \<Longrightarrow> rc_phase r \<noteq> phase_byte PHASE_DONE \<Longrightarrow> open_shape (rc_current r)"
  by (simp add: recorder_shape_def)

lemma shape_enter_idle: "recorder_shape r \<Longrightarrow> recorder_shape (enter_idle r)"
  using open_default by (simp add: recorder_shape_def enter_idle_def rc_phase_def)

lemma phase_enter [simp]:
  "rc_phase (enter_idle r) = phase_byte PHASE_IDLE" "rc_phase (enter_running n u r) = phase_byte PHASE_RUNNING"
  "rc_phase (enter_post_pump n p r) = phase_byte PHASE_POST_PUMP" "rc_phase (enter_done n c r) = phase_byte PHASE_DONE"
  by (simp_all add: enter_idle_def enter_running_def enter_post_pump_def enter_done_def close_record_def rc_phase_def Let_def)

lemma shape_enter_running:
  assumes "recorder_shape r" "rc_phase r \<noteq> phase_byte PHASE_DONE"
  shows "recorder_shape (enter_running n u r)"
proof -
  have "open_shape (rc_current (enter_running n u r))"
    using shape_open [OF assms] by (simp add: enter_running_def Let_def open_appendEvent)
  with assms show ?thesis by (simp add: recorder_shape_def) (simp add: enter_running_def Let_def)
qed

lemma shape_enter_post_pump:
  assumes "recorder_shape r" "rc_phase r \<noteq> phase_byte PHASE_DONE"
  shows "recorder_shape (enter_post_pump n p r)"
proof -
  have "open_shape (rc_current (enter_post_pump n p r))"
    using shape_open [OF assms] by (simp add: enter_post_pump_def Let_def open_appendPumpOff)
  with assms show ?thesis by (simp add: recorder_shape_def) (simp add: enter_post_pump_def Let_def)
qed

lemma shape_enter_done:
  assumes "recorder_shape r" "rc_phase r \<noteq> phase_byte PHASE_DONE" "cause = END_STABLE \<or> cause = END_TIMEOUT"
  shows "recorder_shape (enter_done n cause r)"
  using enter_done_shape [OF shape_open [OF assms(1,2)] assms(3), of n] by (simp add: recorder_shape_def)

lemma shape_transition:
  assumes "recorder_shape r"
    and "nxt = PHASE_RUNNING \<or> nxt = PHASE_POST_PUMP \<longrightarrow> rc_phase r \<noteq> phase_byte PHASE_DONE"
    and "nxt = PHASE_DONE \<longrightarrow> cause = END_STABLE \<or> cause = END_TIMEOUT"
  shows "recorder_shape (transitionTo nxt n p cause u r)"
  using assms shape_enter_idle shape_enter_running shape_enter_post_pump shape_enter_done
  by (auto simp: transitionTo_def split: Phase.splits)

lemma phase_transition [simp]: "rc_phase (transitionTo nxt n p cause u r) = phase_byte nxt"
  by (simp add: transitionTo_def split: Phase.splits)

lemma shape_current:
  assumes "recorder_shape r" "rc_phase r \<noteq> phase_byte PHASE_DONE" "open_shape e" "ex_phase e = rc_phase r"
  shows "recorder_shape (r\<lparr>rc_current := e\<rparr>)"
  using assms by (simp add: recorder_shape_def)

lemma shape_presence:
  assumes "recorder_shape r" "rc_phase r \<noteq> phase_byte PHASE_DONE"
  shows "recorder_shape (record_presence s n r)" "rc_phase (record_presence s n r) = rc_phase r"
  using shape_current [OF assms open_appendEvent [OF shape_open [OF assms], of EV_SCALE_CONNECTED n]]
    shape_current [OF assms open_appendEvent [OF shape_open [OF assms], of EV_SCALE_DISCONNECTED n]] assms(1)
  by (simp_all add: record_presence_def) (simp_all add: rc_phase_def)

lemma record_sample_frame:
  "rc_finishedSeq (record_sample t c m n r) = rc_finishedSeq r" "rc_lastFinished (record_sample t c m n r) = rc_lastFinished r"
  "rc_phase (record_sample t c m n r) = rc_phase r" "rc_lastPumpOn (record_sample t c m n r) = rc_lastPumpOn r"
  by (simp_all add: record_sample_def Let_def rc_phase_def)

lemma shape_record_sample:
  assumes "recorder_shape r" "rc_phase r \<noteq> phase_byte PHASE_DONE" "c \<noteq> NO_WEIGHT"
  shows "recorder_shape (record_sample t c m n r)"
proof -
  have "open_shape (rc_current (record_sample t c m n r))"
    using shape_open [OF assms(1,2)] assms(3) by (simp add: record_sample_def Let_def open_appendSample)
  with assms show ?thesis by (simp add: recorder_shape_def record_sample_frame)
qed

lemma shape_recordLiveTick:
  assumes "recorder_shape r" "rc_phase r \<noteq> phase_byte PHASE_DONE"
  shows "recorder_shape (recordLiveTick s n r)" "rc_phase (recordLiveTick s n r) = rc_phase r"
proof -
  note p = shape_presence [OF assms, of s n]
  have st: "recorder_shape (q\<lparr>rc_lastScaleTimestampMs := x\<rparr>) = recorder_shape q" for q x by (simp add: recorder_shape_def)
  show "recorder_shape (recordLiveTick s n r)"
    using p assms(2) by (auto simp: recordLiveTick_def Let_def st intro!: shape_record_sample dest: gramsToCg_weight split: option.split)
  show "rc_phase (recordLiveTick s n r) = rc_phase r"
    using p(2) by (simp add: recordLiveTick_def Let_def record_sample_frame split: option.split)
qed

lemma shape_onIdle: "recorder_shape r \<Longrightarrow> rc_phase r = phase_byte PHASE_IDLE \<Longrightarrow> recorder_shape (onIdle b n u r)"
  by (simp add: onIdle_def shape_transition)

lemma shape_onRunning: "recorder_shape r \<Longrightarrow> rc_phase r = phase_byte PHASE_RUNNING \<Longrightarrow> recorder_shape (onRunning b n p r)"
  by (simp add: onRunning_def shape_transition)

lemma shape_onPostPump:
  "recorder_shape r \<Longrightarrow> rc_phase r = phase_byte PHASE_POST_PUMP \<Longrightarrow> recorder_shape (onPostPump b n s u r)"
  by (simp add: onPostPump_def resumeOrSplitShot_def finalizeIfShotEnded_def Let_def shape_transition)

lemma shape_onDone: "recorder_shape r \<Longrightarrow> recorder_shape (onDone b n u r)"
  by (simp add: onDone_def shape_transition)

lemma shape_update:
  assumes "recorder_shape r"
  shows "recorder_shape (rc_update n p s u r)"
proof -
  let ?r1 = "if is_live r then recordLiveTick s n r else r"
  have "recorder_shape ?r1"
    using assms shape_recordLiveTick [OF assms] by (auto simp: is_live_def)
  then have "recorder_shape (?r1\<lparr>rc_lastScalePresent := sn_present s, rc_lastPumpOn := isOn p\<rparr>)"
    by (simp add: recorder_shape_def)
  then show ?thesis
    unfolding rc_update_def Let_def
    by (simp add: shape_onIdle shape_onRunning shape_onPostPump shape_onDone)
qed

lemma shape_apply: "recorder_shape r \<Longrightarrow> recorder_shape (rc_apply r a)"
proof (cases a)
  case (RcUpdate n p s u)
  assume "recorder_shape r"
  with RcUpdate show ?thesis by (simp add: shape_update)
next
  case RcClear
  assume "recorder_shape r"
  with RcClear show ?thesis by (simp add: rc_clear_def shape_transition)
next
  case (RcTarget tc)
  assume r: "recorder_shape r"
  with RcTarget show ?thesis
    by (auto simp: setTargetSnapshot_def is_live_def rc_phase_def intro!: shape_current shape_open)
next
  case (RcAlarm al)
  assume r: "recorder_shape r"
  with RcAlarm show ?thesis
    by (auto simp: triggerAlarm_def rc_phase_def intro!: shape_current open_appendEvent shape_open)
qed

lemma shape_init: "recorder_shape rc_init"
  using open_default by (simp add: recorder_shape_def rc_init_def rc_phase_def default_extraction_def)

interpretation recorder: invariant_machine rc_step recorder_shape rc_init
  by unfold_locales (simp_all add: shape_init rc_step_def shape_apply)

section \<open>The time line\<close>

text \<open>
  The clock of a run: calls carry times that do not go back and stay below 2^31 ms, 24.8 days
  of uptime, so that \<open>uint32_t\<close> order is the order of time.
\<close>

fun well_timed :: "u32 \<Rightarrow> rc_op list \<Rightarrow> bool" where
  "well_timed t [] \<longleftrightarrow> True"
| "well_timed t (RcUpdate n p s u # ops) \<longleftrightarrow> t \<le> n \<and> n < 2 ^ 31 \<and> well_timed n ops"
| "well_timed t (RcAlarm a # ops) \<longleftrightarrow> t \<le> at_tMs a \<and> at_tMs a < 2 ^ 31 \<and> well_timed (at_tMs a) ops"
| "well_timed t (_ # ops) \<longleftrightarrow> well_timed t ops"

definition open_timeline :: "u32 \<Rightarrow> extraction \<Rightarrow> bool" where
  "open_timeline t e \<longleftrightarrow> ex_events e \<noteq> [] \<and> hd (ex_events e) = plain_event (ex_beginMs e) EV_BEGIN
     \<and> sorted (map ev_tMs (ex_events e)) \<and> list_all (\<lambda>ev. ev_tMs ev \<le> t) (ex_events e)"

definition closed_timeline :: "extraction \<Rightarrow> bool" where
  "closed_timeline e \<longleftrightarrow> hd (ex_events e) = plain_event (ex_beginMs e) EV_BEGIN \<and> sorted (map ev_tMs (ex_events e))
     \<and> (\<exists>evs. evs \<noteq> [] \<and> ex_events e = evs @ [plain_event (ex_endMs e) EV_END]
            \<and> list_all (\<lambda>ev. ex_beginMs e \<le> ev_tMs ev \<and> ev_tMs ev < ex_endMs e) evs)"

definition recorder_timed :: "u32 \<Rightarrow> recorder \<Rightarrow> bool" where
  "recorder_timed t r \<longleftrightarrow> recorder_shape r
     \<and> (is_live r \<longrightarrow> open_timeline t (rc_current r))
     \<and> (rc_phase r = phase_byte PHASE_POST_PUMP \<longrightarrow>
          ex_lastPumpOffConfirmedMs (rc_current r) \<le> t \<and> ex_beginMs (rc_current r) \<le> ex_lastPumpOffConfirmedMs (rc_current r))
     \<and> (rc_phase r = phase_byte PHASE_IDLE \<longrightarrow> ex_events (rc_current r) = [])
     \<and> (rc_finishedSeq r \<noteq> 0 \<longrightarrow> closed_timeline (rc_lastFinished r))"

lemma open_timeline_begin:
  "open_timeline t e \<Longrightarrow> ev \<in> set (ex_events e) \<Longrightarrow> ex_beginMs e \<le> ev_tMs ev"
  by (cases "ex_events e") (auto simp: open_timeline_def)

lemma open_timeline_mono: "open_timeline t e \<Longrightarrow> t \<le> n \<Longrightarrow> open_timeline n e"
  by (auto simp: open_timeline_def list_all_iff)

lemma open_timeline_snoc:
  assumes "open_timeline t e" "t \<le> ev_tMs ev"
  shows "open_timeline (ev_tMs ev) (e\<lparr>ex_events := ex_events e @ [ev]\<rparr>)"
  using assms by (auto simp: open_timeline_def list_all_iff sorted_append)

lemma open_timeline_frame [simp]:
  "open_timeline t (e\<lparr>ex_phase := a\<rparr>) = open_timeline t e" "open_timeline t (e\<lparr>ex_startRawCg := b\<rparr>) = open_timeline t e"
  "open_timeline t (e\<lparr>ex_observedSampleCount := c\<rparr>) = open_timeline t e" "open_timeline t (e\<lparr>ex_samples := d\<rparr>) = open_timeline t e"
  "open_timeline t (e\<lparr>ex_eventsOverflowed := f\<rparr>) = open_timeline t e"
  "open_timeline t (e\<lparr>ex_totalPumpOnMs := g\<rparr>) = open_timeline t e" "open_timeline t (e\<lparr>ex_stableMs := g\<rparr>) = open_timeline t e"
  "open_timeline t (e\<lparr>ex_lastPumpOffConfirmedMs := g\<rparr>) = open_timeline t e"
  "open_timeline t (e\<lparr>ex_hasTargetSnapshot := h\<rparr>) = open_timeline t e" "open_timeline t (e\<lparr>ex_target := tc\<rparr>) = open_timeline t e"
  "open_timeline t (e\<lparr>ex_alarm := al\<rparr>) = open_timeline t e"
  by (simp_all add: open_timeline_def)

lemma open_timeline_append:
  "open_timeline t e \<Longrightarrow> t \<le> n \<Longrightarrow> open_timeline n (appendEvent n k e)"
  using open_timeline_snoc [of t e "plain_event n k"] open_timeline_mono [of t e n] by (simp add: appendEvent_def)

lemma open_timeline_pump_off:
  assumes "open_timeline t e" "t \<le> n"
  shows "open_timeline n (appendPumpOffConfirmedEvent n p e)"
proof -
  have "ev_tMs ((plain_event n EV_PUMP_OFF_CONFIRMED)\<lparr>ev_signalDecayLeadMsPlusOne := w\<rparr>) = n" for w
    by (simp add: plain_event_def)
  then show ?thesis
    using open_timeline_snoc [OF assms(1), of "plain_event n EV_PUMP_OFF_CONFIRMED"] open_timeline_mono [OF assms] assms(2)
      open_timeline_snoc [OF assms(1), of "(plain_event n EV_PUMP_OFF_CONFIRMED)\<lparr>ev_signalDecayLeadMsPlusOne := ucast (n - po_acceptedDecayOnsetMs p + 1)\<rparr>"]
    by (simp add: appendPumpOffConfirmedEvent_def Let_def)
qed

lemma open_timeline_finalize:
  "open_timeline t e \<Longrightarrow> t \<le> n \<Longrightarrow> open_timeline n (appendFinalizeEvent n k e)"
  using open_timeline_snoc [of t e "plain_event n k"] open_timeline_mono [of t e n] by (simp add: appendFinalizeEvent_def)

lemma ensureMonotonic_small:
  assumes "lastTs \<le> ts" "ts < 2 ^ 31"
  shows "ensureMonotonicTimestamp ts lastTs = (if ts = lastTs then ts + 1 else ts)" "lastTs < ensureMonotonicTimestamp ts lastTs"
proof -
  have u: "uint lastTs \<le> uint ts" "uint ts < 2 ^ 31" using assms by (simp_all add: word_le_def word_less_def)
  have d: "uint (ts - lastTs) = uint ts - uint lastTs" using assms(1) by (simp add: uint_sub_lem [THEN iffD1] word_le_def)
  moreover have "uint ts - uint lastTs < 2 ^ 31" using u uint_ge_0 [of lastTs] by linarith
  ultimately have s: "sint (ts - lastTs) = uint ts - uint lastTs" by (simp add: sint_u32)
  have "uint (ts + 1) = uint ts + 1" using u(2) by (simp add: uint_word_ariths)
  then have "uint (ts + 1) \<noteq> 0" "uint ts < uint (ts + 1)" using uint_ge_0 [of ts] by linarith+
  then have n: "ts + 1 \<noteq> 0" "ts < ts + 1" by (auto simp: word_less_def)
  show e: "ensureMonotonicTimestamp ts lastTs = (if ts = lastTs then ts + 1 else ts)"
  proof (cases "ts = lastTs")
    case True
    then show ?thesis using n(1) by (simp add: ensureMonotonicTimestamp_def)
  next
    case False
    then have "uint lastTs < uint ts" using u(1) by (simp add: word_uint_eq_iff)
    moreover from this have "ts \<noteq> 0" using uint_ge_0 [of lastTs] by auto
    ultimately show ?thesis using s False by (simp add: ensureMonotonicTimestamp_def)
  qed
  show "lastTs < ensureMonotonicTimestamp ts lastTs" using e n(2) assms(1) by auto
qed

lemma sorted_last: "sorted xs \<Longrightarrow> x \<in> set xs \<Longrightarrow> x \<le> last xs"
  by (induction xs) auto

lemma close_record_timeline:
  assumes o: "open_timeline t e" "t \<le> n" "n < 2 ^ 31" "length (ex_events e) < MAX_EVENTS"
    and off: "cause = END_TIMEOUT \<longrightarrow> ex_lastPumpOffConfirmedMs e \<le> n \<and> ex_beginMs e \<le> ex_lastPumpOffConfirmedMs e"
  shows "closed_timeline (close_record n cause e)"
proof -
  define i where "i = (if cause = END_TIMEOUT \<and> \<not> hasSampleData e then ex_lastPumpOffConfirmedMs e else n)"
  define evs where "evs = trim_events i (ex_events e)"
  define endMs where "endMs = (if evs \<noteq> [] then ensureMonotonicTimestamp i (ev_tMs (last evs)) else i)"
  obtain zs where zs: "ex_events e = evs @ zs" "list_all (\<lambda>ev. i < ev_tMs ev) zs"
    using trim_events_prefix [of "ex_events e" i] by (auto simp: evs_def)
  have hd: "ex_events e \<noteq> []" "hd (ex_events e) = plain_event (ex_beginMs e) EV_BEGIN" and srt: "sorted (map ev_tMs (ex_events e))"
    using o(1) by (auto simp: open_timeline_def)
  have "ex_beginMs e \<le> n" using open_timeline_begin [OF o(1)] hd o(1,2) by (auto simp: open_timeline_def list_all_iff) (metis hd_in_set order_trans plain_event_sel(1))
  then have i: "ex_beginMs e \<le> i" "i < 2 ^ 31" using off o(3) by (auto simp: i_def)
  have ne: "evs \<noteq> []"
  proof
    assume "evs = []"
    with zs hd have "i < ev_tMs (plain_event (ex_beginMs e) EV_BEGIN)" by (cases zs) auto
    with i(1) show False by simp
  qed
  have "\<not> i < ev_tMs (last evs)"
  proof -
    have "dropWhile (\<lambda>ev. i < ev_tMs ev) (rev (ex_events e)) \<noteq> []" using ne by (simp add: evs_def trim_events_def)
    from hd_dropWhile [OF this] show ?thesis by (simp add: evs_def trim_events_def last_rev)
  qed
  then have lst: "ev_tMs (last evs) \<le> i" by simp
  have endMs: "ev_tMs (last evs) < endMs" using ensureMonotonic_small [OF lst i(2)] ne by (simp add: endMs_def)
  have srt': "sorted (map ev_tMs evs)" using srt zs(1) by (simp add: sorted_append)
  have le_last: "ev_tMs ev \<le> ev_tMs (last evs)" if "ev \<in> set evs" for ev
    using sorted_last [OF srt', of "ev_tMs ev"] that ne by (simp add: last_map)
  have c: "close_record n cause e
      = (e\<lparr>ex_events := evs @ [plain_event endMs EV_END], ex_endMs := endMs, ex_endCause := end_cause_byte cause,
           ex_phase := phase_byte PHASE_DONE\<rparr>)"
    using o(4) length_trim [of i "ex_events e"] unfolding close_record_def Let_def i_def [symmetric] evs_def [symmetric] endMs_def [symmetric]
    by (simp add: appendFinalizeEvent_def)
  have bounds: "list_all (\<lambda>ev. ex_beginMs e \<le> ev_tMs ev \<and> ev_tMs ev < endMs) evs"
    using open_timeline_begin [OF o(1)] le_last endMs zs(1) by (fastforce simp: list_all_iff)
  show ?thesis
    unfolding closed_timeline_def c
    using bounds ne srt' hd zs(1) by (auto simp: sorted_append list_all_iff)
qed

section \<open>Every call keeps the time line\<close>

lemma timed_shape: "recorder_timed t r \<Longrightarrow> recorder_shape r"
  by (simp add: recorder_timed_def)

lemma timed_mono: "recorder_timed t r \<Longrightarrow> t \<le> n \<Longrightarrow> recorder_timed n r"
  by (auto simp: recorder_timed_def intro: open_timeline_mono)

lemma timed_bookkeeping [simp]:
  "recorder_timed t (r\<lparr>rc_lastScaleTimestampMs := a\<rparr>) = recorder_timed t r"
  "recorder_timed t (r\<lparr>rc_lastScalePresent := b\<rparr>) = recorder_timed t r"
  "recorder_timed t (r\<lparr>rc_lastPumpOn := c\<rparr>) = recorder_timed t r"
  by (simp_all add: recorder_timed_def recorder_shape_def is_live_def)

lemma timed_enter_idle: "recorder_timed t r \<Longrightarrow> recorder_timed t (enter_idle r)"
  using shape_enter_idle [of r]
  by (simp add: recorder_timed_def is_live_def) (simp add: enter_idle_def default_extraction_def)

lemma enter_running_frame:
  "rc_finishedSeq (enter_running n u r) = rc_finishedSeq r" "rc_lastFinished (enter_running n u r) = rc_lastFinished r"
  "rc_finishedSeq (enter_post_pump n p r) = rc_finishedSeq r" "rc_lastFinished (enter_post_pump n p r) = rc_lastFinished r"
  by (simp_all add: enter_running_def enter_post_pump_def Let_def)

lemma timed_enter_running:
  assumes "recorder_timed t r" "t \<le> n" "rc_phase r = phase_byte PHASE_IDLE \<or> rc_phase r = phase_byte PHASE_POST_PUMP"
  shows "recorder_timed n (enter_running n u r)"
proof -
  have "open_timeline n (rc_current (enter_running n u r))"
  proof (cases "rc_phase r = phase_byte PHASE_IDLE")
    case True
    then have "open_timeline n (appendEvent n EV_BEGIN ((rc_current r)\<lparr>ex_beginMs := n, ex_startUtcSec := u\<rparr>))"
      using assms(1) by (simp add: recorder_timed_def appendEvent_def open_timeline_def timeout_consts)
    then show ?thesis
      using True by (simp add: enter_running_def Let_def rc_phase_def open_timeline_append)
  next
    case False
    with assms(3) have "open_timeline t (rc_current r)" using assms(1) by (simp add: recorder_timed_def is_live_def)
    with assms(2) False show ?thesis
      by (simp add: enter_running_def Let_def rc_phase_def open_timeline_append)
  qed
  moreover have "recorder_shape (enter_running n u r)"
    using assms(3) timed_shape [OF assms(1)] by (auto intro!: shape_enter_running)
  ultimately show ?thesis using assms(1) by (simp add: recorder_timed_def is_live_def enter_running_frame)
qed

lemma timed_enter_post_pump:
  assumes "recorder_timed t r" "t \<le> n" "rc_phase r = phase_byte PHASE_RUNNING"
  shows "recorder_timed n (enter_post_pump n p r)"
proof -
  have o: "open_timeline t (rc_current r)" using assms(1,3) by (simp add: recorder_timed_def is_live_def)
  then have "ex_beginMs (rc_current r) \<le> n"
    using assms(2) by (cases "ex_events (rc_current r)") (auto simp: open_timeline_def)
  moreover have "open_timeline n (rc_current (enter_post_pump n p r))"
    using o assms(2) by (simp add: enter_post_pump_def Let_def open_timeline_pump_off)
  moreover have "recorder_shape (enter_post_pump n p r)"
    using assms(3) timed_shape [OF assms(1)] by (auto intro!: shape_enter_post_pump)
  ultimately show ?thesis
    using assms(1) by (simp add: recorder_timed_def is_live_def enter_running_frame) (simp add: enter_post_pump_def Let_def)
qed

lemma open_timeline_settle [simp]:
  "open_timeline t (settle_yield e) = open_timeline t e" "open_timeline t (settle_evidence c e) = open_timeline t e"
  by (simp_all add: open_timeline_def)

lemma timed_enter_done:
  assumes r: "recorder_timed t r" "t \<le> n" "n < 2 ^ 31" "rc_phase r = phase_byte PHASE_POST_PUMP"
    and c: "cause = END_STABLE \<or> cause = END_TIMEOUT"
  shows "recorder_timed n (enter_done n cause r)"
proof -
  let ?e1 = "if cause = END_STABLE then (appendFinalizeEvent n EV_STABLE_DETECTED (rc_current r))\<lparr>ex_stableMs := n\<rparr> else rc_current r"
  let ?e2 = "settle_yield (settle_evidence (rc_lastRawCg r) ?e1)"
  have o: "open_timeline t (rc_current r)" using r(1,4) by (simp add: recorder_timed_def is_live_def)
  have "open_shape (rc_current r)" using r(1,4) shape_open timed_shape by simp
  then have len: "length (ex_events (rc_current r)) \<le> 62" by (simp add: open_shape_def timeout_consts)
  have "open_timeline n ?e2" using o r(2) by (auto simp: open_timeline_finalize intro: open_timeline_mono)
  moreover have "length (ex_events ?e2) < MAX_EVENTS" using len by (simp add: appendFinalize_events MAX_EVENTS_def)
  moreover have "cause = END_TIMEOUT \<longrightarrow> ex_lastPumpOffConfirmedMs ?e2 \<le> n \<and> ex_beginMs ?e2 \<le> ex_lastPumpOffConfirmedMs ?e2"
    using r(1,2,4) by (auto simp: recorder_timed_def)
  ultimately have "closed_timeline (close_record n cause ?e2)"
    using close_record_timeline [of n ?e2 n cause] r(3) by simp
  then have "closed_timeline (rc_current (enter_done n cause r))" by (simp add: enter_done_def Let_def)
  moreover have "recorder_shape (enter_done n cause r)"
    using shape_enter_done [OF timed_shape [OF r(1)] _ c] r(4) by simp
  ultimately show ?thesis
    by (simp add: recorder_timed_def is_live_def) (simp add: enter_done_def Let_def)
qed

text \<open>The three kinds of moves an update makes.\<close>

lemma timed_to_idle: "recorder_timed t r \<Longrightarrow> recorder_timed t (transitionTo PHASE_IDLE n p c u r)"
  by (simp add: transitionTo_def timed_enter_idle)

lemma timed_to_running:
  assumes "recorder_timed t r" "t \<le> n" "rc_phase r = phase_byte PHASE_IDLE \<or> rc_phase r = phase_byte PHASE_POST_PUMP"
  shows "recorder_timed n (transitionTo PHASE_RUNNING n p c u r)"
  using timed_enter_running [OF assms] timed_mono [OF assms(1,2)] by (simp add: transitionTo_def)

lemma timed_to_done:
  assumes "recorder_timed t r" "t \<le> n" "n < 2 ^ 31" "rc_phase r = phase_byte PHASE_POST_PUMP"
    and "cause = END_STABLE \<or> cause = END_TIMEOUT"
  shows "recorder_timed n (transitionTo PHASE_DONE n p cause u r)"
  using timed_enter_done [OF assms] assms(4) by (simp add: transitionTo_def)

lemma timed_presence:
  assumes "recorder_timed t r" "t \<le> n" "is_live r"
  shows "recorder_timed n (record_presence s n r)"
proof -
  have nd: "rc_phase r \<noteq> phase_byte PHASE_DONE" "rc_phase r \<noteq> phase_byte PHASE_IDLE" using assms(3) by (auto simp: is_live_def)
  note sh = shape_presence [OF timed_shape [OF assms(1)] nd(1), of s n]
  have o: "open_timeline t (rc_current r)" using assms(1,3) by (simp add: recorder_timed_def)
  have "open_timeline n (rc_current (record_presence s n r))"
    using open_timeline_append [OF o assms(2)] open_timeline_mono [OF o assms(2)] by (simp add: record_presence_def)
  moreover have "ex_lastPumpOffConfirmedMs (rc_current (record_presence s n r)) = ex_lastPumpOffConfirmedMs (rc_current r)"
    "ex_beginMs (rc_current (record_presence s n r)) = ex_beginMs (rc_current r)"
    "rc_finishedSeq (record_presence s n r) = rc_finishedSeq r" "rc_lastFinished (record_presence s n r) = rc_lastFinished r"
    by (simp_all add: record_presence_def)
  ultimately show ?thesis using sh assms(1,2) nd by (auto simp: recorder_timed_def)
qed

lemma timed_record_sample:
  assumes "recorder_timed t r" "is_live r" "c \<noteq> NO_WEIGHT"
  shows "recorder_timed t (record_sample ts c m n r)"
proof -
  have nd: "rc_phase r \<noteq> phase_byte PHASE_DONE" "rc_phase r \<noteq> phase_byte PHASE_IDLE" using assms(2) by (auto simp: is_live_def)
  have "ex_events (rc_current (record_sample ts c m n r)) = ex_events (rc_current r)"
    "ex_beginMs (rc_current (record_sample ts c m n r)) = ex_beginMs (rc_current r)"
    "ex_lastPumpOffConfirmedMs (rc_current (record_sample ts c m n r)) = ex_lastPumpOffConfirmedMs (rc_current r)"
    by (simp_all add: record_sample_def Let_def)
  then show ?thesis
    using assms(1) nd shape_record_sample [OF timed_shape [OF assms(1)] nd(1) assms(3), of ts m n]
    by (simp add: recorder_timed_def record_sample_frame is_live_def open_timeline_def)
qed

lemma timed_recordLiveTick:
  assumes "recorder_timed t r" "t \<le> n" "is_live r"
  shows "recorder_timed n (recordLiveTick s n r)"
proof -
  have nd: "rc_phase r \<noteq> phase_byte PHASE_DONE" using assms(3) by (auto simp: is_live_def)
  have p: "recorder_timed n (record_presence s n r)" by (rule timed_presence [OF assms])
  have l: "is_live (record_presence s n r)"
    using shape_presence(2) [OF timed_shape [OF assms(1)] nd, of s n] assms(3) by (simp add: is_live_def)
  have l': "is_live ((record_presence s n r)\<lparr>rc_lastScaleTimestampMs := x\<rparr>)" for x using l by (simp add: is_live_def)
  show ?thesis
    using p l' by (auto simp: recordLiveTick_def Let_def intro!: timed_record_sample dest: gramsToCg_weight split: option.split)
qed

lemma timed_onPostPump:
  assumes "recorder_timed n r" "n < 2 ^ 31" "rc_phase r = phase_byte PHASE_POST_PUMP"
  shows "recorder_timed n (onPostPump b n s u r)"
  using assms
  by (simp add: onPostPump_def resumeOrSplitShot_def finalizeIfShotEnded_def Let_def
    timed_to_running [OF _ order_refl] timed_to_idle timed_to_done [OF _ order_refl])

lemma timed_update:
  assumes "recorder_timed t r" "t \<le> n" "n < 2 ^ 31"
  shows "recorder_timed n (rc_update n p s u r)"
proof -
  let ?r1 = "if is_live r then recordLiveTick s n r else r"
  let ?r2 = "?r1\<lparr>rc_lastScalePresent := sn_present s, rc_lastPumpOn := isOn p\<rparr>"
  have "recorder_timed n ?r1"
    using timed_recordLiveTick [OF assms(1,2)] timed_mono [OF assms(1,2)] by simp
  then have r2: "recorder_timed n ?r2" by simp
  have "recorder_timed n (onIdle b n u ?r2)" if "rc_phase ?r2 = phase_byte PHASE_IDLE" for b
    using r2 that by (simp add: onIdle_def timed_to_running [OF _ order_refl])
  moreover have "recorder_timed n (onRunning b n p ?r2)" if "rc_phase ?r2 = phase_byte PHASE_RUNNING" for b
    using r2 that timed_enter_post_pump [OF r2 order_refl that] by (simp add: onRunning_def transitionTo_def)
  moreover have "recorder_timed n (onPostPump b n s u ?r2)" if "rc_phase ?r2 = phase_byte PHASE_POST_PUMP" for b
    by (rule timed_onPostPump [OF r2 assms(3) that])
  moreover have "recorder_timed n (onDone b n u ?r2)" for b
    using r2 timed_to_idle [OF r2] by (simp add: onDone_def timed_to_running [OF _ order_refl])
  ultimately show ?thesis
    using r2 unfolding rc_update_def Let_def by simp
qed

lemma timed_alarm:
  assumes "recorder_timed t r" "t \<le> at_tMs a"
  shows "recorder_timed (at_tMs a) (triggerAlarm a r)"
proof (cases "at_tMs (ex_alarm (rc_current r)) \<noteq> 0 \<or> rc_phase r \<noteq> phase_byte PHASE_RUNNING")
  case True
  then have "triggerAlarm a r = r" by (auto simp: triggerAlarm_def)
  then show ?thesis using timed_mono [OF assms] by simp
next
  case False
  then have eq: "triggerAlarm a r
      = r\<lparr>rc_current := appendEvent (at_tMs a) EV_ALARM_TRIGGERED ((rc_current r)\<lparr>ex_alarm := a\<rparr>)\<rparr>"
    by (simp add: triggerAlarm_def)
  have "open_timeline (at_tMs a) (appendEvent (at_tMs a) EV_ALARM_TRIGGERED ((rc_current r)\<lparr>ex_alarm := a\<rparr>))"
    using assms False by (intro open_timeline_append) (auto simp: recorder_timed_def is_live_def)
  moreover have "recorder_shape (triggerAlarm a r)" using shape_apply [OF timed_shape [OF assms(1)], of "RcAlarm a"] by simp
  ultimately show ?thesis using assms(1) False by (simp add: recorder_timed_def eq) (simp add: is_live_def rc_phase_def)
qed

lemma timed_target:
  assumes "recorder_timed t r"
  shows "recorder_timed t (setTargetSnapshot tc r)"
proof -
  have "recorder_shape (setTargetSnapshot tc r)" using shape_apply [OF timed_shape [OF assms], of "RcTarget tc"] by simp
  with assms show ?thesis by (simp add: recorder_timed_def setTargetSnapshot_def) (simp add: is_live_def rc_phase_def)
qed

lemma timed_run:
  "recorder_timed t r \<Longrightarrow> well_timed t ops \<Longrightarrow> \<exists>n. recorder_timed n (run rc_step r ops)"
proof (induction t ops arbitrary: r rule: well_timed.induct)
  case (1 t)
  then show ?case by auto
next
  case (2 t n p s u ops)
  then show ?case using timed_update [of t r n p s u] by (simp add: rc_step_def)
next
  case (3 t a ops)
  then show ?case using timed_alarm [of t r a] by (simp add: rc_step_def)
qed (use timed_to_idle timed_target in \<open>auto simp: rc_step_def rc_clear_def\<close>)

lemma timed_init: "recorder_timed 0 rc_init"
  using shape_init by (simp add: recorder_timed_def is_live_def) (simp add: rc_init_def rc_phase_def default_extraction_def)

section \<open>Finishing\<close>

text \<open>A call finishes at most one record, from a shot whose pump is off; clear forgets none.\<close>

definition finishes :: "(extraction \<Rightarrow> bool) \<Rightarrow> recorder \<Rightarrow> recorder \<Rightarrow> bool" where
  "finishes P r r' \<longleftrightarrow>
     rc_finishedSeq r' = rc_finishedSeq r \<and> rc_lastFinished r' = rc_lastFinished r
   \<or> rc_finishedSeq r' = rc_finishedSeq r + 1 \<and> P (rc_lastFinished r')"

lemma finishes_id: "rc_finishedSeq r' = rc_finishedSeq r \<Longrightarrow> rc_lastFinished r' = rc_lastFinished r \<Longrightarrow> finishes P r r'"
  by (simp add: finishes_def)

lemma idle_keeps [simp]:
  "rc_finishedSeq (transitionTo PHASE_IDLE n p c u r) = rc_finishedSeq r" "rc_lastFinished (transitionTo PHASE_IDLE n p c u r) = rc_lastFinished r"
  "rc_finishedSeq (transitionTo PHASE_RUNNING n p c u r) = rc_finishedSeq r" "rc_lastFinished (transitionTo PHASE_RUNNING n p c u r) = rc_lastFinished r"
  "rc_finishedSeq (transitionTo PHASE_POST_PUMP n p c u r) = rc_finishedSeq r" "rc_lastFinished (transitionTo PHASE_POST_PUMP n p c u r) = rc_lastFinished r"
  by (simp_all add: transitionTo_def enter_running_frame) (simp_all add: enter_idle_def)

lemma to_done_post:
  "rc_phase r = phase_byte PHASE_POST_PUMP \<Longrightarrow> transitionTo PHASE_DONE n p c u r = enter_done n c r"
  by (simp add: transitionTo_def)

lemma record_tick_keeps [simp]:
  "rc_finishedSeq (recordLiveTick s n r) = rc_finishedSeq r" "rc_lastFinished (recordLiveTick s n r) = rc_lastFinished r"
  by (simp_all add: recordLiveTick_def Let_def record_sample_frame record_presence_def split: option.split)

lemma enter_done_keeps [simp]:
  "rc_finishedSeq (enter_done n c r) = rc_finishedSeq r + 1" "rc_lastFinished (enter_done n c r) = rc_current (enter_done n c r)"
  by (simp_all add: enter_done_def Let_def)

lemma finishes_onPostPump:
  assumes P: "\<And>n cause. cause = END_STABLE \<or> cause = END_TIMEOUT \<Longrightarrow> P (rc_current (enter_done n cause q))"
    and q: "rc_phase q = phase_byte PHASE_POST_PUMP"
  shows "finishes P q (onPostPump b n s u q)"
proof -
  have fin: "finishes P q (enter_done n c q)" if "c = END_STABLE \<or> c = END_TIMEOUT" for n c
    using P [OF that] by (simp add: finishes_def)
  then have "finishes P q (transitionTo PHASE_RUNNING n a d v (transitionTo PHASE_IDLE n a' d' v' (enter_done n c q)))"
    if "c = END_STABLE \<or> c = END_TIMEOUT" for n a d v a' d' v' c
    using that by (simp add: finishes_def)
  with fin show ?thesis
    using q by (simp add: onPostPump_def resumeOrSplitShot_def finalizeIfShotEnded_def Let_def to_done_post finishes_id)
qed

lemma finishes_update:
  assumes P: "\<And>q n cause. rc_phase q = phase_byte PHASE_POST_PUMP \<Longrightarrow> recorder_shape q
      \<Longrightarrow> cause = END_STABLE \<or> cause = END_TIMEOUT \<Longrightarrow> P (rc_current (enter_done n cause q))"
    and r: "recorder_shape r"
  shows "finishes P r (rc_update n p s u r)"
proof -
  define r1 where "r1 = (if is_live r then recordLiveTick s n r else r)"
  define r2 where "r2 = r1\<lparr>rc_lastScalePresent := sn_present s, rc_lastPumpOn := isOn p\<rparr>"
  have eq: "rc_finishedSeq r2 = rc_finishedSeq r" "rc_lastFinished r2 = rc_lastFinished r" by (simp_all add: r1_def r2_def)
  have "recorder_shape r1" using r shape_recordLiveTick [OF r] by (auto simp: is_live_def r1_def)
  then have sh: "recorder_shape r2" by (simp add: recorder_shape_def r2_def)
  have post: "finishes P r2 (onPostPump b n s u r2)" if "rc_phase r2 = phase_byte PHASE_POST_PUMP" for b
    by (rule finishes_onPostPump [OF _ that]) (rule P [OF that sh])
  have "finishes P r2 (rc_update n p s u r)"
    unfolding rc_update_def Let_def r1_def [symmetric] r2_def [symmetric]
    using post by (simp add: onIdle_def onRunning_def onDone_def finishes_id)
  then show ?thesis by (simp only: finishes_def eq)
qed

lemma finishes_apply:
  assumes "\<And>q n cause. rc_phase q = phase_byte PHASE_POST_PUMP \<Longrightarrow> recorder_shape q
      \<Longrightarrow> cause = END_STABLE \<or> cause = END_TIMEOUT \<Longrightarrow> P (rc_current (enter_done n cause q))"
    and "recorder_shape r"
  shows "finishes P r (rc_apply r a)"
  using finishes_update [where P = P, OF assms]
  by (cases a) (auto intro!: finishes_id simp: rc_clear_def setTargetSnapshot_def triggerAlarm_def)

lemma finished_run:
  assumes "\<And>q n cause. rc_phase q = phase_byte PHASE_POST_PUMP \<Longrightarrow> recorder_shape q
      \<Longrightarrow> cause = END_STABLE \<or> cause = END_TIMEOUT \<Longrightarrow> P (rc_current (enter_done n cause q))"
  shows "rc_finishedSeq (run rc_step rc_init ops) \<noteq> 0 \<Longrightarrow> P (rc_lastFinished (run rc_step rc_init ops))"
proof (induction ops rule: rev_induct)
  case Nil
  then show ?case by (simp add: rc_init_def)
next
  case (snoc a ops)
  from finishes_apply [where P = P, OF assms recorder.inv_reach, of ops a] snoc show ?case
    by (auto simp: finishes_def)
qed

section \<open>Properties\<close>

text \<open>C1: every record the recorder publishes is complete, whatever calls led to it: it fits the arrays
  and the wire format, has the current version, a real end cause and exactly one END event,
  which is its last and stamped with the end time.\<close>

theorem finished_record_complete:
  assumes "rc_finishedSeq (run rc_step rc_init ops) \<noteq> 0"
  shows "wire_wf (rc_lastFinished (run rc_step rc_init ops))
     \<and> ex_version (rc_lastFinished (run rc_step rc_init ops)) = kCurrentExtractionVersion
     \<and> ex_phase (rc_lastFinished (run rc_step rc_init ops)) = phase_byte PHASE_DONE
     \<and> ex_endCause (rc_lastFinished (run rc_step rc_init ops)) \<in> {end_cause_byte END_STABLE, end_cause_byte END_TIMEOUT}
     \<and> (\<exists>evs. ex_events (rc_lastFinished (run rc_step rc_init ops))
               = evs @ [plain_event (ex_endMs (rc_lastFinished (run rc_step rc_init ops))) EV_END]
            \<and> list_all (\<lambda>ev. ev_kind ev \<noteq> event_kind_byte EV_END) evs)"
  using recorder.inv_reach [of ops] assms by (auto simp: recorder_shape_def closed_shape_def)

definition pump_on :: pump_signal where
  "pump_on = no_pump_signal\<lparr>po_state := PumpOn\<rparr>"

definition no_scale :: scale_snapshot where
  "no_scale = \<lparr>sn_present = False, sn_grams = NotFinite, sn_timestampMs = 0, sn_scaleTimerMs = UNKNOWN_MS, sn_sequence = 0\<rparr>"

definition flush_ops :: "rc_op list" where
  "flush_ops = [RcUpdate 1000 pump_on no_scale 0, RcUpdate 4000 no_pump_signal no_scale 0, RcUpdate 9001 no_pump_signal no_scale 0]"

lemma flush_finished: "rc_finishedSeq (run rc_step rc_init flush_ops) \<noteq> 0"
  by code_simp

lemma finished_record_complete_witness:
  "wire_wf (rc_lastFinished (run rc_step rc_init flush_ops))"
  using finished_record_complete [OF flush_finished] by blast

text \<open>C2: when calls come in the order of the clock, a published record is a time line: it starts with
  BEGIN at its begin time, its events never go back, all lie within the record, and END is
  strictly later than every other event.\<close>

theorem finished_record_timeline:
  assumes "well_timed 0 ops" and "rc_finishedSeq (run rc_step rc_init ops) \<noteq> 0"
  shows "hd (ex_events (rc_lastFinished (run rc_step rc_init ops)))
           = plain_event (ex_beginMs (rc_lastFinished (run rc_step rc_init ops))) EV_BEGIN
     \<and> sorted (map ev_tMs (ex_events (rc_lastFinished (run rc_step rc_init ops))))
     \<and> (\<exists>evs. evs \<noteq> [] \<and> ex_events (rc_lastFinished (run rc_step rc_init ops))
               = evs @ [plain_event (ex_endMs (rc_lastFinished (run rc_step rc_init ops))) EV_END]
            \<and> list_all (\<lambda>ev. ex_beginMs (rc_lastFinished (run rc_step rc_init ops)) \<le> ev_tMs ev
                           \<and> ev_tMs ev < ex_endMs (rc_lastFinished (run rc_step rc_init ops))) evs)"
proof -
  obtain n where "recorder_timed n (run rc_step rc_init ops)" using timed_run [OF timed_init assms(1)] by blast
  with assms(2) have "closed_timeline (rc_lastFinished (run rc_step rc_init ops))" by (simp add: recorder_timed_def)
  then show ?thesis by (simp add: closed_timeline_def)
qed

lemma finished_record_timeline_witness:
  "sorted (map ev_tMs (ex_events (rc_lastFinished (run rc_step rc_init flush_ops))))"
  using finished_record_timeline [OF _ flush_finished] by (simp add: flush_ops_def)

section \<open>The yield\<close>

definition yield_sound :: "extraction \<Rightarrow> bool" where
  "yield_sound e \<longleftrightarrow>
     (let ev = computePourEvidence (ex_samples e) in
        ex_pourMs e = pe_pourMs ev \<and> sint (ex_decisionGainCg e) = pe_gainCg ev
      \<and> (ex_yieldStatus e = yield_status_byte YIELD_NONE \<longleftrightarrow> \<not> pe_hasPour ev)
      \<and> (\<not> pe_hasPour ev \<longrightarrow> ex_yieldCg e = 0 \<or> ex_yieldCg e = NO_WEIGHT)
      \<and> (ex_yieldStatus e = yield_status_byte YIELD_OK \<and> ex_startRawCg e \<noteq> NO_WEIGHT \<and> ex_settledRawCg e \<noteq> NO_WEIGHT
           \<longrightarrow> ex_yieldCg e = saturateCg (word_of_int (sint (ex_settledRawCg e) - sint (ex_startRawCg e))))
      \<and> (isLikelyRealShot e \<and> ex_yieldCg e \<noteq> NO_WEIGHT
           \<longrightarrow> pe_gainCg ev * 3 < sint (ex_yieldCg e) * 4 \<or> ex_yieldCg e = saturateCg (ex_decisionGainCg e)))"

lemma gain_fits: "length ss \<le> MAX_SAMPLES \<Longrightarrow> sint (word_of_int (pe_gainCg (computePourEvidence ss)) :: i32) = pe_gainCg (computePourEvidence ss)"
  using evidence_gain [of ss] by (intro sint_i32_of_int) (simp_all add: MAX_SAMPLES_def)

lemma saturate_zero [simp]: "saturateCg 0 = 0"
  by (simp add: saturateCg_def)

lemma yield_status_byte_eq [simp]: "yield_status_byte a = yield_status_byte b \<longleftrightarrow> a = b"
  by (cases a; cases b) simp_all

declare yield_status_byte.simps [simp del]

lemma settle_no_pour:
  assumes "\<not> pe_hasPour (computePourEvidence (ex_samples e))"
  shows "yield_sound (settle_yield (settle_evidence c e))"
proof -
  note ev = no_pour_evidence [OF assms]
  show ?thesis
    by (simp add: yield_sound_def settle_yield_def settle_evidence_def Let_def ev no_evidence_def isLikelyRealShot_def)
qed

lemma settle_pour:
  assumes p: "pe_hasPour (computePourEvidence (ex_samples e))" and n: "length (ex_samples e) \<le> MAX_SAMPLES"
  shows "yield_sound (settle_yield (settle_evidence c e))"
proof -
  define ev where "ev = computePourEvidence (ex_samples e)"
  define q where "q = settle_evidence c e"
  have q: "ex_samples q = ex_samples e" "ex_pourMs q = pe_pourMs ev" "sint (ex_decisionGainCg q) = pe_gainCg ev"
    "ex_yieldStatus q = yield_status_byte YIELD_OK"
    using gain_fits [OF n] p by (simp_all add: q_def settle_evidence_def Let_def ev_def)
  have real: "isLikelyRealShot (settle_yield q) = isLikelyRealShot q" by (simp add: isLikelyRealShot_def)
  have gain: "0 < pe_gainCg ev" if "isLikelyRealShot q" using that q(3) by (simp add: isLikelyRealShot_def)
  define found where "found = (if isLikelyRealShot q \<and> pe_hasPour ev
      then endpointBeforePostPumpDiscontinuity (ex_samples q) (ex_lastPumpOffConfirmedMs q) else None)"
  define y where "y = (if ex_startRawCg q \<noteq> NO_WEIGHT \<and> (case found of None \<Rightarrow> ex_settledRawCg q | Some cg \<Rightarrow> cg) \<noteq> NO_WEIGHT
      then saturateCg (word_of_int (sint (case found of None \<Rightarrow> ex_settledRawCg q | Some cg \<Rightarrow> cg) - sint (ex_startRawCg q)))
      else NO_WEIGHT)"
  define low where "low \<longleftrightarrow> isLikelyRealShot q \<and> y \<noteq> NO_WEIGHT \<and> 0 < pe_gainCg ev \<and> sint y * 4 \<le> pe_gainCg ev * 3"
  have cg: "ex_yieldCg (settle_yield q) = (if low then saturateCg (ex_decisionGainCg q) else y)"
    unfolding settle_yield_def Let_def q(1) ev_def [symmetric] found_def [unfolded q(1), symmetric] y_def [symmetric] low_def [symmetric]
    by (simp only: if_distrib [of ex_yieldCg]) simp
  have st: "ex_yieldStatus (settle_yield q) = yield_status_byte (if low \<or> found \<noteq> None then YIELD_DISTURBED else YIELD_OK)"
    unfolding settle_yield_def Let_def q(1) ev_def [symmetric] found_def [unfolded q(1), symmetric] y_def [symmetric] low_def [symmetric]
    by (simp add: q(4))
  have big: "pe_gainCg ev * 3 < sint y * 4" if "isLikelyRealShot q" "y \<noteq> NO_WEIGHT" "\<not> low"
    using that gain by (auto simp: low_def)
  have ok: "y = saturateCg (word_of_int (sint (ex_settledRawCg q) - sint (ex_startRawCg q)))"
    if "found = None" "ex_startRawCg q \<noteq> NO_WEIGHT" "ex_settledRawCg q \<noteq> NO_WEIGHT"
    using that by (simp add: y_def)
  have "yield_sound (settle_yield q)"
    unfolding yield_sound_def Let_def real settle_frame q(1-3) ev_def [symmetric] cg st
    using p big ok by (auto simp: ev_def)
  then show ?thesis by (simp add: q_def)
qed

lemma settle_sound: "length (ex_samples e) \<le> MAX_SAMPLES \<Longrightarrow> yield_sound (settle_yield (settle_evidence c e))"
  using settle_pour settle_no_pour by blast

lemma yield_sound_frame:
  "ex_samples a = ex_samples b \<Longrightarrow> ex_pourMs a = ex_pourMs b \<Longrightarrow> ex_decisionGainCg a = ex_decisionGainCg b
   \<Longrightarrow> ex_yieldStatus a = ex_yieldStatus b \<Longrightarrow> ex_yieldCg a = ex_yieldCg b \<Longrightarrow> ex_startRawCg a = ex_startRawCg b
   \<Longrightarrow> ex_settledRawCg a = ex_settledRawCg b \<Longrightarrow> yield_sound a = yield_sound b"
  by (simp add: yield_sound_def isLikelyRealShot_def)

lemma yield_sound_close: "yield_sound (close_record n cause e) = yield_sound e"
  by (rule yield_sound_frame) (simp_all add: close_record_def appendFinalizeEvent_def Let_def)

lemma enter_done_current:
  "rc_current (enter_done n cause r) = close_record n cause (settle_yield (settle_evidence (rc_lastRawCg r)
     (if cause = END_STABLE then (appendFinalizeEvent n EV_STABLE_DETECTED (rc_current r))\<lparr>ex_stableMs := n\<rparr> else rc_current r)))"
  by (simp add: enter_done_def Let_def)

lemma yield_sound_done:
  assumes "length (ex_samples (rc_current r)) \<le> MAX_SAMPLES"
  shows "yield_sound (rc_current (enter_done n cause r))"
  unfolding enter_done_current yield_sound_close by (rule settle_sound) (simp add: assms)

text \<open>The yield of a published record: NONE exactly when its samples hold no pour, and then zero or no
  weight; OK is the settled weight less the start weight; and a real shot never shows less
  than three quarters of what its pours added, unless it shows just that sum.\<close>

theorem finished_yield:
  assumes "rc_finishedSeq (run rc_step rc_init ops) \<noteq> 0" and "e = rc_lastFinished (run rc_step rc_init ops)"
    and "ev = computePourEvidence (ex_samples e)"
  shows "ex_pourMs e = pe_pourMs ev \<and> sint (ex_decisionGainCg e) = pe_gainCg ev
     \<and> (ex_yieldStatus e = yield_status_byte YIELD_NONE \<longleftrightarrow> \<not> pe_hasPour ev)
     \<and> (\<not> pe_hasPour ev \<longrightarrow> ex_yieldCg e = 0 \<or> ex_yieldCg e = NO_WEIGHT)
     \<and> (ex_yieldStatus e = yield_status_byte YIELD_OK \<and> ex_startRawCg e \<noteq> NO_WEIGHT \<and> ex_settledRawCg e \<noteq> NO_WEIGHT
          \<longrightarrow> ex_yieldCg e = saturateCg (word_of_int (sint (ex_settledRawCg e) - sint (ex_startRawCg e))))
     \<and> (isLikelyRealShot e \<and> ex_yieldCg e \<noteq> NO_WEIGHT
          \<longrightarrow> pe_gainCg ev * 3 < sint (ex_yieldCg e) * 4 \<or> ex_yieldCg e = saturateCg (ex_decisionGainCg e))"
proof -
  have "yield_sound (rc_lastFinished (run rc_step rc_init ops))"
  proof (rule finished_run [OF _ assms(1)])
    fix q n cause
    assume "rc_phase q = phase_byte PHASE_POST_PUMP" "recorder_shape q"
    then have "length (ex_samples (rc_current q)) \<le> MAX_SAMPLES" using shape_open [of q] by (simp add: open_shape_def)
    then show "yield_sound (rc_current (enter_done n cause q))" by (rule yield_sound_done)
  qed
  then show ?thesis by (simp add: yield_sound_def Let_def assms(2,3))
qed

lemma finished_yield_witness:
  "ex_yieldCg (rc_lastFinished (run rc_step rc_init flush_ops)) \<in> {0, NO_WEIGHT}"
proof -
  have "\<not> pe_hasPour (computePourEvidence (ex_samples (rc_lastFinished (run rc_step rc_init flush_ops))))"
    by code_simp
  with finished_yield [OF flush_finished refl refl] show ?thesis by blast
qed

section \<open>The wait after the pump\<close>

lemma record_tick_post:
  assumes "rc_phase r = phase_byte PHASE_POST_PUMP"
  shows "rc_phase (recordLiveTick s n r) = phase_byte PHASE_POST_PUMP"
    "ex_lastPumpOffConfirmedMs (rc_current (recordLiveTick s n r)) = ex_lastPumpOffConfirmedMs (rc_current r)"
  using assms
  by (simp_all add: recordLiveTick_def record_presence_def record_sample_def Let_def rc_phase_def split: option.split)

text \<open>C9: once the pump is off a shot cannot stay open: the first update more than 12 s after the confirmed
  pump-off publishes it, more than 5 s after when the samples hold no unsettled pour.\<close>

theorem shot_ends_after_pump:
  assumes "rc_phase r = phase_byte PHASE_POST_PUMP" and "\<not> isOn p"
    and "(if hasUnsettledPour (rc_tracker (recordLiveTick s nowMs r)) then 12000 else 5000)
           < nowMs - ex_lastPumpOffConfirmedMs (rc_current r)"
  shows "rc_phase (rc_update nowMs p s utcSec r) = phase_byte PHASE_DONE
     \<and> rc_finishedSeq (rc_update nowMs p s utcSec r) = rc_finishedSeq r + 1
     \<and> rc_lastFinished (rc_update nowMs p s utcSec r) = rc_current (rc_update nowMs p s utcSec r)"
proof -
  define q where "q = (recordLiveTick s nowMs r)\<lparr>rc_lastScalePresent := sn_present s, rc_lastPumpOn := isOn p\<rparr>"
  have live: "is_live r" using assms(1) by (simp add: is_live_def)
  have q: "rc_phase q = phase_byte PHASE_POST_PUMP" "rc_tracker q = rc_tracker (recordLiveTick s nowMs r)"
    "ex_lastPumpOffConfirmedMs (rc_current q) = ex_lastPumpOffConfirmedMs (rc_current r)"
    "rc_finishedSeq q = rc_finishedSeq r"
    using record_tick_post [OF assms(1)] by (simp_all add: q_def)
  have upd: "rc_update nowMs p s utcSec r = finalizeIfShotEnded nowMs q"
    using live assms(2) record_tick_post(1) [OF assms(1), of s nowMs]
    by (simp add: rc_update_def Let_def q_def onPostPump_def)
  obtain cause where "finalizeIfShotEnded nowMs q = enter_done nowMs cause q"
  proof (cases "settledCountReached (rc_tracker q)")
    case True
    then show ?thesis using that q(1) by (simp add: finalizeIfShotEnded_def to_done_post)
  next
    case False
    then have "finalizeIfShotEnded nowMs q = enter_done nowMs END_TIMEOUT q"
      using assms(3) q(1,3) unfolding q(2) [symmetric]
      by (auto simp: finalizeIfShotEnded_def to_done_post Let_def timeout_consts split: if_splits)
    then show ?thesis by (rule that)
  qed
  then show ?thesis using q(4) upd by simp
qed

definition waiting :: recorder where
  "waiting = run rc_step rc_init [RcUpdate 1000 pump_on no_scale 0, RcUpdate 4000 no_pump_signal no_scale 0]"

lemma shot_ends_after_pump_witness:
  "rc_phase (rc_update 9001 no_pump_signal no_scale 0 waiting) = phase_byte PHASE_DONE"
proof -
  have "rc_phase waiting = phase_byte PHASE_POST_PUMP" by code_simp
  moreover have "\<not> isOn no_pump_signal" by (simp add: isOn_def no_pump_signal_def)
  moreover have "(if hasUnsettledPour (rc_tracker (recordLiveTick no_scale 9001 waiting)) then 12000 else 5000)
      < 9001 - ex_lastPumpOffConfirmedMs (rc_current waiting)" by code_simp
  ultimately show ?thesis using shot_ends_after_pump by blast
qed

section \<open>A pump pulse of one update\<close>

lemma running_off:
  assumes "rc_phase r = phase_byte PHASE_RUNNING" "\<not> rc_lastPumpOn r" "\<not> isOn p"
  shows "rc_phase (rc_update n p s u r) = phase_byte PHASE_RUNNING" "\<not> rc_lastPumpOn (rc_update n p s u r)"
proof -
  have t: "rc_phase (recordLiveTick s n r) = phase_byte PHASE_RUNNING" "rc_lastPumpOn (recordLiveTick s n r) = rc_lastPumpOn r"
    using assms(1)
    by (simp_all add: recordLiveTick_def record_presence_def record_sample_def Let_def rc_phase_def split: option.split)
  show "rc_phase (rc_update n p s u r) = phase_byte PHASE_RUNNING" "\<not> rc_lastPumpOn (rc_update n p s u r)"
    using assms t by (simp_all add: rc_update_def Let_def is_live_def onRunning_def)
qed

fun pump_off_op :: "rc_op \<Rightarrow> bool" where
  "pump_off_op (RcUpdate n p s u) \<longleftrightarrow> \<not> isOn p"
| "pump_off_op _ \<longleftrightarrow> False"

lemma running_off_run:
  "rc_phase r = phase_byte PHASE_RUNNING \<Longrightarrow> \<not> rc_lastPumpOn r \<Longrightarrow> list_all pump_off_op ops
   \<Longrightarrow> rc_phase (run rc_step r ops) = phase_byte PHASE_RUNNING"
proof (induction ops arbitrary: r)
  case Nil
  then show ?case by simp
next
  case (Cons a ops)
  then show ?case by (cases a) (auto simp: running_off)
qed

text \<open>C28: a pump pulse seen by a single update after a finished shot is never closed: the shot it starts stays
  RUNNING through any number of updates with the pump off, since entering IDLE on the way has
  forgotten that the pump was on.\<close>

theorem pump_pulse_never_ends:
  assumes "rc_phase r = phase_byte PHASE_DONE" and "\<not> rc_lastPumpOn r" and "isOn p" and "list_all pump_off_op ops"
  shows "rc_phase (run rc_step (rc_update nowMs p s utcSec r) ops) = phase_byte PHASE_RUNNING"
proof (rule running_off_run)
  have live: "\<not> is_live r" using assms(1) by (simp add: is_live_def)
  have "rc_update nowMs p s utcSec r = transitionTo PHASE_RUNNING nowMs no_pump_signal END_NONE utcSec
      (enter_idle (r\<lparr>rc_lastScalePresent := sn_present s, rc_lastPumpOn := isOn p\<rparr>))"
    using assms live by (simp add: rc_update_def Let_def onDone_def transitionTo_def)
  then show "rc_phase (rc_update nowMs p s utcSec r) = phase_byte PHASE_RUNNING" "\<not> rc_lastPumpOn (rc_update nowMs p s utcSec r)"
    by (simp_all add: transitionTo_def) (simp add: enter_running_def enter_idle_def Let_def)
qed (rule assms(4))

lemma pump_pulse_never_ends_witness:
  "rc_phase (run rc_step (rc_update 20000 pump_on no_scale 0 (run rc_step rc_init flush_ops))
     [RcUpdate 20100 no_pump_signal no_scale 0, RcUpdate 90000 no_pump_signal no_scale 0]) = phase_byte PHASE_RUNNING"
proof (rule pump_pulse_never_ends)
  show "rc_phase (run rc_step rc_init flush_ops) = phase_byte PHASE_DONE" by code_simp
  show "\<not> rc_lastPumpOn (run rc_step rc_init flush_ops)" by code_simp
qed (simp_all add: isOn_def pump_on_def no_pump_signal_def)

section \<open>The zero of the live display\<close>

lemma tr_update_start:
  "tr_haveFirstStart t \<Longrightarrow> tr_haveFirstStart (tr_update ts w t) \<and> tr_firstStartCg (tr_update ts w t) = tr_firstStartCg t"
  by (simp add: tr_update_def case_prod_beta Let_def tr_take_start)

lemma tr_update_wf: "cl_wf (tr_classifier t) \<Longrightarrow> cl_wf (tr_classifier (tr_update ts w t))"
  using cl_wf_update [of "tr_classifier t" ts w]
  by (simp add: tr_update_def case_prod_beta Let_def tr_take_def updateMeaningfulYield_def advanceLivePour_def)

lemma tr_run_snoc: "tr_run (ss @ [x]) t = tr_update (sm_tMs x) (sm_cg x) (tr_run ss t)"
  by (induction ss arbitrary: t) simp_all

text \<open>While the record has room, the tracker has seen exactly its samples since a reset.\<close>

definition fed :: "recorder \<Rightarrow> bool" where
  "fed r \<longleftrightarrow> cl_wf (tr_classifier (rc_tracker r))
     \<and> (rc_phase r \<noteq> phase_byte PHASE_DONE \<longrightarrow>
          ex_startRawCg (rc_current r) = pourStartRawCg r
        \<and> (length (ex_samples (rc_current r)) < MAX_SAMPLES \<longrightarrow>
             (\<exists>t0. cl_wf (tr_classifier t0) \<and> rc_tracker r = tr_run (ex_samples (rc_current r)) (tr_reset t0))))"

lemma fed_init: "fed rc_init"
proof -
  have "rc_tracker rc_init = tr_run (ex_samples (rc_current rc_init)) (tr_reset tr_init)"
    by (simp add: rc_init_def default_extraction_def tr_reset_def tr_init_def cl_reset_def cl_init_def fe_reset_def fe_init_def)
  then show ?thesis
    using tr_init_wf by (auto simp: fed_def) (auto simp: rc_init_def default_extraction_def pourStartRawCg_def hasPourStartWeight_def tr_init_def)
qed

lemma fed_frame:
  assumes "fed r" "rc_tracker q = rc_tracker r" "rc_phase r \<noteq> phase_byte PHASE_DONE"
    "ex_samples (rc_current q) = ex_samples (rc_current r)" "ex_startRawCg (rc_current q) = ex_startRawCg (rc_current r)"
  shows "fed q"
  using assms by (simp add: fed_def pourStartRawCg_def)

lemma fed_done: "fed r \<Longrightarrow> rc_tracker q = rc_tracker r \<Longrightarrow> rc_phase q = phase_byte PHASE_DONE \<Longrightarrow> fed q"
  by (simp add: fed_def)

lemma fed_enter_idle:
  assumes "fed r"
  shows "fed (enter_idle r)"
proof -
  have wf: "cl_wf (tr_classifier (rc_tracker r))" using assms by (simp add: fed_def)
  moreover have "rc_tracker (enter_idle r) = tr_run (ex_samples (rc_current (enter_idle r))) (tr_reset (rc_tracker r))"
    by (simp add: enter_idle_def default_extraction_def)
  moreover have "cl_wf (tr_classifier (rc_tracker (enter_idle r)))" using cl_wf_reset [OF wf] by (simp add: enter_idle_def)
  moreover have "ex_startRawCg (rc_current (enter_idle r)) = pourStartRawCg (enter_idle r)"
    by (simp add: enter_idle_def default_extraction_def pourStartRawCg_def hasPourStartWeight_def)
  ultimately show ?thesis by (auto simp: fed_def)
qed

lemma fed_transition:
  assumes "fed r" "nxt = PHASE_RUNNING \<or> nxt = PHASE_POST_PUMP \<longrightarrow> rc_phase r \<noteq> phase_byte PHASE_DONE"
  shows "fed (transitionTo nxt n p cause u r)"
proof (cases "rc_phase r = phase_byte nxt")
  case True
  then show ?thesis using assms(1) by (simp add: transitionTo_def)
next
  case False
  show ?thesis
  proof (cases nxt)
    case PHASE_IDLE
    then show ?thesis using False fed_enter_idle [OF assms(1)] by (simp add: transitionTo_def)
  next
    case PHASE_RUNNING
    then have "transitionTo nxt n p cause u r = enter_running n u r" using False by (simp add: transitionTo_def)
    then show ?thesis
      using PHASE_RUNNING assms by (intro fed_frame [OF assms(1)]) (simp_all add: enter_running_def Let_def)
  next
    case PHASE_POST_PUMP
    then have "transitionTo nxt n p cause u r = enter_post_pump n p r" using False by (simp add: transitionTo_def)
    then show ?thesis
      using PHASE_POST_PUMP assms by (intro fed_frame [OF assms(1)]) (simp_all add: enter_post_pump_def Let_def)
  next
    case PHASE_DONE
    then have "transitionTo nxt n p cause u r = enter_done n cause r" using False by (simp add: transitionTo_def)
    then show ?thesis by (intro fed_done [OF assms(1)]) (simp_all, simp add: enter_done_def Let_def)
  qed
qed

lemma fed_record_sample:
  assumes "fed r" "rc_phase r \<noteq> phase_byte PHASE_DONE"
  shows "fed (record_sample ts c m n r)"
proof -
  let ?q = "record_sample ts c m n r" and ?t = "rc_tracker r"
  have t: "rc_tracker ?q = tr_update ts c ?t" by (simp add: record_sample_def Let_def)
  have ss: "ex_samples (rc_current ?q) = (if length (ex_samples (rc_current r)) < MAX_SAMPLES
      then ex_samples (rc_current r) @ [\<lparr>sm_tMs = ts, sm_cg = c, sm_scaleTimerMs = m\<rparr>] else ex_samples (rc_current r))"
    by (simp add: record_sample_def Let_def appendSample_def)
  have start: "ex_startRawCg (rc_current r) = pourStartRawCg r" using assms by (simp add: fed_def)
  have "ex_startRawCg (rc_current ?q) = pourStartRawCg ?q"
    using start tr_update_start [of ?t ts c]
    by (simp add: pourStartRawCg_def hasPourStartWeight_def firstPourStartRawCg_def t)
       (simp add: record_sample_def Let_def hasPourStartWeight_def firstPourStartRawCg_def split: if_splits)
  moreover have "\<exists>t0. cl_wf (tr_classifier t0) \<and> rc_tracker ?q = tr_run (ex_samples (rc_current ?q)) (tr_reset t0)"
    if room: "length (ex_samples (rc_current ?q)) < MAX_SAMPLES"
  proof -
    have lt: "length (ex_samples (rc_current r)) < MAX_SAMPLES" using room ss by (auto split: if_splits)
    with assms obtain t0 where "cl_wf (tr_classifier t0)" "?t = tr_run (ex_samples (rc_current r)) (tr_reset t0)"
      by (auto simp: fed_def)
    with ss lt t show ?thesis by (auto simp: tr_run_snoc)
  qed
  ultimately show ?thesis
    using assms tr_update_wf [of ?t ts c] by (simp add: fed_def t)
qed

lemma fed_recordLiveTick:
  assumes "fed r" "rc_phase r \<noteq> phase_byte PHASE_DONE"
  shows "fed (recordLiveTick s n r)"
proof -
  have p: "fed (record_presence s n r)" "rc_phase (record_presence s n r) = rc_phase r"
    using assms by (auto simp: record_presence_def rc_phase_def intro!: fed_frame [OF assms(1)])
  have st: "fed (q\<lparr>rc_lastScaleTimestampMs := x\<rparr>) = fed q" for q x by (simp add: fed_def pourStartRawCg_def)
  show ?thesis
    using p assms(2) by (auto simp: recordLiveTick_def Let_def st intro!: fed_record_sample split: option.split)
qed

lemma fed_apply:
  assumes "fed r"
  shows "fed (rc_apply r a)"
proof (cases a)
  case (RcUpdate n p s u)
  define q where "q = (if is_live r then recordLiveTick s n r else r)\<lparr>rc_lastScalePresent := sn_present s, rc_lastPumpOn := isOn p\<rparr>"
  have "fed (if is_live r then recordLiveTick s n r else r)"
    using assms fed_recordLiveTick [OF assms] by (auto simp: is_live_def)
  then have q: "fed q" by (simp add: q_def fed_def pourStartRawCg_def)
  have "fed (rc_update n p s u r)"
    unfolding rc_update_def Let_def q_def [symmetric]
    using q fed_transition [OF q]
    by (simp add: onIdle_def onRunning_def onPostPump_def onDone_def resumeOrSplitShot_def finalizeIfShotEnded_def Let_def
        fed_transition)
  then show ?thesis by (simp add: RcUpdate)
next
  case RcClear
  then show ?thesis using fed_transition [OF assms] by (simp add: rc_clear_def)
next
  case (RcTarget tc)
  then show ?thesis
    using assms by (auto simp: setTargetSnapshot_def is_live_def intro!: fed_frame [OF assms])
next
  case (RcAlarm al)
  then show ?thesis
    using assms by (auto simp: triggerAlarm_def intro!: fed_frame [OF assms])
qed

interpretation feeding: invariant_machine rc_step fed rc_init
  by unfold_locales (simp_all add: fed_init fed_apply)

text \<open>The weight the live display subtracts is the one the finished record keeps: a live record holds the
  tracker's pour start, and finishing it, as long as its sample array is not full, puts the same
  weight there from the stored samples, or the last weight when no pour started.\<close>

theorem live_zero_is_final_zero:
  assumes "is_live (run rc_step rc_init ops)"
    and "length (ex_samples (rc_current (run rc_step rc_init ops))) < MAX_SAMPLES"
  shows "ex_startRawCg (rc_current (run rc_step rc_init ops)) = pourStartRawCg (run rc_step rc_init ops)
     \<and> ex_startRawCg (rc_current (enter_done nowMs cause (run rc_step rc_init ops)))
         = (if hasPourStartWeight (rc_tracker (run rc_step rc_init ops)) then pourStartRawCg (run rc_step rc_init ops)
            else rc_lastRawCg (run rc_step rc_init ops))"
proof -
  define r where "r = run rc_step rc_init ops"
  have "rc_phase r \<noteq> phase_byte PHASE_DONE" using assms(1) by (auto simp: r_def is_live_def)
  with feeding.inv_reach [of ops] assms(2) obtain t0 where
    "ex_startRawCg (rc_current r) = pourStartRawCg r" "cl_wf (tr_classifier t0)"
    "rc_tracker r = tr_run (ex_samples (rc_current r)) (tr_reset t0)"
    by (auto simp: fed_def r_def)
  moreover from this(2,3) have "ex_startRawCg (rc_current (enter_done nowMs cause r))
      = (if hasPourStartWeight (rc_tracker r) then pourStartRawCg r else rc_lastRawCg r)"
    using evidence_start [of t0 "ex_samples (rc_current r)"]
    by (simp add: enter_done_current close_record_def appendFinalizeEvent_def Let_def settle_evidence_def starts_agree_def
        computePourEvidence_start pourStartRawCg_def hasPourStartWeight_def firstPourStartRawCg_def)
  ultimately show ?thesis by (simp add: r_def)
qed

lemma live_zero_is_final_zero_witness:
  "ex_startRawCg (rc_current (enter_done 5000 END_TIMEOUT (run rc_step rc_init [RcUpdate 1000 pump_on no_scale 0]))) = NO_WEIGHT"
proof -
  let ?r = "run rc_step rc_init [RcUpdate 1000 pump_on no_scale 0]"
  have "is_live ?r" "length (ex_samples (rc_current ?r)) < MAX_SAMPLES" "rc_lastRawCg ?r = NO_WEIGHT"
    "pourStartRawCg ?r = NO_WEIGHT" by code_simp+
  with live_zero_is_final_zero [of "[RcUpdate 1000 pump_on no_scale 0]" 5000 END_TIMEOUT] show ?thesis by (simp split: if_splits)
qed

section \<open>A record cut short by the wrap of the clock\<close>

text \<open>
  \<open>close_record\<close> compares event times with plain \<open>uint32_t\<close> order. A shot that times out just after
  \<open>millis()\<close> has wrapped loses its whole time line: only END is left of it.
\<close>

definition wrap_ops :: "rc_op list" where
  "wrap_ops =
     (let scale = (\<lambda>t. \<lparr>sn_present = True, sn_grams = Finite 0, sn_timestampMs = t, sn_scaleTimerMs = UNKNOWN_MS, sn_sequence = 0\<rparr>)
      in [RcUpdate 0xFFFFF000 pump_on no_scale 0, RcUpdate 0xFFFFF100 pump_on (scale 0xFFFFF100) 0,
          RcUpdate 0xFFFFFF00 no_pump_signal (scale 0xFFFFF100) 0, RcUpdate 6000 no_pump_signal (scale 0xFFFFF100) 0])"

lemma wrap_loses_events:
  "map ev_kind (ex_events (rc_current (run rc_step rc_init (take 3 wrap_ops))))
     = map event_kind_byte [EV_BEGIN, EV_PUMP_ON, EV_SCALE_CONNECTED, EV_PUMP_OFF_CONFIRMED]
   \<and> map ev_kind (ex_events (rc_lastFinished (run rc_step rc_init wrap_ops))) = map event_kind_byte [EV_END]
   \<and> rc_finishedSeq (run rc_step rc_init wrap_ops) = 1"
  by code_simp

text \<open>\<open>clear\<close> forgets the time stamp of the last scale reading too.\<close>

lemma clear_forgets_reading:
  "rc_phase r \<noteq> phase_byte PHASE_IDLE \<Longrightarrow> rc_lastScaleTimestampMs (rc_clear r) = 0"
  by (simp add: rc_clear_def transitionTo_def enter_idle_def)

end
