(* ===== verification/AcaiaCodec.thy ===== *)
theory AcaiaCodec
  imports AcaiaFraming Flow
begin

text \<open>
  What the frames of the scale mean, \<open>src/src/ble/AcaiaV2Codec.h/.cpp\<close>: the classification of packets,
  the decoding of events, and the receiver that joins them to the framer. The event and frame
  callbacks are the entries of a trace, in the order of the calls; the receiver's \<open>_cb\<close> and the frame
  callback of a notification may be null, so both are flags.
\<close>

section \<open>Classification\<close>

datatype outboundKind = Heartbeat | Tare | Timer | Identify | Subscribe | Other

definition classifyOutbound :: "u8 list \<Rightarrow> outboundKind" where
  "classifyOutbound data =
     (if length data < 3 \<or> data ! 0 \<noteq> HDR1 \<or> data ! 1 \<noteq> HDR2 then Other
      else if data ! 2 = Msg_SYSTEM then Heartbeat
      else if data ! 2 = Msg_TARE then Tare
      else if data ! 2 = Msg_TIMER then Timer
      else if data ! 2 = Msg_IDENTIFY then Identify
      else if data ! 2 = Msg_EVENT then Subscribe
      else Other)"

datatype inboundKind = InWeight | InBattery | InTimer | InKey | InUnknown | InMixed | InRejected | InSettings

definition eventKind :: "u8 \<Rightarrow> inboundKind" where
  "eventKind eventTypeId =
     (if eventTypeId = 0x05 then InWeight
      else if eventTypeId = 0x06 then InBattery
      else if eventTypeId = 0x07 then InTimer
      else if eventTypeId = 0x08 then InKey
      else InUnknown)"

definition heartbeatResponseKind :: "u8 list \<Rightarrow> inboundKind" where
  "heartbeatResponseKind payload =
     (if length payload < 4 then InUnknown
      else if payload ! 3 = 0x05 then (if length payload \<ge> 10 then InWeight else InUnknown)
      else if payload ! 3 = 0x07 then (if length payload \<ge> 7 then InTimer else InUnknown)
      else InUnknown)"

definition classifyInbound_frame :: "frame \<Rightarrow> inboundKind" where
  "classifyInbound_frame frame =
     (if fr_type frame = Msg_SETTINGS then InSettings
      else if fr_type frame = Msg_TIMER then InTimer
      else if fr_type frame \<noteq> Msg_EVENT then InUnknown
      else if length (fr_payload frame) < 1 then InRejected
      else if fr_payload frame ! 0 = 0x0B then heartbeatResponseKind (fr_payload frame)
      else eventKind (fr_payload frame ! 0))"

definition classifyInbound :: "u8 list \<Rightarrow> inboundKind" where
  "classifyInbound data =
     (case parseWireFrame data of None \<Rightarrow> InRejected | Some frame \<Rightarrow> classifyInbound_frame frame)"

section \<open>Events\<close>

record weight_event =
  we_grams :: grams
  we_stable :: bool
  we_hasScaleTimer :: bool
  we_scaleTimerMs :: u32

datatype scale_event = EvWeight weight_event | EvBattery u8 | EvTimer u32 | EvKey u8 | EvUnknown

definition decodeTimerMs :: "u8 list \<Rightarrow> u32 option" where
  "decodeTimerMs d =
     (if length d < 3 then None
      else Some (ucast (d ! 0) * 60000 + ucast (d ! 1) * 1000 + ucast (d ! 2) * 100))"

text \<open>
  The loop \<open>divisor *= 10.0f\<close>: past 38 turns the float is infinite, which is \<open>None\<close>, and a weight
  divided by it is zero. Every other value of the decoding is finite. The sign of a zero is not kept.
\<close>

fun weight_divisor :: "nat \<Rightarrow> rat option" where
  "weight_divisor 0 = Some 1"
| "weight_divisor (Suc n) =
     (case weight_divisor n of None \<Rightarrow> None
      | Some d \<Rightarrow> (if 2 ^ 128 \<le> f32 (d * 10) then None else Some (f32 (d * 10))))"

definition weight_raw :: "u8 list \<Rightarrow> u32" where
  "weight_raw d = ucast (d ! 0) OR push_bit 8 (ucast (d ! 1)) OR push_bit 16 (ucast (d ! 2)) OR push_bit 24 (ucast (d ! 3))"

definition decodeWeight :: "u8 list \<Rightarrow> weight_event option" where
  "decodeWeight d =
     (if length d < 6 then None
      else let raw = weight_raw d;
               quotient = (case weight_divisor (unat (d ! 4)) of
                   None \<Rightarrow> 0 | Some divisor \<Rightarrow> f32 (f32 (of_int (uint raw)) / divisor));
               grams = (if d ! 5 AND 0x02 \<noteq> 0 then - quotient else quotient);
               scaleTimer = (if length d \<ge> 10 \<and> d ! 6 = 0x07 then decodeTimerMs (drop 7 d) else None)
        in Some \<lparr>we_grams = Finite grams, we_stable = (d ! 5 AND 0x01 = 0),
                 we_hasScaleTimer = (scaleTimer \<noteq> None),
                 we_scaleTimerMs = (case scaleTimer of None \<Rightarrow> 0 | Some ms \<Rightarrow> ms)\<rparr>)"

text \<open>\<open>decodeAndEmit\<close>: \<open>None\<close> is the \<open>return false\<close> that emits nothing; a heartbeat response nests one
  sample, and nothing nests a heartbeat response.\<close>

function decodeAndEmit :: "u8 \<Rightarrow> u8 list \<Rightarrow> scale_event option" where
  "decodeAndEmit evType d =
     (if evType = 0x05 then map_option EvWeight (decodeWeight d)
      else if evType = 0x06 then (if length d < 1 then None else Some (EvBattery (d ! 0)))
      else if evType = 0x07 then map_option EvTimer (decodeTimerMs d)
      else if evType = 0x08 then (if length d < 1 then None else Some (EvKey (d ! 0)))
      else if evType = 0x0B then
        (if length d \<ge> 4 \<and> d ! 2 = 0x05 then decodeAndEmit 0x05 (drop 3 d)
         else if length d \<ge> 4 \<and> d ! 2 = 0x07 then decodeAndEmit 0x07 (drop 3 d)
         else Some EvUnknown)
      else Some EvUnknown)"
  by auto
termination by (relation "measure (length \<circ> snd)") auto

declare decodeAndEmit.simps [simp del]

definition decodeFrame :: "frame \<Rightarrow> scale_event option" where
  "decodeFrame frame =
     (if fr_type frame \<noteq> Msg_EVENT \<or> length (fr_payload frame) < 1 then None
      else decodeAndEmit (fr_payload frame ! 0) (tl (fr_payload frame)))"

section \<open>The receiver\<close>

datatype rx_out = OutEvent scale_event | OutFrame "u8 list" inboundKind nat

record receiver =
  rx_buf :: "u8 list"
  rx_hasCb :: bool

definition rx_init :: receiver where
  "rx_init = \<lparr>rx_buf = [], rx_hasCb = False\<rparr>"

definition rx_setEventCallback :: "bool \<Rightarrow> receiver \<Rightarrow> receiver" where
  "rx_setEventCallback hasCb rx = rx\<lparr>rx_hasCb := hasCb\<rparr>"

definition rx_reset :: "receiver \<Rightarrow> receiver" where
  "rx_reset rx = rx\<lparr>rx_buf := []\<rparr>"

definition handleFrame :: "bool \<Rightarrow> bool \<Rightarrow> frame \<Rightarrow> rx_out list" where
  "handleFrame hasCb frameCb frame =
     (let kind = classifyInbound_frame frame;
          emitted = (if kind = InRejected then None else decodeFrame frame)
      in (case emitted of Some ev \<Rightarrow> (if hasCb then [OutEvent ev] else []) | None \<Rightarrow> [])
         @ (if frameCb then [OutFrame (fr_wire frame) kind (if emitted = None then 0 else 1)] else []))"

fun deliver :: "bool \<Rightarrow> bool \<Rightarrow> framer_out \<Rightarrow> rx_out list" where
  "deliver hasCb frameCb (FComplete frame) = handleFrame hasCb frameCb frame"
| "deliver hasCb frameCb (FRejected bytes) =
     (if frameCb \<and> bytes \<noteq> [] then [OutFrame bytes InRejected 0] else [])"

definition pushNotify :: "receiver \<Rightarrow> bool \<Rightarrow> u8 list \<Rightarrow> receiver \<times> rx_out list" where
  "pushNotify rx frameCb data =
     (let (buf, outs) = push (rx_buf rx) data
      in (rx\<lparr>rx_buf := buf\<rparr>, concat (map (deliver (rx_hasCb rx) frameCb) outs)))"


section \<open>Notifications\<close>

definition rx_step :: "bool \<Rightarrow> receiver \<Rightarrow> u8 list \<Rightarrow> receiver \<times> rx_out list" where
  "rx_step frameCb rx data = pushNotify rx frameCb data"

lemma rx_run:
  "run (rx_step fcb) rx ns = rx\<lparr>rx_buf := fst (push_all (rx_buf rx) ns)\<rparr>
   \<and> concat (outputs (rx_step fcb) rx ns)
     = concat (map (deliver (rx_hasCb rx) fcb) (snd (push_all (rx_buf rx) ns)))"
proof (induction ns arbitrary: rx)
  case (Cons n ns)
  obtain b1 o1 where p: "push (rx_buf rx) n = (b1, o1)" by (cases "push (rx_buf rx) n")
  have st: "rx_step fcb rx n = (rx\<lparr>rx_buf := b1\<rparr>, concat (map (deliver (rx_hasCb rx) fcb) o1))"
    by (simp add: rx_step_def pushNotify_def p)
  show ?case using Cons.IH [of "rx\<lparr>rx_buf := b1\<rparr>"] by (simp add: st p Let_def split: prod.splits)
qed simp

section \<open>The kind a frame is counted under is the kind of event it raises\<close>

fun kind_of :: "scale_event \<Rightarrow> inboundKind" where
  "kind_of (EvWeight _) = InWeight"
| "kind_of (EvBattery _) = InBattery"
| "kind_of (EvTimer _) = InTimer"
| "kind_of (EvKey _) = InKey"
| "kind_of EvUnknown = InUnknown"

lemma decode_sample:
  "decodeAndEmit 0x05 d = map_option EvWeight (decodeWeight d)"
  "decodeAndEmit 0x07 d = map_option EvTimer (decodeTimerMs d)"
  by (simp_all add: decodeAndEmit.simps)

text \<open>The two passes over a frame, one for the log and one for the events, agree: an event is always
  raised by a frame counted under its kind, a heartbeat response counted as a sample always raises it,
  and a frame counted as a sample raises nothing only when its payload is too short or it is a timer
  message, which carries no event.\<close>

theorem frame_kind_is_event_kind:
  "case decodeFrame f of
      Some ev \<Rightarrow> classifyInbound_frame f = kind_of ev
    | None \<Rightarrow> fr_type f \<noteq> Msg_EVENT \<or> fr_payload f = []
        \<or> fr_payload f ! 0 = 0x0B \<and> classifyInbound_frame f = InUnknown
        \<or> fr_payload f ! 0 = 0x05 \<and> length (fr_payload f) < 7
        \<or> fr_payload f ! 0 = 0x07 \<and> length (fr_payload f) < 4
        \<or> fr_payload f ! 0 \<in> {0x06, 0x08} \<and> length (fr_payload f) < 2"
proof (cases "fr_type f = Msg_EVENT \<and> fr_payload f \<noteq> []")
  case False
  then show ?thesis by (auto simp: decodeFrame_def)
next
  case True
  then obtain t d where p: "fr_payload f = t # d" by (cases "fr_payload f") auto
  have k: "classifyInbound_frame f = (if t = 0x0B then heartbeatResponseKind (t # d) else eventKind t)"
    using True p by (simp add: classifyInbound_frame_def msg_defs)
  have dec: "decodeFrame f = decodeAndEmit t d" using True p by (simp add: decodeFrame_def)
  show ?thesis
  proof (cases "t = 0x0B")
    case False
    then show ?thesis
      unfolding dec k decodeAndEmit.simps [of t d]
      by (auto simp: eventKind_def decodeWeight_def decodeTimerMs_def Let_def p)
  next
    case t: True
    have n: "(t # d) ! 3 = d ! 2" by (simp add: nth_Cons')
    show ?thesis
      unfolding dec k t decodeAndEmit.simps [of "0x0B" d]
      using n t by (auto simp: decode_sample heartbeatResponseKind_def decodeWeight_def decodeTimerMs_def Let_def p)
  qed
qed

section \<open>The weight the scale shows is the weight the program gets\<close>

definition le_bytes :: "u32 \<Rightarrow> u8 list" where
  "le_bytes w = [ucast w, ucast (drop_bit 8 w), ucast (drop_bit 16 w), ucast (drop_bit 24 w)]"

lemma weight_raw_le_bytes: "weight_raw (le_bytes w @ r) = w"
proof -
  have "weight_raw (le_bytes w @ r)
      = (ucast (ucast w :: u8) :: u32) OR push_bit 8 (ucast (ucast (drop_bit 8 w) :: u8))
        OR push_bit 16 (ucast (ucast (drop_bit 16 w) :: u8)) OR push_bit 24 (ucast (ucast (drop_bit 24 w) :: u8))"
    by (simp add: weight_raw_def le_bytes_def numeral_2_eq_2 numeral_3_eq_3)
  also have "\<dots> = w"
  proof (rule bit_word_eqI)
    fix n assume "n < LENGTH(32)"
    then have "n < 8 \<or> (8 \<le> n \<and> n < 16) \<or> (16 \<le> n \<and> n < 24) \<or> (24 \<le> n \<and> n < 32)" by auto
    then show "bit ((ucast (ucast w :: u8) :: u32) OR push_bit 8 (ucast (ucast (drop_bit 8 w) :: u8))
        OR push_bit 16 (ucast (ucast (drop_bit 16 w) :: u8)) OR push_bit 24 (ucast (ucast (drop_bit 24 w) :: u8))) n
      = bit w n"
      by (elim disjE) (auto simp: bit_simps)
  qed
  finally show ?thesis .
qed

lemma divisor_values: "weight_divisor 0 = Some 1" "weight_divisor 1 = Some 10" "weight_divisor 2 = Some 100"
proof -
  have "f32 10 = 10" "f32 100 = 100" using f32_int [of 10] f32_int [of 100] by simp_all
  then show "weight_divisor 0 = Some 1" "weight_divisor 1 = Some 10" "weight_divisor 2 = Some 100"
    by (simp_all add: numeral_2_eq_2)
qed

text \<open>The float arithmetic between the two: two or three roundings of a value of at most 2^32.\<close>

lemma err_chain:
  fixes N a b h t :: rat
  assumes "\<bar>a - N\<bar> \<le> N * t" "\<bar>b - a\<bar> \<le> a * t" "\<bar>h - b\<bar> \<le> b * t" "0 \<le> N" "0 \<le> t" "t \<le> 1 / 10"
  shows "\<bar>h - N\<bar> \<le> N * (4 * t)"
proof -
  have a: "a \<le> N * (1 + t)" using assms(1) by (simp add: algebra_simps)
  then have at: "a * t \<le> N * (1 + t) * t" using assms(5) by (intro mult_right_mono)
  then have b: "b \<le> N * (1 + t) * (1 + t)" using a assms(2) by (simp add: algebra_simps)
  then have bt: "b * t \<le> N * (1 + t) * (1 + t) * t" using assms(5) by (intro mult_right_mono)
  have s: "t * t \<le> t / 10" using mult_left_mono [OF assms(6,5)] by simp
  have "t * t * t \<le> t * t / 10" using mult_left_mono [OF assms(6), of "t * t"] by simp
  moreover have "t + (1 + t) * t + (1 + t) * (1 + t) * t = 3 * t + 3 * (t * t) + t * t * t"
    by (simp add: algebra_simps)
  ultimately have "t + (1 + t) * t + (1 + t) * (1 + t) * t \<le> 4 * t" using s assms(5) by linarith
  then have "N * (t + (1 + t) * t + (1 + t) * (1 + t) * t) \<le> N * (4 * t)" using assms(4) by (rule mult_left_mono)
  then have "N * t + N * (1 + t) * t + N * (1 + t) * (1 + t) * t \<le> N * (4 * t)" by (simp add: algebra_simps)
  then show ?thesis using assms(1-3) at bt by linarith
qed

lemma cg_error:
  fixes x k :: int
  assumes x: "1 \<le> x" and k: "k = 1 \<or> k = 10 \<or> k = 100"
  shows "\<bar>f32 (f32 (f32 (of_int x) / of_int (100 div k)) * 100) - of_int (x * k)\<bar> \<le> of_int (x * k) / 2 ^ 22"
proof -
  define D where "D = (of_int (100 div k) :: rat)"
  have D: "1 \<le> D" "D \<le> 100" "100 = D * of_int k" using k by (auto simp: D_def)
  define y where "y = (of_int x :: rat)"
  have y: "1 \<le> y" using x by (simp add: y_def)
  define f where "f = f32 y"
  have f: "\<bar>f - y\<bar> \<le> y / 2 ^ 24" using f32_error [of y] y by (simp add: f_def)
  moreover have "y / 2 ^ 24 \<le> y / 10" using y by (simp add: field_simps)
  ultimately have f9: "9 / 10 \<le> f" using y by linarith
  define g where "g = f32 (f / D)"
  have fD: "9 / 1000 \<le> f / D" using f9 D(1,2) by (simp add: le_divide_eq)
  then have "1 / 1000 \<le> f / D" by simp
  then have g: "\<bar>g - f / D\<bar> \<le> f / D / 2 ^ 24" using f32_error [of "f / D"] by (simp add: g_def)
  define z where "z = f / D"
  have "z / 2 ^ 24 \<le> z / 10" using fD by (simp add: z_def [symmetric])
  then have "1 / 1000 \<le> g" using g fD unfolding z_def [symmetric] by linarith
  then have h: "\<bar>f32 (g * 100) - g * 100\<bar> \<le> g * 100 / 2 ^ 24" using f32_error [of "g * 100"] by simp
  define N where "N = (of_int (x * k) :: rat)"
  have e: "D \<noteq> 0" "N = y * of_int k" using D by (auto simp: N_def y_def)
  have r: "f / D * 100 = f * of_int k" using D(3) e(1) by (simp add: field_simps)
  have k0: "0 < (of_int k :: rat)" using k by auto
  have "\<bar>f * of_int k - N\<bar> = \<bar>f - y\<bar> * of_int k" using k0 by (simp add: e(2) left_diff_distrib [symmetric] abs_mult)
  also have "\<dots> \<le> y / 2 ^ 24 * of_int k" using f k0 by (intro mult_right_mono) auto
  finally have a: "\<bar>f / D * 100 - N\<bar> \<le> N * (1 / 2 ^ 24)" unfolding r by (simp add: e(2))
  have b: "\<bar>g * 100 - f / D * 100\<bar> \<le> f / D * 100 * (1 / 2 ^ 24)"
  proof -
    have "\<bar>g * 100 - z * 100\<bar> = \<bar>g - z\<bar> * 100" by (metis abs_mult abs_numeral left_diff_distrib)
    then show ?thesis using mult_right_mono [OF g, of 100] unfolding z_def [symmetric] by simp
  qed
  have c: "\<bar>f32 (g * 100) - g * 100\<bar> \<le> g * 100 * (1 / 2 ^ 24)" using h by simp
  have N: "0 \<le> N" using y k0 e(2) by simp
  show ?thesis using err_chain [OF a b c N] by (simp add: N_def g_def f_def y_def D_def)
qed

lemma cg_rounded:
  fixes n :: int
  assumes "0 \<le> n" and "\<bar>h - of_int n\<bar> \<le> of_int n / 2 ^ 22"
  shows "n \<le> 32767 \<Longrightarrow> round_away h = of_int n" and "32767 < n \<Longrightarrow> 32767 < round_away h"
proof -
  assume n: "n \<le> 32767"
  then have "(of_int n :: rat) \<le> 32767" by (metis of_int_le_iff of_int_numeral)
  then have "of_int n / 2 ^ 22 < (1 / 2 :: rat)" by simp
  then have "\<bar>h - of_int n\<bar> < 1 / 2" using assms(2) by linarith
  then show "round_away h = of_int n" by (rule round_away_near)
next
  assume n: "32767 < n"
  then have n': "(32768 :: rat) \<le> of_int n" by (metis of_int_le_iff of_int_numeral zless_imp_add1_zle numeral_plus_one add_One semiring_norm(2-10))
  have "of_int n / 2 ^ 22 = of_int n * (1 / 4194304 :: rat)" by simp
  then have "32767 + 1 / 2 \<le> h" using assms(2) n' by linarith
  then have "32768 \<le> \<lfloor>h + 1 / 2\<rfloor>" "0 \<le> h" by linarith+
  then have "(32768 :: rat) \<le> of_int \<lfloor>h + 1 / 2\<rfloor>" by (metis of_int_le_iff of_int_numeral)
  then show "32767 < round_away h" using \<open>0 \<le> h\<close> by (simp add: round_away_def)
qed

lemma round_away_minus: "round_away (- x) = - round_away x"
proof -
  have "\<lceil>- x - 1 / 2\<rceil> = - \<lfloor>x + 1 / 2\<rfloor>" by linarith
  moreover have "\<lfloor>- x + 1 / 2\<rfloor> = - \<lceil>x - 1 / 2\<rceil>" by linarith
  moreover have "\<lfloor>0 + 1 / 2 :: rat\<rfloor> = 0" by linarith
  ultimately show ?thesis by (cases "x = 0") (auto simp: round_away_def)
qed

lemma cg_exact:
  fixes x k :: int
  assumes x: "0 \<le> x" and k: "k = 1 \<or> k = 10 \<or> k = 100"
  defines "g \<equiv> f32 (f32 (of_int x) / of_int (100 div k))"
  shows "gramsToCg (Finite g) = Some (word_of_int (min 32767 (x * k)))"
    and "gramsToCg (Finite (- g)) = Some (word_of_int (- min 32767 (x * k)))"
proof -
  define h where "h = f32 (g * 100)"
  have "\<bar>h - of_int (x * k)\<bar> \<le> of_int (x * k) / 2 ^ 22"
  proof (cases "x = 0")
    case True
    then show ?thesis by (simp add: h_def g_def)
  next
    case False
    then show ?thesis using cg_error [of x k] x k by (simp add: h_def g_def)
  qed
  note r = cg_rounded [OF _ this]
  have xk: "0 \<le> x * k" using x k by auto
  have m: "f32 (- g * 100) = - h" using f32_minus [of "g * 100"] by (simp add: h_def)
  have t: "truncate_int 32767 = 32767" "truncate_int (- 32767) = - 32767"
    using truncate_int_of_int [of 32767] truncate_int_of_int [of "- 32767"] by (simp_all only: of_int_numeral of_int_minus)
  show "gramsToCg (Finite g) = Some (word_of_int (min 32767 (x * k)))"
  proof (cases "x * k \<le> 32767")
    case True
    note r' = r(1) [OF xk True]
    have b: "of_int (x * k) \<le> (32767 :: rat)" "0 \<le> (of_int (x * k) :: rat)"
      using True xk by (metis of_int_le_iff of_int_numeral, simp only: of_int_0_le_iff)
    have "truncate_int (of_int (x * k)) = x * k" by (rule truncate_int_of_int)
    then show ?thesis using b True unfolding gramsToCg.simps h_def [symmetric] r' by (simp add: Let_def min_def del: of_int_mult)
  next
    case False
    then show ?thesis using r(2) [OF xk] by (simp add: Let_def h_def [symmetric] t min_def)
  qed
  show "gramsToCg (Finite (- g)) = Some (word_of_int (- min 32767 (x * k)))"
  proof (cases "x * k \<le> 32767")
    case True
    note r' = r(1) [OF xk True]
    have b: "of_int (x * k) \<le> (32767 :: rat)" "0 \<le> (of_int (x * k) :: rat)"
      using True xk by (metis of_int_le_iff of_int_numeral, simp only: of_int_0_le_iff)
    have "truncate_int (- of_int (x * k)) = - (x * k)" using truncate_int_of_int [of "- (x * k)"] by (simp only: of_int_minus)
    then show ?thesis using b True unfolding gramsToCg.simps m round_away_minus r' by (simp add: Let_def min_def del: of_int_mult)
  next
    case False
    then show ?thesis using r(2) [OF xk] unfolding gramsToCg.simps m round_away_minus by (simp add: Let_def t min_def)
  qed
qed

text \<open>A weight frame as the scale packs it.\<close>

definition weight_frame :: "u32 \<Rightarrow> u8 \<Rightarrow> u8 \<Rightarrow> u8 list" where
  "weight_frame raw e flags = pack Msg_EVENT ([0x08, 0x05] @ le_bytes raw @ [e, flags])"

lemma weight_frame_parse:
  "\<exists>f. parseWireFrame (weight_frame raw e flags) = Some f \<and> fr_type f = Msg_EVENT
     \<and> fr_payload f = 0x05 # le_bytes raw @ [e, flags] \<and> fr_wire f = weight_frame raw e flags"
  using parse_pack [of "[0x08, 0x05] @ le_bytes raw @ [e, flags]" Msg_EVENT]
  by (simp add: weight_frame_def le_bytes_def MAX_FRAME_def)

lemma decode_weight_frame:
  assumes "fr_type f = Msg_EVENT" and "fr_payload f = 0x05 # le_bytes raw @ [e, flags]" and "unat e \<le> 2"
  shows "\<exists>ev. decodeFrame f = Some (EvWeight ev) \<and> we_stable ev = (flags AND 1 = 0) \<and> \<not> we_hasScaleTimer ev
    \<and> gramsToCg (we_grams ev) = Some (word_of_int ((if flags AND 2 \<noteq> 0 then - 1 else 1)
        * min 32767 (uint raw * (100 div 10 ^ unat e))))"
proof -
  define k where "k = (100 :: int) div 10 ^ unat e"
  have k: "k = 1 \<or> k = 10 \<or> k = 100" and d: "weight_divisor (unat e) = Some (of_int (100 div k))"
  proof -
    have "unat e = 0 \<or> unat e = 1 \<or> unat e = 2" using assms(3) by linarith
    then show "k = 1 \<or> k = 10 \<or> k = 100" "weight_divisor (unat e) = Some (of_int (100 div k))"
      using divisor_values by (auto simp: k_def)
  qed
  have n: "(le_bytes raw @ [e, flags]) ! 4 = e" "(le_bytes raw @ [e, flags]) ! 5 = flags"
    "length (le_bytes raw @ [e, flags]) = 6"
    by (simp_all add: le_bytes_def)
  have "decodeFrame f = map_option EvWeight (decodeWeight (le_bytes raw @ [e, flags]))"
    using assms(1,2) by (simp add: decodeFrame_def decode_sample)
  then show ?thesis
    using cg_exact [OF uint_ge_0 [of raw] k] unfolding decodeWeight_def n weight_raw_le_bytes d k_def [symmetric]
    by (simp add: Let_def del: gramsToCg.simps)
qed

text \<open>C31: a weight frame, however it is cut into notifications, raises one weight event, and the
  centigrams the program stores for it are exactly the weight on the scale's display, for the three
  resolutions centigrams can hold, saturated at the range of the storage; sign and stability are the
  flags of the frame.\<close>

theorem scale_weight_exact:
  assumes "concat ns = weight_frame raw e flags" and "unat e \<le> 2" and "rx_hasCb rx" and "rx_buf rx = []"
  shows "\<exists>ev. concat (outputs (rx_step True) rx ns) = [OutEvent (EvWeight ev), OutFrame (weight_frame raw e flags) InWeight 1]
    \<and> run (rx_step True) rx ns = rx \<and> we_stable ev = (flags AND 1 = 0)
    \<and> gramsToCg (we_grams ev) = Some (word_of_int ((if flags AND 2 \<noteq> 0 then - 1 else 1)
        * min 32767 (uint raw * (100 div 10 ^ unat e))))"
proof -
  obtain f where f: "parseWireFrame (weight_frame raw e flags) = Some f" "fr_type f = Msg_EVENT"
    "fr_payload f = 0x05 # le_bytes raw @ [e, flags]" "fr_wire f = weight_frame raw e flags"
    using weight_frame_parse by blast
  obtain ev where ev: "decodeFrame f = Some (EvWeight ev)" "we_stable ev = (flags AND 1 = 0)"
    "gramsToCg (we_grams ev) = Some (word_of_int ((if flags AND 2 \<noteq> 0 then - 1 else 1)
        * min 32767 (uint raw * (100 div 10 ^ unat e))))"
    using decode_weight_frame [OF f(2,3) assms(2)] by blast
  have "push_all [] ns = ([], [FComplete f])"
    using push_all_is_drain [of "[]" ns] drain_frame [OF f(1), of "[]"] assms(1) by (simp add: drain.simps [of "[]"])
  moreover have "classifyInbound_frame f = InWeight"
    using f(2,3) by (simp add: classifyInbound_frame_def msg_defs eventKind_def)
  ultimately have "concat (outputs (rx_step True) rx ns) = [OutEvent (EvWeight ev), OutFrame (fr_wire f) InWeight 1]"
    "run (rx_step True) rx ns = rx"
    using rx_run [of True rx ns] assms(3,4) ev(1) by (auto simp: handleFrame_def)
  then show ?thesis using ev(2,3) f(4) by (intro exI [of _ ev] conjI) simp_all
qed

lemma scale_weight_exact_witness:
  "\<exists>ev. concat (outputs (rx_step True) (rx_setEventCallback True rx_init)
        [take 5 (weight_frame 361 1 2), drop 5 (weight_frame 361 1 2)])
      = [OutEvent (EvWeight ev), OutFrame (weight_frame 361 1 2) InWeight 1]
    \<and> gramsToCg (we_grams ev) = Some (- 3610)"
  using scale_weight_exact [of "[take 5 (weight_frame 361 1 2), drop 5 (weight_frame 361 1 2)]" 361 1 2
      "rx_setEventCallback True rx_init"]
  by (auto simp: rx_setEventCallback_def rx_init_def)

section \<open>What the driver sends\<close>

text \<open>Every packet the driver sends fits the buffer it is built in and is logged as what it is.\<close>

theorem commands_classified:
  "classifyOutbound buildHeartbeat = Heartbeat \<and> classifyOutbound buildIdentify = Identify
   \<and> classifyOutbound buildEventSubscribe = Subscribe \<and> classifyOutbound buildTare = Tare
   \<and> classifyOutbound (buildTimer cmd) = Timer
   \<and> list_all (\<lambda>p. length p \<le> MAX_PACKET) [buildHeartbeat, buildIdentify, buildEventSubscribe, buildTare, buildTimer cmd]"
  by (simp add: classifyOutbound_def buildHeartbeat_def buildIdentify_def buildEventSubscribe_def buildTare_def
      buildTimer_def pack_def msg_defs MAX_PACKET_def)

lemma frame_kind_is_event_kind_witness:
  "\<exists>ev. decodeFrame \<lparr>fr_type = Msg_EVENT, fr_body = [], fr_payload = [0x05, 1, 2, 0, 0, 1, 0], fr_wire = []\<rparr> = Some ev
     \<and> kind_of ev = InWeight"
proof -
  obtain ev where d: "decodeFrame \<lparr>fr_type = Msg_EVENT, fr_body = [], fr_payload = [0x05, 1, 2, 0, 0, 1, 0], fr_wire = []\<rparr> = Some ev"
    by (auto simp: decodeFrame_def decode_sample decodeWeight_def Let_def)
  then show ?thesis
    using frame_kind_is_event_kind [of "\<lparr>fr_type = Msg_EVENT, fr_body = [], fr_payload = [0x05, 1, 2, 0, 0, 1, 0], fr_wire = []\<rparr>"]
    by (simp add: classifyInbound_frame_def msg_defs eventKind_def)
qed
end
