(* ===== verification/PumpDetect.thy ===== *)
theory PumpDetect
  imports Recorder
begin

unbundle bit_operations_syntax

text \<open>
  From vibration features to the pump observation of the recorder:
  \<open>src/src/vibration/VibrationWindowTrigger.h\<close> (the window, with hysteresis),
  \<open>PumpDecayTracker.h\<close> (when the signal of the pump began to decay) and the part of
  \<open>VibrationSensor::analyze\<close> that joins them. A \<open>float\<close> feature is \<open>Some\<close> its value, or \<open>None\<close>
  where it is not finite.
\<close>

section \<open>The window trigger\<close>

datatype window_event = NoEvent | Opened | Closed

definition FailureNone :: u8 where "FailureNone = 0"
definition FailureMoving :: u8 where "FailureMoving = 1"
definition FailureLowSnr :: u8 where "FailureLowSnr = 2"
definition FailureSnrInvalid :: u8 where "FailureSnrInvalid = 4"
definition FailurePeakOutOfRange :: u8 where "FailurePeakOutOfRange = 8"
definition FailurePeakInvalid :: u8 where "FailurePeakInvalid = 16"

lemmas failure_defs = FailureNone_def FailureMoving_def FailureLowSnr_def FailureSnrInvalid_def
  FailurePeakOutOfRange_def FailurePeakInvalid_def

definition SNR_ON_DB :: rat where "SNR_ON_DB = 14"
definition SNR_STAY_DB :: rat where "SNR_STAY_DB = 11"
definition PEAK_MIN_HZ :: rat where "PEAK_MIN_HZ = 90"
definition PEAK_MAX_HZ :: rat where "PEAK_MAX_HZ = 130"
definition N_ON :: u8 where "N_ON = 2"
definition N_OFF :: u8 where "N_OFF = 4"

lemmas window_consts = SNR_ON_DB_def SNR_STAY_DB_def PEAK_MIN_HZ_def PEAK_MAX_HZ_def N_ON_def N_OFF_def

record features =
  fx_stationary :: bool
  fx_snrDb :: "rat option"
  fx_peakHz :: "rat option"

definition failure_mask :: "features \<Rightarrow> u8" where
  "failure_mask f =
     (if fx_stationary f then FailureNone else FailureMoving)
     OR (case fx_snrDb f of None \<Rightarrow> FailureSnrInvalid
         | Some snr \<Rightarrow> if snr < SNR_STAY_DB then FailureLowSnr else FailureNone)
     OR (case fx_peakHz f of None \<Rightarrow> FailurePeakInvalid
         | Some hz \<Rightarrow> if hz < PEAK_MIN_HZ \<or> PEAK_MAX_HZ < hz then FailurePeakOutOfRange else FailureNone)"

definition enters :: "features \<Rightarrow> bool" where
  "enters f \<longleftrightarrow> fx_stationary f
     \<and> (case fx_snrDb f of None \<Rightarrow> False | Some snr \<Rightarrow> SNR_ON_DB \<le> snr)
     \<and> (case fx_peakHz f of None \<Rightarrow> False | Some hz \<Rightarrow> PEAK_MIN_HZ \<le> hz \<and> hz \<le> PEAK_MAX_HZ)"

definition stays :: "features \<Rightarrow> bool" where
  "stays f \<longleftrightarrow> failure_mask f = FailureNone"

record window_trigger =
  vt_active :: bool
  vt_onCount :: u8
  vt_offCount :: u8
  vt_offFailureMask :: u8

definition vt_reset :: window_trigger where
  "vt_reset = \<lparr>vt_active = False, vt_onCount = 0, vt_offCount = 0, vt_offFailureMask = FailureNone\<rparr>"

record step_result =
  sr_active :: bool
  sr_event :: window_event
  sr_closeFailureMask :: u8

definition stepDetailed :: "window_trigger \<Rightarrow> features \<Rightarrow> window_trigger \<times> step_result" where
  "stepDetailed v f =
     (let result = (\<lambda>v ev mask. (v, \<lparr>sr_active = vt_active v, sr_event = ev, sr_closeFailureMask = mask\<rparr>)) in
      if \<not> vt_active v then
        (if enters f then
           (let v1 = v\<lparr>vt_onCount := vt_onCount v + 1\<rparr> in
            if N_ON \<le> vt_onCount v1
            then result (v1\<lparr>vt_active := True, vt_offCount := 0, vt_offFailureMask := FailureNone\<rparr>) Opened FailureNone
            else result v1 NoEvent FailureNone)
         else result (v\<lparr>vt_onCount := 0\<rparr>) NoEvent FailureNone)
      else if stays f then
        result (v\<lparr>vt_offCount := 0, vt_offFailureMask := FailureNone\<rparr>) NoEvent FailureNone
      else
        let v1 = v\<lparr>vt_offCount := vt_offCount v + 1, vt_offFailureMask := vt_offFailureMask v OR failure_mask f\<rparr> in
        if N_OFF \<le> vt_offCount v1
        then result (v1\<lparr>vt_active := False, vt_onCount := 0, vt_offCount := 0, vt_offFailureMask := FailureNone\<rparr>)
               Closed (vt_offFailureMask v1)
        else result v1 NoEvent FailureNone)"

section \<open>The decay tracker\<close>

definition REFERENCE_FRAMES :: nat where "REFERENCE_FRAMES = 6"
definition MIN_REFERENCE_FRAMES :: nat where "MIN_REFERENCE_FRAMES = 4"
definition START_DROP_DB :: rat where "START_DROP_DB = 4"
definition RECOVERY_DROP_DB :: rat where "RECOVERY_DROP_DB = 2"
definition MAX_CARRY_MS :: u32 where "MAX_CARRY_MS = 2000"

text \<open>\<open>_reference[0 .. _referenceCount)\<close> is a list, oldest first.\<close>

record decay_tracker =
  dt_reference :: "rat list"
  dt_candidate :: bool
  dt_onsetMs :: u32
  dt_accepted :: bool
  dt_acceptedOnsetMs :: u32

definition dt_reset :: decay_tracker where
  "dt_reset = \<lparr>dt_reference = [], dt_candidate = False, dt_onsetMs = 0, dt_accepted = False, dt_acceptedOnsetMs = 0\<rparr>"

definition appendReference :: "rat \<Rightarrow> decay_tracker \<Rightarrow> decay_tracker" where
  "appendReference snrDb d =
     (if length (dt_reference d) < REFERENCE_FRAMES then d\<lparr>dt_reference := dt_reference d @ [snrDb]\<rparr>
      else d\<lparr>dt_reference := tl (dt_reference d) @ [snrDb]\<rparr>)"

definition referenceMedian :: "rat list \<Rightarrow> rat" where
  "referenceMedian reference =
     (let sorted = sort reference; middle = length reference div 2 in
      if odd (length reference) then sorted ! middle
      else f32 (f32 (sorted ! (middle - 1) + sorted ! middle) * (1 / 2)))"

definition clearReference :: "decay_tracker \<Rightarrow> decay_tracker" where
  "clearReference d = d\<lparr>dt_reference := []\<rparr>"

definition clearWindowState :: "decay_tracker \<Rightarrow> decay_tracker" where
  "clearWindowState d = (clearReference d)\<lparr>dt_candidate := False, dt_onsetMs := 0\<rparr>"

definition clearAll :: "decay_tracker \<Rightarrow> decay_tracker" where
  "clearAll d = (clearWindowState d)\<lparr>dt_accepted := False, dt_acceptedOnsetMs := 0\<rparr>"

text \<open>The part of \<open>step\<close> under \<open>if (windowWasActive)\<close>. \<open>m\<close> is the measurement when it is usable.\<close>

definition dt_track :: "u32 \<Rightarrow> rat option \<Rightarrow> decay_tracker \<Rightarrow> decay_tracker" where
  "dt_track nowMs m d =
     (let haveReference = MIN_REFERENCE_FRAMES \<le> length (dt_reference d);
          reference = (if haveReference then referenceMedian (dt_reference d) else 0);
          append_usable = (\<lambda>d. case m of None \<Rightarrow> d | Some snr \<Rightarrow> appendReference snr d)
      in if dt_candidate d then
           let recovered = (case m of None \<Rightarrow> False
                 | Some snr \<Rightarrow> haveReference \<and> f32 (reference - RECOVERY_DROP_DB) \<le> snr);
               expired = (MAX_CARRY_MS < nowMs - dt_onsetMs d)
           in if recovered \<or> expired
              then let d1 = d\<lparr>dt_candidate := False, dt_onsetMs := 0\<rparr>
                   in append_usable (if expired then clearReference d1 else d1)
              else d
         else if haveReference \<and> (case m of None \<Rightarrow> True
                 | Some snr \<Rightarrow> snr \<le> f32 (reference - START_DROP_DB))
         then d\<lparr>dt_candidate := True, dt_onsetMs := nowMs\<rparr>
         else append_usable d)"

definition dt_step :: "u32 \<Rightarrow> bool \<Rightarrow> bool \<Rightarrow> rat option \<Rightarrow> decay_tracker \<Rightarrow> decay_tracker \<times> pump_signal" where
  "dt_step nowMs windowWasActive windowIsActive m d =
     (let d1 = (if windowWasActive then dt_track nowMs m d else d);
          d2 = (if \<not> windowWasActive \<and> windowIsActive
                then (case m of None \<Rightarrow> clearAll d1 | Some snr \<Rightarrow> appendReference snr (clearAll d1))
                else if windowWasActive \<and> \<not> windowIsActive
                then clearWindowState (d1\<lparr>dt_accepted := dt_candidate d1,
                       dt_acceptedOnsetMs := (if dt_candidate d1 then dt_onsetMs d1 else 0)\<rparr>)
                else if \<not> windowIsActive then clearWindowState d1
                else d1);
          state = (if windowIsActive then (if dt_candidate d2 then DecayCandidate else PumpOn) else PumpOff)
      in (d2, \<lparr>po_state = state, po_acceptedDecayOnsetMs = dt_acceptedOnsetMs d2,
               po_hasAcceptedDecayOnset = dt_accepted d2\<rparr>))"

section \<open>The sensor's decision\<close>

text \<open>
  What \<open>analyze\<close> does with the features of one batch once the spectrum has given them: the frame is
  \<open>stationary\<close> or not, \<open>cluster\<close> is the selected cluster's frequency and raw signal-to-noise ratio.
  A cluster is selected only inside the pump band and with a finite ratio, so its frequency and ratio
  are numbers.
\<close>

definition SNR_EMA_ALPHA :: rat where "SNR_EMA_ALPHA = f32 (35 / 100)"

record vibration =
  vb_smoothedSnr :: ema
  vb_detectedSinceMs :: u32
  vb_trigger :: window_trigger
  vb_tracker :: decay_tracker
  vb_pumpSignal :: pump_signal

definition resetAnalysis :: vibration where
  "resetAnalysis = \<lparr>vb_smoothedSnr = ema_reset, vb_detectedSinceMs = 0, vb_trigger = vt_reset,
     vb_tracker = dt_reset, vb_pumpSignal = no_pump_signal\<rparr>"

record batch =
  bt_nowMs :: u32
  bt_stationary :: bool
  bt_cluster :: "(rat \<times> rat) option"

record transition =
  dtr_ms :: u32
  dtr_detectedForMs :: u32
  dtr_closeFailureMask :: u8
  dtr_event :: window_event

definition smoothed :: "batch \<Rightarrow> ema \<Rightarrow> ema" where
  "smoothed b e =
     (case bt_cluster b of None \<Rightarrow> e
      | Some (peakHz, rawSnrDb) \<Rightarrow> if bt_stationary b then ema_update SNR_EMA_ALPHA rawSnrDb e else e)"

definition usable :: "batch \<Rightarrow> rat option" where
  "usable b =
     (case bt_cluster b of None \<Rightarrow> None
      | Some (peakHz, rawSnrDb) \<Rightarrow>
          if bt_stationary b \<and> PEAK_MIN_HZ \<le> peakHz \<and> peakHz \<le> PEAK_MAX_HZ then Some rawSnrDb else None)"

definition batch_features :: "batch \<Rightarrow> ema \<Rightarrow> features" where
  "batch_features b e = \<lparr>fx_stationary = bt_stationary b, fx_snrDb = Some (em_y e),
     fx_peakHz = map_option fst (bt_cluster b)\<rparr>"

definition analyze :: "vibration \<Rightarrow> batch \<Rightarrow> vibration \<times> transition option" where
  "analyze s b =
     (let snr = smoothed b (vb_smoothedSnr s);
          wasActive = vt_active (vb_trigger s);
          (trigger, result) = stepDetailed (vb_trigger s) (batch_features b snr);
          (tracker, signal) = dt_step (bt_nowMs b) wasActive (sr_active result) (usable b) (vb_tracker s);
          s1 = s\<lparr>vb_smoothedSnr := snr, vb_trigger := trigger, vb_tracker := tracker, vb_pumpSignal := signal\<rparr>
      in case sr_event result of
           NoEvent \<Rightarrow> (s1, None)
         | Opened \<Rightarrow> (s1\<lparr>vb_detectedSinceMs := bt_nowMs b\<rparr>,
              Some \<lparr>dtr_ms = bt_nowMs b, dtr_detectedForMs = 0, dtr_closeFailureMask = FailureNone, dtr_event = Opened\<rparr>)
         | Closed \<Rightarrow> (s1\<lparr>vb_detectedSinceMs := 0\<rparr>,
              Some \<lparr>dtr_ms = bt_nowMs b, dtr_detectedForMs = bt_nowMs b - vb_detectedSinceMs s,
                    dtr_closeFailureMask = sr_closeFailureMask result, dtr_event = Closed\<rparr>))"


section \<open>The window against the history of the features\<close>

text \<open>Four failing frames in a row; and the specification of an open window: two entering frames in a
  row, and not four failing frames in a row after them.\<close>

definition four_fail :: "features list \<Rightarrow> bool" where
  "four_fail c \<longleftrightarrow> (\<exists>a w b. c = a @ w @ b \<and> length w = 4 \<and> list_all (\<lambda>f. \<not> stays f) w)"

definition detected :: "features list \<Rightarrow> bool" where
  "detected fs \<longleftrightarrow> (\<exists>a p q c. fs = a @ [p, q] @ c \<and> enters p \<and> enters q \<and> \<not> four_fail c)"

text \<open>The failing frames the history ends with, newest first.\<close>

definition trail :: "features list \<Rightarrow> features list" where
  "trail fs = takeWhile (\<lambda>f. \<not> stays f) (rev fs)"

lemma trail_snoc: "trail (fs @ [f]) = (if stays f then [] else f # trail fs)"
  by (simp add: trail_def)

lemma enters_stays: "enters f \<Longrightarrow> stays f"
  by (auto simp: enters_def stays_def failure_mask_def window_consts failure_defs split: option.splits)

lemma takeWhile_all: "list_all P xs \<Longrightarrow> takeWhile P (xs @ ys) = xs @ takeWhile P ys"
  by (induction xs) auto

lemma trail_four_fail: "4 \<le> length (trail fs) \<Longrightarrow> four_fail fs"
proof -
  assume l: "4 \<le> length (trail fs)"
  let ?w = "take 4 (rev fs)"
  have "rev fs = trail fs @ dropWhile (\<lambda>f. \<not> stays f) (rev fs)" by (simp add: trail_def)
  then have "take 4 (rev fs) = take 4 (trail fs)" using l by (metis diff_is_0_eq take_append append_Nil2 take_0)
  moreover have "list_all (\<lambda>f. \<not> stays f) (trail fs)" by (auto simp: trail_def list_all_iff dest: set_takeWhileD)
  ultimately have all: "list_all (\<lambda>f. \<not> stays f) ?w" "length ?w = 4"
    using l by (auto simp: list_all_iff dest: in_set_takeD)
  have "fs = rev (drop 4 (rev fs)) @ rev ?w @ []" by (metis append_Nil2 append_take_drop_id rev_append rev_rev_ident)
  then show ?thesis using all unfolding four_fail_def by (metis length_rev list_all_rev)
qed

lemma four_fail_snoc: "four_fail (c @ [f]) \<longleftrightarrow> four_fail c \<or> 4 \<le> length (trail (c @ [f]))"
proof
  assume "four_fail (c @ [f])"
  then obtain a w b where w: "c @ [f] = a @ w @ b" "length w = 4" "list_all (\<lambda>f. \<not> stays f) w"
    by (auto simp: four_fail_def)
  show "four_fail c \<or> 4 \<le> length (trail (c @ [f]))"
  proof (cases b rule: rev_cases)
    case Nil
    then have "trail (c @ [f]) = rev w @ takeWhile (\<lambda>f. \<not> stays f) (rev a)"
      using w by (simp add: trail_def takeWhile_all)
    then show ?thesis using w(2) by simp
  next
    case (snoc b' f')
    then have "c = a @ w @ b'" using w(1) by simp
    then show ?thesis using w by (auto simp: four_fail_def)
  qed
next
  assume "four_fail c \<or> 4 \<le> length (trail (c @ [f]))"
  then show "four_fail (c @ [f])"
  proof
    assume "four_fail c"
    then show ?thesis unfolding four_fail_def by (metis append.assoc)
  qed (rule trail_four_fail)
qed

lemma trail_after: "stays q \<Longrightarrow> trail (a @ [p, q] @ c) = trail c"
  by (auto simp: trail_def takeWhile_append takeWhile_eq_all_conv [THEN iffD2])

lemma detected_snoc:
  "detected (fs @ [f]) \<longleftrightarrow> (fs \<noteq> [] \<and> enters (last fs) \<and> enters f) \<or> (detected fs \<and> length (trail (fs @ [f])) < 4)"
proof
  assume "detected (fs @ [f])"
  then obtain a p q c where d: "fs @ [f] = a @ [p, q] @ c" "enters p" "enters q" "\<not> four_fail c"
    by (auto simp: detected_def)
  show "(fs \<noteq> [] \<and> enters (last fs) \<and> enters f) \<or> (detected fs \<and> length (trail (fs @ [f])) < 4)"
  proof (cases c rule: rev_cases)
    case Nil
    then have "fs = a @ [p]" "f = q" using d(1) by auto
    then show ?thesis using d by simp
  next
    case (snoc c' f')
    then have fs: "fs = a @ [p, q] @ c'" and "\<not> four_fail c'" using d four_fail_snoc by auto
    then have "detected fs" using d unfolding detected_def by blast
    moreover have "trail (fs @ [f]) = trail c" using d(1) trail_after [OF enters_stays [OF d(3)]] by simp
    ultimately show ?thesis using trail_four_fail [of c] d(4) by fastforce
  qed
next
  assume "(fs \<noteq> [] \<and> enters (last fs) \<and> enters f) \<or> (detected fs \<and> length (trail (fs @ [f])) < 4)"
  then show "detected (fs @ [f])"
  proof
    assume *: "fs \<noteq> [] \<and> enters (last fs) \<and> enters f"
    then have "fs @ [f] = butlast fs @ [last fs, f] @ []" by simp
    moreover have "\<not> four_fail []" by (simp add: four_fail_def)
    ultimately show ?thesis using * unfolding detected_def by blast
  next
    assume *: "detected fs \<and> length (trail (fs @ [f])) < 4"
    then obtain a p q c where d: "fs = a @ [p, q] @ c" "enters p" "enters q" "\<not> four_fail c"
      by (auto simp: detected_def)
    have "trail (fs @ [f]) = trail (c @ [f])"
      using trail_after [OF enters_stays [OF d(3)], of a p "c @ [f]"] by (simp add: d(1))
    then have "\<not> four_fail (c @ [f])" using * d(4) by (simp add: four_fail_snoc)
    moreover have "fs @ [f] = a @ [p, q] @ (c @ [f])" by (simp add: d(1))
    ultimately show ?thesis using d(2,3) unfolding detected_def by blast
  qed
qed

text \<open>The state of the trigger after any frames.\<close>

definition mask_of :: "features list \<Rightarrow> u8" where
  "mask_of fs = fold (\<lambda>f m. m OR failure_mask f) fs FailureNone"

lemma mask_of_snoc: "mask_of (fs @ [f]) = mask_of fs OR failure_mask f"
  by (simp add: mask_of_def)

definition window_state :: "features list \<Rightarrow> window_trigger \<Rightarrow> bool" where
  "window_state fs v \<longleftrightarrow> (vt_active v \<longleftrightarrow> detected fs)
     \<and> (\<not> vt_active v \<longrightarrow> vt_onCount v = (if fs \<noteq> [] \<and> enters (last fs) then 1 else 0))
     \<and> (vt_active v \<longrightarrow> length (trail fs) < 4 \<and> vt_offCount v = of_nat (length (trail fs))
          \<and> vt_offFailureMask v = mask_of (rev (trail fs)))"

text \<open>What a step must do to the state and report, given the frames before it.\<close>

definition window_report :: "features list \<Rightarrow> features \<Rightarrow> window_trigger \<times> step_result \<Rightarrow> bool" where
  "window_report fs f r \<longleftrightarrow> window_state (fs @ [f]) (fst r)
     \<and> sr_event (snd r) = (if \<not> detected fs \<and> detected (fs @ [f]) then Opened
           else if detected fs \<and> \<not> detected (fs @ [f]) then Closed else NoEvent)
     \<and> sr_active (snd r) = detected (fs @ [f])
     \<and> (detected fs \<and> \<not> detected (fs @ [f]) \<longrightarrow> length (trail (fs @ [f])) = 4
          \<and> sr_closeFailureMask (snd r) = mask_of (rev (trail (fs @ [f]))))"

lemma window_state_step:
  assumes w: "window_state fs v"
  shows "window_report fs f (stepDetailed v f)"
proof (cases "vt_active v")
  case False
  then have nd: "\<not> detected fs" and on: "vt_onCount v = (if fs \<noteq> [] \<and> enters (last fs) then 1 else 0)"
    using w by (auto simp: window_state_def)
  have d: "detected (fs @ [f]) \<longleftrightarrow> fs \<noteq> [] \<and> enters (last fs) \<and> enters f"
    using nd by (simp add: detected_snoc)
  have two: "\<not> (2 :: u8) \<le> 1" by (simp add: word_le_nat_alt)
  have "enters f \<Longrightarrow> trail (fs @ [f]) = []" using enters_stays by (simp add: trail_snoc)
  then show ?thesis
    using False nd on d two
    by (auto simp: window_report_def window_state_def stepDetailed_def Let_def N_ON_def mask_of_def)
next
  case True
  define n where "n = length (trail fs)"
  have dt: "detected fs" and n: "n < 4" "vt_offCount v = of_nat n" "vt_offFailureMask v = mask_of (rev (trail fs))"
    using w True by (auto simp: window_state_def n_def)
  have n4: "n = 0 \<or> n = 1 \<or> n = 2 \<or> n = 3" using n(1) by linarith
  show ?thesis
  proof (cases "stays f")
    case s: True
    then have "trail (fs @ [f]) = []" "detected (fs @ [f])" using dt by (simp_all add: trail_snoc detected_snoc)
    then show ?thesis
      using True s dt by (simp add: window_report_def window_state_def stepDetailed_def Let_def mask_of_def)
  next
    case s: False
    then have t: "trail (fs @ [f]) = f # trail fs" by (simp add: trail_snoc)
    have m: "mask_of (rev (trail (fs @ [f]))) = vt_offFailureMask v OR failure_mask f"
      by (simp add: t n(3) mask_of_snoc)
    have "\<not> enters f" using s enters_stays by blast
    then have d: "detected (fs @ [f]) \<longleftrightarrow> n \<noteq> 3" using dt n(1) t by (auto simp: detected_snoc n_def)
    have le: "N_OFF \<le> vt_offCount v + 1 \<longleftrightarrow> n = 3" using n4 n(2) by (auto simp: N_OFF_def word_le_nat_alt)
    have le2: "N_OFF \<le> 1 + vt_offCount v \<longleftrightarrow> n = 3" using le by (simp add: add.commute)
    have le3: "N_OFF \<le> of_nat n + 1 \<longleftrightarrow> n = 3" "N_OFF \<le> 1 + of_nat n \<longleftrightarrow> n = 3" using le le2 by (simp_all add: n(2))
    have c: "vt_offCount v + 1 = of_nat (length (trail (fs @ [f])))" using n(2) by (simp add: t n_def)
    have l: "length (trail (fs @ [f])) = Suc n" by (simp add: t n_def)
    show ?thesis
      using True s d le le2 le3 \<open>\<not> enters f\<close> dt c l m n(1)
      by (auto simp: window_report_def window_state_def stepDetailed_def Let_def)
  qed
qed

lemma window_state_init: "window_state [] vt_reset"
  by (auto simp: window_state_def vt_reset_def detected_def)

lemma window_state_run: "window_state fs (run stepDetailed vt_reset fs)"
proof (induction fs rule: rev_induct)
  case Nil
  show ?case using window_state_init by simp
next
  case (snoc f fs)
  then show ?case using window_state_step [OF snoc, of f] by (simp add: window_report_def)
qed

text \<open>The window is open exactly when two frames in a row have entered it and no four frames in a
  row have failed since; it reports one edge at each change, and a closing reports every condition
  that failed in the four frames that closed it.\<close>

theorem window_follows_frames:
  "let v = run stepDetailed vt_reset fs; r = snd (stepDetailed v f) in
     (vt_active v \<longleftrightarrow> detected fs) \<and> (sr_active r \<longleftrightarrow> detected (fs @ [f]))
     \<and> sr_event r = (if detected fs = detected (fs @ [f]) then NoEvent
           else if detected (fs @ [f]) then Opened else Closed)
     \<and> sr_closeFailureMask r = (if sr_event r = Closed then mask_of (drop (length fs - 3) (fs @ [f])) else FailureNone)"
proof -
  define v where "v = run stepDetailed vt_reset fs"
  note w = window_state_run [of fs, folded v_def]
  note r = window_state_step [OF w, of f]
  have "mask_of (rev (trail (fs @ [f]))) = mask_of (drop (length fs - 3) (fs @ [f]))" if "length (trail (fs @ [f])) = 4"
  proof -
    have "rev (fs @ [f]) = trail (fs @ [f]) @ dropWhile (\<lambda>f. \<not> stays f) (rev (fs @ [f]))"
      by (simp only: trail_def takeWhile_dropWhile_id)
    then have "trail (fs @ [f]) = take 4 (rev (fs @ [f]))" using that by (metis append_eq_conv_conj)
    moreover have "3 \<le> length fs" using that length_takeWhile_le [of "\<lambda>f. \<not> stays f" "rev (fs @ [f])"] by (simp add: trail_def)
    ultimately have "rev (trail (fs @ [f])) = drop (length fs - 3) (fs @ [f])"
      by (simp add: rev_take)
    then show ?thesis by simp
  qed
  moreover have "sr_event (snd (stepDetailed v f)) \<noteq> Closed \<Longrightarrow> sr_closeFailureMask (snd (stepDetailed v f)) = FailureNone"
    by (auto simp: stepDetailed_def Let_def split: if_splits)
  ultimately show ?thesis
    using w r by (auto simp: Let_def v_def [symmetric] window_report_def window_state_def)
qed


section \<open>The accepted onset\<close>

definition vib_wf :: "vibration \<Rightarrow> bool" where
  "vib_wf s \<longleftrightarrow> (isOn (vb_pumpSignal s) \<longleftrightarrow> vt_active (vb_trigger s))
     \<and> (po_state (vb_pumpSignal s) = DecayCandidate \<longleftrightarrow> dt_candidate (vb_tracker s))
     \<and> po_hasAcceptedDecayOnset (vb_pumpSignal s) = dt_accepted (vb_tracker s)
     \<and> po_acceptedDecayOnsetMs (vb_pumpSignal s) = dt_acceptedOnsetMs (vb_tracker s)
     \<and> (dt_accepted (vb_tracker s) \<longrightarrow> \<not> vt_active (vb_trigger s))
     \<and> (dt_candidate (vb_tracker s) \<longrightarrow> vt_active (vb_trigger s))
     \<and> length (dt_reference (vb_tracker s)) \<le> REFERENCE_FRAMES"

lemma appendReference_frame [simp]:
  "dt_candidate (appendReference x d) = dt_candidate d" "dt_onsetMs (appendReference x d) = dt_onsetMs d"
  "dt_accepted (appendReference x d) = dt_accepted d"
  "dt_acceptedOnsetMs (appendReference x d) = dt_acceptedOnsetMs d"
  by (simp_all add: appendReference_def)

lemma appendReference_length:
  "length (dt_reference d) \<le> REFERENCE_FRAMES \<Longrightarrow> length (dt_reference (appendReference x d)) \<le> REFERENCE_FRAMES"
  by (auto simp: appendReference_def REFERENCE_FRAMES_def)

lemma clear_fields [simp]:
  "dt_candidate (clearWindowState d) = False" "dt_accepted (clearWindowState d) = dt_accepted d"
  "dt_acceptedOnsetMs (clearWindowState d) = dt_acceptedOnsetMs d" "dt_reference (clearWindowState d) = []"
  "dt_candidate (clearAll d) = False" "dt_accepted (clearAll d) = False"
  "dt_acceptedOnsetMs (clearAll d) = 0" "dt_reference (clearAll d) = []"
  "dt_candidate (clearReference d) = dt_candidate d" "dt_onsetMs (clearReference d) = dt_onsetMs d"
  "dt_accepted (clearReference d) = dt_accepted d" "dt_acceptedOnsetMs (clearReference d) = dt_acceptedOnsetMs d"
  "dt_reference (clearReference d) = []"
  by (simp_all add: clearWindowState_def clearAll_def clearReference_def)

lemma dt_track_frame [simp]:
  "dt_accepted (dt_track t m d) = dt_accepted d" "dt_acceptedOnsetMs (dt_track t m d) = dt_acceptedOnsetMs d"
  by (simp_all add: dt_track_def Let_def split: option.splits)

lemma dt_track_length:
  "length (dt_reference d) \<le> REFERENCE_FRAMES \<Longrightarrow> length (dt_reference (dt_track t m d)) \<le> REFERENCE_FRAMES"
  by (auto simp: dt_track_def Let_def intro!: appendReference_length split: option.splits)

text \<open>A candidate left by a frame is young: it began with the frame, or has not expired.\<close>

lemma dt_track_candidate:
  assumes "dt_candidate (dt_track t m d)"
  shows "t - dt_onsetMs (dt_track t m d) \<le> MAX_CARRY_MS"
    and "dt_onsetMs (dt_track t m d) = t \<or> dt_candidate d \<and> dt_onsetMs (dt_track t m d) = dt_onsetMs d"
  using assms by (auto simp: dt_track_def Let_def not_less split: option.splits if_splits)

lemma dt_step_frame:
  assumes "dt_accepted d \<longrightarrow> \<not> was" and "dt_candidate d \<longrightarrow> was"
    and "length (dt_reference d) \<le> REFERENCE_FRAMES" and "dt_step t was on m d = (d', sig)"
  shows "isOn sig \<longleftrightarrow> on" and "po_state sig = DecayCandidate \<longleftrightarrow> dt_candidate d'"
    and "po_hasAcceptedDecayOnset sig = dt_accepted d'" and "po_acceptedDecayOnsetMs sig = dt_acceptedOnsetMs d'"
    and "dt_accepted d' \<longrightarrow> \<not> on" and "dt_candidate d' \<longrightarrow> on"
    and "length (dt_reference d') \<le> REFERENCE_FRAMES"
    and "dt_candidate d' \<longrightarrow> was \<and> d' = dt_track t m d"
    and "was \<and> \<not> on \<longrightarrow> dt_accepted d' = dt_candidate (dt_track t m d)
        \<and> (dt_accepted d' \<longrightarrow> dt_acceptedOnsetMs d' = dt_onsetMs (dt_track t m d))"
    and "\<not> was \<and> \<not> on \<longrightarrow> dt_accepted d' = dt_accepted d \<and> dt_acceptedOnsetMs d' = dt_acceptedOnsetMs d"
proof -
  have sig: "sig = \<lparr>po_state = (if on then (if dt_candidate d' then DecayCandidate else PumpOn) else PumpOff),
      po_acceptedDecayOnsetMs = dt_acceptedOnsetMs d', po_hasAcceptedDecayOnset = dt_accepted d'\<rparr>"
    using assms(4) by (auto simp: dt_step_def Let_def)
  have len: "length (dt_reference (appendReference x (clearAll d))) \<le> REFERENCE_FRAMES" for x
    by (rule appendReference_length) simp
  have d': "d' = (if \<not> was \<and> on then (case m of None \<Rightarrow> clearAll d | Some snr \<Rightarrow> appendReference snr (clearAll d))
     else if was \<and> \<not> on then clearWindowState ((dt_track t m d)\<lparr>dt_accepted := dt_candidate (dt_track t m d),
         dt_acceptedOnsetMs := (if dt_candidate (dt_track t m d) then dt_onsetMs (dt_track t m d) else 0)\<rparr>)
     else if was then dt_track t m d else clearWindowState d)"
    using assms(4) by (auto simp: dt_step_def Let_def)
  show "dt_candidate d' \<longrightarrow> on" by (auto simp: d' split: option.splits)
  then show "po_state sig = DecayCandidate \<longleftrightarrow> dt_candidate d'" by (auto simp: sig)
  show "isOn sig \<longleftrightarrow> on" by (simp add: sig isOn_def)
  show "po_hasAcceptedDecayOnset sig = dt_accepted d'" "po_acceptedDecayOnsetMs sig = dt_acceptedOnsetMs d'"
    by (simp_all add: sig)
  show "dt_accepted d' \<longrightarrow> \<not> on" using assms(1) by (auto simp: d' split: option.splits)
  show "length (dt_reference d') \<le> REFERENCE_FRAMES"
    using len dt_track_length [OF assms(3)] by (auto simp: d' split: option.splits)
  show "dt_candidate d' \<longrightarrow> was \<and> d' = dt_track t m d" using assms(2) by (auto simp: d' split: option.splits)
  show "was \<and> \<not> on \<longrightarrow> dt_accepted d' = dt_candidate (dt_track t m d)
        \<and> (dt_accepted d' \<longrightarrow> dt_acceptedOnsetMs d' = dt_onsetMs (dt_track t m d))"
    "\<not> was \<and> \<not> on \<longrightarrow> dt_accepted d' = dt_accepted d \<and> dt_acceptedOnsetMs d' = dt_acceptedOnsetMs d"
    by (simp_all add: d')
qed

text \<open>An edge of the trigger is reported with the state it leads to.\<close>

lemma stepDetailed_edge:
  assumes "stepDetailed v f = (v', r)"
  shows "sr_active r = vt_active v'"
    and "sr_event r = (if vt_active v = vt_active v' then NoEvent else if vt_active v' then Opened else Closed)"
  using assms by (auto simp: stepDetailed_def Let_def split: if_splits)

lemma analyze_parts:
  assumes "analyze s b = (s', tr)"
  obtains r where "stepDetailed (vb_trigger s) (batch_features b (vb_smoothedSnr s')) = (vb_trigger s', r)"
    and "dt_step (bt_nowMs b) (vt_active (vb_trigger s)) (vt_active (vb_trigger s')) (usable b) (vb_tracker s)
        = (vb_tracker s', vb_pumpSignal s')"
    and "map_option dtr_event tr = (if vt_active (vb_trigger s) = vt_active (vb_trigger s') then None
        else Some (if vt_active (vb_trigger s') then Opened else Closed))"
proof -
  obtain v r where v: "stepDetailed (vb_trigger s) (batch_features b (smoothed b (vb_smoothedSnr s))) = (v, r)"
    by (cases "stepDetailed (vb_trigger s) (batch_features b (smoothed b (vb_smoothedSnr s)))")
  note e = stepDetailed_edge [OF v]
  obtain d g where d: "dt_step (bt_nowMs b) (vt_active (vb_trigger s)) (vt_active v) (usable b) (vb_tracker s) = (d, g)"
    by (cases "dt_step (bt_nowMs b) (vt_active (vb_trigger s)) (vt_active v) (usable b) (vb_tracker s)")
  have "vb_smoothedSnr s' = smoothed b (vb_smoothedSnr s) \<and> vb_trigger s' = v \<and> vb_tracker s' = d \<and> vb_pumpSignal s' = g
    \<and> map_option dtr_event tr = (if sr_event r = NoEvent then None else Some (sr_event r))"
    using assms v d e(1) by (cases "sr_event r") (auto simp: analyze_def Let_def)
  then show thesis using that [of r] v d e by auto
qed

text \<open>The onset of a candidate is the time of a batch since the start.\<close>

definition vib_history :: "batch list \<Rightarrow> vibration \<Rightarrow> bool" where
  "vib_history bs s \<longleftrightarrow> vib_wf s \<and> (dt_candidate (vb_tracker s) \<longrightarrow> dt_onsetMs (vb_tracker s) \<in> bt_nowMs ` set bs)"

lemma analyze_history:
  assumes "vib_history bs s" and "analyze s b = (s', tr)"
  shows "vib_history (bs @ [b]) s'"
proof -
  obtain r where p: "dt_step (bt_nowMs b) (vt_active (vb_trigger s)) (vt_active (vb_trigger s')) (usable b) (vb_tracker s)
        = (vb_tracker s', vb_pumpSignal s')"
    using analyze_parts [OF assms(2)] by blast
  have w: "dt_accepted (vb_tracker s) \<longrightarrow> \<not> vt_active (vb_trigger s)" "dt_candidate (vb_tracker s) \<longrightarrow> vt_active (vb_trigger s)"
    "length (dt_reference (vb_tracker s)) \<le> REFERENCE_FRAMES"
    and o: "dt_candidate (vb_tracker s) \<longrightarrow> dt_onsetMs (vb_tracker s) \<in> bt_nowMs ` set bs"
    using assms(1) by (auto simp: vib_history_def vib_wf_def)
  note f = dt_step_frame [OF w p]
  have "dt_candidate (vb_tracker s') \<longrightarrow> dt_onsetMs (vb_tracker s') \<in> bt_nowMs ` set (bs @ [b])"
  proof
    assume c: "dt_candidate (vb_tracker s')"
    then have "vb_tracker s' = dt_track (bt_nowMs b) (usable b) (vb_tracker s)" using f(8) by blast
    then show "dt_onsetMs (vb_tracker s') \<in> bt_nowMs ` set (bs @ [b])"
      using c o dt_track_candidate(2) [of "bt_nowMs b" "usable b" "vb_tracker s"] by auto
  qed
  moreover have "vib_wf s'" using f(1-7) by (simp add: vib_wf_def)
  ultimately show ?thesis by (simp add: vib_history_def)
qed

lemma run_history: "vib_history bs (run analyze resetAnalysis bs)"
proof (induction bs rule: rev_induct)
  case Nil
  show ?case by (simp add: vib_history_def vib_wf_def resetAnalysis_def vt_reset_def dt_reset_def no_pump_signal_def isOn_def)
next
  case (snoc b bs)
  obtain s tr where a: "analyze (run analyze resetAnalysis bs) b = (s, tr)"
    by (cases "analyze (run analyze resetAnalysis bs) b")
  from analyze_history [OF snoc a] show ?case by (simp add: a)
qed

text \<open>Batches that do not open the window leave the accepted onset of a closed one alone.\<close>

lemma closed_keeps_onset:
  assumes "vib_history bs s" and "\<not> vt_active (vb_trigger s)" and "list_all (\<lambda>x. x = None) (outputs analyze s cs)"
  shows "po_hasAcceptedDecayOnset (vb_pumpSignal (run analyze s cs)) = po_hasAcceptedDecayOnset (vb_pumpSignal s)
     \<and> po_acceptedDecayOnsetMs (vb_pumpSignal (run analyze s cs)) = po_acceptedDecayOnsetMs (vb_pumpSignal s)"
  using assms
proof (induction cs arbitrary: s bs)
  case (Cons c cs)
  obtain s' tr where a: "analyze s c = (s', tr)" by (cases "analyze s c")
  then have tr: "tr = None" using Cons.prems(3) by simp
  have h: "vib_history (bs @ [c]) s'" using analyze_history [OF Cons.prems(1) a] .
  from analyze_parts [OF a] obtain r where
    p: "dt_step (bt_nowMs c) (vt_active (vb_trigger s)) (vt_active (vb_trigger s')) (usable c) (vb_tracker s)
        = (vb_tracker s', vb_pumpSignal s')" and off: "\<not> vt_active (vb_trigger s')"
    using tr Cons.prems(2) by (metis option.distinct(1) option.simps(8))
  have w: "dt_accepted (vb_tracker s) \<longrightarrow> \<not> vt_active (vb_trigger s)" "dt_candidate (vb_tracker s) \<longrightarrow> vt_active (vb_trigger s)"
    "length (dt_reference (vb_tracker s)) \<le> REFERENCE_FRAMES" "vib_wf s"
    using Cons.prems(1) by (auto simp: vib_history_def vib_wf_def)
  have "po_hasAcceptedDecayOnset (vb_pumpSignal s') = po_hasAcceptedDecayOnset (vb_pumpSignal s)
     \<and> po_acceptedDecayOnsetMs (vb_pumpSignal s') = po_acceptedDecayOnsetMs (vb_pumpSignal s)"
    using dt_step_frame(3,4,10) [OF w(1-3) p] off Cons.prems(2) w(4) by (auto simp: vib_wf_def)
  then show ?case using Cons.IH [OF h off] Cons.prems(3) a by simp
qed simp

text \<open>A pump-off that comes with the onset of its decay comes with the time of a vibration batch at
  most two seconds old, and that onset stays readable unchanged until the pump is detected again.\<close>

theorem accepted_onset_recent:
  assumes "analyze (run analyze resetAnalysis bs) b = (s', Some tr)" and "dtr_event tr = Closed"
    and "po_hasAcceptedDecayOnset (vb_pumpSignal s')"
    and "list_all (\<lambda>x. x = None) (outputs analyze s' cs)"
  shows "\<not> isOn (vb_pumpSignal s') \<and> po_acceptedDecayOnsetMs (vb_pumpSignal s') \<in> bt_nowMs ` set (bs @ [b])
    \<and> bt_nowMs b - po_acceptedDecayOnsetMs (vb_pumpSignal s') \<le> MAX_CARRY_MS
    \<and> po_hasAcceptedDecayOnset (vb_pumpSignal (run analyze s' cs))
    \<and> po_acceptedDecayOnsetMs (vb_pumpSignal (run analyze s' cs)) = po_acceptedDecayOnsetMs (vb_pumpSignal s')"
proof -
  define s where "s = run analyze resetAnalysis bs"
  have h: "vib_history bs s" using run_history by (simp add: s_def)
  have a: "analyze s b = (s', Some tr)" using assms(1) by (simp add: s_def)
  have h': "vib_history (bs @ [b]) s'" using analyze_history [OF h a] .
  obtain r where p: "dt_step (bt_nowMs b) (vt_active (vb_trigger s)) (vt_active (vb_trigger s')) (usable b) (vb_tracker s)
        = (vb_tracker s', vb_pumpSignal s')"
    and e: "Some (dtr_event tr) = (if vt_active (vb_trigger s) = vt_active (vb_trigger s') then None
        else Some (if vt_active (vb_trigger s') then Opened else Closed))"
    using analyze_parts [OF a] by (metis option.simps(9))
  then have act: "vt_active (vb_trigger s)" "\<not> vt_active (vb_trigger s')" using assms(2) by (auto split: if_splits)
  have w: "dt_accepted (vb_tracker s) \<longrightarrow> \<not> vt_active (vb_trigger s)" "dt_candidate (vb_tracker s) \<longrightarrow> vt_active (vb_trigger s)"
    "length (dt_reference (vb_tracker s)) \<le> REFERENCE_FRAMES"
    and o: "dt_candidate (vb_tracker s) \<longrightarrow> dt_onsetMs (vb_tracker s) \<in> bt_nowMs ` set bs"
    using h by (auto simp: vib_history_def vib_wf_def)
  note f = dt_step_frame [OF w p]
  define d where "d = dt_track (bt_nowMs b) (usable b) (vb_tracker s)"
  have "dt_candidate d" "po_acceptedDecayOnsetMs (vb_pumpSignal s') = dt_onsetMs d"
    using f(3,4,9) act assms(3) by (auto simp: d_def)
  note this dt_track_candidate [OF this(1) [unfolded d_def]]
  then have "po_acceptedDecayOnsetMs (vb_pumpSignal s') \<in> bt_nowMs ` set (bs @ [b])"
    "bt_nowMs b - po_acceptedDecayOnsetMs (vb_pumpSignal s') \<le> MAX_CARRY_MS"
    using o by (auto simp: d_def)
  then show ?thesis
    using closed_keeps_onset [OF h' act(2) assms(4)] f(1) act(2) assms(3) by simp
qed

end
