(* ===== verification/Buttons.thy ===== *)
theory Buttons
  imports Prelude
begin

unbundle bit_operations_syntax

text \<open>
  Gestures of the two buttons, \<open>src/src/ui/Buttons.h/.cpp\<close> and \<open>button.h\<close>. What M5Unified says of a
  button at one poll is an input; the state of the recogniser is a record, one part per button.
\<close>

section \<open>Buttons and gestures\<close>

datatype button = NoButton | BtnA | BtnB | Both

fun button_byte :: "button \<Rightarrow> u8" where
  "button_byte NoButton = 0"
| "button_byte BtnA = 0x10"
| "button_byte BtnB = 0x20"
| "button_byte Both = 0x10 OR 0x20"

datatype gestureKind = NoKind | Short | Double | Long | Repeat

fun kind_byte :: "gestureKind \<Rightarrow> u8" where
  "kind_byte NoKind = 0"
| "kind_byte Short = 1"
| "kind_byte Double = 2"
| "kind_byte Long = 4"
| "kind_byte Repeat = 8"

datatype gesture = NoGesture | A_SHORT | A_DOUBLE | A_LONG | A_REPEAT | B_SHORT | B_DOUBLE | B_LONG | B_REPEAT | A_B_LONG

fun gesture_byte :: "gesture \<Rightarrow> u8" where
  "gesture_byte NoGesture = 0"
| "gesture_byte A_SHORT = button_byte BtnA OR kind_byte Short"
| "gesture_byte A_DOUBLE = button_byte BtnA OR kind_byte Double"
| "gesture_byte A_LONG = button_byte BtnA OR kind_byte Long"
| "gesture_byte A_REPEAT = button_byte BtnA OR kind_byte Repeat"
| "gesture_byte B_SHORT = button_byte BtnB OR kind_byte Short"
| "gesture_byte B_DOUBLE = button_byte BtnB OR kind_byte Double"
| "gesture_byte B_LONG = button_byte BtnB OR kind_byte Long"
| "gesture_byte B_REPEAT = button_byte BtnB OR kind_byte Repeat"
| "gesture_byte A_B_LONG = button_byte BtnA OR button_byte BtnB OR kind_byte Long"

definition hasButton :: "button \<Rightarrow> button \<Rightarrow> bool" where
  "hasButton buttons b \<longleftrightarrow> button_byte b \<noteq> 0 \<and> button_byte buttons AND button_byte b = button_byte b"

definition gesture_hasButton :: "gesture \<Rightarrow> button \<Rightarrow> bool" where
  "gesture_hasButton g b \<longleftrightarrow> button_byte b \<noteq> 0 \<and> gesture_byte g AND button_byte b = button_byte b"

text \<open>The kind is the low bits of the gesture's byte.\<close>

definition kindOf :: "gesture \<Rightarrow> u8" where
  "kindOf g = gesture_byte g AND (kind_byte Short OR kind_byte Double OR kind_byte Long OR kind_byte Repeat)"

definition makeGesture :: "button \<Rightarrow> gestureKind \<Rightarrow> gesture" where
  "makeGesture b k =
     (if b = Both \<and> k = Long then A_B_LONG
      else case k of
          Short \<Rightarrow> if b = BtnA then A_SHORT else B_SHORT
        | Double \<Rightarrow> if b = BtnA then A_DOUBLE else B_DOUBLE
        | Long \<Rightarrow> if b = BtnA then A_LONG else B_LONG
        | Repeat \<Rightarrow> if b = BtnA then A_REPEAT else B_REPEAT
        | NoKind \<Rightarrow> NoGesture)"

section \<open>State\<close>

text \<open>One button as M5Unified reports it at a poll.\<close>

record m5_button =
  m5_wasPressed :: bool
  m5_isPressed :: bool
  m5_wasHold :: bool
  m5_isHolding :: bool
  m5_wasClicked :: bool

record repeat_state =
  rp_enabled :: bool
  rp_initialMs :: u32
  rp_intervalMs :: u32
  rp_lastEventMs :: u32
  rp_holdStartMs :: u32

record click_state =
  ck_enabled :: bool
  ck_windowMs :: u16
  ck_count :: u8
  ck_firstClickMs :: u32

record hold_state =
  hd_pendingLong :: bool
  hd_deferredMs :: u32

record buttons =
  bs_wasBothHolding :: bool
  bs_repeatA :: repeat_state
  bs_repeatB :: repeat_state
  bs_clickA :: click_state
  bs_clickB :: click_state
  bs_holdA :: hold_state
  bs_holdB :: hold_state
  bs_twoButtonLongEnabled :: bool
  bs_twoButtonGraceMs :: u32

definition repeat_init :: repeat_state where
  "repeat_init = \<lparr>rp_enabled = False, rp_initialMs = 400, rp_intervalMs = 200, rp_lastEventMs = 0, rp_holdStartMs = 0\<rparr>"

definition click_init :: click_state where
  "click_init = \<lparr>ck_enabled = False, ck_windowMs = 250, ck_count = 0, ck_firstClickMs = 0\<rparr>"

definition hold_init :: hold_state where
  "hold_init = \<lparr>hd_pendingLong = False, hd_deferredMs = 0\<rparr>"

definition buttons_init :: buttons where
  "buttons_init = \<lparr>bs_wasBothHolding = False, bs_repeatA = repeat_init, bs_repeatB = repeat_init,
     bs_clickA = click_init, bs_clickB = click_init, bs_holdA = hold_init, bs_holdB = hold_init,
     bs_twoButtonLongEnabled = False, bs_twoButtonGraceMs = 75\<rparr>"

section \<open>One button at one poll\<close>

definition update :: "bool \<Rightarrow> u32 \<Rightarrow> m5_button \<Rightarrow> button \<Rightarrow> m5_button \<Rightarrow> u32 \<Rightarrow> hold_state \<Rightarrow> click_state
    \<Rightarrow> hold_state \<times> click_state \<times> gesture" where
  "update twoButtonLong graceMs btn b other nowMs hold cs =
     (if m5_wasHold btn then
        let cs1 = cs\<lparr>ck_count := 0\<rparr> in
        if twoButtonLong \<and> m5_isPressed other \<and> \<not> m5_isHolding other
        then (hold\<lparr>hd_pendingLong := True, hd_deferredMs := nowMs\<rparr>, cs1, NoGesture)
        else (hold, cs1, makeGesture b Long)
      else if hd_pendingLong hold \<and> graceMs \<le> nowMs - hd_deferredMs hold
      then (hold\<lparr>hd_pendingLong := False\<rparr>, cs, makeGesture b Long)
      else if \<not> ck_enabled cs then
        (hold, cs, if m5_wasClicked btn then makeGesture b Short else NoGesture)
      else
        let cs1 = (if m5_wasClicked btn
                   then (if ck_count cs = 0 then cs\<lparr>ck_firstClickMs := nowMs\<rparr> else cs)\<lparr>ck_count := ck_count cs + 1\<rparr>
                   else cs) in
        if m5_wasClicked btn \<and> 2 \<le> ck_count cs1 then (hold, cs1\<lparr>ck_count := 0\<rparr>, makeGesture b Double)
        else if ck_count cs1 = 1 \<and> ucast (ck_windowMs cs1) \<le> nowMs - ck_firstClickMs cs1
        then (hold, cs1\<lparr>ck_count := 0\<rparr>, makeGesture b Short)
        else (hold, cs1, NoGesture))"

definition checkRepeat :: "m5_button \<Rightarrow> u32 \<Rightarrow> repeat_state \<Rightarrow> repeat_state \<times> bool" where
  "checkRepeat btn nowMs st =
     (if \<not> rp_enabled st then (st, False)
      else if \<not> m5_isHolding btn then (st\<lparr>rp_lastEventMs := 0\<rparr>, False)
      else if rp_holdStartMs st = 0 then (st, False)
      else if rp_lastEventMs st = 0 then
        (if rp_initialMs st \<le> nowMs - rp_holdStartMs st then (st\<lparr>rp_lastEventMs := nowMs\<rparr>, True) else (st, False))
      else if rp_intervalMs st \<le> nowMs - rp_lastEventMs st then (st\<lparr>rp_lastEventMs := nowMs\<rparr>, True)
      else (st, False))"

section \<open>Configuration\<close>

definition set_repeat :: "(repeat_state \<Rightarrow> repeat_state) \<Rightarrow> button \<Rightarrow> buttons \<Rightarrow> buttons" where
  "set_repeat f b s =
     (let s1 = (if hasButton b BtnA then s\<lparr>bs_repeatA := f (bs_repeatA s)\<rparr> else s)
      in if hasButton b BtnB then s1\<lparr>bs_repeatB := f (bs_repeatB s1)\<rparr> else s1)"

definition set_click :: "(click_state \<Rightarrow> click_state) \<Rightarrow> button \<Rightarrow> buttons \<Rightarrow> buttons" where
  "set_click f b s =
     (let s1 = (if hasButton b BtnA then s\<lparr>bs_clickA := f (bs_clickA s)\<rparr> else s)
      in if hasButton b BtnB then s1\<lparr>bs_clickB := f (bs_clickB s1)\<rparr> else s1)"

definition setAutoRepeat :: "u32 \<Rightarrow> u32 \<Rightarrow> button \<Rightarrow> buttons \<Rightarrow> buttons" where
  "setAutoRepeat initialMs intervalMs = set_repeat (\<lambda>r. r\<lparr>rp_initialMs := initialMs, rp_intervalMs := intervalMs\<rparr>)"

definition enableAutoRepeat :: "button \<Rightarrow> buttons \<Rightarrow> buttons" where
  "enableAutoRepeat = set_repeat (\<lambda>r. r\<lparr>rp_enabled := True\<rparr>)"

definition clearAutoRepeat :: "button \<Rightarrow> buttons \<Rightarrow> buttons" where
  "clearAutoRepeat = set_repeat (\<lambda>r. r\<lparr>rp_holdStartMs := 0\<rparr>)"

definition disableAutoRepeat :: "button \<Rightarrow> buttons \<Rightarrow> buttons" where
  "disableAutoRepeat = set_repeat (\<lambda>r. r\<lparr>rp_enabled := False\<rparr>)"

definition setDoublePressWindow :: "u16 \<Rightarrow> button \<Rightarrow> buttons \<Rightarrow> buttons" where
  "setDoublePressWindow windowMs = set_click (\<lambda>c. c\<lparr>ck_windowMs := windowMs\<rparr>)"

definition enableDoublePress :: "button \<Rightarrow> buttons \<Rightarrow> buttons" where
  "enableDoublePress = set_click (\<lambda>c. c\<lparr>ck_enabled := True, ck_count := 0\<rparr>)"

definition disableDoublePress :: "button \<Rightarrow> buttons \<Rightarrow> buttons" where
  "disableDoublePress = set_click (\<lambda>c. c\<lparr>ck_enabled := False, ck_count := 0\<rparr>)"

definition setTwoButtonGrace :: "u32 \<Rightarrow> buttons \<Rightarrow> buttons" where
  "setTwoButtonGrace graceMs s = s\<lparr>bs_twoButtonGraceMs := graceMs\<rparr>"

definition enableTwoButtonLong :: "buttons \<Rightarrow> buttons" where
  "enableTwoButtonLong s = s\<lparr>bs_twoButtonLongEnabled := True\<rparr>"

definition disableTwoButtonLong :: "buttons \<Rightarrow> buttons" where
  "disableTwoButtonLong s = s\<lparr>bs_twoButtonLongEnabled := False,
     bs_holdA := (bs_holdA s)\<lparr>hd_pendingLong := False\<rparr>, bs_holdB := (bs_holdB s)\<lparr>hd_pendingLong := False\<rparr>\<rparr>"

section \<open>The poll\<close>

record poll_input =
  pi_now :: u32
  pi_a :: m5_button
  pi_b :: m5_button

definition pressed_buttons :: "poll_input \<Rightarrow> button" where
  "pressed_buttons i =
     (let pressed = (if m5_wasPressed (pi_a i) then BtnA else NoButton)
      in if m5_wasPressed (pi_b i) then (if hasButton pressed BtnA then Both else BtnB) else pressed)"

text \<open>The first branch of \<open>poll\<close>: both buttons hold.\<close>

definition poll_both :: "buttons \<Rightarrow> buttons \<times> gesture" where
  "poll_both s =
     (if bs_wasBothHolding s then (s, NoGesture)
      else (s\<lparr>bs_wasBothHolding := True,
              bs_clickA := (bs_clickA s)\<lparr>ck_count := 0\<rparr>, bs_clickB := (bs_clickB s)\<lparr>ck_count := 0\<rparr>,
              bs_holdA := (bs_holdA s)\<lparr>hd_pendingLong := False\<rparr>, bs_holdB := (bs_holdB s)\<lparr>hd_pendingLong := False\<rparr>\<rparr>,
            makeGesture Both Long))"

text \<open>Leaving a two-button hold restarts the repeat clock of the button still held.\<close>

definition leave_both :: "poll_input \<Rightarrow> buttons \<Rightarrow> buttons" where
  "leave_both i s =
     (let s1 = (if bs_wasBothHolding s \<and> m5_isHolding (pi_a i)
                then s\<lparr>bs_repeatA := (bs_repeatA s)\<lparr>rp_holdStartMs := pi_now i\<rparr>\<rparr> else s);
          s2 = (if bs_wasBothHolding s \<and> m5_isHolding (pi_b i)
                then s1\<lparr>bs_repeatB := (bs_repeatB s1)\<lparr>rp_holdStartMs := pi_now i\<rparr>\<rparr> else s1)
      in s2\<lparr>bs_wasBothHolding := False\<rparr>)"

text \<open>Both buttons are updated before either gesture is returned.\<close>

definition update_both :: "poll_input \<Rightarrow> buttons \<Rightarrow> buttons \<times> gesture \<times> gesture" where
  "update_both i s =
     (let (hA, cA, evA) = update (bs_twoButtonLongEnabled s) (bs_twoButtonGraceMs s) (pi_a i) BtnA (pi_b i)
            (pi_now i) (bs_holdA s) (bs_clickA s);
          (hB, cB, evB) = update (bs_twoButtonLongEnabled s) (bs_twoButtonGraceMs s) (pi_b i) BtnB (pi_a i)
            (pi_now i) (bs_holdB s) (bs_clickB s);
          s1 = s\<lparr>bs_holdA := hA, bs_clickA := cA, bs_holdB := hB, bs_clickB := cB\<rparr>;
          s2 = (if evA = A_LONG then s1\<lparr>bs_repeatA := (bs_repeatA s1)\<lparr>rp_holdStartMs := pi_now i\<rparr>\<rparr> else s1);
          s3 = (if evB = B_LONG then s2\<lparr>bs_repeatB := (bs_repeatB s2)\<lparr>rp_holdStartMs := pi_now i\<rparr>\<rparr> else s2)
      in (s3, evA, evB))"

definition poll_repeat :: "poll_input \<Rightarrow> buttons \<Rightarrow> buttons \<times> gesture" where
  "poll_repeat i s =
     (let (rA, fireA) = checkRepeat (pi_a i) (pi_now i) (bs_repeatA s);
          s1 = s\<lparr>bs_repeatA := rA\<rparr>
      in if fireA then (s1, A_REPEAT)
         else let (rB, fireB) = checkRepeat (pi_b i) (pi_now i) (bs_repeatB s1);
                  s2 = s1\<lparr>bs_repeatB := rB\<rparr>
              in (s2, if fireB then B_REPEAT else NoGesture))"

definition poll :: "buttons \<Rightarrow> poll_input \<Rightarrow> buttons \<times> button \<times> gesture" where
  "poll s i =
     (let (s', g) =
        (if m5_isHolding (pi_a i) \<and> m5_isHolding (pi_b i) then poll_both s
         else let (s1, evA, evB) = update_both i (leave_both i s) in
              if evA \<noteq> NoGesture then (s1, evA)
              else if evB \<noteq> NoGesture then (s1, evB)
              else poll_repeat i s1)
      in (s', pressed_buttons i, g))"


lemma makeGesture_simps [simp]:
  "makeGesture BtnA Short = A_SHORT" "makeGesture BtnA Double = A_DOUBLE" "makeGesture BtnA Long = A_LONG"
  "makeGesture BtnB Short = B_SHORT" "makeGesture BtnB Double = B_DOUBLE" "makeGesture BtnB Long = B_LONG"
  "makeGesture Both Long = A_B_LONG"
  by (simp_all add: makeGesture_def)

text \<open>The byte of a gesture says which buttons made it and how.\<close>

lemma gesture_bytes:
  "gesture_hasButton (makeGesture BtnA k) BtnB = False" "gesture_hasButton (makeGesture BtnB k) BtnA = False"
  "k \<noteq> NoKind \<Longrightarrow> kindOf (makeGesture BtnA k) = kind_byte k \<and> gesture_hasButton (makeGesture BtnA k) BtnA"
  "k \<noteq> NoKind \<Longrightarrow> kindOf (makeGesture BtnB k) = kind_byte k \<and> gesture_hasButton (makeGesture BtnB k) BtnB"
  by (cases k; simp add: makeGesture_def gesture_hasButton_def kindOf_def)+

section \<open>Clicks are counted once\<close>

text \<open>What one button makes of a poll, when it is not being held.\<close>

definition click_weight :: "gesture \<Rightarrow> nat" where
  "click_weight g = (if g = A_SHORT then 1 else if g = A_DOUBLE then 2 else 0)"

lemma update_click:
  assumes "\<not> m5_wasHold btn" and "\<not> hd_pendingLong hold" and "ck_enabled cs" and "unat (ck_count cs) \<le> 1"
    and "update e graceMs btn BtnA other t hold cs = (hold', cs', g)"
  shows "hold' = hold \<and> ck_enabled cs' \<and> unat (ck_count cs') \<le> 1
    \<and> click_weight g + unat (ck_count cs') = unat (ck_count cs) + (if m5_wasClicked btn then 1 else 0)"
proof -
  have c: "ck_count cs = 0 \<or> ck_count cs = 1"
    using assms(4) by (auto simp: word_unat_eq_iff le_Suc_eq)
  have "\<not> (2 :: u8) \<le> 1" "\<not> (2 :: u8) \<le> 0" by (simp_all add: word_le_nat_alt)
  then show ?thesis
    using c assms(1-3,5) by (auto simp: update_def Let_def click_weight_def split: if_splits)
qed

lemma update_A_only:
  "update e gr btn BtnA other t hold cs = (hold', cs', g) \<Longrightarrow> g \<in> {NoGesture, A_SHORT, A_DOUBLE, A_LONG}"
  "update e gr btn BtnB other t hold cs = (hold', cs', g) \<Longrightarrow> g \<in> {NoGesture, B_SHORT, B_DOUBLE, B_LONG}"
  by (auto simp: update_def Let_def split: if_splits)

lemma poll_repeat_frame:
  "snd (poll_repeat i s) \<in> {NoGesture, A_REPEAT, B_REPEAT}"
  "bs_clickA (fst (poll_repeat i s)) = bs_clickA s" "bs_holdA (fst (poll_repeat i s)) = bs_holdA s"
  "bs_clickB (fst (poll_repeat i s)) = bs_clickB s" "bs_holdB (fst (poll_repeat i s)) = bs_holdB s"
  "bs_wasBothHolding (fst (poll_repeat i s)) = bs_wasBothHolding s"
  by (auto simp: poll_repeat_def Let_def split: prod.splits if_splits)

lemma leave_both_frame [simp]:
  "bs_clickA (leave_both i s) = bs_clickA s" "bs_holdA (leave_both i s) = bs_holdA s"
  "bs_clickB (leave_both i s) = bs_clickB s" "bs_holdB (leave_both i s) = bs_holdB s"
  "bs_twoButtonLongEnabled (leave_both i s) = bs_twoButtonLongEnabled s"
  "bs_twoButtonGraceMs (leave_both i s) = bs_twoButtonGraceMs s"
  "bs_wasBothHolding (leave_both i s) = False"
  by (simp_all add: leave_both_def Let_def)

text \<open>A poll that is not a two-button hold is the two updates, and the gesture returned.\<close>

lemma poll_parts:
  assumes "\<not> (m5_isHolding (pi_a i) \<and> m5_isHolding (pi_b i))" and "poll s i = (s', pr, g)"
  obtains hA cA evA hB cB evB where
    "update (bs_twoButtonLongEnabled s) (bs_twoButtonGraceMs s) (pi_a i) BtnA (pi_b i) (pi_now i) (bs_holdA s) (bs_clickA s)
      = (hA, cA, evA)"
    "update (bs_twoButtonLongEnabled s) (bs_twoButtonGraceMs s) (pi_b i) BtnB (pi_a i) (pi_now i) (bs_holdB s) (bs_clickB s)
      = (hB, cB, evB)"
    "bs_holdA s' = hA" "bs_clickA s' = cA" "bs_holdB s' = hB" "bs_clickB s' = cB" "\<not> bs_wasBothHolding s'"
    "evA \<noteq> NoGesture \<Longrightarrow> g = evA" "evA = NoGesture \<Longrightarrow> evB \<noteq> NoGesture \<Longrightarrow> g = evB"
    "evA = NoGesture \<Longrightarrow> evB = NoGesture \<Longrightarrow> g \<in> {NoGesture, A_REPEAT, B_REPEAT}"
proof -
  obtain hA cA evA where a: "update (bs_twoButtonLongEnabled s) (bs_twoButtonGraceMs s) (pi_a i) BtnA (pi_b i) (pi_now i)
      (bs_holdA s) (bs_clickA s) = (hA, cA, evA)" by (rule prod_cases3)
  obtain hB cB evB where b: "update (bs_twoButtonLongEnabled s) (bs_twoButtonGraceMs s) (pi_b i) BtnB (pi_a i) (pi_now i)
      (bs_holdB s) (bs_clickB s) = (hB, cB, evB)" by (rule prod_cases3)
  define s1 where "s1 = fst (update_both i (leave_both i s))"
  have u: "update_both i (leave_both i s) = (s1, evA, evB)"
    by (simp add: s1_def update_both_def a b Let_def)
  have f: "bs_holdA s1 = hA" "bs_clickA s1 = cA" "bs_holdB s1 = hB" "bs_clickB s1 = cB" "\<not> bs_wasBothHolding s1"
    by (simp_all add: s1_def update_both_def a b Let_def)
  have r: "(s', g) = (if evA \<noteq> NoGesture then (s1, evA) else if evB \<noteq> NoGesture then (s1, evB) else poll_repeat i s1)"
    using assms u by (auto simp: poll_def Let_def split: prod.splits)
  obtain s2 g2 where pr: "poll_repeat i s1 = (s2, g2)" by (cases "poll_repeat i s1")
  note fr = poll_repeat_frame [of i s1, unfolded pr fst_conv snd_conv]
  have two: "s' = s1 \<or> s' = s2" using r pr by (auto split: if_splits)
  then have s': "bs_holdA s' = hA" "bs_clickA s' = cA" "bs_holdB s' = hB" "bs_clickB s' = cB" "\<not> bs_wasBothHolding s'"
    using f fr by auto
  have g: "evA \<noteq> NoGesture \<Longrightarrow> g = evA" "evA = NoGesture \<Longrightarrow> evB \<noteq> NoGesture \<Longrightarrow> g = evB"
    "evA = NoGesture \<Longrightarrow> evB = NoGesture \<Longrightarrow> g \<in> {NoGesture, A_REPEAT, B_REPEAT}"
    using r pr fr(1) by simp_all
  show thesis by (rule that [OF a b s' g])
qed

definition gestures :: "buttons \<Rightarrow> poll_input list \<Rightarrow> gesture list" where
  "gestures s is = map snd (outputs poll s is)"

text \<open>With double presses enabled every click of a button that is not held ends up in exactly one
  gesture: over any polls, whatever the other button does, the clicks are the short presses plus twice
  the double presses, plus the one that may still be waiting for its window.\<close>

theorem clicks_conserved:
  assumes "list_all (\<lambda>i. \<not> m5_wasHold (pi_a i) \<and> \<not> (m5_isHolding (pi_a i) \<and> m5_isHolding (pi_b i))) is"
    and "\<not> hd_pendingLong (bs_holdA s)" and "ck_enabled (bs_clickA s)" and "unat (ck_count (bs_clickA s)) \<le> 1"
  shows "length (filter (\<lambda>i. m5_wasClicked (pi_a i)) is) + unat (ck_count (bs_clickA s))
      = length (filter (\<lambda>g. g = A_SHORT) (gestures s is)) + 2 * length (filter (\<lambda>g. g = A_DOUBLE) (gestures s is))
        + unat (ck_count (bs_clickA (run poll s is)))
    \<and> unat (ck_count (bs_clickA (run poll s is))) \<le> 1"
  using assms
proof (induction "is" arbitrary: s)
  case (Cons i "is")
  obtain s' pr g where p: "poll s i = (s', pr, g)" by (rule prod_cases3)
  from Cons.prems(1) have "\<not> (m5_isHolding (pi_a i) \<and> m5_isHolding (pi_b i))" "\<not> m5_wasHold (pi_a i)" by auto
  from poll_parts [OF this(1) p] obtain hA cA evA hB cB evB where
    a: "update (bs_twoButtonLongEnabled s) (bs_twoButtonGraceMs s) (pi_a i) BtnA (pi_b i) (pi_now i) (bs_holdA s) (bs_clickA s)
      = (hA, cA, evA)"
    and b: "update (bs_twoButtonLongEnabled s) (bs_twoButtonGraceMs s) (pi_b i) BtnB (pi_a i) (pi_now i) (bs_holdB s) (bs_clickB s)
      = (hB, cB, evB)"
    and s': "bs_holdA s' = hA" "bs_clickA s' = cA"
    and g: "evA \<noteq> NoGesture \<Longrightarrow> g = evA" "evA = NoGesture \<Longrightarrow> evB \<noteq> NoGesture \<Longrightarrow> g = evB"
      "evA = NoGesture \<Longrightarrow> evB = NoGesture \<Longrightarrow> g \<in> {NoGesture, A_REPEAT, B_REPEAT}" by metis
  note c = update_click [OF \<open>\<not> m5_wasHold (pi_a i)\<close> Cons.prems(2-4) a]
  have w: "click_weight g = click_weight evA"
    using g update_A_only(2) [OF b] by (cases "evA = NoGesture"; cases "evB = NoGesture") (auto simp: click_weight_def)
  have ih: "length (filter (\<lambda>i. m5_wasClicked (pi_a i)) is) + unat (ck_count cA)
      = length (filter (\<lambda>g. g = A_SHORT) (gestures s' is)) + 2 * length (filter (\<lambda>g. g = A_DOUBLE) (gestures s' is))
        + unat (ck_count (bs_clickA (run poll s' is)))
    \<and> unat (ck_count (bs_clickA (run poll s' is))) \<le> 1"
    using Cons.IH [of s'] Cons.prems(1,2) c s' by auto
  define gs where "gs = gestures s' is"
  have "length (filter (\<lambda>g. g = A_SHORT) (g # gs)) + 2 * length (filter (\<lambda>g. g = A_DOUBLE) (g # gs))
      = click_weight g + (length (filter (\<lambda>g. g = A_SHORT) gs) + 2 * length (filter (\<lambda>g. g = A_DOUBLE) gs))"
    by (simp add: click_weight_def)
  moreover have un: "gestures s (i # is) = g # gs" "run poll s (i # is) = run poll s' is"
    by (simp_all add: gestures_def gs_def p)
  moreover have "length (filter (\<lambda>i. m5_wasClicked (pi_a i)) (i # is))
      = length (filter (\<lambda>i. m5_wasClicked (pi_a i)) is) + (if m5_wasClicked (pi_a i) then 1 else 0)" by simp
  moreover have "click_weight evA + unat (ck_count cA) = unat (ck_count (bs_clickA s)) + (if m5_wasClicked (pi_a i) then 1 else 0)"
    using c by blast
  ultimately show ?case using ih w unfolding gs_def [symmetric] un
    by (elim conjE, intro conjI) linarith+
qed (simp add: gestures_def)

definition idle_button :: m5_button where
  "idle_button = \<lparr>m5_wasPressed = False, m5_isPressed = False, m5_wasHold = False, m5_isHolding = False, m5_wasClicked = False\<rparr>"

definition click_at :: "u32 \<Rightarrow> poll_input" where
  "click_at t = \<lparr>pi_now = t, pi_a = idle_button\<lparr>m5_wasClicked := True\<rparr>, pi_b = idle_button\<rparr>"

definition idle_at :: "u32 \<Rightarrow> poll_input" where
  "idle_at t = \<lparr>pi_now = t, pi_a = idle_button, pi_b = idle_button\<rparr>"

lemma clicks_conserved_witness:
  "let is = [click_at 100, click_at 200, click_at 900, idle_at 1200, click_at 2000]; s = enableDoublePress BtnA buttons_init in
     gestures s is = [NoGesture, A_DOUBLE, NoGesture, A_SHORT, NoGesture]
     \<and> length (filter (\<lambda>i. m5_wasClicked (pi_a i)) is) + unat (ck_count (bs_clickA s))
       = length (filter (\<lambda>g. g = A_SHORT) (gestures s is)) + 2 * length (filter (\<lambda>g. g = A_DOUBLE) (gestures s is))
        + unat (ck_count (bs_clickA (run poll s is)))"
proof -
  let ?is = "[click_at 100, click_at 200, click_at 900, idle_at 1200, click_at 2000]"
  let ?s = "enableDoublePress BtnA buttons_init"
  have "list_all (\<lambda>i. \<not> m5_wasHold (pi_a i) \<and> \<not> (m5_isHolding (pi_a i) \<and> m5_isHolding (pi_b i))) ?is"
    "\<not> hd_pendingLong (bs_holdA ?s)" "ck_enabled (bs_clickA ?s)" "unat (ck_count (bs_clickA ?s)) \<le> 1" by code_simp+
  note clicks_conserved [OF this]
  moreover have "gestures ?s ?is = [NoGesture, A_DOUBLE, NoGesture, A_SHORT, NoGesture]" by code_simp
  ultimately show ?thesis by (simp add: Let_def)
qed


section \<open>Two buttons held\<close>

definition both_hold :: "poll_input \<Rightarrow> bool" where
  "both_hold i \<longleftrightarrow> m5_isHolding (pi_a i) \<and> m5_isHolding (pi_b i)"

definition no_pending :: "buttons \<Rightarrow> bool" where
  "no_pending s \<longleftrightarrow> \<not> hd_pendingLong (bs_holdA s) \<and> \<not> hd_pendingLong (bs_holdB s)"

lemma poll_both_hold:
  "both_hold i \<Longrightarrow> poll s i = (fst (poll_both s), pressed_buttons i, snd (poll_both s))"
  by (simp add: poll_def both_hold_def Let_def split: prod.splits)

lemma update_no_hold:
  assumes "\<not> m5_wasHold btn" and "\<not> hd_pendingLong hold" and "update e gr btn b other t hold cs = (hold', cs', g)"
  shows "hold' = hold \<and> g \<noteq> makeGesture b Long \<or> b \<notin> {BtnA, BtnB}"
  using assms by (cases b) (auto simp: update_def Let_def split: if_splits)

text \<open>Without a new hold and with nothing deferred, no long gesture of a single button appears.\<close>

lemma no_single_long:
  assumes "no_pending s" and "list_all (\<lambda>i. \<not> m5_wasHold (pi_a i) \<and> \<not> m5_wasHold (pi_b i)) is"
  shows "A_LONG \<notin> set (gestures s is) \<and> B_LONG \<notin> set (gestures s is)"
  using assms
proof (induction "is" arbitrary: s)
  case (Cons i "is")
  obtain s' pr g where p: "poll s i = (s', pr, g)" by (rule prod_cases3)
  have "no_pending s' \<and> g \<noteq> A_LONG \<and> g \<noteq> B_LONG"
  proof (cases "both_hold i")
    case True
    then show ?thesis using p Cons.prems(1)
      by (auto simp: poll_both_hold poll_both_def no_pending_def split: if_splits)
  next
    case False
    then have "\<not> (m5_isHolding (pi_a i) \<and> m5_isHolding (pi_b i))" by (simp add: both_hold_def)
    from poll_parts [OF this p] obtain hA cA evA hB cB evB where
      a: "update (bs_twoButtonLongEnabled s) (bs_twoButtonGraceMs s) (pi_a i) BtnA (pi_b i) (pi_now i) (bs_holdA s) (bs_clickA s)
        = (hA, cA, evA)"
      and b: "update (bs_twoButtonLongEnabled s) (bs_twoButtonGraceMs s) (pi_b i) BtnB (pi_a i) (pi_now i) (bs_holdB s) (bs_clickB s)
        = (hB, cB, evB)"
      and s': "bs_holdA s' = hA" "bs_holdB s' = hB"
      and g: "evA \<noteq> NoGesture \<Longrightarrow> g = evA" "evA = NoGesture \<Longrightarrow> evB \<noteq> NoGesture \<Longrightarrow> g = evB"
        "evA = NoGesture \<Longrightarrow> evB = NoGesture \<Longrightarrow> g \<in> {NoGesture, A_REPEAT, B_REPEAT}" by metis
    have "hA = bs_holdA s \<and> evA \<noteq> A_LONG" "hB = bs_holdB s \<and> evB \<noteq> B_LONG"
      using update_no_hold [OF _ _ a] update_no_hold [OF _ _ b] Cons.prems by (simp_all add: no_pending_def)
    then show ?thesis
      using g update_A_only(1) [OF a] update_A_only(2) [OF b] s' Cons.prems(1)
      by (cases "evA = NoGesture"; cases "evB = NoGesture") (auto simp: no_pending_def)
  qed
  then show ?case using Cons.IH [of s'] Cons.prems(2) by (auto simp: gestures_def p)
qed (simp add: gestures_def)

text \<open>However a hold of one button was deferred before, both buttons reaching hold together give one
  two-button gesture and nothing else while they hold, and afterwards no long gesture of a single
  button until M5Unified reports a new hold.\<close>

theorem two_button_long_once:
  assumes "\<not> bs_wasBothHolding s" and "both_hold i" and "list_all both_hold is"
    and "list_all (\<lambda>i. \<not> m5_wasHold (pi_a i) \<and> \<not> m5_wasHold (pi_b i)) js"
  shows "gestures s (i # is) = A_B_LONG # replicate (length is) NoGesture
    \<and> A_LONG \<notin> set (gestures (run poll s (i # is)) js) \<and> B_LONG \<notin> set (gestures (run poll s (i # is)) js)"
proof -
  have stay: "gestures q is = replicate (length is) NoGesture \<and> run poll q is = q" if "bs_wasBothHolding q" for q
    using assms(3)
  proof (induction "is")
    case (Cons j js)
    then show ?case using that by (simp add: gestures_def poll_both_hold poll_both_def)
  qed (simp add: gestures_def)
  define q where "q = fst (poll_both s)"
  have q: "bs_wasBothHolding q" "no_pending q" "poll s i = (q, pressed_buttons i, A_B_LONG)"
    using assms(1,2) by (simp_all add: q_def poll_both_hold poll_both_def no_pending_def)
  show ?thesis
    using stay [OF q(1)] no_single_long [OF q(2) assms(4)] q(3) by (simp add: gestures_def)
qed

definition hold_a_at :: "u32 \<Rightarrow> poll_input" where
  "hold_a_at t = \<lparr>pi_now = t, pi_a = idle_button\<lparr>m5_wasHold := True, m5_isPressed := True, m5_isHolding := True\<rparr>,
     pi_b = idle_button\<lparr>m5_isPressed := True\<rparr>\<rparr>"

definition hold_both_at :: "u32 \<Rightarrow> poll_input" where
  "hold_both_at t = \<lparr>pi_now = t, pi_a = idle_button\<lparr>m5_isPressed := True, m5_isHolding := True\<rparr>,
     pi_b = idle_button\<lparr>m5_isPressed := True, m5_isHolding := True\<rparr>\<rparr>"

lemma two_button_long_once_witness:
  "let s = run poll (enableTwoButtonLong buttons_init) [hold_a_at 500] in
     hd_pendingLong (bs_holdA s)
     \<and> gestures s [hold_both_at 510, hold_both_at 520] = [A_B_LONG, NoGesture]
     \<and> A_LONG \<notin> set (gestures (run poll s [hold_both_at 510, hold_both_at 520]) [idle_at 600])"
proof -
  let ?s = "run poll (enableTwoButtonLong buttons_init) [hold_a_at 500]"
  have p: "hd_pendingLong (bs_holdA ?s)" by code_simp
  have "\<not> bs_wasBothHolding ?s" "both_hold (hold_both_at 510)" "list_all both_hold [hold_both_at 520]"
    "list_all (\<lambda>i. \<not> m5_wasHold (pi_a i) \<and> \<not> m5_wasHold (pi_b i)) [idle_at 600]" by code_simp+
  from two_button_long_once [OF this] p show ?thesis by (simp add: Let_def)
qed

text \<open>
  A poll returns one gesture. When both buttons finish one in the same poll the gesture of B is
  computed, its state consumed, and then dropped.
\<close>

lemma simultaneous_click_lost:
  "gestures buttons_init [\<lparr>pi_now = t, pi_a = idle_button\<lparr>m5_wasClicked := True\<rparr>, pi_b = idle_button\<lparr>m5_wasClicked := True\<rparr>\<rparr>,
     idle_at u] = [A_SHORT, NoGesture]"
  by (simp add: gestures_def poll_def update_both_def update_def leave_both_def poll_repeat_def checkRepeat_def
      buttons_init_def click_init_def hold_init_def repeat_init_def idle_button_def idle_at_def Let_def)

end
