(* ===== verification/TargetAlert.thy ===== *)
theory TargetAlert
  imports Recorder
begin

text \<open>
  The prediction that says when to stop the pump, \<open>src/src/apps/extraction/TargetAlert.h/.cpp\<close>: a
  flow estimate over the trusted yield, the yield projected past the cut, and the alert level.
\<close>

section \<open>State\<close>

datatype level = LEVEL_OFF | APPROACHING | STOP_NOW

record alert_state =
  as_level :: level
  as_tRemainingMs :: int
  as_flowCgPerS :: i16
  as_flowValid :: bool
  as_projectedFinalCg :: i16
  as_stopNowEdge :: bool
  as_stopNowFired :: bool

definition alert_state_init :: alert_state where
  "alert_state_init = \<lparr>as_level = LEVEL_OFF, as_tRemainingMs = 0, as_flowCgPerS = 0, as_flowValid = False,
     as_projectedFinalCg = 0, as_stopNowEdge = False, as_stopNowFired = False\<rparr>"

definition kFlowFloorCgPerS :: rat where "kFlowFloorCgPerS = 30"
definition kMaxOvershootCg :: rat where "kMaxOvershootCg = 1000"
definition kApproachWindowMs :: int where "kApproachWindowMs = 5000"

record target_alert =
  ta_flow :: flow_estimator
  ta_coeffs :: target_coeffs
  ta_state :: alert_state
  ta_lastSeq :: u32
  ta_haveLastSeq :: bool
  ta_stopNowFired :: bool
  ta_lastYieldCg :: i16
  ta_haveSample :: bool

definition ta_init :: target_alert where
  "ta_init = \<lparr>ta_flow = fe_init, ta_coeffs = default_target, ta_state = alert_state_init, ta_lastSeq = 0,
     ta_haveLastSeq = False, ta_stopNowFired = False, ta_lastYieldCg = 0, ta_haveSample = False\<rparr>"

definition setCoeffs :: "target_coeffs \<Rightarrow> target_alert \<Rightarrow> target_alert" where
  "setCoeffs c t = t\<lparr>ta_coeffs := c\<rparr>"

definition onRunningEntry :: "target_alert \<Rightarrow> target_alert" where
  "onRunningEntry t = t\<lparr>ta_flow := fe_reset (ta_flow t), ta_stopNowFired := False, ta_haveLastSeq := False,
     ta_haveSample := False, ta_lastYieldCg := 0, ta_state := alert_state_init\<rparr>"

definition ta_reset :: "target_alert \<Rightarrow> target_alert" where
  "ta_reset t = onRunningEntry t"

section \<open>One tick\<close>

definition clampToInt16 :: "rat \<Rightarrow> i16" where
  "clampToInt16 v =
     (if 32767 < v then 32767 else if v < - 32767 then word_of_int (- 32767)
      else word_of_int (truncate_int (round_away v)))"

text \<open>A new trusted sample, only while the pump runs; \<open>None\<close> is a sample without \<open>have\<close>.\<close>

definition ta_ingest :: "bool \<Rightarrow> trusted_yield option \<Rightarrow> target_alert \<Rightarrow> target_alert" where
  "ta_ingest phaseRunning sample t =
     (case sample of None \<Rightarrow> t
      | Some s \<Rightarrow>
          if \<not> phaseRunning then t
          else let t1 = t\<lparr>ta_lastYieldCg := ty_yieldCg s, ta_haveSample := True\<rparr> in
               if \<not> ta_haveLastSeq t1 \<or> ty_seq s \<noteq> ta_lastSeq t1
               then t1\<lparr>ta_lastSeq := ty_seq s, ta_haveLastSeq := True, ta_flow := fe_push (ty_tMs s) (ty_yieldCg s) (ta_flow t1)\<rparr>
               else t1)"

text \<open>The flow, and whether it is valid.\<close>

definition ta_flow_now :: "u32 \<Rightarrow> target_alert \<Rightarrow> rat \<times> bool" where
  "ta_flow_now nowMs t =
     (if \<not> ta_haveSample t then (0, False)
      else case fe_flow nowMs (ta_flow t) of None \<Rightarrow> (0, False) | Some raw \<Rightarrow> (raw, kFlowFloorCgPerS \<le> raw))"

text \<open>What still reaches the cup after a cut, in centigrams.\<close>

definition overshootCg :: "rat \<Rightarrow> bool \<Rightarrow> target_coeffs \<Rightarrow> i16" where
  "overshootCg flow flowValid c =
     (let cCg = of_int (sint (tc_cCg c));
          ov = (if flowValid then f32 (f32 (flow * f32 (of_int (uint (tc_tauMs c)) / 1000)) + cCg) else cCg);
          ov1 = (if ov < 0 then 0 else ov);
          ov2 = (if kMaxOvershootCg < ov1 then kMaxOvershootCg else ov1)
      in word_of_int (truncate_int (round_away ov2)))"

definition projectedCg :: "i16 \<Rightarrow> i16 \<Rightarrow> i16" where
  "projectedCg yieldCg overshoot = clampToInt16 (f32 (of_int (sint yieldCg) + of_int (sint overshoot)))"

definition remainingMs :: "rat \<Rightarrow> i16 \<Rightarrow> i16 \<Rightarrow> target_coeffs \<Rightarrow> int" where
  "remainingMs flow yieldCg overshoot c =
     (let roomCg = f32 (f32 (of_int (sint (tc_targetCg c)) - of_int (sint yieldCg)) - of_int (sint overshoot))
      in truncate_int (round_away (f32 (f32 (roomCg * 1000) / flow))) - uint (tc_reactionLeadMs c))"

definition alertEnabled :: "bool \<Rightarrow> target_coeffs \<Rightarrow> bool" where
  "alertEnabled phaseRunning c \<longleftrightarrow> tc_armed c \<and> 0 < sint (tc_targetCg c) \<and> phaseRunning"

definition ta_update :: "u32 \<Rightarrow> bool \<Rightarrow> trusted_yield option \<Rightarrow> target_alert \<Rightarrow> target_alert" where
  "ta_update nowMs phaseRunning sample t0 =
     (let t = ta_ingest phaseRunning sample t0;
          (flow, flowValid) = ta_flow_now nowMs t;
          c = ta_coeffs t;
          overshoot = overshootCg flow flowValid c;
          projected = (if ta_haveSample t then projectedCg (ta_lastYieldCg t) overshoot else ta_lastYieldCg t);
          tRemaining = (if ta_haveSample t \<and> flowValid then remainingMs flow (ta_lastYieldCg t) overshoot c else 0);
          alerting = (alertEnabled phaseRunning c \<and> ta_haveSample t);
          fired = (ta_stopNowFired t \<or> alerting \<and> sint (tc_targetCg c) \<le> sint projected);
          lev = (if alerting
                 then (if fired then STOP_NOW
                       else if flowValid \<and> 0 < tRemaining \<and> tRemaining \<le> kApproachWindowMs then APPROACHING
                       else LEVEL_OFF)
                 else LEVEL_OFF)
      in t\<lparr>ta_stopNowFired := fired,
           ta_state := \<lparr>as_level = lev, as_tRemainingMs = tRemaining,
             as_flowCgPerS = (if flowValid then clampToInt16 flow else 0), as_flowValid = flowValid,
             as_projectedFinalCg = projected, as_stopNowEdge = (\<not> ta_stopNowFired t \<and> fired), as_stopNowFired = fired\<rparr>\<rparr>)"

definition snapshotAtStop :: "target_alert \<Rightarrow> alarm_context" where
  "snapshotAtStop t = \<lparr>ac_yieldCg = ta_lastYieldCg t, ac_flowCgPerS = as_flowCgPerS (ta_state t),
     ac_flowValid = as_flowValid (ta_state t), ac_projectedFinalCg = as_projectedFinalCg (ta_state t)\<rparr>"


section \<open>Projection\<close>

lemma overshoot_range: "0 \<le> sint (overshootCg flow fv c) \<and> sint (overshootCg flow fv c) \<le> 1000"
proof -
  define ov where "ov = (if fv then f32 (f32 (flow * f32 (of_int (uint (tc_tauMs c)) / 1000)) + of_int (sint (tc_cCg c)))
    else of_int (sint (tc_cCg c)))"
  define ov1 where "ov1 = (if ov < 0 then 0 else ov)"
  define ov2 where "ov2 = (if kMaxOvershootCg < ov1 then kMaxOvershootCg else ov1)"
  have r: "0 \<le> ov2" "ov2 \<le> 1000" by (simp_all add: ov2_def ov1_def kMaxOvershootCg_def)
  define k where "k = \<lfloor>ov2 + 1 / 2\<rfloor>"
  have k: "0 \<le> k" "k \<le> 1000" using r unfolding k_def by linarith+
  have "overshootCg flow fv c = word_of_int (truncate_int (round_away ov2))"
    by (simp add: overshootCg_def Let_def ov_def ov1_def ov2_def)
  also have "\<dots> = word_of_int k" using r k by (simp add: round_away_def k_def)
  finally have "sint (overshootCg flow fv c) = k" using sint_i16_of_int [of k] k by simp
  then show ?thesis using k by simp
qed

lemma projected_value:
  assumes "0 \<le> sint ov" and "sint ov \<le> 1000"
  shows "sint (projectedCg y ov) = max (- 32767) (min 32767 (sint y + sint ov))"
proof -
  define n where "n = sint y + sint ov"
  have n: "- 32768 \<le> n" "n \<le> 33767" using assms sint_i16_range [of y] by (auto simp: n_def)
  have f: "f32 (of_int (sint y) + of_int (sint ov)) = of_int n"
    unfolding of_int_add [symmetric] n_def [symmetric] by (rule f32_int) (use n in simp)
  have lt: "32767 < (of_int n :: rat) \<longleftrightarrow> 32767 < n" "(of_int n :: rat) < - 32767 \<longleftrightarrow> n < - 32767"
    by (metis of_int_less_iff of_int_numeral, metis of_int_less_iff of_int_numeral of_int_minus)
  have r: "truncate_int (round_away (of_int n)) = n"
    using round_away_near [of "of_int n" n] by simp
  show ?thesis
    unfolding projectedCg_def f clampToInt16_def lt r n_def [symmetric]
    using n sint_i16_of_int [of n] sint_i16_of_int [of "- 32767"] sint_i16_of_int [of 32767] by (auto simp: max_def min_def)
qed

section \<open>What an update reports\<close>

lemma ta_update_state:
  "as_stopNowFired (ta_state (ta_update t r s q)) = ta_stopNowFired (ta_update t r s q)"
  "as_stopNowEdge (ta_state (ta_update t r s q)) \<longleftrightarrow> \<not> ta_stopNowFired q \<and> ta_stopNowFired (ta_update t r s q)"
  "ta_coeffs (ta_update t r s q) = ta_coeffs q"
  "ta_stopNowFired q \<Longrightarrow> ta_stopNowFired (ta_update t r s q)"
proof -
  have "ta_stopNowFired (ta_ingest r s q) = ta_stopNowFired q" "ta_coeffs (ta_ingest r s q) = ta_coeffs q"
    by (simp_all add: ta_ingest_def Let_def split: option.splits)
  then show "as_stopNowFired (ta_state (ta_update t r s q)) = ta_stopNowFired (ta_update t r s q)"
    "as_stopNowEdge (ta_state (ta_update t r s q)) \<longleftrightarrow> \<not> ta_stopNowFired q \<and> ta_stopNowFired (ta_update t r s q)"
    "ta_coeffs (ta_update t r s q) = ta_coeffs q"
    "ta_stopNowFired q \<Longrightarrow> ta_stopNowFired (ta_update t r s q)"
    by (auto simp: ta_update_def Let_def split: prod.splits)
qed

lemma ta_fires:
  assumes "\<not> ta_stopNowFired q" and "ta_stopNowFired (ta_update t r s q)"
  shows "r \<and> tc_armed (ta_coeffs q) \<and> 0 < sint (tc_targetCg (ta_coeffs q)) \<and> ta_haveSample (ta_update t r s q)
    \<and> sint (tc_targetCg (ta_coeffs q)) \<le> sint (as_projectedFinalCg (ta_state (ta_update t r s q)))
    \<and> sint (tc_targetCg (ta_coeffs q)) \<le> sint (ta_lastYieldCg (ta_update t r s q)) + 1000"
proof -
  define t1 where "t1 = ta_ingest r s q"
  have i: "\<not> ta_stopNowFired t1" "ta_coeffs t1 = ta_coeffs q"
    using assms(1) by (simp_all add: t1_def ta_ingest_def Let_def split: option.splits)
  obtain flow fv where f: "ta_flow_now t t1 = (flow, fv)" by (cases "ta_flow_now t t1")
  define ov where "ov = overshootCg flow fv (ta_coeffs q)"
  have o: "0 \<le> sint ov" "sint ov \<le> 1000" using overshoot_range by (simp_all add: ov_def)
  have u: "ta_haveSample (ta_update t r s q) = ta_haveSample t1" "ta_lastYieldCg (ta_update t r s q) = ta_lastYieldCg t1"
    "ta_stopNowFired (ta_update t r s q) = (alertEnabled r (ta_coeffs q) \<and> ta_haveSample t1
      \<and> sint (tc_targetCg (ta_coeffs q)) \<le> sint (projectedCg (ta_lastYieldCg t1) ov))"
    "ta_haveSample t1 \<Longrightarrow> as_projectedFinalCg (ta_state (ta_update t r s q)) = projectedCg (ta_lastYieldCg t1) ov"
    using i by (auto simp: ta_update_def Let_def t1_def [symmetric] f ov_def)
  have "sint (projectedCg (ta_lastYieldCg t1) ov) \<le> max (- 32767) (sint (ta_lastYieldCg t1) + 1000)"
    using projected_value [OF o, of "ta_lastYieldCg t1"] o(2) by (auto simp: max_def min_def)
  then show ?thesis using assms(2) u by (auto simp: alertEnabled_def max_def split: if_splits)
qed

text \<open>The updates of one shot, as the recorder's phase and the trusted samples drive them.\<close>

definition ta_step :: "target_alert \<Rightarrow> u32 \<times> bool \<times> trusted_yield option \<Rightarrow> target_alert \<times> alert_state" where
  "ta_step q i = (case i of (t, r, s) \<Rightarrow> let q' = ta_update t r s q in (q', ta_state q'))"

lemma ta_step_fired:
  "snd (ta_step q i) = ta_state (fst (ta_step q i))"
  "as_stopNowEdge (snd (ta_step q i)) \<longleftrightarrow> \<not> ta_stopNowFired q \<and> ta_stopNowFired (fst (ta_step q i))"
  "ta_stopNowFired q \<Longrightarrow> ta_stopNowFired (fst (ta_step q i))"
  "ta_coeffs (fst (ta_step q i)) = ta_coeffs q"
  by (cases i; simp add: ta_step_def Let_def ta_update_state)+

lemma ta_step_have: "ta_haveSample q \<Longrightarrow> ta_haveSample (fst (ta_step q i))"
  by (cases i) (auto simp: ta_step_def ta_update_def ta_ingest_def Let_def split: option.splits prod.splits)

text \<open>The alert after the coefficients were set at the start of a shot.\<close>

definition shot_alert :: "target_coeffs \<Rightarrow> target_alert \<Rightarrow> target_alert" where
  "shot_alert c t = setCoeffs c (onRunningEntry t)"

definition fired_wf :: "target_alert \<Rightarrow> bool" where
  "fired_wf q \<longleftrightarrow> (ta_stopNowFired q \<longrightarrow> ta_haveSample q \<and> alertEnabled True (ta_coeffs q))"

lemma fired_wf_step:
  assumes "fired_wf q"
  shows "fired_wf (fst (ta_step q i))"
proof (cases "ta_stopNowFired q")
  case True
  then show ?thesis using assms ta_step_have [of q i] ta_step_fired(4) [of q i] by (simp add: fired_wf_def)
next
  case False
  obtain t r s where i: "i = (t, r, s)" by (rule prod_cases3)
  show ?thesis
    using ta_fires [OF False, of t r s] ta_update_state(3) [of t r s q]
    by (auto simp: i ta_step_def Let_def fired_wf_def alertEnabled_def)
qed

lemma edges_count:
  "fired_wf q \<Longrightarrow> fired_wf (run ta_step q is)
   \<and> length (filter as_stopNowEdge (outputs ta_step q is))
       = (if ta_stopNowFired q then 0 else if ta_stopNowFired (run ta_step q is) then 1 else 0)
   \<and> (ta_stopNowFired q \<longrightarrow> ta_stopNowFired (run ta_step q is)) \<and> ta_coeffs (run ta_step q is) = ta_coeffs q"
proof (induction "is" arbitrary: q)
  case (Cons i "is")
  show ?case using Cons.IH [OF fired_wf_step [OF Cons.prems, of i]] ta_step_fired [of q i] by auto
qed simp

text \<open>Whatever the samples of a shot, the alert asks to stop at most once; from then on every running
  tick shows the stop; and it never asks unless it is armed, the pump runs and the trusted yield is at
  most ten grams short of the target.\<close>

theorem stop_now_once:
  "length (filter as_stopNowEdge (outputs ta_step (shot_alert c t) is)) \<le> 1
    \<and> (ta_stopNowFired (run ta_step (shot_alert c t) is)
        \<longrightarrow> as_level (snd (ta_step (run ta_step (shot_alert c t) is) (nowMs, True, s))) = STOP_NOW)
    \<and> (as_stopNowEdge (snd (ta_step (run ta_step (shot_alert c t) is) (nowMs, r, s))) \<longrightarrow>
         r \<and> tc_armed c \<and> 0 < sint (tc_targetCg c)
         \<and> sint (tc_targetCg c) \<le> sint (ta_lastYieldCg (fst (ta_step (run ta_step (shot_alert c t) is) (nowMs, r, s)))) + 1000)"
proof -
  define q where "q = shot_alert c t"
  have q: "\<not> ta_stopNowFired q" "ta_coeffs q = c" "fired_wf q"
    by (simp_all add: q_def shot_alert_def setCoeffs_def onRunningEntry_def fired_wf_def)
  define p where "p = run ta_step q is"
  note e = edges_count [OF q(3), of "is", folded p_def]
  have "as_level (snd (ta_step p (nowMs, True, s))) = STOP_NOW" if "ta_stopNowFired p"
  proof -
    have "ta_haveSample p" "alertEnabled True c" using e q(2) that by (auto simp: fired_wf_def)
    moreover have "ta_stopNowFired (ta_ingest True s p)" "ta_coeffs (ta_ingest True s p) = c"
      "ta_haveSample p \<Longrightarrow> ta_haveSample (ta_ingest True s p)"
      using that e q by (simp_all add: ta_ingest_def Let_def split: option.splits)
    ultimately show ?thesis by (auto simp: ta_step_def ta_update_def Let_def split: prod.splits)
  qed
  moreover have "as_stopNowEdge (snd (ta_step p (nowMs, r, s))) \<Longrightarrow> r \<and> tc_armed c \<and> 0 < sint (tc_targetCg c)
         \<and> sint (tc_targetCg c) \<le> sint (ta_lastYieldCg (fst (ta_step p (nowMs, r, s)))) + 1000"
    using ta_fires [of p nowMs r s] ta_step_fired(2) [of p "(nowMs, r, s)"] e q by (auto simp: ta_step_def Let_def)
  moreover have "length (filter as_stopNowEdge (outputs ta_step q is)) \<le> 1" using e q by simp
  ultimately show ?thesis unfolding p_def q_def by blast
qed

definition demo_coeffs :: target_coeffs where
  "demo_coeffs = \<lparr>tc_targetCg = 3600, tc_armed = True, tc_tauMs = 1000, tc_cCg = 150, tc_reactionLeadMs = 0\<rparr>"

definition demo_sample :: "i16 \<Rightarrow> u32 \<Rightarrow> trusted_yield option" where
  "demo_sample cg seq = Some \<lparr>ty_yieldCg = cg, ty_tMs = 1000 * seq, ty_seq = seq\<rparr>"

lemma stop_now_once_witness:
  "let is = [(1000, True, demo_sample 3400 1), (2000, True, demo_sample 3460 2)] in
     ta_stopNowFired (run ta_step (shot_alert demo_coeffs ta_init) is)
     \<and> as_level (snd (ta_step (run ta_step (shot_alert demo_coeffs ta_init) is) (3000, True, None))) = STOP_NOW
     \<and> length (filter as_stopNowEdge (outputs ta_step (shot_alert demo_coeffs ta_init) is)) \<le> 1"
proof -
  let ?is = "[(1000, True, demo_sample 3400 1), (2000, True, demo_sample 3460 2)]"
  have "ta_stopNowFired (run ta_step (shot_alert demo_coeffs ta_init) ?is)" by code_simp
  then show ?thesis
    using stop_now_once [of demo_coeffs ta_init ?is 3000 None] by (simp add: Let_def)
qed

text \<open>
  The header of the class says that the alert says stop exactly when the time remaining, less the
  operator's reaction lead, has run out. The code decides by the projected yield alone: with a
  reaction lead there are ticks with no time left that neither count down nor say stop.
\<close>

lemma reaction_lead_gap:
  assumes "alertEnabled True (ta_coeffs q)" and "ta_haveSample q" and "\<not> ta_stopNowFired q"
    and "ta_flow_now t q = (flow, True)"
    and "remainingMs flow (ta_lastYieldCg q) (overshootCg flow True (ta_coeffs q)) (ta_coeffs q) \<le> 0"
    and "sint (projectedCg (ta_lastYieldCg q) (overshootCg flow True (ta_coeffs q))) < sint (tc_targetCg (ta_coeffs q))"
  shows "as_tRemainingMs (ta_state (ta_update t True None q)) \<le> 0 \<and> as_level (ta_state (ta_update t True None q)) = LEVEL_OFF"
  using assms by (simp add: ta_update_def ta_ingest_def Let_def)

definition gap_alert :: target_alert where
  "gap_alert = \<lparr>ta_flow = fe_init\<lparr>fe_newestT := 1000, fe_estimable := True, fe_ema := \<lparr>em_y = 200, em_primed = True\<rparr>\<rparr>,
      ta_coeffs = \<lparr>tc_targetCg = 3600, tc_armed = True, tc_tauMs = 0, tc_cCg = 0, tc_reactionLeadMs = 600\<rparr>,
      ta_state = alert_state_init, ta_lastSeq = 1, ta_haveLastSeq = True, ta_stopNowFired = False,
      ta_lastYieldCg = 3500, ta_haveSample = True\<rparr>"

lemma reaction_lead_gap_instance:
  "as_tRemainingMs (ta_state (ta_update 1000 True None gap_alert)) \<le> 0
   \<and> as_level (ta_state (ta_update 1000 True None gap_alert)) = LEVEL_OFF"
proof (rule reaction_lead_gap)
  have f: "f32 100 = 100" "f32 100000 = 100000" "f32 500 = 500" "f32 3500 = 3500"
    using f32_int [of 100] f32_int [of 100000] f32_int [of 500] f32_int [of 3500] by simp_all
  have s: "sint (3600 :: i16) = 3600" "sint (3500 :: i16) = 3500" by (simp_all add: sint_u16)
  show "ta_flow_now 1000 gap_alert = (200, True)"
    by (simp add: ta_flow_now_def gap_alert_def fe_flow_def kWindowMs_def kFlowFloorCgPerS_def)
  have ov: "overshootCg 200 True (ta_coeffs gap_alert) = 0"
  proof -
    have "\<lfloor>1 / 2 :: rat\<rfloor> = 0" by (rule floor_unique) simp_all
    then show ?thesis by (simp add: overshootCg_def gap_alert_def Let_def kMaxOvershootCg_def round_away_def truncate_int_def)
  qed
  have "truncate_int (round_away 500) = 500" using round_away_near [of 500 500] truncate_int_of_int [of 500] by simp
  then show "remainingMs 200 (ta_lastYieldCg gap_alert) (overshootCg 200 True (ta_coeffs gap_alert)) (ta_coeffs gap_alert) \<le> 0"
    unfolding ov by (simp add: remainingMs_def gap_alert_def s f)
  show "sint (projectedCg (ta_lastYieldCg gap_alert) (overshootCg 200 True (ta_coeffs gap_alert))) < sint (tc_targetCg (ta_coeffs gap_alert))"
    unfolding ov using projected_value [of 0 3500] by (simp add: gap_alert_def s)
qed (simp_all add: gap_alert_def alertEnabled_def sint_u16)

end
