(* ===== verification/FlowSeries.thy ===== *)
theory FlowSeries
  imports PourEvidence
begin

text \<open>
  The flow curve of a stored shot and its sustained peak (\<open>src/src/apps/extraction/RobustFlow.h\<close>):
  centred differences of the weight that refuse to measure across a gap or a bump, and the highest
  flow held for 700 ms.
\<close>

section \<open>The centred difference\<close>

definition kFlowHalfWindowMs :: u32 where "kFlowHalfWindowMs = 500"
definition kPeakHoldMs :: u32 where "kPeakHoldMs = 700"
definition kCap :: nat where "kCap = 32"

definition miss :: "u32 \<Rightarrow> u32 \<Rightarrow> u32" where
  "miss t target = (if target < t then t - target else target - t)"

text \<open>The loop of \<open>findNearestSample\<close> from index \<open>i\<close>: the best index and its distance so far.\<close>

fun nearest_loop :: "u32 \<Rightarrow> nat \<Rightarrow> sample list \<Rightarrow> (nat \<times> u32) option \<Rightarrow> nat option" where
  "nearest_loop target i [] best = map_option fst best"
| "nearest_loop target i (s # ss) best =
     (let t = sm_tMs s;
          d = miss t target;
          best' = (case best of None \<Rightarrow> (if d < 0xFFFFFFFF then Some (i, d) else None)
                   | Some (b, bd) \<Rightarrow> (if d < bd then Some (i, d) else best))
      in if target < t \<and> best' \<noteq> None then map_option fst best'
         else nearest_loop target (i + 1) ss best')"

definition findNearestSample :: "sample list \<Rightarrow> u32 \<Rightarrow> nat \<Rightarrow> nat option" where
  "findNearestSample ss target startHint = nearest_loop target startHint (drop startHint ss) None"

text \<open>\<open>windowCrossesBreak\<close> over the edges of \<open>(iBefore, iAfter]\<close>.\<close>

definition edge_breaks :: "sample list \<Rightarrow> nat \<Rightarrow> bool" where
  "edge_breaks ss k = isFlowBreakEdge (sint (sm_cg (ss ! k)) - sint (sm_cg (ss ! (k - 1)))) (flowDeltaMs (ss ! (k - 1)) (ss ! k))"

definition windowCrossesBreak :: "sample list \<Rightarrow> nat \<Rightarrow> nat \<Rightarrow> bool" where
  "windowCrossesBreak ss iBefore iAfter = list_ex (edge_breaks ss) [iBefore + 1..<iAfter + 1]"

text \<open>The flow at sample \<open>i\<close> in g/s, with the index found before it.\<close>

definition robustSampleFlow :: "sample list \<Rightarrow> nat \<Rightarrow> nat \<Rightarrow> (nat \<times> rat) option" where
  "robustSampleFlow ss i beforeHint =
     (if length ss \<le> i then None
      else
        let tCenter = sm_tMs (ss ! i);
            tBefore = (if kFlowHalfWindowMs < tCenter then tCenter - kFlowHalfWindowMs else 0);
            tAfter = tCenter + kFlowHalfWindowMs
        in case (findNearestSample ss tBefore beforeHint, findNearestSample ss tAfter i) of
             (Some iBefore, Some iAfter) \<Rightarrow>
               if iBefore = iAfter then None
               else if kFlowHalfWindowMs < miss (sm_tMs (ss ! iBefore)) tBefore
                     \<or> kFlowHalfWindowMs < miss (sm_tMs (ss ! iAfter)) tAfter then None
               else if windowCrossesBreak ss iBefore iAfter then None
               else
                 let dt = flowDeltaMs (ss ! iBefore) (ss ! iAfter) in
                 if dt = 0 then None
                 else let dg = f32 (of_int (sint (sm_cg (ss ! iAfter)) - sint (sm_cg (ss ! iBefore))) / 100)
                      in Some (iBefore, f32 (f32 (dg * 1000) / f32 (of_int (uint dt))))
           | _ \<Rightarrow> None)"

text \<open>The series as the statistics walk it: the hint is threaded, and kept where there is no flow.\<close>

fun flow_series :: "sample list \<Rightarrow> nat list \<Rightarrow> nat \<Rightarrow> (u32 \<times> rat option) list" where
  "flow_series ss [] hint = []"
| "flow_series ss (i # is) hint =
     (case robustSampleFlow ss i hint of
        None \<Rightarrow> (sm_tMs (ss ! i), None) # flow_series ss is hint
      | Some (iBefore, f) \<Rightarrow> (sm_tMs (ss ! i), Some f) # flow_series ss is iBefore)"

section \<open>The sustained peak\<close>

record hold =
  ho_window :: "(u32 \<times> rat) list"    \<comment> \<open>the ring, oldest first\<close>
  ho_runStart :: "u32 option"        \<comment> \<open>\<open>runValid\<close> and \<open>runStartT\<close>\<close>
  ho_peak :: "rat option"            \<comment> \<open>\<open>have\<close> and \<open>sustainedPeakGPerS\<close>\<close>

definition hold_init :: hold where
  "hold_init = \<lparr>ho_window = [], ho_runStart = None, ho_peak = None\<rparr>"

definition window_min :: "(u32 \<times> rat) list \<Rightarrow> rat" where
  "window_min w = fold (\<lambda>p m. if snd p < m then snd p else m) (tl w) (snd (hd w))"

definition hold_step :: "hold \<Rightarrow> u32 \<times> rat option \<Rightarrow> hold" where
  "hold_step h p =
     (case snd p of
        None \<Rightarrow> h\<lparr>ho_window := [], ho_runStart := None\<rparr>
      | Some f \<Rightarrow>
          let t = fst p;
              runStart = (case ho_runStart h of None \<Rightarrow> t | Some r \<Rightarrow> r);
              cutoff = (if kPeakHoldMs \<le> t then t - kPeakHoldMs else 0);
              w1 = dropWhile (\<lambda>q. fst q < cutoff) (ho_window h);
              w2 = (if length w1 = kCap then tl w1 else w1);
              w3 = w2 @ [(t, f)];
              h1 = h\<lparr>ho_window := w3, ho_runStart := Some runStart\<rparr>
          in if kPeakHoldMs \<le> t - runStart
                \<and> (case ho_peak h of None \<Rightarrow> True | Some m \<Rightarrow> m < window_min w3)
             then h1\<lparr>ho_peak := Some (window_min w3)\<rparr>
             else h1)"

definition computeFlowSeriesStats :: "sample list \<Rightarrow> rat option" where
  "computeFlowSeriesStats ss = ho_peak (foldl hold_step hold_init (flow_series ss [0..<length ss] 0))"

section \<open>The hint only saves time\<close>

text \<open>The first index, from \<open>i\<close> on, of least distance.\<close>

definition is_nearest :: "u32 \<Rightarrow> sample list \<Rightarrow> nat \<Rightarrow> nat \<Rightarrow> bool" where
  "is_nearest target ss h k \<longleftrightarrow> h \<le> k \<and> k < length ss
     \<and> (\<forall>j. h \<le> j \<and> j < length ss \<longrightarrow> miss (sm_tMs (ss ! k)) target \<le> miss (sm_tMs (ss ! j)) target)
     \<and> (\<forall>j. h \<le> j \<and> j < k \<longrightarrow> miss (sm_tMs (ss ! k)) target < miss (sm_tMs (ss ! j)) target)"

lemma uint_miss: "uint (miss t target) = \<bar>uint t - uint target\<bar>"
  using uint_ge_0 [of t] uint_ge_0 [of target] by (simp add: miss_def uint_sub_if' word_less_def word_le_def)


lemma miss_le: "miss t x \<le> miss u y \<longleftrightarrow> \<bar>uint t - uint x\<bar> \<le> \<bar>uint u - uint y\<bar>"
  by (simp add: word_le_def uint_miss)

lemma miss_less: "miss t x < miss u y \<longleftrightarrow> \<bar>uint t - uint x\<bar> < \<bar>uint u - uint y\<bar>"
  by (simp add: word_less_def uint_miss)

definition early :: "sample list \<Rightarrow> bool" where
  "early ss \<longleftrightarrow> sorted (map sm_tMs ss) \<and> list_all (\<lambda>s. uint (sm_tMs s) < 2 ^ 31) ss"

lemma early_sorted: "early ss \<Longrightarrow> i \<le> j \<Longrightarrow> j < length ss \<Longrightarrow> uint (sm_tMs (ss ! i)) \<le> uint (sm_tMs (ss ! j))"
  using sorted_nth_mono [of "map sm_tMs ss" i j] by (simp add: early_def word_le_def)

lemma early_bound: "early ss \<Longrightarrow> j < length ss \<Longrightarrow> uint (sm_tMs (ss ! j)) < 2 ^ 31"
  by (auto simp: early_def list_all_length)

text \<open>The best index so far, after the indices below \<open>i\<close>, none of which lies past the target.\<close>

definition nearest_so_far :: "u32 \<Rightarrow> sample list \<Rightarrow> nat \<Rightarrow> nat \<Rightarrow> (nat \<times> u32) option \<Rightarrow> bool" where
  "nearest_so_far target ss h i best \<longleftrightarrow>
     (case best of None \<Rightarrow> i = h
      | Some (b, bd) \<Rightarrow> bd = miss (sm_tMs (ss ! b)) target \<and> b < i \<and> i \<le> length ss \<and> is_nearest target (take i ss) h b)
     \<and> (\<forall>j. h \<le> j \<and> j < i \<longrightarrow> uint (sm_tMs (ss ! j)) \<le> uint target)"

lemma is_nearest_take:
  "i \<le> length ss \<Longrightarrow> is_nearest target (take i ss) h k \<longleftrightarrow> h \<le> k \<and> k < i
     \<and> (\<forall>j. h \<le> j \<and> j < i \<longrightarrow> miss (sm_tMs (ss ! k)) target \<le> miss (sm_tMs (ss ! j)) target)
     \<and> (\<forall>j. h \<le> j \<and> j < k \<longrightarrow> miss (sm_tMs (ss ! k)) target < miss (sm_tMs (ss ! j)) target)"
  unfolding is_nearest_def by (auto simp: min_def)

lemma nearest_past:
  assumes "early ss" and "i \<le> length ss" and "is_nearest target (take i ss) h k" and "0 < i"
    and "uint target \<le> uint (sm_tMs (ss ! (i - 1)))" and "h < i"
  shows "is_nearest target ss h k"
proof -
  have far: "miss (sm_tMs (ss ! k)) target \<le> miss (sm_tMs (ss ! j)) target" if "i \<le> j" "j < length ss" for j
  proof -
    have "miss (sm_tMs (ss ! k)) target \<le> miss (sm_tMs (ss ! (i - 1))) target"
      using assms(3,4,6) is_nearest_take [OF assms(2), of target h k] by auto
    also have "\<dots> \<le> miss (sm_tMs (ss ! j)) target"
    proof -
      have "uint (sm_tMs (ss ! (i - 1))) \<le> uint (sm_tMs (ss ! j))" using early_sorted [OF assms(1), of "i - 1" j] that by simp
      then show ?thesis unfolding miss_le using assms(5) by linarith
    qed
    finally show ?thesis .
  qed
  then show ?thesis
    using assms(2,3) is_nearest_take [OF assms(2), of target h k] unfolding is_nearest_def by (meson not_le order_less_le_trans)
qed

lemma nearest_loop_spec:
  assumes "early ss" and "uint target < 2 ^ 31" and "h \<le> i" and "i \<le> length ss" and "nearest_so_far target ss h i best"
  shows "(h < length ss \<longrightarrow> (\<exists>k. nearest_loop target i (drop i ss) best = Some k \<and> is_nearest target ss h k))
    \<and> (length ss \<le> h \<longrightarrow> nearest_loop target i (drop i ss) best = None)"
  using assms(3-5)
proof (induction "length ss - i" arbitrary: i best)
  case 0
  then have i: "i = length ss" by simp
  show ?case
  proof (cases best)
    case None
    then show ?thesis using 0 i by (simp add: nearest_so_far_def)
  next
    case (Some p)
    then show ?thesis using 0 i by (cases p) (auto simp: nearest_so_far_def is_nearest_def)
  qed
next
  case (Suc n)
  then have i: "i < length ss" by simp
  define t where "t = sm_tMs (ss ! i)"
  define d where "d = miss t target"
  have dr: "drop i ss = (ss ! i) # drop (i + 1) ss" using i by (simp add: Cons_nth_drop_Suc)
  have "uint t < 2147483648" "uint target < 2147483648" using early_bound [OF assms(1) i] assms(2) by (simp_all add: t_def)
  then have "uint d < 0xFFFFFFFF"
    unfolding d_def uint_miss using uint_ge_0 [of t] uint_ge_0 [of target] by linarith
  then have dmax: "d < 0xFFFFFFFF" by (simp add: word_less_def)
  define best' where "best' = (case best of None \<Rightarrow> (if d < 0xFFFFFFFF then Some (i, d) else None)
                   | Some (b, bd) \<Rightarrow> (if d < bd then Some (i, d) else best))"
  have hi: "h \<le> i" using Suc.prems(1) .
  have i1: "i + 1 \<le> length ss" using i by simp
  obtain b where b: "best' = Some (b, miss (sm_tMs (ss ! b)) target)" "is_nearest target (take (i + 1) ss) h b" "b \<le> i"
  proof (cases best)
    case None
    then have "h = i" using Suc.prems(3) by (simp add: nearest_so_far_def)
    then have "is_nearest target (take (i + 1) ss) h i" using i by (auto simp: is_nearest_take le_less_Suc_eq)
    then show thesis using that [of i] None dmax by (simp add: best'_def d_def t_def)
  next
    case (Some p)
    obtain b bd where p: "p = (b, bd)" by (cases p)
    have b: "bd = miss (sm_tMs (ss ! b)) target" "b < i" "is_nearest target (take i ss) h b"
      using Suc.prems(3) Some p by (auto simp: nearest_so_far_def)
    note n = b(3) [unfolded is_nearest_take [OF less_imp_le [OF i]]]
    show thesis
    proof (cases "d < bd")
      case True
      have "is_nearest target (take (i + 1) ss) h i"
        using n True i hi b(1) unfolding is_nearest_take [OF i1]
        by (auto simp: less_Suc_eq d_def t_def intro: order_trans less_imp_le order_less_le_trans)
      then show thesis using that [of i] True Some p by (simp add: best'_def d_def t_def)
    next
      case False
      have "is_nearest target (take (i + 1) ss) h b"
        using n False i b(1) unfolding is_nearest_take [OF i1]
        by (auto simp: less_Suc_eq d_def t_def not_less)
      then show thesis using that [of b] False Some p b by (simp add: best'_def)
    qed
  qed
  have step: "nearest_loop target i (drop i ss) best
      = (if target < t then map_option fst best' else nearest_loop target (i + 1) (drop (i + 1) ss) best')"
  proof -
    have "nearest_loop target i (drop i ss) best
        = (if target < t \<and> best' \<noteq> None then map_option fst best' else nearest_loop target (i + 1) (drop (i + 1) ss) best')"
      unfolding dr nearest_loop.simps Let_def t_def d_def best'_def ..
    then show ?thesis using b(1) by simp
  qed
  have hl: "h < length ss" using hi i by simp
  show ?case
  proof (cases "target < t")
    case True
    have "is_nearest target ss h b"
      using nearest_past [OF assms(1), of "i + 1" target h b] b(2) i hi True by (simp add: t_def word_less_def)
    then show ?thesis using step True b(1) hl by simp
  next
    case False
    have "nearest_so_far target ss h (i + 1) best'"
      using b i False Suc.prems(3) by (auto simp: nearest_so_far_def less_Suc_eq t_def word_less_def)
    then show ?thesis using Suc.hyps(1) [of "i + 1" best'] Suc.hyps(2) hi i step False by simp
  qed
qed


lemma findNearest:
  assumes "early ss" and "uint target < 2 ^ 31" and "h < length ss"
  obtains k where "findNearestSample ss target h = Some k" "is_nearest target ss h k"
  using nearest_loop_spec [OF assms(1,2), of h h None] assms(3)
  by (auto simp: findNearestSample_def nearest_so_far_def)

lemma is_nearest_unique: "is_nearest t ss h k \<Longrightarrow> is_nearest t ss h k' \<Longrightarrow> k = k'"
  unfolding is_nearest_def by (meson linorder_neqE_nat not_le)

text \<open>A later target's nearest sample is never before that of an earlier target.\<close>

lemma nearest_forward:
  assumes "early ss" and "is_nearest T0 ss 0 h" and "uint T0 \<le> uint T" and "is_nearest T ss 0 k"
  shows "is_nearest T ss h k"
proof -
  have "h \<le> k"
  proof (rule ccontr)
    assume "\<not> h \<le> k"
    then have kh: "k < h" by simp
    have hl: "h < length ss" using assms(2) by (simp add: is_nearest_def)
    have "uint (sm_tMs (ss ! k)) \<le> uint (sm_tMs (ss ! h))" using early_sorted [OF assms(1), of k h] kh hl by simp
    moreover have "\<bar>uint (sm_tMs (ss ! h)) - uint T0\<bar> < \<bar>uint (sm_tMs (ss ! k)) - uint T0\<bar>"
      using assms(2) kh by (simp add: is_nearest_def miss_less)
    moreover have "\<bar>uint (sm_tMs (ss ! k)) - uint T\<bar> \<le> \<bar>uint (sm_tMs (ss ! h)) - uint T\<bar>"
      using assms(4) hl by (simp add: is_nearest_def miss_le)
    ultimately show False using assms(3) by linarith
  qed
  then show ?thesis using assms(4) by (auto simp: is_nearest_def)
qed

definition before_target :: "u32 \<Rightarrow> u32" where
  "before_target t = (if kFlowHalfWindowMs < t then t - kFlowHalfWindowMs else 0)"

lemma uint_before_target: "uint (before_target t) = max 0 (uint t - 500)"
  by (auto simp: before_target_def kFlowHalfWindowMs_def word_less_def uint_sub_if' max_def)

text \<open>A hint from an earlier sample of the series.\<close>

definition good_hint :: "sample list \<Rightarrow> nat \<Rightarrow> nat \<Rightarrow> bool" where
  "good_hint ss i h \<longleftrightarrow> h = 0 \<or> (\<exists>j<i. is_nearest (before_target (sm_tMs (ss ! j))) ss 0 h)"

lemma hinted_nearest:
  assumes "early ss" and "i < length ss" and "good_hint ss i h"
  shows "findNearestSample ss (before_target (sm_tMs (ss ! i))) h = findNearestSample ss (before_target (sm_tMs (ss ! i))) 0"
proof (cases "h = 0")
  case False
  define T where "T = before_target (sm_tMs (ss ! i))"
  have T: "uint T < 2 ^ 31" using early_bound [OF assms(1,2)] by (simp add: T_def uint_before_target)
  obtain j where j: "j < i" "is_nearest (before_target (sm_tMs (ss ! j))) ss 0 h"
    using assms(3) False by (auto simp: good_hint_def)
  have le: "uint (before_target (sm_tMs (ss ! j))) \<le> uint T"
    using early_sorted [OF assms(1), of j i] j(1) assms(2) by (simp add: T_def uint_before_target)
  obtain k where k: "findNearestSample ss T 0 = Some k" "is_nearest T ss 0 k"
    using findNearest [OF assms(1) T, of 0] assms(2) by (metis gr_implies_not0 neq0_conv)
  have "h < length ss" using j(2) by (simp add: is_nearest_def)
  then obtain k' where k': "findNearestSample ss T h = Some k'" "is_nearest T ss h k'"
    using findNearest [OF assms(1) T] by blast
  have "k' = k" using is_nearest_unique [OF k'(2) nearest_forward [OF assms(1) j(2) le k(2)]] .
  then show ?thesis using k(1) k'(1) by (simp add: T_def)
qed simp

lemma robustSampleFlow_hint:
  assumes "early ss" and "i < length ss" and "good_hint ss i h"
  shows "robustSampleFlow ss i h = robustSampleFlow ss i 0"
    and "robustSampleFlow ss i h = Some (b, f) \<Longrightarrow> is_nearest (before_target (sm_tMs (ss ! i))) ss 0 b"
proof -
  note e = hinted_nearest [OF assms, unfolded before_target_def]
  show "robustSampleFlow ss i h = robustSampleFlow ss i 0"
    unfolding robustSampleFlow_def Let_def e ..
  have T: "uint (before_target (sm_tMs (ss ! i))) < 2 ^ 31"
    using early_bound [OF assms(1,2)] by (simp add: uint_before_target)
  obtain k where k: "findNearestSample ss (before_target (sm_tMs (ss ! i))) 0 = Some k"
    "is_nearest (before_target (sm_tMs (ss ! i))) ss 0 k"
    using findNearest [OF assms(1) T, of 0] assms(2) by (metis gr_implies_not0 neq0_conv)
  assume "robustSampleFlow ss i h = Some (b, f)"
  then have "findNearestSample ss (before_target (sm_tMs (ss ! i))) 0 = Some b"
    unfolding robustSampleFlow_def Let_def before_target_def [symmetric] hinted_nearest [OF assms]
    by (auto split: option.splits if_splits)
  then show "is_nearest (before_target (sm_tMs (ss ! i))) ss 0 b" using k by simp
qed

text \<open>Threading the search position through the samples changes no flow of the curve: every flow is
  the centred difference found from scratch.\<close>

theorem flow_series_unhinted:
  assumes "early ss"
  shows "flow_series ss [0..<length ss] 0
    = map (\<lambda>i. (sm_tMs (ss ! i), map_option snd (robustSampleFlow ss i 0))) [0..<length ss]"
proof -
  have "flow_series ss [i..<length ss] h
      = map (\<lambda>i. (sm_tMs (ss ! i), map_option snd (robustSampleFlow ss i 0))) [i..<length ss]"
    if "good_hint ss i h" "i \<le> length ss" for i h
    using that
  proof (induction "length ss - i" arbitrary: i h)
    case (Suc n)
    then have i: "i < length ss" by simp
    have up: "[i..<length ss] = i # [i + 1..<length ss]" using i by (simp add: upt_conv_Cons)
    note eq = robustSampleFlow_hint(1) [OF assms i Suc.prems(1)]
    show ?case
    proof (cases "robustSampleFlow ss i h")
      case None
      have "good_hint ss (i + 1) h" using Suc.prems(1) by (auto simp: good_hint_def)
      then show ?thesis using Suc.hyps(1) [of "i + 1" h] Suc.hyps(2) i None eq up by simp
    next
      case (Some p)
      obtain b f where p: "p = (b, f)" by (cases p)
      have "good_hint ss (i + 1) b"
        using robustSampleFlow_hint(2) [OF assms i Suc.prems(1) Some [unfolded p]] by (auto simp: good_hint_def)
      then show ?thesis using Suc.hyps(1) [of "i + 1" b] Suc.hyps(2) i Some p eq up by simp
    qed
  qed simp
  from this [of 0 0] show ?thesis by (simp add: good_hint_def)
qed


section \<open>What the peak means\<close>

text \<open>The state of the hold after a prefix of the series: the window is what the last run holds of the
  trailing 700 ms, if the ring was never full.\<close>

definition run_tail :: "(u32 \<times> rat option) list \<Rightarrow> (u32 \<times> rat) list" where
  "run_tail ps = rev (map (\<lambda>p. (fst p, the (snd p))) (takeWhile (\<lambda>p. snd p \<noteq> None) (rev ps)))"

definition cutoff :: "u32 \<Rightarrow> u32" where
  "cutoff t = (if kPeakHoldMs \<le> t then t - kPeakHoldMs else 0)"

definition held_window :: "(u32 \<times> rat option) list \<Rightarrow> (u32 \<times> rat) list" where
  "held_window ps = (case run_tail ps of [] \<Rightarrow> [] | _ \<Rightarrow> filter (\<lambda>q. cutoff (fst (last (run_tail ps))) \<le> fst q) (run_tail ps))"

text \<open>The peak, without a window, a ring or a running maximum: over the prefixes whose last run covers
  the hold, the largest of the least flows of the trailing 700 ms.\<close>

definition covers_hold :: "(u32 \<times> rat option) list \<Rightarrow> bool" where
  "covers_hold ps \<longleftrightarrow> run_tail ps \<noteq> [] \<and> kPeakHoldMs \<le> fst (last (run_tail ps)) - fst (hd (run_tail ps))"

definition held_flows :: "(u32 \<times> rat option) list \<Rightarrow> rat set" where
  "held_flows ps = set (map (\<lambda>n. Min (snd ` set (held_window (take n ps))))
     (filter (\<lambda>n. covers_hold (take n ps)) [0..<length ps + 1]))"

lemma run_tail_snoc:
  "run_tail (ps @ [(t, None)]) = []" "run_tail (ps @ [(t, Some f)]) = run_tail ps @ [(t, f)]"
  by (simp_all add: run_tail_def)

lemma window_min_Min: "w \<noteq> [] \<Longrightarrow> window_min w = Min (snd ` set w)"
proof -
  assume "w \<noteq> []"
  then obtain p q where w: "w = p # q" by (cases w) auto
  have f: "fold (\<lambda>p m. if snd p < m then snd p else m) q m = Min (insert m (snd ` set q))" for m
  proof (induction q arbitrary: m)
    case (Cons a q)
    have "Min (insert m (insert (snd a) (snd ` set q))) = Min (insert (min m (snd a)) (snd ` set q))"
      by (cases "snd ` set q = {}") (simp_all add: min.assoc)
    then show ?case using Cons [of "if snd a < m then snd a else m"] by (auto simp: min_def insert_commute)
  qed simp
  show ?thesis using f [of "snd p"] by (simp add: window_min_def w)
qed


lemma run_tail_times: "set (map fst (run_tail ps)) \<subseteq> set (map fst ps)"
  by (force simp: run_tail_def dest!: set_takeWhileD)

lemma run_tail_sorted: "sorted (map fst ps) \<Longrightarrow> sorted (map fst (run_tail ps))"
proof -
  assume s: "sorted (map fst ps)"
  define a b where "a = rev (dropWhile (\<lambda>p. snd p \<noteq> None) (rev ps))" and "b = rev (takeWhile (\<lambda>p. snd p \<noteq> None) (rev ps))"
  have "rev (b :: (u32 \<times> rat option) list) @ rev a = rev ps" by (simp add: a_def b_def)
  then have "ps = a @ b" by (metis rev_append rev_rev_ident)
  then have "sorted (map fst b)" using s by (simp add: sorted_append)
  then show ?thesis by (simp add: run_tail_def b_def rev_map comp_def)
qed

lemma dropWhile_filter: "sorted (map fst w) \<Longrightarrow> dropWhile (\<lambda>q. fst q < c) w = filter (\<lambda>q. c \<le> fst q) w" for c :: u32
proof (induction w)
  case (Cons q w)
  then show ?case by (auto simp: not_less intro!: filter_True [symmetric] dest: order_trans)
qed simp

lemma cutoff_mono: "s \<le> t \<Longrightarrow> cutoff s \<le> cutoff t"
  by (auto simp: cutoff_def kPeakHoldMs_def word_le_def uint_sub_if')

lemma cutoff_le: "cutoff t \<le> t"
  by (auto simp: cutoff_def kPeakHoldMs_def word_le_def uint_sub_if')

definition dense_ok :: "(u32 \<times> rat option) list \<Rightarrow> bool" where
  "dense_ok ps \<longleftrightarrow> sorted (map fst ps) \<and> list_all (\<lambda>n. length (held_window (take n ps)) \<le> kCap) [0..<length ps + 1]"

definition hold_inv :: "(u32 \<times> rat option) list \<Rightarrow> hold \<Rightarrow> bool" where
  "hold_inv ps h \<longleftrightarrow> ho_window h = held_window ps
     \<and> ho_runStart h = (if run_tail ps = [] then None else Some (fst (hd (run_tail ps))))
     \<and> ho_peak h = (if held_flows ps = {} then None else Some (Max (held_flows ps)))"

lemma held_flows_image:
  "held_flows ps = (\<lambda>n. Min (snd ` set (held_window (take n ps)))) ` {n. n < length ps + 1 \<and> covers_hold (take n ps)}"
  by (simp only: held_flows_def set_map set_filter set_upt) auto

lemma held_flows_snoc:
  "held_flows (ps @ [x]) = held_flows ps \<union> (if covers_hold (ps @ [x]) then {Min (snd ` set (held_window (ps @ [x])))} else {})"
proof -
  let ?L = "length ps"
  have t: "take n (ps @ [x]) = take n ps" if "n < ?L + 1" for n using that by simp
  have "{n. n < length (ps @ [x]) + 1 \<and> covers_hold (take n (ps @ [x]))}
      = {n. n < ?L + 1 \<and> covers_hold (take n ps)} \<union> (if covers_hold (ps @ [x]) then {?L + 1} else {})"
  proof (rule set_eqI)
    fix n
    consider "n < ?L + 1" | "n = ?L + 1" | "?L + 1 < n" by linarith
    then show "n \<in> {n. n < length (ps @ [x]) + 1 \<and> covers_hold (take n (ps @ [x]))}
      \<longleftrightarrow> n \<in> {n. n < ?L + 1 \<and> covers_hold (take n ps)} \<union> (if covers_hold (ps @ [x]) then {?L + 1} else {})"
      using t by cases auto
  qed
  moreover have "(\<lambda>n. Min (snd ` set (held_window (take n (ps @ [x]))))) ` {n. n < ?L + 1 \<and> covers_hold (take n ps)}
      = held_flows ps"
    unfolding held_flows_image by (rule image_cong [OF refl]) (simp only: mem_Collect_eq t)
  ultimately show ?thesis unfolding held_flows_image [of "ps @ [x]"] by (simp add: image_Un)
qed

lemma finite_held_flows: "finite (held_flows ps)"
  by (simp add: held_flows_def)

lemma held_window_filter:
  "run_tail ps \<noteq> [] \<Longrightarrow> held_window ps = filter (\<lambda>q. cutoff (fst (last (run_tail ps))) \<le> fst q) (run_tail ps)"
  by (auto simp: held_window_def split: list.splits)

lemma held_window_snoc:
  assumes "sorted (map fst (ps @ [(t, Some f)]))"
  shows "held_window (ps @ [(t, Some f)]) = dropWhile (\<lambda>q. fst q < cutoff t) (held_window ps) @ [(t, f)]"
proof -
  have le: "x \<le> t" if "x \<in> set (map fst (run_tail ps))" for x
  proof -
    have "x \<in> set (map fst ps)" using that run_tail_times [of ps] by blast
    then show ?thesis using assms by (auto simp: sorted_append)
  qed
  have s: "sorted (map fst (run_tail ps))" using run_tail_sorted [of ps] assms by (simp add: sorted_append)
  have fw: "filter (\<lambda>q. cutoff t \<le> fst q) (run_tail ps) = filter (\<lambda>q. cutoff t \<le> fst q) (held_window ps)"
  proof (cases "run_tail ps")
    case Nil
    then show ?thesis by (simp add: held_window_def)
  next
    case (Cons q w)
    have "fst (last (run_tail ps)) \<le> t" using le Cons by (metis last_in_set list.distinct(1) list.set_map image_eqI)
    then have "cutoff (fst (last (run_tail ps))) \<le> cutoff t" by (rule cutoff_mono)
    then show ?thesis using Cons by (auto simp: held_window_def intro!: filter_cong)
  qed
  have "sorted (map fst (held_window ps))"
    using sorted_filter [OF s] held_window_filter [of ps] by (cases "run_tail ps = []") (simp_all add: held_window_def)
  then have "dropWhile (\<lambda>q. fst q < cutoff t) (held_window ps) = filter (\<lambda>q. cutoff t \<le> fst q) (run_tail ps)"
    by (simp add: dropWhile_filter fw)
  moreover have "held_window (ps @ [(t, Some f)]) = filter (\<lambda>q. cutoff t \<le> fst q) (run_tail ps @ [(t, f)])"
    using held_window_filter [of "ps @ [(t, Some f)]"] by (simp add: run_tail_snoc)
  ultimately show ?thesis using cutoff_le [of t] by simp
qed

lemma hold_step_inv:
  assumes "hold_inv ps h" and "dense_ok (ps @ [p])"
  shows "hold_inv (ps @ [p]) (hold_step h p)"
proof (cases p)
  case (Pair t fo)
  show ?thesis
  proof (cases fo)
    case None
    then show ?thesis using assms(1) Pair
      by (simp add: hold_inv_def hold_step_def held_window_def run_tail_snoc held_flows_snoc covers_hold_def)
  next
    case (Some f)
    define w3 where "w3 = dropWhile (\<lambda>q. fst q < cutoff t) (ho_window h) @ [(t, f)]"
    define rs where "rs = (case ho_runStart h of None \<Rightarrow> t | Some r \<Rightarrow> r)"
    have hw: "held_window (ps @ [p]) = w3"
      using held_window_snoc [of ps t f] assms Pair Some by (simp add: w3_def hold_inv_def dense_ok_def)
    have rt: "run_tail (ps @ [p]) = run_tail ps @ [(t, f)]" by (simp add: Pair Some run_tail_snoc)
    have rs: "rs = fst (hd (run_tail (ps @ [p])))"
      using assms(1) by (cases "run_tail ps") (auto simp: rs_def hold_inv_def rt)
    have "length (held_window (take (length ps + 1) (ps @ [p]))) \<le> kCap"
      using assms(2) by (simp add: dense_ok_def)
    then have "length w3 \<le> kCap" by (simp add: hw)
    then have nf: "length (dropWhile (\<lambda>q. fst q < cutoff t) (ho_window h)) \<noteq> kCap" by (simp add: w3_def)
    have cov: "covers_hold (ps @ [p]) \<longleftrightarrow> kPeakHoldMs \<le> t - rs" by (simp add: covers_hold_def rt rs)
    have wm: "window_min w3 = Min (snd ` set w3)" by (rule window_min_Min) (simp add: w3_def)
    have st: "hold_step h p = (if kPeakHoldMs \<le> t - rs \<and> (case ho_peak h of None \<Rightarrow> True | Some m \<Rightarrow> m < window_min w3)
        then h\<lparr>ho_window := w3, ho_runStart := Some rs, ho_peak := Some (window_min w3)\<rparr>
        else h\<lparr>ho_window := w3, ho_runStart := Some rs\<rparr>)"
    proof -
      have "hold_step h p = (let w1 = dropWhile (\<lambda>q. fst q < cutoff t) (ho_window h);
              w2 = (if length w1 = kCap then tl w1 else w1); w = w2 @ [(t, f)];
              h1 = h\<lparr>ho_window := w, ho_runStart := Some rs\<rparr>
          in if kPeakHoldMs \<le> t - rs \<and> (case ho_peak h of None \<Rightarrow> True | Some m \<Rightarrow> m < window_min w)
             then h1\<lparr>ho_peak := Some (window_min w)\<rparr> else h1)"
        unfolding hold_step_def Pair Some fst_conv snd_conv option.case Let_def cutoff_def rs_def ..
      then show ?thesis using nf unfolding Let_def w3_def by simp
    qed
    have pk: "ho_peak h = (if held_flows ps = {} then None else Some (Max (held_flows ps)))"
      using assms(1) by (simp add: hold_inv_def)
    have "ho_peak (hold_step h p) = (if held_flows (ps @ [p]) = {} then None else Some (Max (held_flows (ps @ [p]))))"
    proof (cases "kPeakHoldMs \<le> t - rs")
      case True
      have hf: "held_flows (ps @ [p]) = insert (window_min w3) (held_flows ps)"
        using True by (simp add: held_flows_snoc cov hw wm)
      show ?thesis
      proof (cases "held_flows ps = {}")
        case e: True
        then show ?thesis using True hf st pk by simp
      next
        case e: False
        have "Max (held_flows (ps @ [p])) = max (window_min w3) (Max (held_flows ps))"
          unfolding hf using e finite_held_flows by (simp add: Max_insert)
        then show ?thesis using True e hf st pk by (auto simp: max_def)
      qed
    next
      case False
      then have "held_flows (ps @ [p]) = held_flows ps" by (simp add: held_flows_snoc cov)
      then show ?thesis using False st pk by simp
    qed
    then show ?thesis using st hw rs rt by (auto simp: hold_inv_def)
  qed
qed

text \<open>The sustained peak of a shot is the largest flow held for 700 ms: the maximum, over the samples
  whose unbroken run of estimable flow reaches at least 700 ms back, of the least flow in the 700 ms up
  to that sample, and there is none if no run is that long. The samples are time-ordered and no 700 ms
  holds more than the 32 the ring keeps.\<close>

theorem sustained_peak:
  assumes "dense_ok (flow_series ss [0..<length ss] 0)"
  shows "computeFlowSeriesStats ss
    = (let flows = held_flows (flow_series ss [0..<length ss] 0) in if flows = {} then None else Some (Max flows))"
proof -
  have "hold_inv ps (foldl hold_step hold_init ps)" if "dense_ok ps" for ps
    using that
  proof (induction ps rule: rev_induct)
    case Nil
    show ?case by (simp add: hold_inv_def hold_init_def held_window_def run_tail_def held_flows_def covers_hold_def)
  next
    case (snoc p ps)
    have "dense_ok ps" using snoc.prems by (auto simp: dense_ok_def sorted_append list_all_iff)
    then show ?case using hold_step_inv [OF snoc.IH snoc.prems] by simp
  qed
  from this [OF assms] show ?thesis by (simp add: computeFlowSeriesStats_def hold_inv_def Let_def)
qed


end
