(* ===== verification/ShotCounter.thy ===== *)
theory ShotCounter
  imports Prelude
begin

text \<open>
  The cumulative shot counter of the status bar, \<open>src/src/apps/extraction/ShotCounter.h/.cpp\<close>: a
  64-bit count in RAM and in NVS. The NVS calls are a record of functions.
\<close>

section \<open>Non-volatile storage\<close>

datatype nvs_error = ESP_OK | ESP_ERR_NVS_NOT_FOUND | ESP_FAIL

text \<open>\<open>cn_get\<close> is \<open>nvs_get_u64\<close>, with the value it stores on success.\<close>

record 'n count_nvs =
  cn_openRead :: "'n \<Rightarrow> nvs_error"
  cn_openWrite :: "'n \<Rightarrow> nvs_error"
  cn_get :: "'n \<Rightarrow> nvs_error \<times> u64"
  cn_set :: "u64 \<Rightarrow> 'n \<Rightarrow> 'n \<times> nvs_error"
  cn_commit :: "'n \<Rightarrow> 'n \<times> nvs_error"

section \<open>The counter\<close>

record shot_counter =
  sc_value :: u64
  sc_loaded :: bool

definition sc_init :: shot_counter where
  "sc_init = \<lparr>sc_value = 0, sc_loaded = False\<rparr>"

definition writeCount :: "'n count_nvs \<Rightarrow> u64 \<Rightarrow> 'n \<Rightarrow> 'n \<times> bool" where
  "writeCount nv v st =
     (if cn_openWrite nv st \<noteq> ESP_OK then (st, False)
      else case cn_set nv v st of
        (st1, e1) \<Rightarrow>
          (if e1 \<noteq> ESP_OK then (st1, False)
           else case cn_commit nv st1 of (st2, e2) \<Rightarrow> (st2, e2 = ESP_OK)))"

definition sc_load :: "'n count_nvs \<Rightarrow> 'n \<Rightarrow> shot_counter \<Rightarrow> shot_counter \<times> bool" where
  "sc_load nv st c =
     (if sc_loaded c then (c, True)
      else case cn_openRead nv st of
        ESP_ERR_NVS_NOT_FOUND \<Rightarrow> (c\<lparr>sc_value := 0, sc_loaded := True\<rparr>, True)
      | ESP_FAIL \<Rightarrow> (c, False)
      | ESP_OK \<Rightarrow> (case cn_get nv st of
          (ESP_ERR_NVS_NOT_FOUND, _) \<Rightarrow> (c\<lparr>sc_value := 0, sc_loaded := True\<rparr>, True)
        | (ESP_FAIL, _) \<Rightarrow> (c, False)
        | (ESP_OK, v) \<Rightarrow> (c\<lparr>sc_value := v, sc_loaded := True\<rparr>, True)))"

definition sc_increment :: "'n count_nvs \<Rightarrow> 'n \<Rightarrow> shot_counter \<Rightarrow> ('n \<times> shot_counter) \<times> bool" where
  "sc_increment nv st c0 =
     (case sc_load nv st c0 of
        (c, False) \<Rightarrow> ((st, c), False)
      | (c, True) \<Rightarrow>
          (if sc_value c = - 1 then ((st, c), True)
           else let c1 = c\<lparr>sc_value := sc_value c + 1\<rparr>;
                    (st1, ok) = writeCount nv (sc_value c1) st
                in ((st1, c1), ok)))"

definition sc_reset :: "'n count_nvs \<Rightarrow> 'n \<Rightarrow> shot_counter \<Rightarrow> ('n \<times> shot_counter) \<times> bool" where
  "sc_reset nv st c =
     (case writeCount nv 0 st of
        (st1, False) \<Rightarrow> ((st1, c), False)
      | (st1, True) \<Rightarrow> ((st1, c\<lparr>sc_value := 0, sc_loaded := True\<rparr>), True))"

section \<open>What NVS promises\<close>

text \<open>
  The value last committed is read back; a namespace or key that is not found was never written; a
  write or commit that fails leaves the old value or the new one.
\<close>

definition count_nvs_lawful :: "'n count_nvs \<Rightarrow> ('n \<Rightarrow> u64) \<Rightarrow> bool" where
  "count_nvs_lawful nv val \<longleftrightarrow>
     (\<forall>st. cn_openRead nv st = ESP_ERR_NVS_NOT_FOUND \<longrightarrow> val st = 0)
   \<and> (\<forall>st. fst (cn_get nv st) = ESP_ERR_NVS_NOT_FOUND \<longrightarrow> val st = 0)
   \<and> (\<forall>st. fst (cn_get nv st) = ESP_OK \<longrightarrow> val st = snd (cn_get nv st))
   \<and> (\<forall>st v. val (fst (cn_set nv v st)) \<in> {val st, v})
   \<and> (\<forall>st v. snd (cn_set nv v st) = ESP_OK
         \<longrightarrow> val (fst (cn_commit nv (fst (cn_set nv v st)))) \<in> {val st, v}
           \<and> (snd (cn_commit nv (fst (cn_set nv v st))) = ESP_OK
               \<longrightarrow> val (fst (cn_commit nv (fst (cn_set nv v st)))) = v))"

lemma writeCount_val:
  assumes "count_nvs_lawful nv val" and "writeCount nv v st = (st', ok)"
  shows "val st' \<in> {val st, v}" and "ok \<Longrightarrow> val st' = v"
proof -
  obtain s1 e1 where 1: "cn_set nv v st = (s1, e1)" by (metis surj_pair)
  obtain s2 e2 where 2: "cn_commit nv s1 = (s2, e2)" by (metis surj_pair)
  have l: "val s1 \<in> {val st, v}" "e1 = ESP_OK \<Longrightarrow> val s2 \<in> {val st, v}"
    "e1 = ESP_OK \<Longrightarrow> e2 = ESP_OK \<Longrightarrow> val s2 = v"
    using assms(1) 1 2 unfolding count_nvs_lawful_def by (metis fst_conv, metis fst_conv snd_conv, metis fst_conv snd_conv)
  show "val st' \<in> {val st, v}" "ok \<Longrightarrow> val st' = v"
    using assms(2) l by (auto simp: writeCount_def 1 2 split: if_splits)
qed

lemma sc_load_val:
  assumes "count_nvs_lawful nv val" and "sc_load nv st c = (c', ok)"
  shows "ok = sc_loaded c'" and "\<not> ok \<Longrightarrow> c' = c" and "sc_loaded c \<Longrightarrow> c' = c"
    and "\<not> sc_loaded c \<Longrightarrow> ok \<Longrightarrow> sc_value c' = val st"
  using assms by (auto simp: sc_load_def count_nvs_lawful_def split: if_splits nvs_error.splits prod.splits)

section \<open>Histories of the counter\<close>

datatype count_op = Load | Increment | Reset | Reboot

text \<open>One call; \<open>Reboot\<close> loses the RAM state and keeps the store.\<close>

fun count_step :: "'n count_nvs \<Rightarrow> 'n \<times> shot_counter \<Rightarrow> count_op \<Rightarrow> ('n \<times> shot_counter) \<times> bool" where
  "count_step nv (st, c) Load = (case sc_load nv st c of (c', ok) \<Rightarrow> ((st, c'), ok))"
| "count_step nv (st, c) Increment = sc_increment nv st c"
| "count_step nv (st, c) Reset = sc_reset nv st c"
| "count_step nv (st, c) Reboot = ((st, sc_init), True)"

text \<open>With \<open>n\<close> increments since a store that held \<open>v0\<close>.\<close>

definition counter_ok :: "('n \<Rightarrow> u64) \<Rightarrow> u64 \<Rightarrow> nat \<Rightarrow> 'n \<times> shot_counter \<Rightarrow> bool" where
  "counter_ok val v0 n s \<longleftrightarrow> uint (val (fst s)) \<le> uint v0 + int n
     \<and> (sc_loaded (snd s) \<longrightarrow> val (fst s) \<le> sc_value (snd s) \<and> uint (sc_value (snd s)) \<le> uint v0 + int n)"

lemma word_succ: "v \<noteq> - 1 \<Longrightarrow> uint (v + 1) = uint v + 1" for v :: u64
proof -
  assume "v \<noteq> - 1"
  moreover have "uint (- 1 :: u64) = 2 ^ 64 - 1" by (simp add: uint_word_ariths)
  ultimately have "uint v \<noteq> 2 ^ 64 - 1" by (metis word_uint_eqI)
  then show ?thesis using uint_lt2p [of v] by (simp add: uint_plus_if')
qed

lemma counter_ok_load:
  assumes "count_nvs_lawful nv val" and "counter_ok val v0 n (st, c)" and "sc_load nv st c = (c', ok)"
  shows "counter_ok val v0 n (st, c')"
  using assms(2) sc_load_val [OF assms(1,3)] by (cases "sc_loaded c"; cases ok) (auto simp: counter_ok_def)

lemma counter_ok_step:
  assumes law: "count_nvs_lawful nv val" and ok: "counter_ok val v0 n s"
  shows "counter_ok val v0 (n + (if op = Increment then 1 else 0)) (fst (count_step nv s op))"
proof -
  obtain st c where s: "s = (st, c)" by (cases s)
  show ?thesis
  proof (cases op)
    case Load
    obtain c' b where l: "sc_load nv st c = (c', b)" by (metis surj_pair)
    show ?thesis using counter_ok_load [OF law ok [unfolded s] l] by (simp add: s Load l)
  next
    case Increment
    obtain c1 b where l: "sc_load nv st c = (c1, b)" by (metis surj_pair)
    note ok1 = counter_ok_load [OF law ok [unfolded s] l]
    show ?thesis
    proof (cases "b \<and> sc_value c1 \<noteq> - 1")
      case True
      obtain st' b' where w: "writeCount nv (sc_value c1 + 1) st = (st', b')" by (metis surj_pair)
      have "sc_loaded c1" using sc_load_val(1) [OF law l] True by simp
      then show ?thesis
        using ok1 True w writeCount_val(1) [OF law w] word_succ [of "sc_value c1"]
        by (auto simp: s Increment l sc_increment_def counter_ok_def word_le_def)
    next
      case False
      then have "count_step nv s op = ((st, c1), b)" by (auto simp: s Increment l sc_increment_def split: bool.split)
      then show ?thesis using ok1 by (auto simp: counter_ok_def Increment)
    qed
  next
    case Reset
    obtain st' b' where w: "writeCount nv 0 st = (st', b')" by (metis surj_pair)
    show ?thesis
      using ok writeCount_val [OF law w] by (cases b') (auto simp: s Reset sc_reset_def w counter_ok_def)
  next
    case Reboot
    then show ?thesis using ok by (simp add: s counter_ok_def sc_init_def)
  qed
qed

lemma counter_ok_run:
  assumes "count_nvs_lawful nv val" and "counter_ok val v0 n s"
  shows "counter_ok val v0 (n + length (filter (\<lambda>a. a = Increment) ops)) (run (count_step nv) s ops)"
  using assms(2)
proof (induction ops arbitrary: n s)
  case (Cons a ops)
  show ?case using Cons.IH [OF counter_ok_step [OF assms(1) Cons.prems, of a]] by (cases "a = Increment") simp_all
qed simp


text \<open>A store that is one optional count and never fails.\<close>

definition ram_count_nvs :: "u64 option count_nvs" where
  "ram_count_nvs = \<lparr>cn_openRead = (\<lambda>st. if st = None then ESP_ERR_NVS_NOT_FOUND else ESP_OK),
     cn_openWrite = (\<lambda>st. ESP_OK), cn_get = (\<lambda>st. case st of None \<Rightarrow> (ESP_ERR_NVS_NOT_FOUND, 0) | Some v \<Rightarrow> (ESP_OK, v)),
     cn_set = (\<lambda>v st. (Some v, ESP_OK)), cn_commit = (\<lambda>st. (st, ESP_OK))\<rparr>"

definition ram_count :: "u64 option \<Rightarrow> u64" where
  "ram_count st = (case st of None \<Rightarrow> 0 | Some v \<Rightarrow> v)"

lemma ram_count_lawful: "count_nvs_lawful ram_count_nvs ram_count"
  by (auto simp: count_nvs_lawful_def ram_count_nvs_def ram_count_def split: option.splits)


end
