(* ===== verification/ShotReplayer.thy ===== *)
theory ShotReplayer
  imports Recorder AcaiaCodec
begin

text \<open>
  The replayer, \<open>src/src/apps/extraction/ShotReplayer.h\<close>: a finished record is turned back into the
  pump levels and scale readings that made it, on a virtual clock that can be paused.
\<close>

section \<open>State and operations\<close>

record replayer =
  rp_shot :: "extraction option"
  rp_durationMs :: u32
  rp_lastNowMs :: u32
  rp_virtualElapsedMs :: u32
  rp_sampleCursor :: nat    \<comment> \<open>\<open>uint16_t\<close>, at most the sample count\<close>
  rp_paused :: bool
  rp_active :: bool

definition rp_init :: replayer where
  "rp_init = \<lparr>rp_shot = None, rp_durationMs = 0, rp_lastNowMs = 0, rp_virtualElapsedMs = 0, rp_sampleCursor = 0,
     rp_paused = False, rp_active = False\<rparr>"

definition rp_start :: "extraction \<Rightarrow> u32 \<Rightarrow> replayer \<Rightarrow> replayer" where
  "rp_start shot nowMs r = r\<lparr>rp_shot := Some shot, rp_durationMs := ex_endMs shot - ex_beginMs shot, rp_lastNowMs := nowMs,
     rp_virtualElapsedMs := 0, rp_sampleCursor := 0, rp_paused := False, rp_active := True\<rparr>"

definition rp_stop :: "replayer \<Rightarrow> replayer" where
  "rp_stop r = r\<lparr>rp_active := False\<rparr>"

definition rp_advance :: "u32 \<Rightarrow> replayer \<Rightarrow> replayer" where
  "rp_advance nowMs r =
     (let dt = nowMs - rp_lastNowMs r; r1 = r\<lparr>rp_lastNowMs := nowMs\<rparr>
      in if rp_paused r1 then r1 else r1\<lparr>rp_virtualElapsedMs := rp_virtualElapsedMs r1 + dt\<rparr>)"

definition setPaused :: "bool \<Rightarrow> u32 \<Rightarrow> replayer \<Rightarrow> replayer" where
  "setPaused paused nowMs r = (rp_advance nowMs r)\<lparr>rp_paused := paused\<rparr>"

definition virtualNowMs :: "replayer \<Rightarrow> u32" where
  "virtualNowMs r = (case rp_shot r of None \<Rightarrow> 0 | Some shot \<Rightarrow> ex_beginMs shot) + rp_virtualElapsedMs r"

text \<open>The loop over the events, which stops at the first one past the replay position.\<close>

fun pump_level :: "u32 \<Rightarrow> u32 \<Rightarrow> event list \<Rightarrow> bool \<Rightarrow> bool" where
  "pump_level beginMs elapsed [] on = on"
| "pump_level beginMs elapsed (e # es) on =
     (if elapsed < ev_tMs e - beginMs then on
      else pump_level beginMs elapsed es
        (if ev_kind e = event_kind_byte EV_PUMP_ON then True
         else if ev_kind e = event_kind_byte EV_PUMP_OFF_CONFIRMED then False else on))"

text \<open>The loop over the samples from the cursor on: how many are due.\<close>

fun due_samples :: "u32 \<Rightarrow> u32 \<Rightarrow> sample list \<Rightarrow> nat" where
  "due_samples beginMs elapsed [] = 0"
| "due_samples beginMs elapsed (s # ss) =
     (if sm_tMs s - beginMs \<le> elapsed then Suc (due_samples beginMs elapsed ss) else 0)"

definition replay_snapshot :: "extraction \<Rightarrow> nat \<Rightarrow> scale_snapshot" where
  "replay_snapshot shot cursor =
     (if 0 < cursor then
        (let s = ex_samples shot ! (cursor - 1)
         in \<lparr>sn_present = True, sn_grams = Finite (f32 (f32 (of_int (sint (sm_cg s))) / 100)),
             sn_timestampMs = sm_tMs s, sn_scaleTimerMs = sm_scaleTimerMs s, sn_sequence = 0\<rparr>)
      else
        (let cg = (if ex_startRawCg shot \<noteq> NO_WEIGHT then ex_startRawCg shot else 0)
         in \<lparr>sn_present = True, sn_grams = Finite (f32 (f32 (of_int (sint cg)) / 100)),
             sn_timestampMs = 0, sn_scaleTimerMs = UNKNOWN_MS, sn_sequence = 0\<rparr>))"

text \<open>\<open>tick\<close>: \<open>None\<close> is \<open>return false\<close>, else the pump level, the reading and whether it is new.\<close>

definition rp_tick :: "u32 \<Rightarrow> replayer \<Rightarrow> replayer \<times> (bool \<times> scale_snapshot \<times> bool) option" where
  "rp_tick nowMs r0 =
     (case (if rp_active r0 then rp_shot r0 else None) of
        None \<Rightarrow> (r0, None)
      | Some shot \<Rightarrow>
          let r = rp_advance nowMs r0 in
          if rp_durationMs r < rp_virtualElapsedMs r then (r, None)
          else
            let elapsed = rp_virtualElapsedMs r;
                beginMs = ex_beginMs shot;
                pumpOn = pump_level beginMs elapsed (ex_events shot) False;
                n = due_samples beginMs elapsed (drop (rp_sampleCursor r) (ex_samples shot));
                r1 = r\<lparr>rp_sampleCursor := rp_sampleCursor r + n\<rparr>
            in (r1, Some (pumpOn, replay_snapshot shot (rp_sampleCursor r1), 0 < n)))"

section \<open>Replayed weights\<close>

text \<open>The reading converts back to the stored weight: dividing by a hundred and multiplying again in
  single precision loses less than half a centigram.\<close>

lemma replayed_grams:
  fixes c :: i16
  assumes "c \<noteq> NO_WEIGHT"
  shows "gramsToCg (Finite (f32 (f32 (of_int (sint c)) / 100))) = Some c"
proof -
  have r: "- 32767 \<le> sint c" "sint c \<le> 32767"
    using sint_i16_range [of c] sint_no_weight [of c] assms by auto
  show ?thesis
  proof (cases "0 \<le> sint c")
    case True
    have "gramsToCg (Finite (f32 (f32 (of_int (sint c)) / of_int (100 div 1)))) = Some (word_of_int (min 32767 (sint c * 1)))"
      by (rule cg_exact(1)) (use True in auto)
    then show ?thesis using r(2) by (simp add: min_def)
  next
    case False
    have e: "f32 (f32 (of_int (sint c)) / 100) = - f32 (f32 (of_int (- sint c)) / of_int (100 div 1))"
      using f32_minus [of "of_int (sint c)"] f32_minus [of "f32 (of_int (sint c)) / 100"] by simp
    have "gramsToCg (Finite (- f32 (f32 (of_int (- sint c)) / of_int (100 div 1)))) = Some (word_of_int (- min 32767 (- sint c * 1)))"
      by (rule cg_exact(2)) (use False in auto)
    moreover have m: "- min 32767 (- sint c * 1) = sint c" using r(1) by simp
    have "(word_of_int (- min 32767 (- sint c * 1)) :: i16) = c" unfolding m by simp
    ultimately show ?thesis unfolding e by (simp only:)
  qed
qed

section \<open>The replay follows the record\<close>

definition sample_due :: "extraction \<Rightarrow> u32 \<Rightarrow> sample \<Rightarrow> bool" where
  "sample_due shot v s \<longleftrightarrow> sm_tMs s - ex_beginMs shot \<le> v"

lemma due_samples_takeWhile: "due_samples (ex_beginMs shot) v ss = length (takeWhile (sample_due shot v) ss)"
  by (induction ss) (auto simp: sample_due_def)

lemma takeWhile_resume:
  assumes "\<forall>x \<in> set (take n xs). P x" and "n \<le> length xs"
  shows "n + length (takeWhile P (drop n xs)) = length (takeWhile P xs)"
proof -
  have "takeWhile P (take n xs @ drop n xs) = take n xs @ takeWhile P (drop n xs)"
    using assms(1) by (intro takeWhile_append2) auto
  then show ?thesis using assms(2) by (metis append_take_drop_id length_append length_take min.absorb2)
qed

definition event_due :: "extraction \<Rightarrow> u32 \<Rightarrow> event \<Rightarrow> bool" where
  "event_due shot v e \<longleftrightarrow> ev_tMs e - ex_beginMs shot \<le> v"

text \<open>The pump events due, in order; the level is that of the last one.\<close>

definition pump_events :: "extraction \<Rightarrow> u32 \<Rightarrow> u8 list" where
  "pump_events shot v = filter (\<lambda>k. k \<in> {event_kind_byte EV_PUMP_ON, event_kind_byte EV_PUMP_OFF_CONFIRMED})
     (map ev_kind (takeWhile (event_due shot v) (ex_events shot)))"

lemma pump_level_fold:
  "pump_level (ex_beginMs shot) v es on
   = (let ks = filter (\<lambda>k. k \<in> {event_kind_byte EV_PUMP_ON, event_kind_byte EV_PUMP_OFF_CONFIRMED})
             (map ev_kind (takeWhile (event_due shot v) es))
      in if ks = [] then on else last ks = event_kind_byte EV_PUMP_ON)"
  by (induction es arbitrary: on) (auto simp: event_due_def not_le Let_def)

datatype replay_op = RpTick u32 | RpPause bool u32

fun rp_step :: "replayer \<Rightarrow> replay_op \<Rightarrow> replayer \<times> (bool \<times> scale_snapshot \<times> bool) option" where
  "rp_step r (RpTick nowMs) = rp_tick nowMs r"
| "rp_step r (RpPause b nowMs) = (setPaused b nowMs r, None)"

fun op_time :: "replay_op \<Rightarrow> u32" where
  "op_time (RpTick nowMs) = nowMs"
| "op_time (RpPause b nowMs) = nowMs"

text \<open>The time played: the wall clock between the calls, less the pauses.\<close>

fun played :: "bool \<Rightarrow> u32 \<Rightarrow> replay_op list \<Rightarrow> nat" where
  "played paused prev [] = 0"
| "played paused prev (a # ops) =
     (if paused then 0 else unat (op_time a - prev))
     + played (case a of RpTick _ \<Rightarrow> paused | RpPause b _ \<Rightarrow> b) (op_time a) ops"

definition replaying :: "extraction \<Rightarrow> nat \<Rightarrow> replayer \<Rightarrow> bool" where
  "replaying shot n r \<longleftrightarrow> rp_shot r = Some shot \<and> rp_active r \<and> rp_durationMs r = ex_endMs shot - ex_beginMs shot
     \<and> unat (rp_virtualElapsedMs r) = n \<and> rp_sampleCursor r \<le> length (ex_samples shot)
     \<and> (\<forall>s \<in> set (take (rp_sampleCursor r) (ex_samples shot)). sample_due shot (rp_virtualElapsedMs r) s)"

lemma replaying_advance:
  assumes "replaying shot n r" and "n + (if rp_paused r then 0 else unat (nowMs - rp_lastNowMs r)) < 2 ^ 32"
  shows "replaying shot (n + (if rp_paused r then 0 else unat (nowMs - rp_lastNowMs r))) (rp_advance nowMs r)
    \<and> rp_lastNowMs (rp_advance nowMs r) = nowMs \<and> rp_paused (rp_advance nowMs r) = rp_paused r"
proof (cases "rp_paused r")
  case True
  then show ?thesis using assms by (simp add: rp_advance_def replaying_def Let_def)
next
  case False
  define dt where "dt = nowMs - rp_lastNowMs r"
  have u: "unat (rp_virtualElapsedMs r + dt) = n + unat dt"
    using assms False unat_add_lem [of "rp_virtualElapsedMs r" dt] by (simp add: replaying_def dt_def)
  then have "rp_virtualElapsedMs r \<le> rp_virtualElapsedMs r + dt"
    using assms(1) by (simp add: word_le_nat_alt replaying_def)
  then show ?thesis
    using assms(1) u False order_trans unfolding replaying_def rp_advance_def Let_def dt_def [symmetric]
    by (auto simp: sample_due_def)
qed

lemma replaying_tick:
  assumes "replaying shot n r0" and "n' = n + (if rp_paused r0 then 0 else unat (nowMs - rp_lastNowMs r0))" and "n' < 2 ^ 32"
  shows "replaying shot n' (fst (rp_tick nowMs r0)) \<and> rp_lastNowMs (fst (rp_tick nowMs r0)) = nowMs
    \<and> rp_paused (fst (rp_tick nowMs r0)) = rp_paused r0
    \<and> snd (rp_tick nowMs r0)
      = (if unat (ex_endMs shot - ex_beginMs shot) < n' then None
         else let due = takeWhile (sample_due shot (of_nat n')) (ex_samples shot);
                  pumps = pump_events shot (of_nat n')
              in Some (pumps \<noteq> [] \<and> last pumps = event_kind_byte EV_PUMP_ON,
                       replay_snapshot shot (length due), rp_sampleCursor r0 < length due))"
proof -
  define r where "r = rp_advance nowMs r0"
  have r: "replaying shot n' r" "rp_lastNowMs r = nowMs" "rp_paused r = rp_paused r0" "rp_sampleCursor r = rp_sampleCursor r0"
    using replaying_advance [OF assms(1), of nowMs] assms(2,3) by (auto simp: r_def rp_advance_def Let_def)
  have v: "rp_virtualElapsedMs r = of_nat n'" using r(1) by (auto simp: replaying_def)
  have a: "rp_active r0" "rp_shot r0 = Some shot" using assms(1) by (simp_all add: replaying_def)
  have past: "rp_durationMs r < rp_virtualElapsedMs r \<longleftrightarrow> unat (ex_endMs shot - ex_beginMs shot) < n'"
    using r(1) by (simp add: replaying_def word_less_nat_alt)
  show ?thesis
  proof (cases "rp_durationMs r < rp_virtualElapsedMs r")
    case True
    then have "rp_tick nowMs r0 = (r, None)" using a by (simp add: rp_tick_def r_def [symmetric] Let_def)
    then show ?thesis using r True past by simp
  next
    case False
    define k where "k = due_samples (ex_beginMs shot) (of_nat n') (drop (rp_sampleCursor r) (ex_samples shot))"
    have k: "rp_sampleCursor r + k = length (takeWhile (sample_due shot (of_nat n')) (ex_samples shot))"
    proof -
      have "\<forall>x \<in> set (take (rp_sampleCursor r) (ex_samples shot)). sample_due shot (of_nat n') x"
        "rp_sampleCursor r \<le> length (ex_samples shot)"
        using r(1) unfolding replaying_def v by auto
      then show ?thesis unfolding k_def due_samples_takeWhile by (rule takeWhile_resume)
    qed
    have t: "rp_tick nowMs r0 = (r\<lparr>rp_sampleCursor := rp_sampleCursor r + k\<rparr>,
        Some (pump_level (ex_beginMs shot) (of_nat n') (ex_events shot) False, replay_snapshot shot (rp_sampleCursor r + k), 0 < k))"
      using a False v by (simp add: rp_tick_def r_def [symmetric] Let_def k_def)
    have "replaying shot n' (r\<lparr>rp_sampleCursor := rp_sampleCursor r + k\<rparr>)"
    proof -
      have "set (take (length (takeWhile P xs)) xs) = set (takeWhile P xs)" for P and xs :: "sample list"
        by (metis takeWhile_eq_take)
      then show ?thesis
        using r(1) k length_takeWhile_le [of "sample_due shot (of_nat n')" "ex_samples shot"]
        by (auto simp: replaying_def v dest: set_takeWhileD)
    qed
    moreover have "0 < k \<longleftrightarrow> rp_sampleCursor r0 < length (takeWhile (sample_due shot (of_nat n')) (ex_samples shot))"
      using k r(4) by linarith
    ultimately show ?thesis
      using t r False past k by (simp add: pump_level_fold pump_events_def Let_def)
  qed
qed

lemma replaying_run:
  assumes "replaying shot n r" and "n + played (rp_paused r) (rp_lastNowMs r) ops < 2 ^ 32"
  shows "replaying shot (n + played (rp_paused r) (rp_lastNowMs r) ops) (run rp_step r ops)
    \<and> played (rp_paused r) (rp_lastNowMs r) (ops @ [RpTick t]) = played (rp_paused r) (rp_lastNowMs r) ops
      + (if rp_paused (run rp_step r ops) then 0 else unat (t - rp_lastNowMs (run rp_step r ops)))"
  using assms
proof (induction ops arbitrary: n r)
  case (Cons a ops)
  define n' where "n' = n + (if rp_paused r then 0 else unat (op_time a - rp_lastNowMs r))"
  have n': "n' < 2 ^ 32" using Cons.prems(2) by (simp add: n'_def)
  show ?case
  proof (cases a)
    case (RpTick nowMs)
    have e: "n' = n + (if rp_paused r then 0 else unat (nowMs - rp_lastNowMs r))" by (simp add: n'_def RpTick)
    note t = replaying_tick [OF Cons.prems(1) e n', THEN conjunct1] replaying_tick [OF Cons.prems(1) e n', THEN conjunct2, THEN conjunct1]
      replaying_tick [OF Cons.prems(1) e n', THEN conjunct2, THEN conjunct2, THEN conjunct1]
    have l: "n + played (rp_paused r) (rp_lastNowMs r) (a # ops) = n' + played (rp_paused r) nowMs ops"
      by (simp add: RpTick e)
    show ?thesis
      using Cons.IH [of n' "fst (rp_tick nowMs r)"] t Cons.prems(2) unfolding l by (simp add: RpTick)
  next
    case (RpPause b nowMs)
    have e: "n' = n + (if rp_paused r then 0 else unat (nowMs - rp_lastNowMs r))" by (simp add: n'_def RpPause)
    note t = replaying_advance [OF Cons.prems(1) n' [unfolded e], folded e]
    have "replaying shot n' (setPaused b nowMs r)" "rp_lastNowMs (setPaused b nowMs r) = nowMs" "rp_paused (setPaused b nowMs r) = b"
      using t by (auto simp: setPaused_def replaying_def)
    moreover have l: "n + played (rp_paused r) (rp_lastNowMs r) (a # ops) = n' + played b nowMs ops"
      by (simp add: RpPause n'_def)
    ultimately show ?thesis using Cons.IH [of n' "setPaused b nowMs r"] Cons.prems(2) unfolding l by (simp add: RpPause)
  qed
qed simp

text \<open>C37: whatever the ticks and pauses, a replay shows at every moment of its played time the record at
  that time: the weight of the last sample due, exactly as stored, and the level of the last pump event
  due; it ends exactly when more than the shot's duration has been played. The record's samples hold
  weights and the time played fits the clock.\<close>

theorem replay_shows_record:
  assumes "\<forall>s \<in> set (ex_samples shot). sm_cg s \<noteq> NO_WEIGHT"
    and "played False now0 (ops @ [RpTick nowMs]) = n" and "n < 2 ^ 32"
  shows "(case snd (rp_tick nowMs (run rp_step (rp_start shot now0 r) ops)) of
      None \<Rightarrow> unat (ex_endMs shot - ex_beginMs shot) < n
    | Some (pumpOn, snap, newSample) \<Rightarrow>
        n \<le> unat (ex_endMs shot - ex_beginMs shot)
        \<and> (pumpOn \<longleftrightarrow> pump_events shot (of_nat n) \<noteq> [] \<and> last (pump_events shot (of_nat n)) = event_kind_byte EV_PUMP_ON)
        \<and> (let due = takeWhile (sample_due shot (of_nat n)) (ex_samples shot) in
             if due = [] then sn_timestampMs snap = 0
             else gramsToCg (sn_grams snap) = Some (sm_cg (last due)) \<and> sn_timestampMs snap = sm_tMs (last due)
               \<and> sn_scaleTimerMs snap = sm_scaleTimerMs (last due)))"
proof -
  define r1 where "r1 = run rp_step (rp_start shot now0 r) ops"
  have 0: "replaying shot 0 (rp_start shot now0 r)" "rp_paused (rp_start shot now0 r) = False" "rp_lastNowMs (rp_start shot now0 r) = now0"
    by (simp_all add: replaying_def rp_start_def)
  have pl: "played False now0 ops < 2 ^ 32"
  proof -
    have "played p l ops \<le> played p l (ops @ [RpTick nowMs])" for p l ops by (induction ops arbitrary: p l) auto
    then show ?thesis using assms(2,3) order.strict_trans1 by metis
  qed
  have r1: "replaying shot (played False now0 ops) r1"
    using replaying_run [OF 0(1), of ops] 0(2,3) pl by (simp add: r1_def)
  have n: "n = played False now0 ops + (if rp_paused r1 then 0 else unat (nowMs - rp_lastNowMs r1))"
    using replaying_run [OF 0(1), of ops nowMs] 0(2,3) pl assms(2) by (simp add: r1_def)
  note t = replaying_tick [OF r1 n assms(3)]
  define due where "due = takeWhile (sample_due shot (of_nat n)) (ex_samples shot)"
  have l: "ex_samples shot ! (length due - 1) = last due" "last due \<in> set (ex_samples shot)" if "due \<noteq> []"
  proof -
    have "due = take (length due) (ex_samples shot)" by (metis due_def takeWhile_eq_take)
    then show "ex_samples shot ! (length due - 1) = last due" using that
      by (metis diff_less last_conv_nth length_greater_0_conv nth_take zero_less_one)
    show "last due \<in> set (ex_samples shot)" using that by (metis due_def last_in_set set_takeWhileD)
  qed
  have "gramsToCg (Finite (f32 (f32 (of_int (sint (sm_cg (last due)))) / 100))) = Some (sm_cg (last due))" if "due \<noteq> []"
    using replayed_grams l(2) [OF that] assms(1) by blast
  then show ?thesis
    using t l(1) unfolding r1_def [symmetric] due_def [symmetric]
    by (auto simp: replay_snapshot_def Let_def not_less simp del: gramsToCg.simps)
qed

text \<open>A three-second shot of two samples, begun just before the clock wraps.\<close>

definition demo_shot :: extraction where
  "demo_shot = default_extraction\<lparr>ex_beginMs := - 1000, ex_endMs := 2000,
     ex_events := [plain_event (- 1000) EV_BEGIN, plain_event (- 1000) EV_PUMP_ON, plain_event 1000 EV_PUMP_OFF_CONFIRMED],
     ex_samples := [\<lparr>sm_tMs = - 500, sm_cg = 120, sm_scaleTimerMs = UNKNOWN_MS\<rparr>, \<lparr>sm_tMs = 700, sm_cg = 480, sm_scaleTimerMs = UNKNOWN_MS\<rparr>]\<rparr>"

lemma replay_shows_record_witness:
  "case snd (rp_tick 1900 (run rp_step (rp_start demo_shot 100 rp_init) [RpTick 200, RpPause True 300, RpPause False 350])) of
      None \<Rightarrow> False
    | Some (pumpOn, snap, newSample) \<Rightarrow> pumpOn \<and> gramsToCg (sn_grams snap) = Some 480 \<and> sn_timestampMs snap = 700"
proof -
  have s: "\<forall>s \<in> set (ex_samples demo_shot). sm_cg s \<noteq> NO_WEIGHT" by (simp add: demo_shot_def NO_WEIGHT_def)
  have p: "played False 100 ([RpTick 200, RpPause True 300, RpPause False 350] @ [RpTick 1900]) = 1750" by simp
  have e: "pump_events demo_shot (of_nat 1750) = [event_kind_byte EV_PUMP_ON]"
    "takeWhile (sample_due demo_shot (of_nat 1750)) (ex_samples demo_shot) = ex_samples demo_shot"
    "unat (ex_endMs demo_shot - ex_beginMs demo_shot) = 3000"
    by (simp_all add: pump_events_def demo_shot_def event_due_def sample_due_def plain_event_def)
  have l: "last (ex_samples demo_shot) = \<lparr>sm_tMs = 700, sm_cg = 480, sm_scaleTimerMs = UNKNOWN_MS\<rparr>" "ex_samples demo_shot \<noteq> []"
    by (simp_all add: demo_shot_def)
  show ?thesis
    using replay_shows_record [OF s p, of rp_init] unfolding e
    by (auto simp: l Let_def simp del: gramsToCg.simps played.simps split: option.splits)
qed

end
