(* ===== verification/Controller.thy ===== *)
theory Controller
  imports RuntimeEventLog RecorderLaws ShotStore ShotCounter TargetAlert FlowSeries
begin

text \<open>
  The engine behind the extraction screen, \<open>src/src/apps/extraction/ExtractionController.h/.cpp\<close>: it
  advances the recorder, decides which finished records become history, saves and counts them, runs
  the target alert, and keeps the shot on display. File system, NVS and heap are parameters. The
  main task is the only writer, so each operation is one step; what readers on other tasks copy under
  the mutex is a function of the state between steps.
\<close>

section \<open>State\<close>

record ('f, 'n, 'c) ctl_env =
  ce_fs :: "'f littlefs"
  ce_idNvs :: "'n id_nvs"
  ce_countNvs :: "'c count_nvs"

record ('f, 'n, 'c) controller =
  ct_recorder :: recorder
  ct_shotCounter :: shot_counter
  ct_countStore :: 'c
  ct_shotStore :: "('f, 'n) shot_store"
  ct_log :: "extraction_stat revision_ring"    \<comment> \<open>the extraction ring of \<open>runtimeEventLog\<close>\<close>
  ct_lastObservedFinishedSeq :: u32
  ct_lastAcceptedShot :: extraction
  ct_lastAcceptedFlowStats :: "rat option"
  ct_lastAcceptedSeq :: u32
  ct_lastAttemptedSeq :: u32
  ct_lastSavedSeq :: u32
  ct_targetAlert :: target_alert
  ct_targetCoeffs :: target_coeffs
  ct_alertShotBeginMs :: u32
  ct_pendingLoadId :: u32
  ct_loadedShot :: "extraction option"
  ct_loadedFlowStats :: "rat option"
  ct_hasLoadedShot :: bool
  ct_displayShotSeq :: u32
  ct_statusScale :: scale_snapshot
  ct_statusNowMs :: u32
  ct_replaying :: bool
  ct_statusPumpSignalState :: PumpSignalState
  ct_active :: bool
  ct_liveSeq :: u32

definition zero_scale :: scale_snapshot where
  "zero_scale = \<lparr>sn_present = False, sn_grams = Finite 0, sn_timestampMs = 0, sn_scaleTimerMs = UNKNOWN_MS, sn_sequence = 0\<rparr>"

definition ct_init :: "shot_counter \<Rightarrow> 'c \<Rightarrow> ('f, 'n) shot_store \<Rightarrow> extraction_stat revision_ring \<Rightarrow> ('f, 'n, 'c) controller" where
  "ct_init counter cst store lg =
     \<lparr>ct_recorder = rc_init, ct_shotCounter = counter, ct_countStore = cst, ct_shotStore = store, ct_log = lg,
      ct_lastObservedFinishedSeq = 0, ct_lastAcceptedShot = default_extraction, ct_lastAcceptedFlowStats = None,
      ct_lastAcceptedSeq = 0, ct_lastAttemptedSeq = 0, ct_lastSavedSeq = 0, ct_targetAlert = ta_init,
      ct_targetCoeffs = default_target, ct_alertShotBeginMs = 0, ct_pendingLoadId = 0, ct_loadedShot = None,
      ct_loadedFlowStats = None, ct_hasLoadedShot = False, ct_displayShotSeq = 0, ct_statusScale = zero_scale,
      ct_statusNowMs = 0, ct_replaying = False, ct_statusPumpSignalState = Recorder.PumpOff, ct_active = False,
      ct_liveSeq = 0\<rparr>"

datatype FinalizeOutcome = FinalNone | Rejected | Accepted

record tick_outcome =
  to_prevPhase :: u8
  to_phase :: u8
  to_frameNeeded :: bool
  to_active :: bool
  to_meaningfulPourStarted :: bool
  to_alertState :: alert_state
  to_loadedShotChanged :: bool
  to_latestAcceptedShotSaved :: bool

section \<open>Session\<close>

definition wake :: "('f, 'n, 'c) controller \<Rightarrow> ('f, 'n, 'c) controller" where
  "wake s = s\<lparr>ct_liveSeq := ct_liveSeq s + 1\<rparr>"

definition beginSession :: "('f, 'n, 'c) controller \<Rightarrow> ('f, 'n, 'c) controller" where
  "beginSession s =
     (let r = rc_clear (ct_recorder s)
      in wake (s\<lparr>ct_recorder := r, ct_statusPumpSignalState := Recorder.PumpOff,
                 ct_lastObservedFinishedSeq := rc_finishedSeq r, ct_active := True\<rparr>))"

definition deactivate :: "('f, 'n, 'c) controller \<Rightarrow> ('f, 'n, 'c) controller" where
  "deactivate s = s\<lparr>ct_statusPumpSignalState := Recorder.PumpOff, ct_active := False\<rparr>"

definition resetInFlightAndNotify :: "('f, 'n, 'c) controller \<Rightarrow> ('f, 'n, 'c) controller" where
  "resetInFlightAndNotify s =
     (let r = rc_clear (ct_recorder s)
      in wake (s\<lparr>ct_recorder := r, ct_lastObservedFinishedSeq := rc_finishedSeq r,
                 ct_targetAlert := ta_reset (ct_targetAlert s), ct_alertShotBeginMs := 0,
                 ct_statusPumpSignalState := Recorder.PumpOff\<rparr>))"

section \<open>The shot on display\<close>

definition clearLoadedShot :: "('f, 'n, 'c) controller \<Rightarrow> ('f, 'n, 'c) controller" where
  "clearLoadedShot s = s\<lparr>ct_hasLoadedShot := False, ct_loadedShot := None, ct_loadedFlowStats := None,
     ct_displayShotSeq := ct_displayShotSeq s + 1\<rparr>"

text \<open>\<open>allocOk\<close> is the answer of the heap, asked only when no record is held.\<close>

definition processPendingLoad :: "('f, 'n, 'c) ctl_env \<Rightarrow> bool \<Rightarrow> ('f, 'n, 'c) controller \<Rightarrow> ('f, 'n, 'c) controller \<times> bool" where
  "processPendingLoad env allocOk s =
     (let sid = ct_pendingLoadId s; s0 = s\<lparr>ct_pendingLoadId := 0\<rparr> in
      if sid = 0 then (s0, False)
      else if ct_loadedShot s0 = None \<and> \<not> allocOk then (s0, False)
      else
        (let s1 = s0\<lparr>ct_hasLoadedShot := False\<rparr> in
         case ss_load (ce_fs env) sid (ss_fs (ct_shotStore s1)) of
           Some e \<Rightarrow> (s1\<lparr>ct_loadedShot := Some e, ct_loadedFlowStats := computeFlowSeriesStats (ex_samples e),
                        ct_hasLoadedShot := True, ct_displayShotSeq := ct_displayShotSeq s1 + 1\<rparr>, True)
         | None \<Rightarrow> (clearLoadedShot s1, False)))"

definition effectiveLastShotSelection :: "('f, 'n, 'c) controller \<Rightarrow> (extraction \<times> rat option) option" where
  "effectiveLastShotSelection s =
     (if ct_hasLoadedShot s then map_option (\<lambda>e. (e, ct_loadedFlowStats s)) (ct_loadedShot s)
      else if ct_lastAcceptedSeq s \<noteq> 0 then Some (ct_lastAcceptedShot s, ct_lastAcceptedFlowStats s)
      else None)"

definition effectiveLastShot :: "('f, 'n, 'c) controller \<Rightarrow> extraction option" where
  "effectiveLastShot s = map_option fst (effectiveLastShotSelection s)"

definition requestLoadShot :: "u32 \<Rightarrow> ('f, 'n, 'c) controller \<Rightarrow> ('f, 'n, 'c) controller" where
  "requestLoadShot sid s = s\<lparr>ct_pendingLoadId := sid\<rparr>"

definition requestRestoreLastShotIfEmpty :: "('f, 'n, 'c) ctl_env \<Rightarrow> ('f, 'n, 'c) controller \<Rightarrow> ('f, 'n, 'c) controller" where
  "requestRestoreLastShotIfEmpty env s =
     (if effectiveLastShot s \<noteq> None then s
      else let newest = newestId (ce_fs env) (ss_fs (ct_shotStore s))
           in if newest \<noteq> 0 then requestLoadShot newest s else s)"

section \<open>Graduation\<close>

definition finish_stat :: "extraction \<Rightarrow> bool \<Rightarrow> extraction_stat" where
  "finish_stat f isReal =
     \<lparr>es_startUtcSec = ex_startUtcSec f, es_beginMs = ex_beginMs f, es_lastPumpOffConfirmedMs = ex_lastPumpOffConfirmedMs f,
      es_stableMs = ex_stableMs f, es_endMs = ex_endMs f, es_totalPumpOnMs = ex_totalPumpOnMs f, es_yieldCg = ex_yieldCg f,
      es_startRawCg = ex_startRawCg f, es_settledRawCg = ex_settledRawCg f, es_pourMs = ex_pourMs f,
      es_decisionGainCg = ex_decisionGainCg f, es_observedSampleCount = ex_observedSampleCount f,
      es_endCause = ex_endCause f, es_yieldStatus = ex_yieldStatus f, es_isLikelyRealShot = isReal\<rparr>"

definition observeFinishedExtraction :: "('f, 'n, 'c) controller \<Rightarrow> ('f, 'n, 'c) controller \<times> FinalizeOutcome" where
  "observeFinishedExtraction s =
     (let seq = rc_finishedSeq (ct_recorder s) in
      if seq = ct_lastObservedFinishedSeq s then (s, FinalNone)
      else
        let f = rc_lastFinished (ct_recorder s);
            isReal = isLikelyRealShot f;
            s1 = s\<lparr>ct_lastObservedFinishedSeq := seq, ct_log := rr_push (finish_stat f isReal) (ct_log s)\<rparr>
        in if \<not> isReal then (s1, Rejected)
           else (s1\<lparr>ct_lastAcceptedShot := f, ct_lastAcceptedFlowStats := computeFlowSeriesStats (ex_samples f),
                    ct_lastAcceptedSeq := seq\<rparr>, Accepted))"

definition persistAcceptedShot :: "('f, 'n, 'c) ctl_env \<Rightarrow> bool \<Rightarrow> ('f, 'n, 'c) controller \<Rightarrow> ('f, 'n, 'c) controller" where
  "persistAcceptedShot env mounted s =
     (if ct_lastAcceptedSeq s = ct_lastAttemptedSeq s then s
      else
        let s1 = s\<lparr>ct_lastAttemptedSeq := ct_lastAcceptedSeq s\<rparr>;
            (store, ok) = ss_save (ce_fs env) (ce_idNvs env) mounted (ct_lastAcceptedShot s1) (ct_shotStore s1);
            s2 = s1\<lparr>ct_shotStore := store\<rparr>
        in wake (if ok then s2\<lparr>ct_lastSavedSeq := ct_lastAcceptedSeq s2\<rparr> else s2))"

definition count_shot :: "('f, 'n, 'c) ctl_env \<Rightarrow> ('f, 'n, 'c) controller \<Rightarrow> ('f, 'n, 'c) controller" where
  "count_shot env s =
     (case sc_increment (ce_countNvs env) (ct_countStore s) (ct_shotCounter s) of
        ((st, c), _) \<Rightarrow> s\<lparr>ct_countStore := st, ct_shotCounter := c\<rparr>)"

section \<open>The target alert\<close>

definition runTargetAlert :: "u32 \<Rightarrow> ('f, 'n, 'c) controller \<Rightarrow> ('f, 'n, 'c) controller" where
  "runTargetAlert nowMs s =
     (let cur = rc_current (ct_recorder s);
          phaseRunning = (ex_phase cur = phase_byte PHASE_RUNNING);
          ts = lastTrustedYieldSample (ct_recorder s);
          s1 = (if phaseRunning \<and> ex_beginMs cur \<noteq> ct_alertShotBeginMs s
                then let ta = setCoeffs (ct_targetCoeffs s) (onRunningEntry (ct_targetAlert s))
                     in s\<lparr>ct_alertShotBeginMs := ex_beginMs cur, ct_targetAlert := ta,
                          ct_recorder := setTargetSnapshot (ta_coeffs ta) (ct_recorder s)\<rparr>
                else s);
          ta2 = ta_update nowMs phaseRunning ts (ct_targetAlert s1);
          s2 = s1\<lparr>ct_targetAlert := ta2\<rparr>
      in if as_stopNowEdge (ta_state ta2)
         then s2\<lparr>ct_recorder := triggerAlarm \<lparr>at_tMs = nowMs, at_ctx = snapshotAtStop ta2\<rparr> (ct_recorder s2)\<rparr>
         else s2)"

section \<open>One tick\<close>

text \<open>What follows the update of the recorder under the mutex.\<close>

definition settle_finish :: "('f, 'n, 'c) controller \<Rightarrow> ('f, 'n, 'c) controller \<times> FinalizeOutcome" where
  "settle_finish s0 =
     (case observeFinishedExtraction s0 of (s, outcome) \<Rightarrow>
        (if outcome = Rejected \<and> rc_phase (ct_recorder s) = phase_byte PHASE_DONE
         then s\<lparr>ct_recorder := rc_clear (ct_recorder s)\<rparr>
         else if outcome = Accepted then clearLoadedShot s else s, outcome))"

definition in_pump_window :: "u8 \<Rightarrow> bool" where
  "in_pump_window p \<longleftrightarrow> p = phase_byte PHASE_RUNNING \<or> p = phase_byte PHASE_POST_PUMP"

record tick_input =
  ti_nowMs :: u32
  ti_pump :: pump_signal
  ti_scale :: scale_snapshot
  ti_utcSec :: u32
  ti_newScaleSample :: bool
  ti_scaleStateChanged :: bool
  ti_mounted :: bool
  ti_allocOk :: bool

text \<open>The part under the mutex; the last result is the recorder as the outcome reads it.\<close>

definition tick_locked :: "tick_input \<Rightarrow> ('f, 'n, 'c) controller \<Rightarrow> ('f, 'n, 'c) controller \<times> FinalizeOutcome \<times> recorder" where
  "tick_locked i s1 =
     (let s2 = s1\<lparr>ct_statusPumpSignalState := po_state (ti_pump i),
                 ct_recorder := rc_update (ti_nowMs i) (ti_pump i) (ti_scale i) (ti_utcSec i) (ct_recorder s1)\<rparr>;
          (s3, outcome) = settle_finish s2
      in ((runTargetAlert (ti_nowMs i) s3)\<lparr>ct_statusScale := ti_scale i, ct_statusNowMs := ti_nowMs i, ct_replaying := False\<rparr>,
          outcome, ct_recorder s3))"

definition tick_frameNeeded :: "tick_input \<Rightarrow> recorder \<Rightarrow> recorder \<Rightarrow> alert_state \<Rightarrow> bool \<Rightarrow> bool" where
  "tick_frameNeeded i rBefore rAfter alert loadedShotChanged \<longleftrightarrow>
     in_pump_window (rc_phase rAfter) \<or> rc_phase rAfter \<noteq> rc_phase rBefore
     \<or> length (ex_samples (rc_current rAfter)) \<noteq> length (ex_samples (rc_current rBefore))
     \<or> rc_finishedSeq rAfter \<noteq> rc_finishedSeq rBefore \<or> ti_newScaleSample i \<or> ti_scaleStateChanged i
     \<or> as_stopNowEdge alert \<or> loadedShotChanged"

definition ct_tick :: "('f, 'n, 'c) ctl_env \<Rightarrow> tick_input \<Rightarrow> ('f, 'n, 'c) controller \<Rightarrow> ('f, 'n, 'c) controller \<times> tick_outcome" where
  "ct_tick env i s0 =
     (let (s1, loadedShotChanged) = processPendingLoad env (ti_allocOk i) s0;
          rBefore = ct_recorder s1;
          (s2, outcome, rAfter) = tick_locked i s1;
          alert = ta_state (ct_targetAlert s2);
          frameNeeded = tick_frameNeeded i rBefore rAfter alert loadedShotChanged;
          s3 = (if frameNeeded then wake s2 else s2);
          s4 = (if outcome = Accepted then count_shot env s3 else s3);
          s5 = persistAcceptedShot env (ti_mounted i) s4
      in (s5, \<lparr>to_prevPhase = rc_phase rBefore, to_phase = rc_phase rAfter, to_frameNeeded = frameNeeded,
               to_active = in_pump_window (rc_phase rAfter),
               to_meaningfulPourStarted = (\<not> tr_hasMeaningfulYield (rc_tracker rBefore) \<and> tr_hasMeaningfulYield (rc_tracker rAfter)),
               to_alertState = alert, to_loadedShotChanged = loadedShotChanged,
               to_latestAcceptedShotSaved = (ct_lastAcceptedSeq s5 = ct_lastSavedSeq s5)\<rparr>))"

text \<open>A tick of a replay; the default outcome fields are those of the struct.\<close>

definition replay_pump :: "bool \<Rightarrow> pump_signal" where
  "replay_pump on = no_pump_signal\<lparr>po_state := (if on then Recorder.PumpOn else Recorder.PumpOff)\<rparr>"

definition replayTick :: "u32 \<Rightarrow> bool \<Rightarrow> scale_snapshot \<Rightarrow> ('f, 'n, 'c) controller \<Rightarrow> ('f, 'n, 'c) controller \<times> tick_outcome" where
  "replayTick nowMs pumpOn snap s0 =
     (let r1 = ct_recorder s0;
          s1 = s0\<lparr>ct_statusPumpSignalState := Recorder.PumpOff, ct_recorder := rc_update nowMs (replay_pump pumpOn) snap 0 r1\<rparr>;
          phase = rc_phase (ct_recorder s1);
          s2 = runTargetAlert nowMs s1;
          s3 = s2\<lparr>ct_statusScale := snap, ct_statusNowMs := nowMs, ct_replaying := True\<rparr>
      in (wake s3, \<lparr>to_prevPhase = rc_phase r1, to_phase = phase, to_frameNeeded = True, to_active = in_pump_window phase,
               to_meaningfulPourStarted = False, to_alertState = ta_state (ct_targetAlert s3), to_loadedShotChanged = False,
               to_latestAcceptedShotSaved = True\<rparr>))"

section \<open>Commands and reads of the screen\<close>

datatype ContextAction = NoAction | RequestTare | Cleared

definition contextAction :: "('f, 'n, 'c) controller \<Rightarrow> ('f, 'n, 'c) controller \<times> ContextAction" where
  "contextAction s =
     (let p = rc_phase (ct_recorder s) in
      if p = phase_byte PHASE_DONE then (wake (s\<lparr>ct_recorder := rc_clear (ct_recorder s)\<rparr>), Cleared)
      else if p = phase_byte PHASE_IDLE then (s, RequestTare) else (s, NoAction))"

definition setTargetCoeffs :: "target_coeffs \<Rightarrow> ('f, 'n, 'c) controller \<Rightarrow> ('f, 'n, 'c) controller" where
  "setTargetCoeffs c s = s\<lparr>ct_targetCoeffs := c\<rparr>"

definition currentInPumpWindow :: "('f, 'n, 'c) controller \<Rightarrow> bool" where
  "currentInPumpWindow s = in_pump_window (rc_phase (ct_recorder s))"

definition currentCutState :: "('f, 'n, 'c) controller \<Rightarrow> bool" where
  "currentCutState s \<longleftrightarrow> as_stopNowFired (ta_state (ct_targetAlert s)) \<and> in_pump_window (rc_phase (ct_recorder s))"

definition currentFinishedShotIsDisplayable :: "('f, 'n, 'c) controller \<Rightarrow> bool" where
  "currentFinishedShotIsDisplayable s \<longleftrightarrow>
     rc_phase (ct_recorder s) = phase_byte PHASE_DONE \<and> isLikelyRealShot (rc_current (ct_recorder s))"

definition currentIsPouring :: "('f, 'n, 'c) controller \<Rightarrow> bool" where
  "currentIsPouring s \<longleftrightarrow> currentInPumpWindow s \<and> tr_hasMeaningfulYield (rc_tracker (ct_recorder s))"

section \<open>What the other tasks read\<close>

datatype ScaleState = SCALE_OFF | SCANNING | CONNECTING | READY | RECONNECTING

record status_snapshot =
  st_active :: bool
  st_currentPhase :: u8
  st_acceptedSeq :: u32
  st_savedSeq :: u32
  st_storageReady :: bool
  st_currentBeginMs :: u32
  st_currentElapsedMs :: u32
  st_currentSampleCount :: nat
  st_scaleState :: ScaleState
  st_currentWeightCg :: "i16 option"        \<comment> \<open>\<open>hasCurrentWeight\<close>, \<open>currentWeightCg\<close>\<close>
  st_currentWeightSequence :: u32
  st_currentYieldCg :: "i16 option"         \<comment> \<open>\<open>hasCurrentYield\<close>, \<open>currentYieldCg\<close>\<close>
  st_currentPouring :: bool
  st_pumpSignalState :: PumpSignalState
  st_hasDisplayShot :: bool
  st_displayShotSeq :: u32

definition snapshotStatus :: "ScaleState \<Rightarrow> bool \<Rightarrow> u32 \<Rightarrow> ('f, 'n, 'c) controller \<Rightarrow> status_snapshot" where
  "snapshotStatus scaleState storageReady nowMs s =
     (let cur = rc_current (ct_recorder s);
          live = (ct_active s \<and> sn_present (ct_statusScale s))
      in \<lparr>st_active = ct_active s, st_currentPhase = ex_phase cur, st_acceptedSeq = ct_lastAcceptedSeq s,
          st_savedSeq = ct_lastSavedSeq s, st_storageReady = storageReady, st_currentBeginMs = ex_beginMs cur,
          st_currentElapsedMs = extractionElapsedMs cur (if ct_replaying s then ct_statusNowMs s else nowMs),
          st_currentSampleCount = length (ex_samples cur), st_scaleState = scaleState,
          st_currentWeightCg = (if live then gramsToCg (sn_grams (ct_statusScale s)) else None),
          st_currentWeightSequence = (if live then sn_sequence (ct_statusScale s) else 0),
          st_currentYieldCg = (if live then currentYieldCg (ct_statusScale s) (ct_recorder s) else None),
          st_currentPouring = currentIsPouring s, st_pumpSignalState = ct_statusPumpSignalState s,
          st_hasDisplayShot = (effectiveLastShot s \<noteq> None), st_displayShotSeq = ct_displayShotSeq s\<rparr>)"

definition snapshotExtraction :: "bool \<Rightarrow> ('f, 'n, 'c) controller \<Rightarrow> extraction \<times> u32" where
  "snapshotExtraction wantDisplayShot s =
     (if wantDisplayShot then (case effectiveLastShot s of Some d \<Rightarrow> d | None \<Rightarrow> ct_lastAcceptedShot s)
      else rc_current (ct_recorder s), ct_lastAcceptedSeq s)"

text \<open>The routes that answer with a record: status, declared length and the chunks of the body.\<close>

datatype http_answer = HttpError nat | HttpRecord nat "u8 list list" | HttpOk

definition sendSnapshot :: "extraction \<Rightarrow> http_answer" where
  "sendSnapshot e =
     (case encodeCompactSize e of
        (False, _) \<Rightarrow> HttpError 500
      | (True, n) \<Rightarrow> HttpRecord n (case encodeCompact e of None \<Rightarrow> [] | Some chunks \<Rightarrow> chunks))"

definition handleLast :: "('f, 'n, 'c) controller \<Rightarrow> http_answer" where
  "handleLast s = (case effectiveLastShot s of None \<Rightarrow> HttpError 404 | Some d \<Rightarrow> sendSnapshot d)"

definition handleCurrent :: "('f, 'n, 'c) controller \<Rightarrow> http_answer" where
  "handleCurrent s = sendSnapshot (rc_current (ct_recorder s))"

text \<open>\<open>arg\<close> is the request's \<open>id\<close> as \<open>String::toInt\<close> reads it, a 32-bit \<open>long\<close>.\<close>

definition handleSetLoaded ::
  "('f, 'n, 'c) ctl_env \<Rightarrow> i32 option \<Rightarrow> bool \<Rightarrow> ('f, 'n, 'c) controller \<Rightarrow> ('f, 'n, 'c) controller \<times> http_answer" where
  "handleSetLoaded env arg mounted s =
     (case arg of
        None \<Rightarrow> (s, HttpError 400)
      | Some sid \<Rightarrow>
          if sint sid \<le> 0 then (s, HttpError 404)
          else if \<not> mounted then (s, HttpError 503)
          else if readMeta (ce_fs env) sid (ss_fs (ct_shotStore s)) = None then (s, HttpError 404)
          else (requestLoadShot sid s, HttpOk))"

section \<open>Operations\<close>

datatype ctl_op = BeginSession | Deactivate | ResetInFlight | Tick tick_input
  | ReplayTick u32 bool scale_snapshot | Context | SetCoeffs target_coeffs
  | SetLoaded "i32 option" bool | RestoreLast

fun ctl_apply :: "('f, 'n, 'c) ctl_env \<Rightarrow> ('f, 'n, 'c) controller \<Rightarrow> ctl_op \<Rightarrow> ('f, 'n, 'c) controller" where
  "ctl_apply env s BeginSession = beginSession s"
| "ctl_apply env s Deactivate = deactivate s"
| "ctl_apply env s ResetInFlight = resetInFlightAndNotify s"
| "ctl_apply env s (Tick i) = fst (ct_tick env i s)"
| "ctl_apply env s (ReplayTick nowMs pumpOn snap) = fst (replayTick nowMs pumpOn snap s)"
| "ctl_apply env s Context = fst (contextAction s)"
| "ctl_apply env s (SetCoeffs c) = setTargetCoeffs c s"
| "ctl_apply env s (SetLoaded arg mounted) = fst (handleSetLoaded env arg mounted s)"
| "ctl_apply env s RestoreLast = requestRestoreLastShotIfEmpty env s"

definition ctl_step :: "('f, 'n, 'c) ctl_env \<Rightarrow> ('f, 'n, 'c) controller \<Rightarrow> ctl_op \<Rightarrow> ('f, 'n, 'c) controller \<times> unit" where
  "ctl_step env s a = (ctl_apply env s a, ())"

lemma fst_ctl_step [simp]: "fst (ctl_step env s a) = ctl_apply env s a"
  by (simp add: ctl_step_def)

end
