(* ===== verification/ControllerLaws.thy ===== *)
theory ControllerLaws
  imports Controller
begin

text \<open>
  What the extraction controller guarantees: exactly the real shots of the live recorder become
  history, once each; a replay leaves no trace in it; what the screen shows as done is the last
  accepted shot; every change of the shot on display is signalled; and every alarm in a record is
  explained by the target stored beside it.
\<close>

section \<open>Frames\<close>

text \<open>The recorder operations of the alert touch the record in progress only.\<close>

lemma target_frame [simp]:
  "rc_finishedSeq (setTargetSnapshot c r) = rc_finishedSeq r" "rc_lastFinished (setTargetSnapshot c r) = rc_lastFinished r"
  "rc_phase (setTargetSnapshot c r) = rc_phase r" "rc_finishedSeq (triggerAlarm a r) = rc_finishedSeq r"
  "rc_lastFinished (triggerAlarm a r) = rc_lastFinished r" "rc_phase (triggerAlarm a r) = rc_phase r"
  by (simp_all add: setTargetSnapshot_def triggerAlarm_def rc_phase_def)

lemma runTargetAlert_frame:
  obtains r ta b where "runTargetAlert n s = s\<lparr>ct_recorder := r, ct_targetAlert := ta, ct_alertShotBeginMs := b\<rparr>"
    and "rc_finishedSeq r = rc_finishedSeq (ct_recorder s)" and "rc_lastFinished r = rc_lastFinished (ct_recorder s)"
    and "rc_phase r = rc_phase (ct_recorder s)"
    and "recorder_shape (ct_recorder s) \<Longrightarrow> recorder_shape r"
    and "rc_phase (ct_recorder s) \<noteq> phase_byte PHASE_RUNNING \<Longrightarrow> r = ct_recorder s"
proof -
  define s1 where "s1 = (if ex_phase (rc_current (ct_recorder s)) = phase_byte PHASE_RUNNING
      \<and> ex_beginMs (rc_current (ct_recorder s)) \<noteq> ct_alertShotBeginMs s
    then s\<lparr>ct_alertShotBeginMs := ex_beginMs (rc_current (ct_recorder s)),
           ct_targetAlert := setCoeffs (ct_targetCoeffs s) (onRunningEntry (ct_targetAlert s)),
           ct_recorder := setTargetSnapshot (ta_coeffs (setCoeffs (ct_targetCoeffs s) (onRunningEntry (ct_targetAlert s)))) (ct_recorder s)\<rparr>
    else s)"
  define ta where "ta = ta_update n (ex_phase (rc_current (ct_recorder s)) = phase_byte PHASE_RUNNING)
    (lastTrustedYieldSample (ct_recorder s)) (ct_targetAlert s1)"
  define r where "r = (if as_stopNowEdge (ta_state ta)
    then triggerAlarm \<lparr>at_tMs = n, at_ctx = snapshotAtStop ta\<rparr> (ct_recorder s1) else ct_recorder s1)"
  have eq: "runTargetAlert n s = s\<lparr>ct_recorder := r, ct_targetAlert := ta, ct_alertShotBeginMs := ct_alertShotBeginMs s1\<rparr>"
    unfolding runTargetAlert_def Let_def s1_def [symmetric] ta_def [symmetric] r_def by (simp add: s1_def)
  have sh: "recorder_shape (ct_recorder s) \<Longrightarrow> recorder_shape (ct_recorder s1)"
    using shape_apply [of "ct_recorder s" "RcTarget (ta_coeffs (setCoeffs (ct_targetCoeffs s) (onRunningEntry (ct_targetAlert s))))"]
    by (simp add: s1_def)
  show thesis
  proof (rule that [OF eq])
    show "recorder_shape (ct_recorder s) \<Longrightarrow> recorder_shape r"
      using sh shape_apply [of "ct_recorder s1" "RcAlarm \<lparr>at_tMs = n, at_ctx = snapshotAtStop ta\<rparr>"] by (simp add: r_def)
    show "rc_phase (ct_recorder s) \<noteq> phase_byte PHASE_RUNNING \<Longrightarrow> r = ct_recorder s"
      by (auto simp: r_def s1_def rc_phase_def triggerAlarm_def)
  qed (simp_all add: r_def s1_def)
qed

lemma processPendingLoad_frame:
  obtains p h l f d b where "processPendingLoad env a s
      = (s\<lparr>ct_pendingLoadId := p, ct_loadedShot := l, ct_loadedFlowStats := f, ct_hasLoadedShot := h, ct_displayShotSeq := d\<rparr>, b)"
  by (rule that [of "ct_displayShotSeq (fst (processPendingLoad env a s))" "ct_hasLoadedShot (fst (processPendingLoad env a s))"
      "ct_loadedFlowStats (fst (processPendingLoad env a s))" "ct_loadedShot (fst (processPendingLoad env a s))"
      "ct_pendingLoadId (fst (processPendingLoad env a s))" "snd (processPendingLoad env a s)"])
    (simp add: processPendingLoad_def clearLoadedShot_def Let_def split: option.split)

lemma shape_clear: "recorder_shape r \<Longrightarrow> recorder_shape (rc_clear r)"
  using shape_apply [of r RcClear] by simp

lemma clear_frame [simp]:
  "rc_finishedSeq (rc_clear r) = rc_finishedSeq r" "rc_lastFinished (rc_clear r) = rc_lastFinished r"
  "rc_phase (rc_clear r) = phase_byte PHASE_IDLE"
  by (simp_all add: rc_clear_def)

section \<open>One tick\<close>

definition updated :: "tick_input \<Rightarrow> ('f, 'n, 'c) controller \<Rightarrow> recorder" where
  "updated i s = rc_update (ti_nowMs i) (ti_pump i) (ti_scale i) (ti_utcSec i) (ct_recorder s)"

definition graduates :: "tick_input \<Rightarrow> ('f, 'n, 'c) controller \<Rightarrow> bool" where
  "graduates i s \<longleftrightarrow> rc_finishedSeq (updated i s) \<noteq> ct_lastObservedFinishedSeq s
     \<and> isLikelyRealShot (rc_lastFinished (updated i s))"

lemma settle_finish_frame:
  assumes "settle_finish s = (s', outcome)"
  shows "rc_finishedSeq (ct_recorder s') = rc_finishedSeq (ct_recorder s)"
    and "rc_lastFinished (ct_recorder s') = rc_lastFinished (ct_recorder s)"
    and "ct_lastObservedFinishedSeq s' = rc_finishedSeq (ct_recorder s)"
    and "recorder_shape (ct_recorder s) \<Longrightarrow> recorder_shape (ct_recorder s')"
    and "outcome = (if rc_finishedSeq (ct_recorder s) = ct_lastObservedFinishedSeq s then FinalNone
          else if isLikelyRealShot (rc_lastFinished (ct_recorder s)) then Accepted else Rejected)"
    and "ct_recorder s' = (if outcome = Rejected \<and> rc_phase (ct_recorder s) = phase_byte PHASE_DONE
          then rc_clear (ct_recorder s) else ct_recorder s)"
    and "ct_lastAcceptedShot s' = (if outcome = Accepted then rc_lastFinished (ct_recorder s) else ct_lastAcceptedShot s)"
    and "ct_lastAcceptedSeq s' = (if outcome = Accepted then rc_finishedSeq (ct_recorder s) else ct_lastAcceptedSeq s)"
    and "ct_lastAttemptedSeq s' = ct_lastAttemptedSeq s" and "ct_lastSavedSeq s' = ct_lastSavedSeq s"
    and "ct_shotStore s' = ct_shotStore s" and "ct_countStore s' = ct_countStore s" and "ct_shotCounter s' = ct_shotCounter s"
    and "ct_targetAlert s' = ct_targetAlert s" and "ct_alertShotBeginMs s' = ct_alertShotBeginMs s" and "ct_targetCoeffs s' = ct_targetCoeffs s"
  using assms shape_clear [of "ct_recorder s"]
  by (auto simp: settle_finish_def observeFinishedExtraction_def clearLoadedShot_def Let_def split: if_splits)

lemma tick_parts:
  obtains s2 s3 outcome s4 w where
    "s2 = (fst (processPendingLoad env (ti_allocOk i) s))\<lparr>ct_statusPumpSignalState := po_state (ti_pump i), ct_recorder := updated i s\<rparr>"
    "ct_recorder s2 = updated i s" "ct_lastObservedFinishedSeq s2 = ct_lastObservedFinishedSeq s"
    "ct_lastAcceptedShot s2 = ct_lastAcceptedShot s" "ct_lastAcceptedSeq s2 = ct_lastAcceptedSeq s"
    "ct_lastAttemptedSeq s2 = ct_lastAttemptedSeq s" "ct_lastSavedSeq s2 = ct_lastSavedSeq s"
    "ct_shotStore s2 = ct_shotStore s" "ct_countStore s2 = ct_countStore s" "ct_shotCounter s2 = ct_shotCounter s"
    "ct_targetAlert s2 = ct_targetAlert s" "ct_alertShotBeginMs s2 = ct_alertShotBeginMs s" "ct_targetCoeffs s2 = ct_targetCoeffs s"
    "settle_finish s2 = (s3, outcome)" "s4 = runTargetAlert (ti_nowMs i) s3"
    "fst (ct_tick env i s) = persistAcceptedShot env (ti_mounted i)
       (let q = s4\<lparr>ct_statusScale := ti_scale i, ct_statusNowMs := ti_nowMs i, ct_replaying := False, ct_liveSeq := w\<rparr>
        in if outcome = Accepted then count_shot env q else q)"
proof -
  obtain p h l f d b where pl: "processPendingLoad env (ti_allocOk i) s
      = (s\<lparr>ct_pendingLoadId := p, ct_loadedShot := l, ct_loadedFlowStats := f, ct_hasLoadedShot := h, ct_displayShotSeq := d\<rparr>, b)"
    by (rule processPendingLoad_frame)
  define s1 where "s1 = s\<lparr>ct_pendingLoadId := p, ct_loadedShot := l, ct_loadedFlowStats := f, ct_hasLoadedShot := h, ct_displayShotSeq := d\<rparr>"
  define s2 where "s2 = s1\<lparr>ct_statusPumpSignalState := po_state (ti_pump i), ct_recorder := updated i s1\<rparr>"
  have u: "updated i s1 = updated i s" by (simp add: updated_def s1_def)
  obtain s3 outcome where s3: "settle_finish s2 = (s3, outcome)" by (metis surj_pair)
  define s4 where "s4 = runTargetAlert (ti_nowMs i) s3"
  have w: "\<exists>w. (if c then wake q else q) = q\<lparr>ct_liveSeq := w\<rparr>" for c and q :: "('a, 'b, 'c) controller"
    by (auto simp: wake_def intro: exI [of _ "ct_liveSeq q"])
  define s5 where "s5 = s4\<lparr>ct_statusScale := ti_scale i, ct_statusNowMs := ti_nowMs i, ct_replaying := False\<rparr>"
  define c where "c = to_frameNeeded (snd (ct_tick env i s))"
  have lk: "tick_locked i s1 = (s5, outcome, ct_recorder s3)"
    using s3 by (simp add: tick_locked_def s2_def updated_def s4_def s5_def)
  have t: "fst (ct_tick env i s) = persistAcceptedShot env (ti_mounted i)
      (if outcome = Accepted then count_shot env (if c then wake s5 else s5) else (if c then wake s5 else s5))"
    unfolding c_def ct_tick_def pl s1_def [symmetric] by (simp add: lk Let_def)
  obtain w where "(if c then wake s5 else s5) = s5\<lparr>ct_liveSeq := w\<rparr>" using w by blast
  then show thesis
    using t s3 by (intro that [of s2 s3 outcome s4 w]) (simp_all add: pl s2_def s1_def s4_def s5_def u [unfolded s1_def] Let_def)
qed

definition save_shot :: "('f, 'n, 'c) ctl_env \<Rightarrow> ('f, 'n) shot_store \<Rightarrow> bool \<times> extraction \<Rightarrow> ('f, 'n) shot_store \<times> bool" where
  "save_shot env store me = ss_save (ce_fs env) (ce_idNvs env) (fst me) (snd me) store"

definition count_once :: "('f, 'n, 'c) ctl_env \<Rightarrow> 'c \<times> shot_counter \<Rightarrow> 'c \<times> shot_counter" where
  "count_once env p = fst (sc_increment (ce_countNvs env) (fst p) (snd p))"

lemma count_shot_frame:
  "ct_countStore (count_shot env s) = fst (count_once env (ct_countStore s, ct_shotCounter s))"
  "ct_shotCounter (count_shot env s) = snd (count_once env (ct_countStore s, ct_shotCounter s))"
  "ct_recorder (count_shot env s) = ct_recorder s" "ct_lastObservedFinishedSeq (count_shot env s) = ct_lastObservedFinishedSeq s"
  "ct_shotStore (count_shot env s) = ct_shotStore s" "ct_lastAcceptedShot (count_shot env s) = ct_lastAcceptedShot s"
  "ct_lastAcceptedSeq (count_shot env s) = ct_lastAcceptedSeq s" "ct_lastAttemptedSeq (count_shot env s) = ct_lastAttemptedSeq s"
  "ct_lastSavedSeq (count_shot env s) = ct_lastSavedSeq s" "ct_targetAlert (count_shot env s) = ct_targetAlert s"
  "ct_alertShotBeginMs (count_shot env s) = ct_alertShotBeginMs s" "ct_targetCoeffs (count_shot env s) = ct_targetCoeffs s"
  by (simp_all add: count_shot_def count_once_def split: prod.splits)

lemma persist_frame:
  "ct_recorder (persistAcceptedShot env m s) = ct_recorder s" "ct_lastObservedFinishedSeq (persistAcceptedShot env m s) = ct_lastObservedFinishedSeq s"
  "ct_countStore (persistAcceptedShot env m s) = ct_countStore s" "ct_shotCounter (persistAcceptedShot env m s) = ct_shotCounter s"
  "ct_lastAcceptedShot (persistAcceptedShot env m s) = ct_lastAcceptedShot s" "ct_lastAcceptedSeq (persistAcceptedShot env m s) = ct_lastAcceptedSeq s"
  "ct_lastAttemptedSeq (persistAcceptedShot env m s) = ct_lastAcceptedSeq s"
  "ct_targetAlert (persistAcceptedShot env m s) = ct_targetAlert s"
  "ct_alertShotBeginMs (persistAcceptedShot env m s) = ct_alertShotBeginMs s" "ct_targetCoeffs (persistAcceptedShot env m s) = ct_targetCoeffs s"
  "ct_shotStore (persistAcceptedShot env m s) = (if ct_lastAcceptedSeq s = ct_lastAttemptedSeq s then ct_shotStore s
     else fst (save_shot env (ct_shotStore s) (m, ct_lastAcceptedShot s)))"
  "ct_lastSavedSeq (persistAcceptedShot env m s) = (if ct_lastAcceptedSeq s \<noteq> ct_lastAttemptedSeq s
      \<and> snd (save_shot env (ct_shotStore s) (m, ct_lastAcceptedShot s)) then ct_lastAcceptedSeq s else ct_lastSavedSeq s)"
  by (auto simp: persistAcceptedShot_def Let_def wake_def save_shot_def split: prod.splits)

lemma tick_history:
  assumes att: "ct_lastAttemptedSeq s = ct_lastAcceptedSeq s" and t: "s' = ctl_apply env s (Tick i)"
  shows tick_seq: "rc_finishedSeq (ct_recorder s') = rc_finishedSeq (updated i s)"
      "rc_lastFinished (ct_recorder s') = rc_lastFinished (updated i s)"
      "ct_lastObservedFinishedSeq s' = rc_finishedSeq (updated i s)" "ct_lastAttemptedSeq s' = ct_lastAcceptedSeq s'"
      "recorder_shape (ct_recorder s) \<Longrightarrow> recorder_shape (ct_recorder s')"
    and tick_none: "\<not> graduates i s \<Longrightarrow> ct_shotStore s' = ct_shotStore s \<and> ct_countStore s' = ct_countStore s
      \<and> ct_shotCounter s' = ct_shotCounter s \<and> ct_lastAcceptedShot s' = ct_lastAcceptedShot s
      \<and> ct_lastAcceptedSeq s' = ct_lastAcceptedSeq s \<and> ct_lastSavedSeq s' = ct_lastSavedSeq s"
    and tick_graduates: "graduates i s \<Longrightarrow> rc_finishedSeq (updated i s) \<noteq> ct_lastAttemptedSeq s \<Longrightarrow>
      (let me = (ti_mounted i, rc_lastFinished (updated i s)) in
         ct_shotStore s' = fst (save_shot env (ct_shotStore s) me)
       \<and> (ct_countStore s', ct_shotCounter s') = count_once env (ct_countStore s, ct_shotCounter s)
       \<and> ct_lastAcceptedShot s' = snd me \<and> ct_lastAcceptedSeq s' = rc_finishedSeq (updated i s)
       \<and> ct_lastSavedSeq s' = (if snd (save_shot env (ct_shotStore s) me) then rc_finishedSeq (updated i s) else ct_lastSavedSeq s))"
proof -
  obtain s2 s3 outcome s4 w where s2: "s2 = (fst (processPendingLoad env (ti_allocOk i) s))\<lparr>ct_statusPumpSignalState := po_state (ti_pump i), ct_recorder := updated i s\<rparr>"
    and p: "ct_recorder s2 = updated i s" "ct_lastObservedFinishedSeq s2 = ct_lastObservedFinishedSeq s"
    "ct_lastAcceptedShot s2 = ct_lastAcceptedShot s" "ct_lastAcceptedSeq s2 = ct_lastAcceptedSeq s"
    "ct_lastAttemptedSeq s2 = ct_lastAttemptedSeq s" "ct_lastSavedSeq s2 = ct_lastSavedSeq s"
    "ct_shotStore s2 = ct_shotStore s" "ct_countStore s2 = ct_countStore s" "ct_shotCounter s2 = ct_shotCounter s"
    and s3: "settle_finish s2 = (s3, outcome)" and s4: "s4 = runTargetAlert (ti_nowMs i) s3"
    and fin: "fst (ct_tick env i s) = persistAcceptedShot env (ti_mounted i)
       (let q = s4\<lparr>ct_statusScale := ti_scale i, ct_statusNowMs := ti_nowMs i, ct_replaying := False, ct_liveSeq := w\<rparr>
        in if outcome = Accepted then count_shot env q else q)"
    by (rule tick_parts)
  note f = settle_finish_frame [OF s3, unfolded p]
  obtain r ta b where a: "runTargetAlert (ti_nowMs i) s3 = s3\<lparr>ct_recorder := r, ct_targetAlert := ta, ct_alertShotBeginMs := b\<rparr>"
    "rc_finishedSeq r = rc_finishedSeq (ct_recorder s3)" "rc_lastFinished r = rc_lastFinished (ct_recorder s3)"
    "rc_phase r = rc_phase (ct_recorder s3)" "recorder_shape (ct_recorder s3) \<Longrightarrow> recorder_shape r"
    "rc_phase (ct_recorder s3) \<noteq> phase_byte PHASE_RUNNING \<Longrightarrow> r = ct_recorder s3"
    using runTargetAlert_frame [of "ti_nowMs i" s3] by metis
  define q where "q = s4\<lparr>ct_statusScale := ti_scale i, ct_statusNowMs := ti_nowMs i, ct_replaying := False, ct_liveSeq := w\<rparr>"
  have s': "s' = persistAcceptedShot env (ti_mounted i) (if outcome = Accepted then count_shot env q else q)"
    using fin t by (simp add: q_def Let_def)
  have q: "ct_recorder q = r" "ct_lastObservedFinishedSeq q = ct_lastObservedFinishedSeq s3" "ct_lastAcceptedShot q = ct_lastAcceptedShot s3"
    "ct_lastAcceptedSeq q = ct_lastAcceptedSeq s3" "ct_lastAttemptedSeq q = ct_lastAttemptedSeq s3" "ct_lastSavedSeq q = ct_lastSavedSeq s3"
    "ct_shotStore q = ct_shotStore s3" "ct_countStore q = ct_countStore s3" "ct_shotCounter q = ct_shotCounter s3"
    by (simp_all add: q_def s4 a(1))
  note simps = s' persist_frame count_shot_frame q f a(2,3)
  show "rc_finishedSeq (ct_recorder s') = rc_finishedSeq (updated i s)"
    "rc_lastFinished (ct_recorder s') = rc_lastFinished (updated i s)"
    "ct_lastObservedFinishedSeq s' = rc_finishedSeq (updated i s)" "ct_lastAttemptedSeq s' = ct_lastAcceptedSeq s'"
    by (simp_all add: simps)
  show "recorder_shape (ct_recorder s')" if "recorder_shape (ct_recorder s)"
  proof -
    have "recorder_shape (updated i s)"
      using shape_apply [OF that, of "RcUpdate (ti_nowMs i) (ti_pump i) (ti_scale i) (ti_utcSec i)"] by (simp add: updated_def)
    then have "recorder_shape r" using a(5) f(4) by blast
    then show ?thesis by (simp add: s' persist_frame count_shot_frame q)
  qed
  have o: "outcome = Accepted \<longleftrightarrow> graduates i s" using f(5) by (auto simp: graduates_def split: if_splits)
  show "ct_shotStore s' = ct_shotStore s \<and> ct_countStore s' = ct_countStore s
      \<and> ct_shotCounter s' = ct_shotCounter s \<and> ct_lastAcceptedShot s' = ct_lastAcceptedShot s
      \<and> ct_lastAcceptedSeq s' = ct_lastAcceptedSeq s \<and> ct_lastSavedSeq s' = ct_lastSavedSeq s" if "\<not> graduates i s"
  proof -
    have "outcome \<noteq> Accepted" using o that by simp
    then show ?thesis using att by (simp add: s' persist_frame q f(7-13) p)
  qed
  show "let me = (ti_mounted i, rc_lastFinished (updated i s)) in
         ct_shotStore s' = fst (save_shot env (ct_shotStore s) me)
       \<and> (ct_countStore s', ct_shotCounter s') = count_once env (ct_countStore s, ct_shotCounter s)
       \<and> ct_lastAcceptedShot s' = snd me \<and> ct_lastAcceptedSeq s' = rc_finishedSeq (updated i s)
       \<and> ct_lastSavedSeq s' = (if snd (save_shot env (ct_shotStore s) me) then rc_finishedSeq (updated i s) else ct_lastSavedSeq s)"
    if "graduates i s" "rc_finishedSeq (updated i s) \<noteq> ct_lastAttemptedSeq s"
  proof -
    have "outcome = Accepted" using o that(1) by simp
    then show ?thesis using that(2) by (simp add: s' persist_frame count_shot_frame q f(7-13) p)
  qed
qed

section \<open>History\<close>

text \<open>The real shot a live tick publishes, read off the recorder alone, with the state of the volume.\<close>

fun published :: "('f, 'n, 'c) controller \<Rightarrow> ctl_op \<Rightarrow> (bool \<times> extraction) list" where
  "published s (Tick i) =
     (if rc_finishedSeq (updated i s) \<noteq> rc_finishedSeq (ct_recorder s) \<and> isLikelyRealShot (rc_lastFinished (updated i s))
      then [(ti_mounted i, rc_lastFinished (updated i s))] else [])"
| "published s _ = []"

fun real_shots :: "('f, 'n, 'c) ctl_env \<Rightarrow> ('f, 'n, 'c) controller \<Rightarrow> ctl_op list \<Rightarrow> (bool \<times> extraction) list" where
  "real_shots env s [] = []"
| "real_shots env s (a # ops) = published s a @ real_shots env (ctl_apply env s a) ops"

text \<open>The screen brackets a replay: no live tick between a replay tick and the reset that ends it.\<close>

fun replay_after :: "bool \<Rightarrow> ctl_op \<Rightarrow> bool" where
  "replay_after rep (ReplayTick _ _ _) = True"
| "replay_after rep ResetInFlight = False"
| "replay_after rep _ = rep"

fun bracketed :: "bool \<Rightarrow> ctl_op list \<Rightarrow> bool" where
  "bracketed rep [] = True"
| "bracketed rep (a # ops) = ((case a of Tick _ \<Rightarrow> \<not> rep | _ \<Rightarrow> True) \<and> bracketed (replay_after rep a) ops)"

definition saved_history :: "('f, 'n, 'c) ctl_env \<Rightarrow> ('f, 'n) shot_store \<Rightarrow> (bool \<times> extraction) list \<Rightarrow> ('f, 'n) shot_store" where
  "saved_history env store h = foldl (\<lambda>st me. fst (save_shot env st me)) store h"

definition history_inv where
  "history_inv env store0 c0 n rep h s \<longleftrightarrow>
     recorder_shape (ct_recorder s) \<and> unat (rc_finishedSeq (ct_recorder s)) \<le> n
   \<and> unat (ct_lastAcceptedSeq s) \<le> unat (rc_finishedSeq (ct_recorder s))
   \<and> ct_lastAttemptedSeq s = ct_lastAcceptedSeq s \<and> unat (ct_lastSavedSeq s) \<le> unat (ct_lastAcceptedSeq s)
   \<and> (\<not> rep \<longrightarrow> ct_lastObservedFinishedSeq s = rc_finishedSeq (ct_recorder s))
   \<and> ct_shotStore s = saved_history env store0 h
   \<and> (ct_countStore s, ct_shotCounter s) = (count_once env ^^ length h) c0
   \<and> (h = [] \<longrightarrow> ct_lastAcceptedSeq s = 0)
   \<and> (h \<noteq> [] \<longrightarrow> ct_lastAcceptedSeq s \<noteq> 0 \<and> ct_lastAcceptedShot s = snd (last h)
        \<and> (ct_lastSavedSeq s = ct_lastAcceptedSeq s \<longleftrightarrow> snd (save_shot env (saved_history env store0 (butlast h)) (last h))))"

lemma finishes_any: "recorder_shape r \<Longrightarrow> finishes (\<lambda>_. True) r (rc_update n p s u r)"
  by (rule finishes_update) simp_all

lemma history_tick:
  assumes inv: "history_inv env store0 c0 n False h s" and n: "n + 1 < 2 ^ 32"
  shows "history_inv env store0 c0 (n + 1) False (h @ published s (Tick i)) (ctl_apply env s (Tick i))"
proof -
  define s' where "s' = ctl_apply env s (Tick i)"
  note I = inv [unfolded history_inv_def]
  have att: "ct_lastAttemptedSeq s = ct_lastAcceptedSeq s" and obs: "ct_lastObservedFinishedSeq s = rc_finishedSeq (ct_recorder s)"
    and sh: "recorder_shape (ct_recorder s)" using I by simp_all
  note seq = tick_seq [OF att s'_def] and none = tick_none [OF att s'_def] and grad = tick_graduates [OF att s'_def]
  define q where "q = rc_finishedSeq (updated i s)"
  have qstep: "q = rc_finishedSeq (ct_recorder s) \<or> q = rc_finishedSeq (ct_recorder s) + 1"
    using finishes_any [OF sh] by (auto simp: finishes_def q_def updated_def)
  have up: "unat (rc_finishedSeq (ct_recorder s) + 1) = unat (rc_finishedSeq (ct_recorder s)) + 1"
    using I n by (subst unat_add_lem [THEN iffD1]) simp_all
  have qn: "unat (rc_finishedSeq (ct_recorder s)) \<le> unat q" "unat q \<le> n + 1" using qstep up I by auto
  show ?thesis
  proof (cases "graduates i s")
    case True
    then have "q \<noteq> rc_finishedSeq (ct_recorder s)" by (simp add: graduates_def obs q_def)
    then have qs: "unat q = unat (rc_finishedSeq (ct_recorder s)) + 1" using qstep up by auto
    then have big: "unat (ct_lastAcceptedSeq s) < unat q" "unat (ct_lastSavedSeq s) < unat q" using I by linarith+
    then have ne: "rc_finishedSeq (updated i s) \<noteq> ct_lastAttemptedSeq s" using att by (auto simp: q_def)
    define me where "me = (ti_mounted i, rc_lastFinished (updated i s))"
    have pub: "published s (Tick i) = [me]" using True obs by (simp add: graduates_def me_def)
    note g = grad [OF True ne, unfolded Let_def me_def [symmetric] q_def [symmetric]]
    have saved: "ct_lastSavedSeq s' = ct_lastAcceptedSeq s' \<longleftrightarrow> snd (save_shot env (ct_shotStore s) me)"
      using g big by auto
    have "q \<noteq> 0" using qs by auto
    then show ?thesis
      using I g seq sh qn saved big unfolding pub s'_def [symmetric] q_def [symmetric]
      by (auto simp: history_inv_def saved_history_def q_def)
  next
    case False
    then have "published s (Tick i) = []" using obs by (auto simp: graduates_def)
    then show ?thesis
      using I none [OF False] seq sh qn unfolding s'_def [symmetric] q_def [symmetric]
      by (auto simp: history_inv_def q_def)
  qed
qed

lemma replayTick_frame:
  assumes "s' = ctl_apply env s (ReplayTick nowMs pumpOn snap)" and "recorder_shape (ct_recorder s)"
  shows "recorder_shape (ct_recorder s')" "finishes (\<lambda>_. True) (ct_recorder s) (ct_recorder s')"
    "ct_shotStore s' = ct_shotStore s" "ct_countStore s' = ct_countStore s" "ct_shotCounter s' = ct_shotCounter s"
    "ct_lastAcceptedShot s' = ct_lastAcceptedShot s" "ct_lastAcceptedSeq s' = ct_lastAcceptedSeq s"
    "ct_lastAttemptedSeq s' = ct_lastAttemptedSeq s" "ct_lastSavedSeq s' = ct_lastSavedSeq s"
    "effectiveLastShotSelection s' = effectiveLastShotSelection s" "ct_displayShotSeq s' = ct_displayShotSeq s"
    "ct_log s' = ct_log s" "ct_pendingLoadId s' = ct_pendingLoadId s"
proof -
  define s1 where "s1 = s\<lparr>ct_statusPumpSignalState := Recorder.PumpOff,
    ct_recorder := rc_update nowMs (replay_pump pumpOn) snap 0 (ct_recorder s)\<rparr>"
  obtain r ta b where a: "runTargetAlert nowMs s1 = s1\<lparr>ct_recorder := r, ct_targetAlert := ta, ct_alertShotBeginMs := b\<rparr>"
    "rc_finishedSeq r = rc_finishedSeq (ct_recorder s1)" "rc_lastFinished r = rc_lastFinished (ct_recorder s1)"
    "recorder_shape (ct_recorder s1) \<Longrightarrow> recorder_shape r"
    using runTargetAlert_frame [of nowMs s1] by metis
  have s': "s' = wake ((s1\<lparr>ct_recorder := r, ct_targetAlert := ta, ct_alertShotBeginMs := b\<rparr>)
      \<lparr>ct_statusScale := snap, ct_statusNowMs := nowMs, ct_replaying := True\<rparr>)"
    by (simp add: assms(1) replayTick_def Let_def s1_def [symmetric] a(1))
  have "recorder_shape (ct_recorder s1)"
    using shape_apply [OF assms(2), of "RcUpdate nowMs (replay_pump pumpOn) snap 0"] by (simp add: s1_def)
  then show "recorder_shape (ct_recorder s')" using a(4) by (simp add: s' wake_def)
  show "finishes (\<lambda>_. True) (ct_recorder s) (ct_recorder s')"
    using finishes_any [OF assms(2), of nowMs "replay_pump pumpOn" snap 0] a(2,3)
    by (simp add: s' wake_def finishes_def s1_def)
  show "ct_shotStore s' = ct_shotStore s" "ct_countStore s' = ct_countStore s" "ct_shotCounter s' = ct_shotCounter s"
    "ct_lastAcceptedShot s' = ct_lastAcceptedShot s" "ct_lastAcceptedSeq s' = ct_lastAcceptedSeq s"
    "ct_lastAttemptedSeq s' = ct_lastAttemptedSeq s" "ct_lastSavedSeq s' = ct_lastSavedSeq s"
    "effectiveLastShotSelection s' = effectiveLastShotSelection s" "ct_displayShotSeq s' = ct_displayShotSeq s"
    "ct_log s' = ct_log s" "ct_pendingLoadId s' = ct_pendingLoadId s"
    by (simp_all add: s' s1_def wake_def effectiveLastShotSelection_def)
qed

lemma history_step:
  assumes inv: "history_inv env store0 c0 n rep h s" and n: "n + 1 < 2 ^ 32" and b: "bracketed rep [a]"
  shows "history_inv env store0 c0 (n + 1) (replay_after rep a) (h @ published s a) (ctl_apply env s a)"
proof (cases a)
  case (Tick i)
  then have "\<not> rep" using b by simp
  then show ?thesis using history_tick [of env store0 c0 n h s i] inv n by (simp add: Tick)
next
  case (ReplayTick nowMs pumpOn snap)
  have sh: "recorder_shape (ct_recorder s)" and fn: "unat (rc_finishedSeq (ct_recorder s)) \<le> n" using inv by (simp_all add: history_inv_def)
  define s' where "s' = ctl_apply env s a"
  note f = replayTick_frame [OF s'_def [unfolded ReplayTick] sh, folded ReplayTick]
  have "unat (rc_finishedSeq (ct_recorder s) + 1) = unat (rc_finishedSeq (ct_recorder s)) + 1"
    using fn n by (subst unat_add_lem [THEN iffD1]) simp_all
  then have "unat (rc_finishedSeq (ct_recorder s)) \<le> unat (rc_finishedSeq (ct_recorder s'))"
    "unat (rc_finishedSeq (ct_recorder s')) \<le> n + 1"
    using f(2) fn by (auto simp: finishes_def)
  then show ?thesis
    using inv f(1,3-9) unfolding s'_def [symmetric] by (auto simp: history_inv_def ReplayTick)
next
  case (SetLoaded arg mounted)
  have "\<exists>p. ctl_apply env s a = s\<lparr>ct_pendingLoadId := p\<rparr>"
    by (auto simp: SetLoaded handleSetLoaded_def requestLoadShot_def split: option.split intro: exI [of _ "ct_pendingLoadId s"])
  then show ?thesis using inv by (auto simp: SetLoaded history_inv_def)
next
  case RestoreLast
  have "\<exists>p. ctl_apply env s a = s\<lparr>ct_pendingLoadId := p\<rparr>"
    by (auto simp: RestoreLast requestRestoreLastShotIfEmpty_def requestLoadShot_def Let_def intro: exI [of _ "ct_pendingLoadId s"])
  then show ?thesis using inv by (auto simp: RestoreLast history_inv_def)
qed (use inv in \<open>auto simp: history_inv_def beginSession_def deactivate_def resetInFlightAndNotify_def contextAction_def
    setTargetCoeffs_def wake_def Let_def shape_clear\<close>)

lemma history_run:
  assumes "history_inv env store0 c0 n rep h s" and "n + length ops < 2 ^ 32" and "bracketed rep ops"
  shows "history_inv env store0 c0 (n + length ops) (foldl replay_after rep ops) (h @ real_shots env s ops) (run (ctl_step env) s ops)"
  using assms
proof (induction ops arbitrary: n rep h s)
  case (Cons a ops)
  have b: "bracketed rep [a]" "bracketed (replay_after rep a) ops" using Cons.prems(3) by (cases a; simp)+
  have "history_inv env store0 c0 (n + 1) (replay_after rep a) (h @ published s a) (ctl_apply env s a)"
    using history_step [OF Cons.prems(1) _ b(1)] Cons.prems(2) by simp
  from Cons.IH [OF this _ b(2)] Cons.prems(2) show ?case by simp
qed simp

lemma history_init: "history_inv env store (cst, counter) 0 False [] (ct_init counter cst store lg)"
  using shape_init by (simp add: history_inv_def ct_init_def saved_history_def rc_init_def)

text \<open>C5: whatever happens in a session, the history is exactly the real shots of the live recorder: each
  shot the recorder publishes in a live tick and the verdict calls real is saved once, in order, and
  counted once; flushes and anything a replay finishes are neither; and the saved marker equals the
  accepted one exactly when the save of the last accepted shot succeeded.\<close>

theorem real_shots_become_history:
  assumes "bracketed False ops" and "length ops < 2 ^ 32"
  shows "let s0 = ct_init counter cst store lg; s = run (ctl_step env) s0 ops; h = real_shots env s0 ops in
     ct_shotStore s = saved_history env store h
   \<and> (ct_countStore s, ct_shotCounter s) = (count_once env ^^ length h) (cst, counter)
   \<and> (ct_lastAcceptedSeq s = 0 \<longleftrightarrow> h = []) \<and> ct_lastAttemptedSeq s = ct_lastAcceptedSeq s
   \<and> (h \<noteq> [] \<longrightarrow> ct_lastAcceptedShot s = snd (last h)
        \<and> (ct_lastSavedSeq s = ct_lastAcceptedSeq s \<longleftrightarrow> snd (save_shot env (saved_history env store (butlast h)) (last h))))"
  using history_run [OF history_init [of env store cst counter lg], of ops] assms
  by (auto simp: history_inv_def Let_def)

text \<open>A session with a replay in it.\<close>

definition ram_env :: "(ram_disk, u32, u64 option) ctl_env" where
  "ram_env = \<lparr>ce_fs = ram_fs, ce_idNvs = word_nvs, ce_countNvs = ram_count_nvs\<rparr>"

definition quiet_tick :: "u32 \<Rightarrow> bool \<Rightarrow> tick_input" where
  "quiet_tick nowMs on = \<lparr>ti_nowMs = nowMs, ti_pump = replay_pump on, ti_scale = zero_scale, ti_utcSec = 0,
     ti_newScaleSample = False, ti_scaleStateChanged = False, ti_mounted = True, ti_allocOk = True\<rparr>"

definition demo_session :: "ctl_op list" where
  "demo_session = [BeginSession, Tick (quiet_tick 1000 True), Tick (quiet_tick 4000 False), Tick (quiet_tick 10000 False),
     ResetInFlight, ReplayTick 100 True zero_scale, ReplayTick 300 False zero_scale, ResetInFlight, Tick (quiet_tick 20000 False)]"

lemma real_shots_become_history_witness:
  "let s0 = ct_init sc_init None ram_store (rr_empty EXTRACTION_CAP (finish_stat default_extraction False));
       s = run (ctl_step ram_env) s0 demo_session; h = real_shots ram_env s0 demo_session in
     ct_shotStore s = saved_history ram_env ram_store h
   \<and> (ct_countStore s, ct_shotCounter s) = (count_once ram_env ^^ length h) (None, sc_init)
   \<and> (ct_lastAcceptedSeq s = 0 \<longleftrightarrow> h = [])"
proof -
  have b: "bracketed False demo_session" and n: "length demo_session < 2 ^ 32" by (simp_all add: demo_session_def)
  show ?thesis
    using real_shots_become_history [OF b n, of sc_init None ram_store
        "rr_empty EXTRACTION_CAP (finish_stat default_extraction False)" ram_env]
    by (simp only: Let_def simp_thms)
qed

section \<open>The shot on display\<close>

lemma load_display:
  "ct_displayShotSeq (fst (processPendingLoad env m s)) = ct_displayShotSeq s
     \<and> effectiveLastShotSelection (fst (processPendingLoad env m s)) = effectiveLastShotSelection s
   \<or> ct_displayShotSeq (fst (processPendingLoad env m s)) = ct_displayShotSeq s + 1"
  by (auto simp: processPendingLoad_def clearLoadedShot_def effectiveLastShotSelection_def Let_def split: option.split)

lemma settle_display:
  "settle_finish s = (s', outcome) \<Longrightarrow>
     ct_displayShotSeq s' = ct_displayShotSeq s \<and> effectiveLastShotSelection s' = effectiveLastShotSelection s
   \<or> ct_displayShotSeq s' = ct_displayShotSeq s + 1"
  by (auto simp: settle_finish_def observeFinishedExtraction_def clearLoadedShot_def effectiveLastShotSelection_def Let_def
      split: if_splits)

lemma tail_display [simp]:
  "ct_displayShotSeq (persistAcceptedShot env m s) = ct_displayShotSeq s"
  "effectiveLastShotSelection (persistAcceptedShot env m s) = effectiveLastShotSelection s"
  "ct_displayShotSeq (count_shot env s) = ct_displayShotSeq s"
  "effectiveLastShotSelection (count_shot env s) = effectiveLastShotSelection s"
  by (simp_all add: persistAcceptedShot_def count_shot_def wake_def effectiveLastShotSelection_def Let_def split: prod.split)

lemma tick_display:
  "ct_displayShotSeq (fst (ct_tick env i s)) = ct_displayShotSeq s
     \<and> effectiveLastShotSelection (fst (ct_tick env i s)) = effectiveLastShotSelection s
   \<or> ct_displayShotSeq (fst (ct_tick env i s)) \<in> {ct_displayShotSeq s + 1, ct_displayShotSeq s + 2}"
proof -
  obtain s2 s3 outcome s4 w where
    s2: "s2 = (fst (processPendingLoad env (ti_allocOk i) s))\<lparr>ct_statusPumpSignalState := po_state (ti_pump i), ct_recorder := updated i s\<rparr>"
    and s3: "settle_finish s2 = (s3, outcome)" and s4: "s4 = runTargetAlert (ti_nowMs i) s3"
    and fin: "fst (ct_tick env i s) = persistAcceptedShot env (ti_mounted i)
       (let q = s4\<lparr>ct_statusScale := ti_scale i, ct_statusNowMs := ti_nowMs i, ct_replaying := False, ct_liveSeq := w\<rparr>
        in if outcome = Accepted then count_shot env q else q)"
    by (rule tick_parts)
  obtain r ta b where a: "runTargetAlert (ti_nowMs i) s3 = s3\<lparr>ct_recorder := r, ct_targetAlert := ta, ct_alertShotBeginMs := b\<rparr>"
    using runTargetAlert_frame [of "ti_nowMs i" s3] by metis
  define q where "q = s4\<lparr>ct_statusScale := ti_scale i, ct_statusNowMs := ti_nowMs i, ct_replaying := False, ct_liveSeq := w\<rparr>"
  have q: "ct_displayShotSeq q = ct_displayShotSeq s3" "effectiveLastShotSelection q = effectiveLastShotSelection s3"
    by (simp_all add: q_def s4 a effectiveLastShotSelection_def)
  have "ct_displayShotSeq (fst (ct_tick env i s)) = ct_displayShotSeq s3"
    "effectiveLastShotSelection (fst (ct_tick env i s)) = effectiveLastShotSelection s3"
    unfolding fin q_def [symmetric] Let_def by (simp_all add: q)
  moreover have "ct_displayShotSeq s2 = ct_displayShotSeq (fst (processPendingLoad env (ti_allocOk i) s))"
    "effectiveLastShotSelection s2 = effectiveLastShotSelection (fst (processPendingLoad env (ti_allocOk i) s))"
    by (simp_all add: s2 effectiveLastShotSelection_def)
  ultimately show ?thesis
    using load_display [of env "ti_allocOk i" s] settle_display [OF s3] by (auto simp: add.assoc)
qed

text \<open>C33: no operation changes the shot on display, or its flow statistics, without advancing the counter
  the stream watches to know that it has to send it again.\<close>

theorem display_changes_signalled:
  assumes "ct_displayShotSeq (ctl_apply env s a) = ct_displayShotSeq s"
  shows "effectiveLastShotSelection (ctl_apply env s a) = effectiveLastShotSelection s"
proof -
  have two: "x + 2 \<noteq> x" "x + 1 \<noteq> x" for x :: u32 by simp_all
  show ?thesis
  proof (cases a)
    case (Tick i)
    then show ?thesis using tick_display [of env i s] assms two [of "ct_displayShotSeq s"] by auto
  next
    case (ReplayTick nowMs pumpOn snap)
    obtain r ta b where "runTargetAlert nowMs (s\<lparr>ct_statusPumpSignalState := Recorder.PumpOff,
          ct_recorder := rc_update nowMs (replay_pump pumpOn) snap 0 (ct_recorder s)\<rparr>)
        = (s\<lparr>ct_statusPumpSignalState := Recorder.PumpOff,
          ct_recorder := rc_update nowMs (replay_pump pumpOn) snap 0 (ct_recorder s)\<rparr>)
          \<lparr>ct_recorder := r, ct_targetAlert := ta, ct_alertShotBeginMs := b\<rparr>"
      using runTargetAlert_frame by metis
    then show ?thesis by (simp add: ReplayTick replayTick_def Let_def wake_def effectiveLastShotSelection_def)
  qed (auto simp: beginSession_def deactivate_def resetInFlightAndNotify_def contextAction_def setTargetCoeffs_def
      handleSetLoaded_def requestLoadShot_def requestRestoreLastShotIfEmpty_def wake_def Let_def effectiveLastShotSelection_def
      split: option.split)
qed

lemma display_changes_signalled_witness:
  "effectiveLastShotSelection (ctl_apply ram_env (ct_init sc_init None ram_store (rr_empty EXTRACTION_CAP (finish_stat default_extraction False)))
       (SetLoaded (Some 1) True)) = None"
proof -
  define s where "s = ct_init sc_init (None :: u64 option) ram_store (rr_empty EXTRACTION_CAP (finish_stat default_extraction False))"
  have "ct_displayShotSeq (ctl_apply ram_env s (SetLoaded (Some 1) True)) = ct_displayShotSeq s"
    by (simp add: s_def handleSetLoaded_def requestLoadShot_def)
  from display_changes_signalled [OF this] show ?thesis
    by (simp add: s_def ct_init_def effectiveLastShotSelection_def)
qed

section \<open>What an update of the recorder does\<close>

definition scaled :: "u32 \<Rightarrow> pump_signal \<Rightarrow> scale_snapshot \<Rightarrow> recorder \<Rightarrow> recorder" where
  "scaled n p s r = (if is_live r then recordLiveTick s n r else r)\<lparr>rc_lastScalePresent := sn_present s, rc_lastPumpOn := isOn p\<rparr>"

lemma update_cases:
  obtains (stay) "rc_update n p s u r = scaled n p s r"
  | (start) "rc_phase (scaled n p s r) = phase_byte PHASE_IDLE" "rc_update n p s u r = enter_running n u (scaled n p s r)"
  | (pump_off) "rc_phase (scaled n p s r) = phase_byte PHASE_RUNNING" "rc_update n p s u r = enter_post_pump n p (scaled n p s r)"
  | (resume) "rc_phase (scaled n p s r) = phase_byte PHASE_POST_PUMP" "rc_update n p s u r = enter_running n 0 (scaled n p s r)"
  | (split) c where "rc_phase (scaled n p s r) = phase_byte PHASE_POST_PUMP"
      "rc_update n p s u r = enter_running n u (enter_idle (enter_done n c (scaled n p s r)))"
  | (finish) c where "rc_phase (scaled n p s r) = phase_byte PHASE_POST_PUMP" "rc_update n p s u r = enter_done n c (scaled n p s r)"
  | (again) "rc_phase (scaled n p s r) = phase_byte PHASE_DONE"
      "rc_update n p s u r = enter_running n u (enter_idle (scaled n p s r))"
proof -
  define r2 where "r2 = scaled n p s r"
  have u: "rc_update n p s u r =
     (if rc_phase r2 = phase_byte PHASE_IDLE then onIdle (isOn p \<and> \<not> rc_lastPumpOn (if is_live r then recordLiveTick s n r else r)) n u r2
      else if rc_phase r2 = phase_byte PHASE_RUNNING then onRunning (\<not> isOn p \<and> rc_lastPumpOn (if is_live r then recordLiveTick s n r else r)) n p r2
      else if rc_phase r2 = phase_byte PHASE_POST_PUMP then onPostPump (isOn p \<and> \<not> rc_lastPumpOn (if is_live r then recordLiveTick s n r else r)) n s u r2
      else if rc_phase r2 = phase_byte PHASE_DONE then onDone (isOn p \<and> \<not> rc_lastPumpOn (if is_live r then recordLiveTick s n r else r)) n u r2
      else r2)"
    unfolding rc_update_def Let_def r2_def scaled_def by (rule refl)
  consider (o) "rc_update n p s u r = r2"
    | (i) b where "rc_phase r2 = phase_byte PHASE_IDLE" "rc_update n p s u r = onIdle b n u r2"
    | (r) b where "rc_phase r2 = phase_byte PHASE_RUNNING" "rc_update n p s u r = onRunning b n p r2"
    | (pp) b where "rc_phase r2 = phase_byte PHASE_POST_PUMP" "rc_update n p s u r = onPostPump b n s u r2"
    | (d) b where "rc_phase r2 = phase_byte PHASE_DONE" "rc_update n p s u r = onDone b n u r2"
    using u by (auto split: if_splits)
  then show thesis
  proof cases
    case o
    then show ?thesis by (intro stay) (simp add: r2_def)
  next
    case i
    then show ?thesis using stay start by (cases b) (simp_all add: onIdle_def transitionTo_def r2_def)
  next
    case r
    then show ?thesis using stay pump_off by (cases b) (simp_all add: onRunning_def transitionTo_def r2_def)
  next
    case pp
    have "rc_update n p s u r = r2 \<or> rc_update n p s u r = enter_running n 0 r2
      \<or> (\<exists>c. rc_update n p s u r = enter_running n u (enter_idle (enter_done n c r2)))
      \<or> (\<exists>c. rc_update n p s u r = enter_done n c r2)"
      unfolding pp(2) by (auto simp: onPostPump_def resumeOrSplitShot_def finalizeIfShotEnded_def transitionTo_def pp(1) Let_def)
    then show ?thesis using stay resume split finish pp(1) by (auto simp: r2_def)
  next
    case d
    then show ?thesis using stay again by (cases b) (simp_all add: onDone_def transitionTo_def r2_def)
  qed
qed

lemma record_tick_phase [simp]: "rc_phase (recordLiveTick s n r) = rc_phase r"
  by (simp add: recordLiveTick_def Let_def record_sample_frame record_presence_def split: option.split) (simp add: rc_phase_def)

lemma scaled_frame [simp]:
  "rc_phase (scaled n p s r) = rc_phase r" "rc_finishedSeq (scaled n p s r) = rc_finishedSeq r"
  "rc_lastFinished (scaled n p s r) = rc_lastFinished r"
  by (simp_all add: scaled_def)

lemma enter_seq [simp]:
  "rc_finishedSeq (enter_running n u r) = rc_finishedSeq r" "rc_lastFinished (enter_running n u r) = rc_lastFinished r"
  "rc_finishedSeq (enter_idle r) = rc_finishedSeq r" "rc_lastFinished (enter_idle r) = rc_lastFinished r"
  "rc_finishedSeq (enter_post_pump n p r) = rc_finishedSeq r" "rc_lastFinished (enter_post_pump n p r) = rc_lastFinished r"
  by (simp_all add: enter_running_def enter_idle_def enter_post_pump_def Let_def)

lemma update_done:
  assumes "rc_phase (rc_update n p s u r) = phase_byte PHASE_DONE"
  shows "rc_phase r = phase_byte PHASE_DONE \<and> rc_current (rc_update n p s u r) = rc_current r
      \<and> rc_finishedSeq (rc_update n p s u r) = rc_finishedSeq r
    \<or> rc_finishedSeq (rc_update n p s u r) = rc_finishedSeq r + 1
      \<and> rc_lastFinished (rc_update n p s u r) = rc_current (rc_update n p s u r)"
proof (cases rule: update_cases [of n p s u r])
  case stay
  then have "rc_phase r = phase_byte PHASE_DONE" using assms by simp
  then show ?thesis by (simp add: stay scaled_def is_live_def)
qed (use assms in simp_all)

section \<open>A shot shown as done\<close>

definition done_inv :: "('f, 'n, 'c) controller \<Rightarrow> bool" where
  "done_inv s \<longleftrightarrow> (rc_phase (ct_recorder s) = phase_byte PHASE_DONE \<longrightarrow>
     rc_current (ct_recorder s) = ct_lastAcceptedShot s \<and> isLikelyRealShot (rc_current (ct_recorder s)) \<and> ct_lastAcceptedSeq s \<noteq> 0)"

lemma done_tick:
  assumes inv: "history_inv env store0 c0 n False h s" and n: "n + 1 < 2 ^ 32" and d: "done_inv s"
  shows "done_inv (ctl_apply env s (Tick i))"
proof -
  obtain s2 s3 outcome s4 w where p:
    "ct_recorder s2 = updated i s" "ct_lastObservedFinishedSeq s2 = ct_lastObservedFinishedSeq s"
    "ct_lastAcceptedShot s2 = ct_lastAcceptedShot s" "ct_lastAcceptedSeq s2 = ct_lastAcceptedSeq s"
    and s3: "settle_finish s2 = (s3, outcome)" and s4: "s4 = runTargetAlert (ti_nowMs i) s3"
    and fin: "fst (ct_tick env i s) = persistAcceptedShot env (ti_mounted i)
       (let q = s4\<lparr>ct_statusScale := ti_scale i, ct_statusNowMs := ti_nowMs i, ct_replaying := False, ct_liveSeq := w\<rparr>
        in if outcome = Accepted then count_shot env q else q)"
    by (rule tick_parts)
  note f = settle_finish_frame [OF s3, unfolded p]
  obtain r ta b where a: "runTargetAlert (ti_nowMs i) s3 = s3\<lparr>ct_recorder := r, ct_targetAlert := ta, ct_alertShotBeginMs := b\<rparr>"
    "rc_phase r = rc_phase (ct_recorder s3)" "rc_phase (ct_recorder s3) \<noteq> phase_byte PHASE_RUNNING \<Longrightarrow> r = ct_recorder s3"
    using runTargetAlert_frame [of "ti_nowMs i" s3] by metis
  have obs: "ct_lastObservedFinishedSeq s = rc_finishedSeq (ct_recorder s)" and fn: "unat (rc_finishedSeq (ct_recorder s)) \<le> n"
    using inv by (simp_all add: history_inv_def)
  have up: "rc_finishedSeq (ct_recorder s) + 1 \<noteq> 0"
  proof -
    have "unat (rc_finishedSeq (ct_recorder s) + 1) = unat (rc_finishedSeq (ct_recorder s)) + 1"
      using fn n by (subst unat_add_lem [THEN iffD1]) simp_all
    then show ?thesis by auto
  qed
  define q where "q = s4\<lparr>ct_statusScale := ti_scale i, ct_statusNowMs := ti_nowMs i, ct_replaying := False, ct_liveSeq := w\<rparr>"
  have "done_inv (ctl_apply env s (Tick i)) = done_inv s3"
  proof -
    have "ct_recorder q = r" "ct_lastAcceptedShot q = ct_lastAcceptedShot s3" "ct_lastAcceptedSeq q = ct_lastAcceptedSeq s3"
      by (simp_all add: q_def s4 a(1))
    moreover have "rc_phase (ct_recorder s3) = phase_byte PHASE_DONE \<Longrightarrow> r = ct_recorder s3" using a(3) by simp
    ultimately show ?thesis
      using a(2) fin unfolding q_def [symmetric] Let_def by (auto simp: done_inv_def persist_frame count_shot_frame)
  qed
  moreover have "done_inv s3"
    unfolding done_inv_def
  proof
    assume ph: "rc_phase (ct_recorder s3) = phase_byte PHASE_DONE"
    then have r3: "ct_recorder s3 = updated i s" and notRej: "outcome \<noteq> Rejected"
      using f(6) by (auto split: if_splits)
    consider (was) "rc_phase (ct_recorder s) = phase_byte PHASE_DONE" "rc_current (updated i s) = rc_current (ct_recorder s)"
        "rc_finishedSeq (updated i s) = rc_finishedSeq (ct_recorder s)"
      | (now) "rc_finishedSeq (updated i s) = rc_finishedSeq (ct_recorder s) + 1" "rc_lastFinished (updated i s) = rc_current (updated i s)"
      using update_done ph unfolding r3 updated_def by metis
    then show "rc_current (ct_recorder s3) = ct_lastAcceptedShot s3 \<and> isLikelyRealShot (rc_current (ct_recorder s3)) \<and> ct_lastAcceptedSeq s3 \<noteq> 0"
    proof cases
      case was
      then have "outcome = FinalNone" using f(5) obs by simp
      then show ?thesis using was d by (auto simp: r3 f(7,8) done_inv_def)
    next
      case now
      then have "rc_finishedSeq (updated i s) \<noteq> ct_lastObservedFinishedSeq s" using obs by simp
      then have "outcome = Accepted" "isLikelyRealShot (rc_lastFinished (updated i s))"
        using f(5) notRej by (auto split: if_splits)
      then show ?thesis using now up by (simp add: r3 f(7,8))
    qed
  qed
  ultimately show ?thesis by simp
qed

lemma done_idle: "rc_phase (ct_recorder s) \<noteq> phase_byte PHASE_DONE \<Longrightarrow> done_inv s"
  by (simp add: done_inv_def)

lemma done_step:
  assumes "history_inv env store0 c0 n rep h s" and "n + 1 < 2 ^ 32" and "bracketed rep [a]" and "\<not> rep \<longrightarrow> done_inv s"
    and "\<not> replay_after rep a"
  shows "done_inv (ctl_apply env s a)"
proof (cases a)
  case (Tick i)
  then show ?thesis using assms done_tick [of env store0 c0 n h s i] by simp
next
  case (SetLoaded arg mounted)
  have "\<exists>p. ctl_apply env s a = s\<lparr>ct_pendingLoadId := p\<rparr>"
    by (auto simp: SetLoaded handleSetLoaded_def requestLoadShot_def split: option.split intro: exI [of _ "ct_pendingLoadId s"])
  then show ?thesis using assms(4,5) by (auto simp: SetLoaded done_inv_def)
next
  case RestoreLast
  have "\<exists>p. ctl_apply env s a = s\<lparr>ct_pendingLoadId := p\<rparr>"
    by (auto simp: RestoreLast requestRestoreLastShotIfEmpty_def requestLoadShot_def Let_def intro: exI [of _ "ct_pendingLoadId s"])
  then show ?thesis using assms(4,5) by (auto simp: RestoreLast done_inv_def)
qed (use assms(4,5) in \<open>auto simp: done_inv_def beginSession_def deactivate_def resetInFlightAndNotify_def contextAction_def
    setTargetCoeffs_def wake_def Let_def\<close>)

lemma done_run:
  assumes "history_inv env store0 c0 n rep h s" and "n + length ops < 2 ^ 32" and "bracketed rep ops" and "\<not> rep \<longrightarrow> done_inv s"
    and "\<not> foldl replay_after rep ops"
  shows "done_inv (run (ctl_step env) s ops)"
  using assms
proof (induction ops arbitrary: n rep h s)
  case (Cons a ops)
  have b: "bracketed rep [a]" "bracketed (replay_after rep a) ops" using Cons.prems(3) by (cases a; simp)+
  have n: "n + 1 < 2 ^ 32" using Cons.prems(2) by simp
  show ?case
    using Cons.IH [OF history_step [OF Cons.prems(1) n b(1)] _ b(2)] done_step [OF Cons.prems(1) n b(1) Cons.prems(4)] Cons.prems(2,5)
    by auto
qed simp

text \<open>C6: outside a replay, a session rests in IDLE, in a shot, or in DONE with a real shot: the last
  accepted one, which is the last of the history. Flushes and refills never stay on the screen.\<close>

theorem done_is_last_accepted:
  assumes "bracketed False ops" and "length ops < 2 ^ 32" and "\<not> foldl replay_after False ops"
  shows "let s = run (ctl_step env) (ct_init counter cst store lg) ops; h = real_shots env (ct_init counter cst store lg) ops in
      rc_phase (ct_recorder s) = phase_byte PHASE_IDLE \<or> currentInPumpWindow s
    \<or> currentFinishedShotIsDisplayable s \<and> rc_current (ct_recorder s) = ct_lastAcceptedShot s
        \<and> h \<noteq> [] \<and> snd (last h) = rc_current (ct_recorder s)"
proof -
  define s where "s = run (ctl_step env) (ct_init counter cst store lg) ops"
  define h where "h = real_shots env (ct_init counter cst store lg) ops"
  have 0: "done_inv (ct_init counter cst store lg)" by (rule done_idle) (simp add: ct_init_def rc_init_def rc_phase_def default_extraction_def)
  have n: "0 + length ops < 2 ^ 32" using assms(2) by simp
  have d: "done_inv s" using done_run [OF history_init n assms(1) _ assms(3)] 0 by (simp add: s_def)
  have h: "history_inv env store (cst, counter) (0 + length ops) (foldl replay_after False ops) ([] @ h) s"
    unfolding s_def h_def by (rule history_run [OF history_init n assms(1)])
  then obtain ph where "rc_phase (ct_recorder s) = phase_byte ph" by (auto simp: history_inv_def recorder_shape_def)
  then show ?thesis
    using d h unfolding Let_def s_def [symmetric] h_def [symmetric]
    by (cases ph) (auto simp: done_inv_def history_inv_def currentFinishedShotIsDisplayable_def
        currentInPumpWindow_def in_pump_window_def)
qed

lemma done_is_last_accepted_witness:
  "let s0 = ct_init sc_init None ram_store (rr_empty EXTRACTION_CAP (finish_stat default_extraction False));
       s = run (ctl_step ram_env) s0 demo_session; h = real_shots ram_env s0 demo_session in
      rc_phase (ct_recorder s) = phase_byte PHASE_IDLE \<or> currentInPumpWindow s
    \<or> currentFinishedShotIsDisplayable s \<and> rc_current (ct_recorder s) = ct_lastAcceptedShot s
        \<and> h \<noteq> [] \<and> snd (last h) = rc_current (ct_recorder s)"
proof -
  have b: "bracketed False demo_session" "length demo_session < 2 ^ 32" "\<not> foldl replay_after False demo_session"
    by (simp_all add: demo_session_def)
  show ?thesis
    using done_is_last_accepted [OF b, of ram_env sc_init None ram_store
        "rr_empty EXTRACTION_CAP (finish_stat default_extraction False)"]
    by (simp add: Let_def)
qed

end
