(* ===== verification/ControllerAlarm.thy ===== *)
theory ControllerAlarm
  imports ControllerLaws
begin

text \<open>
  The alarm of a shot, from the predictor over the recorder to the record that is saved: at most one
  alarm event, explained by the target and the context stored with it.
\<close>

section \<open>Alarms\<close>

declare phase_byte.simps [simp del] and event_kind_byte.simps [simp del] and end_cause_byte.simps [simp del]

definition alarms :: "extraction \<Rightarrow> event list" where
  "alarms e = filter (\<lambda>ev. ev_kind ev = event_kind_byte EV_ALARM_TRIGGERED) (ex_events e)"

definition alarm_set :: "extraction \<Rightarrow> bool" where
  "alarm_set e \<longleftrightarrow> alarms e \<noteq> [] \<or> at_tMs (ex_alarm e) \<noteq> 0"

text \<open>The alarm follows from the target and the context stored in the record.\<close>

definition explained :: "extraction \<Rightarrow> bool" where
  "explained e \<longleftrightarrow> ex_hasTargetSnapshot e \<and> tc_armed (ex_target e) \<and> 0 < sint (tc_targetCg (ex_target e))
     \<and> sint (tc_targetCg (ex_target e)) \<le> sint (ac_projectedFinalCg (at_ctx (ex_alarm e)))
     \<and> sint (tc_targetCg (ex_target e)) \<le> sint (ac_yieldCg (at_ctx (ex_alarm e))) + 1000"

definition alarm_ok :: "extraction \<Rightarrow> bool" where
  "alarm_ok e \<longleftrightarrow> length (alarms e) \<le> 1 \<and> (alarm_set e \<longrightarrow> explained e)"

text \<open>Same shot, same alarm; the events may have been trimmed.\<close>

definition alarm_kept :: "extraction \<Rightarrow> extraction \<Rightarrow> bool" where
  "alarm_kept e e' \<longleftrightarrow> ex_beginMs e' = ex_beginMs e \<and> ex_alarm e' = ex_alarm e \<and> ex_target e' = ex_target e
     \<and> ex_hasTargetSnapshot e' = ex_hasTargetSnapshot e \<and> (\<exists>zs. alarms e = alarms e' @ zs)"

lemma alarm_kept_refl [simp]: "alarm_kept e e"
  by (simp add: alarm_kept_def)

lemma alarm_kept_trans: "alarm_kept a b \<Longrightarrow> alarm_kept b c \<Longrightarrow> alarm_kept a c"
  by (auto simp: alarm_kept_def)

lemma alarm_kept_ok: "alarm_kept e e' \<Longrightarrow> alarm_ok e \<Longrightarrow> alarm_ok e'"
  by (auto simp: alarm_kept_def alarm_ok_def alarm_set_def explained_def)

lemma alarm_kept_set: "alarm_kept e e' \<Longrightarrow> alarm_set e' \<Longrightarrow> alarm_set e"
  by (auto simp: alarm_kept_def alarm_set_def)

lemma kept_append:
  "k \<noteq> EV_ALARM_TRIGGERED \<Longrightarrow> alarm_kept e (appendEvent t k e)"
  "k \<noteq> EV_ALARM_TRIGGERED \<Longrightarrow> alarm_kept e (appendFinalizeEvent t k e)"
  "alarm_kept e (appendPumpOffConfirmedEvent t p e)" "alarm_kept e (appendSample t c m e)"
  by (simp_all add: alarm_kept_def alarms_def appendEvent_def appendFinalizeEvent_def appendPumpOffConfirmedEvent_def
      appendSample_def plain_event_def Let_def)

lemma kept_fields [simp]:
  "alarm_kept e (e'\<lparr>ex_phase := x\<rparr>) = alarm_kept e e'" "alarm_kept e (e'\<lparr>ex_startRawCg := c\<rparr>) = alarm_kept e e'"
  "alarm_kept e (e'\<lparr>ex_observedSampleCount := n\<rparr>) = alarm_kept e e'" "alarm_kept e (e'\<lparr>ex_stableMs := t\<rparr>) = alarm_kept e e'"
  "alarm_kept e (e'\<lparr>ex_totalPumpOnMs := t\<rparr>) = alarm_kept e e'" "alarm_kept e (e'\<lparr>ex_lastPumpOffConfirmedMs := t\<rparr>) = alarm_kept e e'"
  by (simp_all add: alarm_kept_def alarms_def)

lemma kept_settle [simp]:
  "alarm_kept e (settle_evidence c e') = alarm_kept e e'" "alarm_kept e (settle_yield e') = alarm_kept e e'"
  by (simp_all add: alarm_kept_def alarms_def settle_evidence_def settle_yield_def Let_def)

lemma kept_close: "alarm_kept e (close_record n c e)"
proof -
  define evs where "evs = trim_events (if c = END_TIMEOUT \<and> \<not> hasSampleData e then ex_lastPumpOffConfirmedMs e else n) (ex_events e)"
  obtain zs where "ex_events e = evs @ zs" using trim_events_prefix unfolding evs_def by blast
  then have "alarm_kept e (e\<lparr>ex_events := evs, ex_endMs := x, ex_endCause := y\<rparr>)" for x y
    by (simp add: alarm_kept_def alarms_def)
  from alarm_kept_trans [OF this kept_append(2) [of EV_END]] show ?thesis
    by (simp add: close_record_def Let_def evs_def)
qed

lemma kept_enter:
  "alarm_kept (rc_current r) (rc_current (enter_done n c r))" "alarm_kept (rc_current r) (rc_current (enter_post_pump n p r))"
  "rc_phase r \<noteq> phase_byte PHASE_IDLE \<Longrightarrow> alarm_kept (rc_current r) (rc_current (enter_running n u r))"
proof -
  define e1 where "e1 = (if c = END_STABLE then (appendFinalizeEvent n EV_STABLE_DETECTED (rc_current r))\<lparr>ex_stableMs := n\<rparr> else rc_current r)"
  have "alarm_kept (rc_current r) e1" using kept_append(2) [of EV_STABLE_DETECTED] by (simp add: e1_def)
  then have "alarm_kept (rc_current r) (settle_yield (settle_evidence (rc_lastRawCg r) e1))" by simp
  from alarm_kept_trans [OF this kept_close] show "alarm_kept (rc_current r) (rc_current (enter_done n c r))"
    by (simp add: enter_done_def Let_def e1_def)
  show "alarm_kept (rc_current r) (rc_current (enter_post_pump n p r))"
  proof -
    have "alarm_kept (rc_current r) ((rc_current r)\<lparr>ex_totalPumpOnMs := x, ex_lastPumpOffConfirmedMs := y\<rparr>)" for x y by simp
    from alarm_kept_trans [OF this kept_append(3)] show ?thesis by (simp add: enter_post_pump_def Let_def)
  qed
  show "alarm_kept (rc_current r) (rc_current (enter_running n u r))" if "rc_phase r \<noteq> phase_byte PHASE_IDLE"
    using kept_append(1) [of EV_PUMP_ON] that by (simp add: enter_running_def Let_def rc_phase_def)
qed

lemma kept_scaled: "alarm_kept (rc_current r) (rc_current (scaled n p s r))"
proof -
  have pr: "alarm_kept (rc_current r) (rc_current (record_presence s n r))"
    using kept_append(1) by (simp add: record_presence_def)
  have sm: "alarm_kept (rc_current q) (rc_current (record_sample t c m n q))" for q t c m
  proof -
    have "alarm_kept (rc_current q) (if b then (rc_current q)\<lparr>ex_startRawCg := x\<rparr> else rc_current q)" for b x by simp
    from alarm_kept_trans [OF this kept_append(4)] show ?thesis by (simp add: record_sample_def Let_def)
  qed
  have "alarm_kept (rc_current r) (rc_current (recordLiveTick s n r))"
    using pr alarm_kept_trans [OF pr sm [of "(record_presence s n r)\<lparr>rc_lastScaleTimestampMs := x\<rparr>" for x, simplified]]
    by (simp add: recordLiveTick_def Let_def split: option.split)
  then show ?thesis by (simp add: scaled_def)
qed

definition fresh :: "u32 \<Rightarrow> extraction \<Rightarrow> bool" where
  "fresh n e \<longleftrightarrow> ex_beginMs e = n \<and> \<not> alarm_set e"

lemma fresh_running: "rc_phase r = phase_byte PHASE_IDLE \<Longrightarrow> \<not> alarm_set (rc_current r) \<Longrightarrow> fresh n (rc_current (enter_running n u r))"
proof -
  assume "rc_phase r = phase_byte PHASE_IDLE" "\<not> alarm_set (rc_current r)"
  then show ?thesis
    using kept_append(1) [of EV_BEGIN "(rc_current r)\<lparr>ex_beginMs := n, ex_startUtcSec := u\<rparr>" n]
      kept_append(1) [of EV_PUMP_ON "appendEvent n EV_BEGIN ((rc_current r)\<lparr>ex_beginMs := n, ex_startUtcSec := u\<rparr>)" n]
    by (simp add: enter_running_def Let_def rc_phase_def fresh_def alarm_set_def alarm_kept_def alarms_def)
qed

lemma idle_no_alarm: "\<not> alarm_set (rc_current (enter_idle r))"
  by (simp add: enter_idle_def alarm_set_def alarms_def default_extraction_def default_alarm_def)

text \<open>In IDLE nothing is recorded; a live record is the one before or a fresh one.\<close>

definition idle_clean :: "recorder \<Rightarrow> bool" where
  "idle_clean r \<longleftrightarrow> (rc_phase r = phase_byte PHASE_IDLE \<longrightarrow> \<not> alarm_set (rc_current r))"

lemma update_alarms:
  assumes "idle_clean r" and r'_def: "r' = rc_update n p s u r"
  shows "idle_clean r'"
    and "is_live r' \<Longrightarrow> is_live r \<and> alarm_kept (rc_current r) (rc_current r') \<or> fresh n (rc_current r') \<and> rc_phase r' = phase_byte PHASE_RUNNING"
    and "rc_finishedSeq r' \<noteq> rc_finishedSeq r \<Longrightarrow> is_live r \<and> alarm_kept (rc_current r) (rc_lastFinished r')"
proof -
  note k = kept_scaled [of r n p s]
  have i: "idle_clean (scaled n p s r)"
    using assms(1) alarm_kept_set [OF k] by (auto simp: idle_clean_def)
  have live: "is_live q \<longleftrightarrow> rc_phase q = phase_byte PHASE_RUNNING \<or> rc_phase q = phase_byte PHASE_POST_PUMP" for q by (simp add: is_live_def)
  have "idle_clean r' \<and> (is_live r' \<longrightarrow> is_live r \<and> alarm_kept (rc_current r) (rc_current r')
        \<or> fresh n (rc_current r') \<and> rc_phase r' = phase_byte PHASE_RUNNING)
      \<and> (rc_finishedSeq r' \<noteq> rc_finishedSeq r \<longrightarrow> is_live r \<and> alarm_kept (rc_current r) (rc_lastFinished r'))"
  proof (cases rule: update_cases [of n p s u r])
    case stay
    then show ?thesis using i k by (simp add: r'_def live)
  next
    case start
    then show ?thesis using i fresh_running [of "scaled n p s r" n u] by (simp add: r'_def live idle_clean_def)
  next
    case pump_off
    then show ?thesis using alarm_kept_trans [OF k kept_enter(2)] by (simp add: r'_def live idle_clean_def)
  next
    case resume
    then show ?thesis using alarm_kept_trans [OF k kept_enter(3)] by (simp add: r'_def live idle_clean_def)
  next
    case (split c)
    then show ?thesis
      using alarm_kept_trans [OF k kept_enter(1) [of "scaled n p s r" n c]]
        fresh_running [OF _ idle_no_alarm, of "enter_done n c (scaled n p s r)" n u]
      by (simp add: r'_def live idle_clean_def)
  next
    case (finish c)
    then show ?thesis
      using alarm_kept_trans [OF k kept_enter(1) [of "scaled n p s r" n c]] by (simp add: r'_def live idle_clean_def)
  next
    case again
    then show ?thesis using fresh_running [OF _ idle_no_alarm, of "scaled n p s r" n u] by (simp add: r'_def live idle_clean_def)
  qed
  then show "idle_clean r'"
    "is_live r' \<Longrightarrow> is_live r \<and> alarm_kept (rc_current r) (rc_current r') \<or> fresh n (rc_current r') \<and> rc_phase r' = phase_byte PHASE_RUNNING"
    "rc_finishedSeq r' \<noteq> rc_finishedSeq r \<Longrightarrow> is_live r \<and> alarm_kept (rc_current r) (rc_lastFinished r')"
    by simp_all
qed

section \<open>The alert and the record\<close>

text \<open>While a shot is live its record carries the coefficients the alert runs on, and an alarm only once
  the alert has fired.\<close>

definition tracked :: "extraction \<Rightarrow> target_alert \<Rightarrow> bool" where
  "tracked e ta \<longleftrightarrow> alarm_ok e \<and> ex_hasTargetSnapshot e \<and> ex_target e = ta_coeffs ta \<and> (alarm_set e \<longrightarrow> ta_stopNowFired ta)"

lemma tracked_kept: "tracked e ta \<Longrightarrow> alarm_kept e e' \<Longrightarrow> tracked e' ta"
  using alarm_kept_ok [of e e'] alarm_kept_set [of e e'] by (auto simp: tracked_def) (auto simp: alarm_kept_def)

lemma tracked_update:
  assumes "tracked (rc_current r) ta" and ta'_def: "ta' = ta_update n (rc_phase r = phase_byte PHASE_RUNNING) ts ta"
  shows "tracked (rc_current (if as_stopNowEdge (ta_state ta') then triggerAlarm \<lparr>at_tMs = n, at_ctx = snapshotAtStop ta'\<rparr> r else r)) ta'"
proof -
  have c: "ta_coeffs ta' = ta_coeffs ta" and m: "ta_stopNowFired ta \<Longrightarrow> ta_stopNowFired ta'"
    and e: "as_stopNowEdge (ta_state ta') \<longleftrightarrow> \<not> ta_stopNowFired ta \<and> ta_stopNowFired ta'"
    by (simp_all add: ta'_def ta_update_state)
  show ?thesis
  proof (cases "as_stopNowEdge (ta_state ta')")
    case False
    then show ?thesis using assms(1) c m by (auto simp: tracked_def)
  next
    case True
    then have f: "\<not> ta_stopNowFired ta" "ta_stopNowFired ta'" using e by simp_all
    note fires = ta_fires [OF f(1) f(2) [unfolded ta'_def], folded ta'_def]
    define cur where "cur = rc_current r"
    have no: "alarms cur = []" "at_tMs (ex_alarm cur) = 0" "ex_hasTargetSnapshot cur" "ex_target cur = ta_coeffs ta"
      using assms(1) f(1) by (auto simp: tracked_def alarm_set_def cur_def)
    define a where "a = \<lparr>at_tMs = n, at_ctx = snapshotAtStop ta'\<rparr>"
    have x: "explained (appendEvent n EV_ALARM_TRIGGERED (cur\<lparr>ex_alarm := a\<rparr>))"
      using fires no by (simp add: explained_def a_def snapshotAtStop_def appendEvent_def)
    have "triggerAlarm a r = r\<lparr>rc_current := appendEvent n EV_ALARM_TRIGGERED (cur\<lparr>ex_alarm := a\<rparr>)\<rparr>"
      using fires no(2) by (simp add: triggerAlarm_def cur_def [symmetric] a_def)
    moreover have "tracked (appendEvent n EV_ALARM_TRIGGERED (cur\<lparr>ex_alarm := a\<rparr>)) ta'"
      using x no c f(2)
      by (auto simp: tracked_def alarm_ok_def alarms_def appendEvent_def)
    ultimately show ?thesis using True by (simp add: a_def)
  qed
qed

definition alert_inv :: "u32 \<Rightarrow> ('f, 'n, 'c) controller \<Rightarrow> bool" where
  "alert_inv t s \<longleftrightarrow> idle_clean (ct_recorder s) \<and> ct_alertShotBeginMs s \<le> t
     \<and> (is_live (ct_recorder s) \<longrightarrow> tracked (rc_current (ct_recorder s)) (ct_targetAlert s)
          \<and> ex_beginMs (rc_current (ct_recorder s)) = ct_alertShotBeginMs s)"

lemma alert_inv_rta:
  assumes "idle_clean (ct_recorder s)" and "ct_alertShotBeginMs s < n"
    and "is_live (ct_recorder s) \<Longrightarrow> tracked (rc_current (ct_recorder s)) (ct_targetAlert s)
          \<and> ex_beginMs (rc_current (ct_recorder s)) = ct_alertShotBeginMs s
        \<or> fresh n (rc_current (ct_recorder s)) \<and> rc_phase (ct_recorder s) = phase_byte PHASE_RUNNING"
  shows "alert_inv n (runTargetAlert n s)"
proof -
  define r where "r = ct_recorder s"
  define running where "running \<longleftrightarrow> rc_phase r = phase_byte PHASE_RUNNING"
  define new where "new \<longleftrightarrow> running \<and> ex_beginMs (rc_current r) \<noteq> ct_alertShotBeginMs s"
  define ta0 where "ta0 = (if new then setCoeffs (ct_targetCoeffs s) (onRunningEntry (ct_targetAlert s)) else ct_targetAlert s)"
  define r0 where "r0 = (if new then setTargetSnapshot (ta_coeffs ta0) r else r)"
  define ta where "ta = ta_update n running (lastTrustedYieldSample r) ta0"
  define r1 where "r1 = (if as_stopNowEdge (ta_state ta) then triggerAlarm \<lparr>at_tMs = n, at_ctx = snapshotAtStop ta\<rparr> r0 else r0)"
  have eq: "ct_recorder (runTargetAlert n s) = r1" "ct_targetAlert (runTargetAlert n s) = ta"
    "ct_alertShotBeginMs (runTargetAlert n s) = (if new then ex_beginMs (rc_current r) else ct_alertShotBeginMs s)"
    by (simp_all add: runTargetAlert_def Let_def r1_def ta_def r0_def ta0_def new_def running_def r_def rc_phase_def)
  have ph: "rc_phase r1 = rc_phase r" "rc_phase r0 = rc_phase r" by (simp_all add: r1_def r0_def)
  have begins: "ex_beginMs (rc_current r1) = ex_beginMs (rc_current r)"
    by (simp add: r1_def r0_def triggerAlarm_def setTargetSnapshot_def)
  show ?thesis
  proof (cases "is_live r")
    case False
    then have "\<not> running" "\<not> new" by (auto simp: is_live_def running_def new_def)
    moreover have "r1 = r" using False \<open>\<not> new\<close> by (auto simp: r1_def r0_def triggerAlarm_def is_live_def)
    ultimately show ?thesis using False assms(1,2) by (simp add: alert_inv_def eq r_def)
  next
    case True
    have live1: "is_live r1" and notIdle: "rc_phase r1 \<noteq> phase_byte PHASE_IDLE" using True ph by (auto simp: is_live_def)
    consider (old) "tracked (rc_current r) (ct_targetAlert s)" "ex_beginMs (rc_current r) = ct_alertShotBeginMs s"
      | (fresh) "fresh n (rc_current r)" "running"
      using assms(3) True by (auto simp: r_def running_def)
    then show ?thesis
    proof cases
      case old
      then have n0: "\<not> new" by (simp add: new_def)
      then have e: "ta = ta_update n (rc_phase r = phase_byte PHASE_RUNNING) (lastTrustedYieldSample r) (ct_targetAlert s)"
        and r1: "r1 = (if as_stopNowEdge (ta_state ta) then triggerAlarm \<lparr>at_tMs = n, at_ctx = snapshotAtStop ta\<rparr> r else r)"
        by (simp_all add: ta_def ta0_def running_def r1_def r0_def)
      have "tracked (rc_current r1) ta" unfolding r1 by (rule tracked_update [OF old(1) e])
      with n0 show ?thesis using old(2) assms(2) begins notIdle by (simp add: alert_inv_def eq idle_clean_def)
    next
      case fresh
      then have bn: "ex_beginMs (rc_current r) = n" by (simp add: fresh_def)
      then have nw: "new" using assms(2) fresh(2) by (auto simp: new_def)
      have "tracked (rc_current r0) ta0"
        using fresh(1) True nw
        by (simp add: r0_def setTargetSnapshot_def tracked_def alarm_ok_def alarm_set_def fresh_def alarms_def)
      moreover have "ta = ta_update n (rc_phase r0 = phase_byte PHASE_RUNNING) (lastTrustedYieldSample r) ta0"
        by (simp add: ta_def running_def ph(2))
      ultimately have "tracked (rc_current r1) ta" unfolding r1_def by (rule tracked_update)
      then show ?thesis using bn nw begins notIdle by (simp add: alert_inv_def eq idle_clean_def)
    qed
  qed
qed

section \<open>Along a session\<close>

lemma clear_clean: "idle_clean r \<Longrightarrow> idle_clean (rc_clear r) \<and> \<not> is_live (rc_clear r)"
  using idle_no_alarm [of r] by (auto simp: rc_clear_def transitionTo_def idle_clean_def is_live_def)

lemma clear_clean_any:
  assumes "rc_phase r \<noteq> phase_byte PHASE_IDLE"
  shows "idle_clean (rc_clear r)"
  using idle_no_alarm [of r] assms by (auto simp: rc_clear_def transitionTo_def idle_clean_def)

lemma alert_inv_mono: "alert_inv t s \<Longrightarrow> t \<le> t' \<Longrightarrow> alert_inv t' s"
  by (auto simp: alert_inv_def)

lemma alert_tick:
  assumes "alert_inv t s" and "t < ti_nowMs i"
  shows "alert_inv (ti_nowMs i) (ctl_apply env s (Tick i))"
    and "rc_finishedSeq (updated i s) \<noteq> rc_finishedSeq (ct_recorder s) \<Longrightarrow> alarm_ok (rc_lastFinished (updated i s))"
proof -
  obtain s2 s3 outcome s4 w where p: "ct_recorder s2 = updated i s" "ct_targetAlert s2 = ct_targetAlert s"
    "ct_alertShotBeginMs s2 = ct_alertShotBeginMs s"
    and s3: "settle_finish s2 = (s3, outcome)" and s4: "s4 = runTargetAlert (ti_nowMs i) s3"
    and fin: "fst (ct_tick env i s) = persistAcceptedShot env (ti_mounted i)
       (let q = s4\<lparr>ct_statusScale := ti_scale i, ct_statusNowMs := ti_nowMs i, ct_replaying := False, ct_liveSeq := w\<rparr>
        in if outcome = Accepted then count_shot env q else q)"
    by (rule tick_parts)
  note f = settle_finish_frame [OF s3, unfolded p]
  have ic: "idle_clean (ct_recorder s)" and tr: "is_live (ct_recorder s) \<Longrightarrow> tracked (rc_current (ct_recorder s)) (ct_targetAlert s)
          \<and> ex_beginMs (rc_current (ct_recorder s)) = ct_alertShotBeginMs s"
    and b: "ct_alertShotBeginMs s < ti_nowMs i"
    using assms by (auto simp: alert_inv_def)
  note u = update_alarms [OF ic, of "updated i s" "ti_nowMs i" "ti_pump i" "ti_scale i" "ti_utcSec i"]
  have u1: "idle_clean (updated i s)" using u(1) by (simp add: updated_def)
  have u2: "tracked (rc_current (updated i s)) (ct_targetAlert s) \<and> ex_beginMs (rc_current (updated i s)) = ct_alertShotBeginMs s
      \<or> fresh (ti_nowMs i) (rc_current (updated i s)) \<and> rc_phase (updated i s) = phase_byte PHASE_RUNNING" if "is_live (updated i s)"
    using u(2) that tr tracked_kept by (auto simp: updated_def alarm_kept_def)
  show "alarm_ok (rc_lastFinished (updated i s))" if "rc_finishedSeq (updated i s) \<noteq> rc_finishedSeq (ct_recorder s)"
    using u(3) that tr alarm_kept_ok by (auto simp: updated_def tracked_def)
  have "alert_inv (ti_nowMs i) (runTargetAlert (ti_nowMs i) s3)"
  proof (rule alert_inv_rta)
    show "idle_clean (ct_recorder s3)" using f(6) u1 clear_clean [OF u1] by simp
    show "ct_alertShotBeginMs s3 < ti_nowMs i" using b f(15) by simp
    assume "is_live (ct_recorder s3)"
    then have "ct_recorder s3 = updated i s" using f(6) clear_clean [OF u1] by (auto split: if_splits)
    then show "tracked (rc_current (ct_recorder s3)) (ct_targetAlert s3) \<and> ex_beginMs (rc_current (ct_recorder s3)) = ct_alertShotBeginMs s3
      \<or> fresh (ti_nowMs i) (rc_current (ct_recorder s3)) \<and> rc_phase (ct_recorder s3) = phase_byte PHASE_RUNNING"
      using u2 \<open>is_live (ct_recorder s3)\<close> f(14,15) by simp
  qed
  then show "alert_inv (ti_nowMs i) (ctl_apply env s (Tick i))"
    using fin by (auto simp: alert_inv_def Let_def s4 persist_frame count_shot_frame)
qed

text \<open>The live ticks come in the order of the clock, which has started.\<close>

fun live_times :: "u32 \<Rightarrow> ctl_op list \<Rightarrow> bool" where
  "live_times t [] = True"
| "live_times t (Tick i # ops) = (t < ti_nowMs i \<and> live_times (ti_nowMs i) ops)"
| "live_times t (_ # ops) = live_times t ops"

lemma alert_reset: "rc_phase (ct_recorder s) \<noteq> phase_byte PHASE_IDLE \<or> idle_clean (ct_recorder s) \<Longrightarrow> alert_inv t (resetInFlightAndNotify s)"
  using clear_clean [of "ct_recorder s"] clear_clean_any [of "ct_recorder s"]
  by (auto simp: alert_inv_def resetInFlightAndNotify_def wake_def Let_def is_live_def)

lemma alert_replay:
  assumes "idle_clean (ct_recorder s)"
  shows "idle_clean (ct_recorder (ctl_apply env s (ReplayTick n on sn)))"
proof -
  define s1 where "s1 = s\<lparr>ct_statusPumpSignalState := Recorder.PumpOff, ct_recorder := rc_update n (replay_pump on) sn 0 (ct_recorder s)\<rparr>"
  obtain r ta b where a: "runTargetAlert n s1 = s1\<lparr>ct_recorder := r, ct_targetAlert := ta, ct_alertShotBeginMs := b\<rparr>"
    "rc_phase r = rc_phase (ct_recorder s1)" "rc_phase (ct_recorder s1) \<noteq> phase_byte PHASE_RUNNING \<Longrightarrow> r = ct_recorder s1"
    using runTargetAlert_frame [of n s1] by metis
  have c: "idle_clean (ct_recorder s1)" using update_alarms(1) [OF assms refl] by (simp add: s1_def)
  have "ct_recorder (ctl_apply env s (ReplayTick n on sn)) = r"
    by (simp add: replayTick_def Let_def s1_def [symmetric] a(1) wake_def)
  moreover have "idle_clean r"
    using c a(2,3) by (cases "rc_phase (ct_recorder s1) = phase_byte PHASE_RUNNING") (auto simp: idle_clean_def)
  ultimately show ?thesis by simp
qed

definition session_inv :: "bool \<Rightarrow> u32 \<Rightarrow> ('f, 'n, 'c) controller \<Rightarrow> bool" where
  "session_inv rep t s \<longleftrightarrow> (if rep then idle_clean (ct_recorder s) else alert_inv t s)"

lemma session_clean: "session_inv rep t s \<Longrightarrow> idle_clean (ct_recorder s)"
  by (auto simp: session_inv_def alert_inv_def split: if_splits)

lemma session_step:
  assumes "session_inv rep t s" and "bracketed rep [a]" and "live_times t [a]"
  shows "session_inv (replay_after rep a) (case a of Tick i \<Rightarrow> ti_nowMs i | _ \<Rightarrow> t) (ctl_apply env s a)"
    and "\<forall>me \<in> set (published s a). alarm_ok (snd me)"
proof -
  note c = session_clean [OF assms(1)]
  show "session_inv (replay_after rep a) (case a of Tick i \<Rightarrow> ti_nowMs i | _ \<Rightarrow> t) (ctl_apply env s a)"
  proof (cases a)
    case (Tick i)
    then show ?thesis using assms alert_tick(1) [of t s i env] by (simp add: session_inv_def)
  next
    case ResetInFlight
    then show ?thesis using alert_reset [of s t] c by (simp add: session_inv_def)
  next
    case (ReplayTick n on sn)
    then show ?thesis using alert_replay [OF c, of env n on sn] by (simp add: session_inv_def)
  next
    case (SetLoaded arg mounted)
    have "\<exists>p. ctl_apply env s a = s\<lparr>ct_pendingLoadId := p\<rparr>"
      by (auto simp: SetLoaded handleSetLoaded_def requestLoadShot_def split: option.split intro: exI [of _ "ct_pendingLoadId s"])
    then show ?thesis using assms(1) by (auto simp: SetLoaded session_inv_def alert_inv_def split: if_splits)
  next
    case RestoreLast
    have "\<exists>p. ctl_apply env s a = s\<lparr>ct_pendingLoadId := p\<rparr>"
      by (auto simp: RestoreLast requestRestoreLastShotIfEmpty_def requestLoadShot_def Let_def intro: exI [of _ "ct_pendingLoadId s"])
    then show ?thesis using assms(1) by (auto simp: RestoreLast session_inv_def alert_inv_def split: if_splits)
  qed (use assms(1) clear_clean [OF c] in \<open>auto simp: session_inv_def alert_inv_def beginSession_def deactivate_def contextAction_def
      setTargetCoeffs_def wake_def Let_def split: if_splits\<close>)
  show "\<forall>me \<in> set (published s a). alarm_ok (snd me)"
    using assms alert_tick(2) by (cases a) (auto simp: session_inv_def)
qed

lemma session_run:
  assumes "session_inv rep t s" and "bracketed rep ops" and "live_times t ops"
  shows "\<forall>me \<in> set (real_shots env s ops). alarm_ok (snd me)"
  using assms
proof (induction ops arbitrary: rep t s)
  case (Cons a ops)
  have b: "bracketed rep [a]" "bracketed (replay_after rep a) ops" using Cons.prems(2) by (cases a; simp)+
  have l: "live_times t [a]" "live_times (case a of Tick i \<Rightarrow> ti_nowMs i | _ \<Rightarrow> t) ops" using Cons.prems(3) by (cases a; simp)+
  note st = session_step [OF Cons.prems(1) b(1) l(1)]
  show ?case using Cons.IH [OF st(1) b(2) l(2)] st(2) by auto
qed simp



end
