(* ===== verification/Hex.thy ===== *)
theory Hex
  imports Prelude "HOL-Library.Char_ord"
begin

unbundle bit_operations_syntax

text \<open>
  \<open>src/src/util/hex.h\<close>: the lower-case hexadecimal text of a byte buffer, and the parser that also
  takes upper-case digits. Session tickets and pairing secrets travel in this form.
\<close>

definition kHex :: string where
  "kHex = ''0123456789abcdef''"

fun hexOf :: "u8 list \<Rightarrow> string" where
  "hexOf [] = []"
| "hexOf (b # bs) = kHex ! unat (drop_bit 4 b AND 0xf) # kHex ! unat (b AND 0xf) # hexOf bs"

text \<open>The lambda of \<open>hexToBytes\<close>; \<open>None\<close> is its \<open>-1\<close>.\<close>

definition hex_digit :: "char \<Rightarrow> nat option" where
  "hex_digit c =
     (if CHR ''0'' \<le> c \<and> c \<le> CHR ''9'' then Some (of_char c - of_char (CHR ''0''))
      else if CHR ''a'' \<le> c \<and> c \<le> CHR ''f'' then Some (of_char c - of_char (CHR ''a'') + 10)
      else if CHR ''A'' \<le> c \<and> c \<le> CHR ''F'' then Some (of_char c - of_char (CHR ''A'') + 10)
      else None)"

fun hex_pairs :: "string \<Rightarrow> u8 list option" where
  "hex_pairs (h # l # cs) =
     (case (hex_digit h, hex_digit l) of
        (Some hi, Some lo) \<Rightarrow> map_option ((#) (push_bit 4 (of_nat hi) OR of_nat lo)) (hex_pairs cs)
      | _ \<Rightarrow> None)"
| "hex_pairs _ = Some []"

definition hexToBytes :: "string \<Rightarrow> u8 list option" where
  "hexToBytes hex = (if length hex mod 2 \<noteq> 0 then None else hex_pairs hex)"

lemma length_hexOf [simp]: "length (hexOf bs) = 2 * length bs"
  by (induction bs) auto

lemma hex_digit_kHex: "n < 16 \<Longrightarrow> hex_digit (kHex ! n) = Some n"
proof -
  have "\<forall>n \<in> set [0..<16]. hex_digit (kHex ! n) = Some n" by code_simp
  then show "n < 16 \<Longrightarrow> hex_digit (kHex ! n) = Some n" by simp
qed

lemma nibbles:
  fixes b :: u8
  shows "unat (drop_bit 4 b AND 0xf) < 16" and "unat (b AND 0xf) < 16"
    and "push_bit 4 (drop_bit 4 b AND 0xf) OR (b AND 0xf) = b"
proof -
  have le: "x AND 0xf \<le> 0xf" for x :: u8 by (rule word_and_le1)
  show "unat (drop_bit 4 b AND 0xf) < 16" "unat (b AND 0xf) < 16"
    using le [of "drop_bit 4 b"] le [of b] by (simp_all add: word_le_nat_alt)
  have m: "(0xf :: u8) = mask 4" by (simp add: mask_eq_exp_minus_1)
  show "push_bit 4 (drop_bit 4 b AND 0xf) OR (b AND 0xf) = b"
    unfolding m by (rule bit_word_eqI) (auto simp: bit_simps)
qed

lemma hex_pairs_hexOf: "hex_pairs (hexOf bs) = Some bs"
  by (induction bs) (simp_all add: hex_digit_kHex nibbles del: push_bit_and)

lemma hex_roundtrip: "hexToBytes (hexOf bs) = Some bs"
  by (simp add: hexToBytes_def hex_pairs_hexOf)

lemma hexOf_inj: "hexOf xs = hexOf ys \<longleftrightarrow> xs = ys"
  by (metis hex_roundtrip option.inject)

text \<open>What the parser accepts is twice as long as what it returns.\<close>

lemma hexToBytes_length: "hexToBytes hex = Some bs \<Longrightarrow> length hex = 2 * length bs"
proof -
  have "even (length cs) \<Longrightarrow> hex_pairs cs = Some bs \<Longrightarrow> length cs = 2 * length bs" for cs bs
    by (induction cs arbitrary: bs rule: hex_pairs.induct) (auto split: option.splits)
  then show "hexToBytes hex = Some bs \<Longrightarrow> length hex = 2 * length bs"
    by (auto simp: hexToBytes_def even_iff_mod_2_eq_zero split: if_splits)
qed

end
