(* ===== verification/Traces.thy ===== *)
theory Traces
  imports Prelude
begin

text \<open>
  Machines whose steps emit a list of events. The trace of a run is what all its steps emitted; an
  invariant that sees the trace so far shows of every event that it was justified by what came before.
\<close>

definition trace :: "('s \<Rightarrow> 'i \<Rightarrow> 's \<times> 'e list) \<Rightarrow> 's \<Rightarrow> 'i list \<Rightarrow> 'e list" where
  "trace f s ls = concat (outputs f s ls)"

lemma trace_simps [simp]:
  "trace f s [] = []"
  "trace f s (l # ls) = snd (f s l) @ trace f (fst (f s l)) ls"
  "trace f s (ls @ ms) = trace f s ls @ trace f (run f s ls) ms"
  by (simp_all add: trace_def)

text \<open>What was emitted since the last event of a kind.\<close>

definition since :: "('e \<Rightarrow> bool) \<Rightarrow> 'e list \<Rightarrow> 'e list" where
  "since P evs = takeWhile (\<lambda>e. \<not> P e) (rev evs)"

lemma since_snoc [simp]: "since P (evs @ [e]) = (if P e then [] else e # since P evs)"
  by (simp add: since_def)

lemma since_Nil [simp]: "since P [] = []"
  by (simp add: since_def)

lemma since_append: "(\<And>e. e \<in> set fs \<Longrightarrow> \<not> P e) \<Longrightarrow> set (since P (evs @ fs)) = set fs \<union> set (since P evs)"
  by (induction fs rule: rev_induct) (auto simp: append_assoc [symmetric] simp del: append_assoc)

locale traced_machine =
  fixes step :: "'s \<Rightarrow> 'i \<Rightarrow> 's \<times> 'e list"
    and inv :: "'e list \<Rightarrow> 's \<Rightarrow> bool"
    and ok :: "'e list \<Rightarrow> 'e \<Rightarrow> bool"
    and init :: 's
  assumes inv_init: "inv [] init"
    and inv_step: "inv evs s \<Longrightarrow> inv (evs @ snd (step s i)) (fst (step s i))"
    and ok_step: "inv evs s \<Longrightarrow> snd (step s i) = xs @ e # ys \<Longrightarrow> ok (evs @ xs) e"
begin

lemma inv_trace: "inv (trace step init is) (run step init is)"
proof (induction "is" rule: rev_induct)
  case (snoc i "is")
  then show ?case using inv_step by simp
qed (simp add: inv_init)

lemma trace_ok: "trace step init is = xs @ e # ys \<Longrightarrow> ok xs e"
proof (induction "is" arbitrary: ys rule: rev_induct)
  case (snoc i "is")
  define s where "s = run step init is"
  have "trace step init is @ snd (step s i) = xs @ e # ys" using snoc.prems by (simp add: s_def)
  then consider us where "trace step init is = xs @ us" "us @ snd (step s i) = e # ys"
    | us where "trace step init is @ us = xs" "snd (step s i) = us @ e # ys"
    by (auto simp: append_eq_append_conv2)
  then show ?case
  proof cases
    case 1
    show ?thesis
    proof (cases us)
      case Nil
      then show ?thesis using 1 ok_step [OF inv_trace [of "is"], of i "[]" e ys] by (simp add: s_def)
    next
      case (Cons u us')
      then show ?thesis using 1 snoc.IH [of us'] by simp
    qed
  next
    case 2
    then show ?thesis using ok_step [OF inv_trace [of "is"], of i us e ys] by (simp add: s_def)
  qed
qed simp

end

end
