(* ===== verification/SseServer.thy ===== *)
theory SseServer
  imports Hex Traces
begin

text \<open>
  \<open>src/src/net/SseServer.h/.cpp\<close>: the one-client event-stream server with its single-use tickets.
  Three tasks share it. The server task accepts a connection, runs the session handler and writes
  the final frame; the main task begins and stops the server and signals sleep, waiting for the
  server task in between; the HTTP task asks for a takeover and mints a ticket. Every atomic load
  and store is a step of its own, with a program counter for the server and for the main task,
  so that a run of \<open>sse_step\<close> is any interleaving. Sockets and the scheduler are inputs. The route is
  registered once, before the first \<open>begin\<close>.
\<close>

section \<open>State\<close>

datatype StopReason = NoReason | Replaced | Shutdown | Sleeping

definition kTicketTtlMs :: u32 where "kTicketTtlMs = 30000"

text \<open>Where the server task is, named after what it does next.\<close>

datatype server_pc =
    NoTask                     \<comment> \<open>not spawned, or after \<open>vTaskDelete\<close>\<close>
  | TaskStart                  \<comment> \<open>the first test of \<open>_taskLoop\<close>\<close>
  | LoopTest                   \<comment> \<open>\<open>while (_shouldRun)\<close>\<close>
  | HandleClient
  | RouteGuard string          \<comment> \<open>\<open>_handleRoute\<close> with the ticket of the request\<close>
  | ConsumeTicket string
  | ResetReason                \<comment> \<open>headers written; \<open>Replaced\<close> goes back to \<open>None\<close>\<close>
  | EnterSession
  | PollReason | PollRun       \<comment> \<open>the two loads of \<open>isSessionStopRequested\<close>\<close>
  | LeaveSession
  | ReadReason
  | FinalFrame StopReason
  | ClearSleeping
  | CloseServer
  | MarkExited

text \<open>Where the main task is inside \<open>begin\<close>, \<open>stop\<close> or \<open>signalSleeping\<close>.\<close>

datatype main_pc =
    MainIdle
  | BeginTest | BeginWait | BeginMarkLive | BeginClearReason | BeginAllow | BeginSpawn | SpawnFailed | SpawnUndone
  | StopTest | StopForbid | StopSetReason | StopWait
  | SleepTest u32 | SleepSet u32 | SleepWait u32 u32 | SleepTime u32 u32 | SleepClear

record sse_server =
  sv_shouldRun :: bool
  sv_taskExited :: bool
  sv_stopReason :: StopReason
  sv_sessionActive :: bool
  sv_ticketToken :: string
  sv_ticketMintedMs :: u32
  sv_ticketConsumed :: bool
  sv_pc :: server_pc
  sv_main :: main_pc
  sv_clock :: nat              \<comment> \<open>milliseconds since boot; \<open>millis()\<close> is its low 32 bits\<close>

definition sse_init :: sse_server where
  "sse_init = \<lparr>sv_shouldRun = False, sv_taskExited = True, sv_stopReason = NoReason, sv_sessionActive = False,
     sv_ticketToken = [], sv_ticketMintedMs = 0, sv_ticketConsumed = True, sv_pc = NoTask, sv_main = MainIdle,
     sv_clock = 0\<rparr>"

definition sv_millis :: "sse_server \<Rightarrow> u32" where
  "sv_millis s = of_nat (sv_clock s)"

text \<open>What the environment sees, with the clock where it matters.\<close>

datatype sse_event =
    Minted string nat | TakeoverAsked | SleepAsked
  | Busy503 | Denied401 | SessionStarted string nat
  | ReplacedFrame | SleepingFrame | SocketClosed
  | BeginReturned bool | StopReturned | SleepReturned

section \<open>Tickets\<close>

definition mintTicket :: "u8 list \<Rightarrow> sse_server \<Rightarrow> sse_server \<times> sse_event list" where
  "mintTicket bytes s =
     (s\<lparr>sv_ticketToken := hexOf bytes, sv_ticketMintedMs := sv_millis s, sv_ticketConsumed := False\<rparr>,
      [Minted (hexOf bytes) (sv_clock s)])"

definition consumeTicket :: "string \<Rightarrow> sse_server \<Rightarrow> sse_server \<times> bool" where
  "consumeTicket token s =
     (if token = [] then (s, False)
      else if sv_ticketConsumed s then (s, False)
      else if sv_ticketToken s = [] then (s, False)
      else if sv_millis s - sv_ticketMintedMs s > kTicketTtlMs then (s\<lparr>sv_ticketConsumed := True\<rparr>, False)
      else if sv_ticketToken s \<noteq> token then (s, False)
      else (s\<lparr>sv_ticketConsumed := True, sv_ticketToken := []\<rparr>, True))"

section \<open>The HTTP task\<close>

definition forceStopActiveSession :: "sse_server \<Rightarrow> sse_server \<times> sse_event list" where
  "forceStopActiveSession s = (s\<lparr>sv_stopReason := Replaced\<rparr>, [TakeoverAsked])"

section \<open>The server task\<close>

text \<open>
  One atomic step. The input is what the network does: the ticket argument of a request waiting to be
  accepted, whether the session handler returns on its own, and whether the peer is still connected
  when the final frame is due. The handler may do any amount of its own work between polls.
\<close>

record server_input =
  in_request :: "string option"
  in_handlerReturns :: bool
  in_connected :: bool

definition compare_exchange :: "StopReason \<Rightarrow> sse_server \<Rightarrow> sse_server" where
  "compare_exchange expected s = (if sv_stopReason s = expected then s\<lparr>sv_stopReason := NoReason\<rparr> else s)"

text \<open>\<open>_handleRoute\<close>, up to the handler.\<close>

definition admit_step :: "sse_server \<Rightarrow> sse_server \<times> sse_event list" where
  "admit_step s =
     (case sv_pc s of
        RouteGuard t \<Rightarrow>
          if sv_shouldRun s then (s\<lparr>sv_pc := ConsumeTicket t\<rparr>, []) else (s\<lparr>sv_pc := LoopTest\<rparr>, [Busy503])
      | ConsumeTicket t \<Rightarrow>
          (case consumeTicket t s of
             (s1, True) \<Rightarrow> (s1\<lparr>sv_pc := ResetReason\<rparr>, [SessionStarted t (sv_clock s1)])
           | (s1, False) \<Rightarrow> (s1\<lparr>sv_pc := LoopTest\<rparr>, [Denied401]))
      | ResetReason \<Rightarrow> ((compare_exchange Replaced s)\<lparr>sv_pc := EnterSession\<rparr>, [])
      | EnterSession \<Rightarrow> (s\<lparr>sv_sessionActive := True, sv_pc := PollReason\<rparr>, [])
      | _ \<Rightarrow> (s, []))"

text \<open>\<open>isSessionStopRequested\<close>, as the handler polls it: it returns when the answer is yes, or by itself.\<close>

definition poll_step :: "server_input \<Rightarrow> sse_server \<Rightarrow> sse_server" where
  "poll_step i s =
     (case sv_pc s of
        PollReason \<Rightarrow>
          s\<lparr>sv_pc := if in_handlerReturns i \<or> sv_stopReason s \<noteq> NoReason then LeaveSession else PollRun\<rparr>
      | PollRun \<Rightarrow> s\<lparr>sv_pc := if sv_shouldRun s then PollReason else LeaveSession\<rparr>
      | _ \<Rightarrow> s)"

text \<open>\<open>_handleRoute\<close>, after the handler.\<close>

definition close_step :: "server_input \<Rightarrow> sse_server \<Rightarrow> sse_server \<times> sse_event list" where
  "close_step i s =
     (case sv_pc s of
        LeaveSession \<Rightarrow> (s\<lparr>sv_sessionActive := False, sv_pc := ReadReason\<rparr>, [])
      | ReadReason \<Rightarrow> (s\<lparr>sv_pc := FinalFrame (sv_stopReason s)\<rparr>, [])
      | FinalFrame r \<Rightarrow>
          if \<not> in_connected i then (s\<lparr>sv_pc := LoopTest\<rparr>, [SocketClosed])
          else if r = Replaced then (s\<lparr>sv_pc := LoopTest\<rparr>, [ReplacedFrame, SocketClosed])
          else if r = Sleeping then (s\<lparr>sv_pc := ClearSleeping\<rparr>, [SleepingFrame])
          else (s\<lparr>sv_pc := LoopTest\<rparr>, [SocketClosed])
      | ClearSleeping \<Rightarrow> ((compare_exchange Sleeping s)\<lparr>sv_pc := LoopTest\<rparr>, [SocketClosed])
      | _ \<Rightarrow> (s, []))"

text \<open>\<open>_taskTrampoline\<close> and \<open>_taskLoop\<close>.\<close>

definition task_step :: "server_input \<Rightarrow> sse_server \<Rightarrow> sse_server" where
  "task_step i s =
     (case sv_pc s of
        TaskStart \<Rightarrow> s\<lparr>sv_pc := if sv_shouldRun s then LoopTest else MarkExited\<rparr>
      | LoopTest \<Rightarrow> s\<lparr>sv_pc := if sv_shouldRun s then HandleClient else CloseServer\<rparr>
      | HandleClient \<Rightarrow> s\<lparr>sv_pc := case in_request i of None \<Rightarrow> LoopTest | Some t \<Rightarrow> RouteGuard t\<rparr>
      | CloseServer \<Rightarrow> s\<lparr>sv_pc := MarkExited\<rparr>
      | MarkExited \<Rightarrow> s\<lparr>sv_taskExited := True, sv_pc := NoTask\<rparr>
      | _ \<Rightarrow> s)"

definition server_step :: "server_input \<Rightarrow> sse_server \<Rightarrow> sse_server \<times> sse_event list" where
  "server_step i s =
     (if sv_pc s \<in> {PollReason, PollRun} then (poll_step i s, [])
      else if sv_pc s \<in> {NoTask, TaskStart, LoopTest, HandleClient, CloseServer, MarkExited} then (task_step i s, [])
      else case sv_pc s of
          RouteGuard _ \<Rightarrow> admit_step s | ConsumeTicket _ \<Rightarrow> admit_step s | ResetReason \<Rightarrow> admit_step s
        | EnterSession \<Rightarrow> admit_step s | _ \<Rightarrow> close_step i s)"

lemmas server_step_defs = server_step_def admit_step_def poll_step_def close_step_def task_step_def

section \<open>The main task\<close>

text \<open>One atomic step of the call in progress; \<open>spawns\<close> is the answer of the task scheduler.\<close>

definition begin_step :: "bool \<Rightarrow> sse_server \<Rightarrow> sse_server \<times> sse_event list" where
  "begin_step spawns s =
     (case sv_main s of
        BeginTest \<Rightarrow>
          if sv_shouldRun s then (s\<lparr>sv_main := MainIdle\<rparr>, [BeginReturned True]) else (s\<lparr>sv_main := BeginWait\<rparr>, [])
      | BeginWait \<Rightarrow> (s\<lparr>sv_main := if sv_taskExited s then BeginMarkLive else BeginWait\<rparr>, [])
      | BeginMarkLive \<Rightarrow> (s\<lparr>sv_taskExited := False, sv_main := BeginClearReason\<rparr>, [])
      | BeginClearReason \<Rightarrow> (s\<lparr>sv_stopReason := NoReason, sv_main := BeginAllow\<rparr>, [])
      | BeginAllow \<Rightarrow> (s\<lparr>sv_shouldRun := True, sv_main := BeginSpawn\<rparr>, [])
      | BeginSpawn \<Rightarrow>
          if spawns then (s\<lparr>sv_pc := TaskStart, sv_main := MainIdle\<rparr>, [BeginReturned True])
          else (s\<lparr>sv_main := SpawnFailed\<rparr>, [])
      | SpawnFailed \<Rightarrow> (s\<lparr>sv_shouldRun := False, sv_main := SpawnUndone\<rparr>, [])
      | SpawnUndone \<Rightarrow> (s\<lparr>sv_taskExited := True, sv_main := MainIdle\<rparr>, [BeginReturned False])
      | _ \<Rightarrow> (s, []))"

definition stop_step :: "sse_server \<Rightarrow> sse_server \<times> sse_event list" where
  "stop_step s =
     (case sv_main s of
        StopTest \<Rightarrow>
          if sv_shouldRun s then (s\<lparr>sv_main := StopForbid\<rparr>, []) else (s\<lparr>sv_main := MainIdle\<rparr>, [StopReturned])
      | StopForbid \<Rightarrow> (s\<lparr>sv_shouldRun := False, sv_main := StopSetReason\<rparr>, [])
      | StopSetReason \<Rightarrow> (s\<lparr>sv_stopReason := Shutdown, sv_main := StopWait\<rparr>, [])
      | StopWait \<Rightarrow>
          if sv_taskExited s then (s\<lparr>sv_main := MainIdle\<rparr>, [StopReturned]) else (s, [])
      | _ \<Rightarrow> (s, []))"

definition sleep_step :: "sse_server \<Rightarrow> sse_server \<times> sse_event list" where
  "sleep_step s =
     (case sv_main s of
        SleepTest waitMs \<Rightarrow>
          if sv_sessionActive s then (s\<lparr>sv_main := SleepSet waitMs\<rparr>, [])
          else (s\<lparr>sv_main := MainIdle\<rparr>, [SleepReturned])
      | SleepSet waitMs \<Rightarrow>
          (s\<lparr>sv_stopReason := Sleeping, sv_main := SleepWait (sv_millis s) waitMs\<rparr>, [SleepAsked])
      | SleepWait startedMs waitMs \<Rightarrow>
          (s\<lparr>sv_main := if sv_stopReason s = Sleeping then SleepTime startedMs waitMs else SleepClear\<rparr>, [])
      | SleepTime startedMs waitMs \<Rightarrow>
          (s\<lparr>sv_main := if sv_millis s - startedMs < waitMs then SleepWait startedMs waitMs else SleepClear\<rparr>, [])
      | SleepClear \<Rightarrow> ((compare_exchange Sleeping s)\<lparr>sv_main := MainIdle\<rparr>, [SleepReturned])
      | _ \<Rightarrow> (s, []))"

definition main_step :: "bool \<Rightarrow> sse_server \<Rightarrow> sse_server \<times> sse_event list" where
  "main_step spawns s =
     (if sv_main s \<in> {MainIdle, BeginTest, BeginWait, BeginMarkLive, BeginClearReason, BeginAllow, BeginSpawn,
                      SpawnFailed, SpawnUndone} then begin_step spawns s
      else if sv_main s \<in> {StopTest, StopForbid, StopSetReason, StopWait} then stop_step s
      else sleep_step s)"

lemmas main_step_defs = main_step_def begin_step_def stop_step_def sleep_step_def

definition main_call :: "main_pc \<Rightarrow> sse_server \<Rightarrow> sse_server" where
  "main_call pc s = (if sv_main s = MainIdle then s\<lparr>sv_main := pc\<rparr> else s)"

section \<open>Interleavings\<close>

datatype sse_label =
    CallBegin | CallStop | CallSleep u32       \<comment> \<open>the main task enters an operation\<close>
  | MainRuns bool
  | ServerRuns server_input
  | Takeover                                   \<comment> \<open>the HTTP task\<close>
  | Mint "u8 list"
  | TimePasses nat

fun sse_step :: "sse_server \<Rightarrow> sse_label \<Rightarrow> sse_server \<times> sse_event list" where
  "sse_step s CallBegin = (main_call BeginTest s, [])"
| "sse_step s CallStop = (main_call StopTest s, [])"
| "sse_step s (CallSleep waitMs) = (main_call (SleepTest waitMs) s, [])"
| "sse_step s (MainRuns spawns) = main_step spawns s"
| "sse_step s (ServerRuns i) = server_step i s"
| "sse_step s Takeover = forceStopActiveSession s"
| "sse_step s (Mint bytes) = mintTicket bytes s"
| "sse_step s (TimePasses d) = (s\<lparr>sv_clock := sv_clock s + d\<rparr>, [])"

section \<open>What is always true\<close>

text \<open>
  A task exists exactly when none has exited since the last start; the session flag is up exactly
  while the handler runs; \<open>Sleeping\<close> is only there while the main task is signalling it.
\<close>

definition in_session :: "server_pc \<Rightarrow> bool" where
  "in_session pc \<longleftrightarrow> pc = PollReason \<or> pc = PollRun \<or> pc = LeaveSession"

definition main_ok :: "sse_server \<Rightarrow> bool" where
  "main_ok s \<longleftrightarrow>
     (case sv_main s of
        BeginMarkLive \<Rightarrow> \<not> sv_shouldRun s \<and> sv_taskExited s \<and> sv_pc s = NoTask
      | BeginClearReason \<Rightarrow> \<not> sv_shouldRun s \<and> \<not> sv_taskExited s \<and> sv_pc s = NoTask
      | BeginAllow \<Rightarrow> \<not> sv_shouldRun s \<and> \<not> sv_taskExited s \<and> sv_pc s = NoTask
      | BeginSpawn \<Rightarrow> sv_shouldRun s \<and> \<not> sv_taskExited s \<and> sv_pc s = NoTask
      | SpawnFailed \<Rightarrow> sv_shouldRun s \<and> \<not> sv_taskExited s \<and> sv_pc s = NoTask
      | SpawnUndone \<Rightarrow> \<not> sv_shouldRun s \<and> \<not> sv_taskExited s \<and> sv_pc s = NoTask
      | BeginWait \<Rightarrow> \<not> sv_shouldRun s \<and> (sv_taskExited s \<longleftrightarrow> sv_pc s = NoTask)
      | StopSetReason \<Rightarrow> \<not> sv_shouldRun s \<and> (sv_taskExited s \<longleftrightarrow> sv_pc s = NoTask)
      | StopWait \<Rightarrow> \<not> sv_shouldRun s \<and> (sv_taskExited s \<longleftrightarrow> sv_pc s = NoTask)
      | StopForbid \<Rightarrow> sv_shouldRun s \<and> (sv_taskExited s \<longleftrightarrow> sv_pc s = NoTask)
      | _ \<Rightarrow> (sv_taskExited s \<longleftrightarrow> sv_pc s = NoTask) \<and> (sv_shouldRun s \<longleftrightarrow> sv_pc s \<noteq> NoTask))"

definition sse_inv :: "sse_server \<Rightarrow> bool" where
  "sse_inv s \<longleftrightarrow> main_ok s
     \<and> (sv_shouldRun s \<and> sv_main s \<noteq> BeginSpawn \<and> sv_main s \<noteq> SpawnFailed \<longrightarrow>
          sv_pc s \<noteq> NoTask \<and> sv_pc s \<noteq> CloseServer \<and> sv_pc s \<noteq> MarkExited)
     \<and> (sv_sessionActive s \<longleftrightarrow> in_session (sv_pc s))
     \<and> (sv_stopReason s = Sleeping \<longrightarrow>
          (\<exists>a b. sv_main s = SleepWait a b \<or> sv_main s = SleepTime a b) \<or> sv_main s = SleepClear)"

lemma consumeTicket_frame:
  "consumeTicket t s = (s1, b) \<Longrightarrow>
     s1 = s\<lparr>sv_ticketConsumed := sv_ticketConsumed s1, sv_ticketToken := sv_ticketToken s1\<rparr>"
  by (auto simp: consumeTicket_def split: if_splits)

lemma server_step_inv: "sse_inv s \<Longrightarrow> sse_inv (fst (server_step i s))"
  by (cases "sv_pc s"; cases "sv_main s")
    (auto simp: sse_inv_def server_step_defs main_ok_def in_session_def compare_exchange_def consumeTicket_def
      split: option.splits)

lemma main_step_inv: "sse_inv s \<Longrightarrow> sse_inv (fst (main_step b s))"
  by (cases "sv_main s")
    (auto simp: sse_inv_def main_step_defs main_ok_def in_session_def compare_exchange_def)

lemma sse_step_inv: "sse_inv s \<Longrightarrow> sse_inv (fst (sse_step s l))"
proof (cases l)
  case (ServerRuns i)
  assume "sse_inv s"
  then show ?thesis using ServerRuns server_step_inv by simp
next
  case (MainRuns b)
  assume "sse_inv s"
  then show ?thesis using MainRuns main_step_inv by simp
qed (auto simp: sse_inv_def main_call_def main_ok_def forceStopActiveSession_def mintTicket_def
       split: main_pc.splits)

interpretation sse: invariant_machine sse_step sse_inv sse_init
proof
  show "sse_inv sse_init" by (simp add: sse_inv_def sse_init_def main_ok_def in_session_def)
qed (rule sse_step_inv)

section \<open>Tickets admit one session each\<close>

fun is_minted :: "sse_event \<Rightarrow> bool" where
  "is_minted (Minted _ _) = True" | "is_minted _ = False"

fun is_started :: "sse_event \<Rightarrow> bool" where
  "is_started (SessionStarted _ _) = True" | "is_started _ = False"

text \<open>The ticket in the store, if it can still be used, is the last one minted, and nothing was
  started since.\<close>

definition ticket_inv :: "sse_event list \<Rightarrow> sse_server \<Rightarrow> bool" where
  "ticket_inv evs s \<longleftrightarrow>
     (\<not> sv_ticketConsumed s \<longrightarrow>
        (\<exists>us m vs. evs = us @ Minted (sv_ticketToken s) m # vs \<and> sv_ticketMintedMs s = of_nat m \<and> m \<le> sv_clock s
           \<and> (\<forall>e \<in> set vs. \<not> is_minted e \<and> \<not> is_started e)))"

text \<open>What the invariant is for: the start of a session tells which mint it used.\<close>

definition start_justified :: "sse_event list \<Rightarrow> string \<Rightarrow> nat \<Rightarrow> bool" where
  "start_justified evs t n \<longleftrightarrow>
     (\<exists>us m vs. evs = us @ Minted t m # vs \<and> m \<le> n \<and> (of_nat n :: u32) - of_nat m \<le> kTicketTtlMs
        \<and> (\<forall>e \<in> set vs. \<not> is_minted e \<and> \<not> is_started e))"

definition ticket_quiet :: "sse_server \<Rightarrow> sse_server \<Rightarrow> sse_event list \<Rightarrow> bool" where
  "ticket_quiet s s' evs \<longleftrightarrow> sv_ticketConsumed s' = sv_ticketConsumed s \<and> sv_ticketToken s' = sv_ticketToken s
     \<and> sv_ticketMintedMs s' = sv_ticketMintedMs s \<and> sv_clock s \<le> sv_clock s'
     \<and> (\<forall>e \<in> set evs. \<not> is_minted e \<and> \<not> is_started e)"

lemma ticket_inv_snoc:
  assumes "ticket_inv evs s" and "ticket_quiet s s' more_evs"
  shows "ticket_inv (evs @ more_evs) s'"
  unfolding ticket_inv_def
proof
  assume "\<not> sv_ticketConsumed s'"
  then obtain us m vs where "evs = us @ Minted (sv_ticketToken s) m # vs" "sv_ticketMintedMs s = of_nat m"
      "m \<le> sv_clock s" "\<forall>e \<in> set vs. \<not> is_minted e \<and> \<not> is_started e"
    using assms by (auto simp: ticket_inv_def ticket_quiet_def)
  then show "\<exists>us m vs. evs @ more_evs = us @ Minted (sv_ticketToken s') m # vs \<and> sv_ticketMintedMs s' = of_nat m
      \<and> m \<le> sv_clock s' \<and> (\<forall>e \<in> set vs. \<not> is_minted e \<and> \<not> is_started e)"
    using assms(2) [unfolded ticket_quiet_def]
    by (intro exI [of _ us] exI [of _ m] exI [of _ "vs @ more_evs"]) auto
qed

lemma consumeTicket_true:
  assumes "consumeTicket t s = (s1, True)"
  shows "\<not> sv_ticketConsumed s" and "sv_ticketToken s = t" and "sv_millis s - sv_ticketMintedMs s \<le> kTicketTtlMs"
    and "sv_ticketConsumed s1" and "sv_clock s1 = sv_clock s"
  using assms by (auto simp: consumeTicket_def not_less split: if_splits)

lemma consumeTicket_false:
  assumes "consumeTicket t s = (s1, False)"
  shows "s1 = s \<or> s1 = s\<lparr>sv_ticketConsumed := True\<rparr>"
  using assms by (auto simp: consumeTicket_def split: if_splits)

lemma server_step_quiet:
  assumes "\<And>t. sv_pc s \<noteq> ConsumeTicket t"
  shows "ticket_quiet s (fst (server_step i s)) (snd (server_step i s))"
  using assms by (cases "sv_pc s") (auto simp: ticket_quiet_def server_step_defs compare_exchange_def)

lemma main_step_quiet:
  "ticket_quiet s (fst (main_step b s)) (snd (main_step b s))"
  by (cases "sv_main s") (auto simp: ticket_quiet_def main_step_defs compare_exchange_def)

lemma ticket_step:
  assumes "ticket_inv evs s"
  shows "ticket_inv (evs @ snd (sse_step s l)) (fst (sse_step s l))
     \<and> (\<forall>xs t n ys. snd (sse_step s l) = xs @ SessionStarted t n # ys \<longrightarrow> start_justified (evs @ xs) t n)"
proof (cases "\<exists>i t. l = ServerRuns i \<and> sv_pc s = ConsumeTicket t")
  case True
  then obtain i t where l: "l = ServerRuns i" and pc: "sv_pc s = ConsumeTicket t" by blast
  obtain s1 b where c: "consumeTicket t s = (s1, b)" by (metis surj_pair)
  show ?thesis
  proof (cases b)
    case True
    have "consumeTicket t s = (s1, True)" using c True by simp
    note t = consumeTicket_true [OF this]
    obtain us m vs where u: "evs = us @ Minted t m # vs" "sv_ticketMintedMs s = of_nat m" "m \<le> sv_clock s"
        "\<forall>e \<in> set vs. \<not> is_minted e \<and> \<not> is_started e"
      using assms t(1,2) by (auto simp: ticket_inv_def)
    have "start_justified evs t (sv_clock s1)"
      unfolding start_justified_def using u t(3,5) by (auto simp: sv_millis_def)
    then show ?thesis
      using l pc c True t(4) by (auto simp: server_step_defs ticket_inv_def Cons_eq_append_conv append_eq_Cons_conv)
  next
    case False
    then have "s1 = s \<or> s1 = s\<lparr>sv_ticketConsumed := True\<rparr>" using c consumeTicket_false [of t s s1] by simp
    moreover have "ticket_inv (evs @ [Denied401]) (s\<lparr>sv_pc := LoopTest\<rparr>)"
      by (rule ticket_inv_snoc [OF assms]) (simp add: ticket_quiet_def)
    moreover have "ticket_inv (evs @ [Denied401]) (s\<lparr>sv_ticketConsumed := True, sv_pc := LoopTest\<rparr>)"
      by (simp add: ticket_inv_def)
    ultimately show ?thesis
      using l pc c False by (auto simp: server_step_defs Cons_eq_append_conv)
  qed
next
  case consuming: False
  show ?thesis
  proof (cases "\<exists>bytes. l = Mint bytes")
    case True
    then obtain bytes where l: "l = Mint bytes" by blast
    have "\<exists>us m vs. evs @ [Minted (hexOf bytes) (sv_clock s)] = us @ Minted (hexOf bytes) m # vs
        \<and> of_nat (sv_clock s) = (of_nat m :: u32) \<and> m \<le> sv_clock s \<and> (\<forall>e \<in> set vs. \<not> is_minted e \<and> \<not> is_started e)"
      by (intro exI [of _ evs] exI [of _ "sv_clock s"] exI [of _ "[]"]) simp
    then show ?thesis unfolding l
      by (auto simp: mintTicket_def ticket_inv_def sv_millis_def Cons_eq_append_conv)
  next
    case False
    then have q: "ticket_quiet s (fst (sse_step s l)) (snd (sse_step s l))"
      using consuming server_step_quiet [of s] main_step_quiet [of s]
      by (cases l) (auto simp: ticket_quiet_def main_call_def forceStopActiveSession_def)
    then show ?thesis using ticket_inv_snoc [OF assms] by (auto 4 3 simp: ticket_quiet_def in_set_conv_decomp)
  qed
qed


fun start_ok :: "sse_event list \<Rightarrow> sse_event \<Rightarrow> bool" where
  "start_ok evs (SessionStarted t n) = start_justified evs t n"
| "start_ok evs _ = True"

interpretation tickets: traced_machine sse_step ticket_inv start_ok sse_init
proof
  show "ticket_inv [] sse_init" by (simp add: ticket_inv_def sse_init_def)
  show "ticket_inv (evs @ snd (sse_step s i)) (fst (sse_step s i))" if "ticket_inv evs s" for evs s i
    using ticket_step [OF that] by blast
  show "start_ok (evs @ xs) e" if "ticket_inv evs s" "snd (sse_step s i) = xs @ e # ys" for evs s i xs e ys
    using ticket_step [OF that(1), of i] that(2) by (cases e) auto
qed

text \<open>C34: However the tasks interleave, a session starts only with the most recently minted ticket,
  which no earlier session used, and within its 30 seconds (measured by the wrapping clock).\<close>

theorem ticket_admits_once:
  assumes "trace sse_step sse_init ops = xs @ SessionStarted t n # ys"
  shows "\<exists>us m vs. xs = us @ Minted t m # vs \<and> m \<le> n \<and> (of_nat n :: u32) - of_nat m \<le> 30000
     \<and> (\<forall>e \<in> set vs. \<not> is_minted e \<and> \<not> is_started e)"
  using tickets.trace_ok [OF assms] by (simp add: start_justified_def kTicketTtlMs_def)

section \<open>The final frame is honest\<close>

definition replaced_inv :: "sse_event list \<Rightarrow> sse_server \<Rightarrow> bool" where
  "replaced_inv evs s \<longleftrightarrow>
     (sv_stopReason s = Replaced \<and> sv_pc s \<in> {EnterSession, PollReason, PollRun, LeaveSession, ReadReason}
        \<or> sv_pc s = FinalFrame Replaced
      \<longrightarrow> TakeoverAsked \<in> set (since is_started evs))"

fun frame_ok :: "sse_event list \<Rightarrow> sse_event \<Rightarrow> bool" where
  "frame_ok evs ReplacedFrame \<longleftrightarrow> TakeoverAsked \<in> set (since is_started evs)"
| "frame_ok evs _ \<longleftrightarrow> True"

lemma server_replaced:
  assumes "replaced_inv evs s"
  shows "replaced_inv (evs @ snd (server_step i s)) (fst (server_step i s))
     \<and> (\<forall>xs e ys. snd (server_step i s) = xs @ e # ys \<longrightarrow> frame_ok (evs @ xs) e)"
proof (cases "sv_pc s")
  case (ConsumeTicket t)
  obtain s1 b where c: "consumeTicket t s = (s1, b)" by (metis surj_pair)
  show ?thesis using ConsumeTicket c
    by (cases b) (auto simp: server_step_defs replaced_inv_def Cons_eq_append_conv append_eq_Cons_conv)
next
  case (FinalFrame r)
  then show ?thesis using assms
    by (auto simp: server_step_defs replaced_inv_def Cons_eq_append_conv)
qed (use assms in \<open>auto simp: server_step_defs replaced_inv_def compare_exchange_def Cons_eq_append_conv split: option.splits\<close>)

lemma main_replaced:
  assumes "replaced_inv evs s" and "sse_inv s"
  shows "replaced_inv (evs @ snd (main_step b s)) (fst (main_step b s))
     \<and> (\<forall>xs e ys. snd (main_step b s) = xs @ e # ys \<longrightarrow> frame_ok (evs @ xs) e)"
  using assms
  by (cases "sv_main s")
    (auto simp: main_step_defs replaced_inv_def sse_inv_def main_ok_def compare_exchange_def Cons_eq_append_conv)

lemma replaced_step:
  assumes "replaced_inv evs s \<and> sse_inv s"
  shows "replaced_inv (evs @ snd (sse_step s l)) (fst (sse_step s l))
     \<and> (\<forall>xs e ys. snd (sse_step s l) = xs @ e # ys \<longrightarrow> frame_ok (evs @ xs) e)"
proof (cases l)
  case (ServerRuns i)
  then show ?thesis using server_replaced [of evs s i] assms by simp
next
  case (MainRuns b)
  then show ?thesis using main_replaced [of evs s b] assms by simp
qed (use assms in \<open>auto simp: main_call_def forceStopActiveSession_def mintTicket_def replaced_inv_def Cons_eq_append_conv\<close>)

interpretation frames: traced_machine sse_step "\<lambda>evs s. replaced_inv evs s \<and> sse_inv s" frame_ok sse_init
proof
  show "replaced_inv [] sse_init \<and> sse_inv sse_init"
    using sse.inv_init by (simp add: replaced_inv_def sse_init_def)
qed (use replaced_step sse_step_inv in blast)+

text \<open>A browser is told it was replaced only if a takeover was asked for while its own session was
  up: whatever was asked before the session started is forgotten.\<close>

theorem replaced_frame_honest:
  assumes "trace sse_step sse_init ops = xs @ ReplacedFrame # ys"
  shows "TakeoverAsked \<in> set (since is_started xs)"
  using frames.trace_ok [OF assms] by simp

section \<open>Stopping ends\<close>

text \<open>How many steps the server task still has once it may not run.\<close>

fun steps_left :: "server_pc \<Rightarrow> nat" where
  "steps_left NoTask = 0"
| "steps_left MarkExited = 1"
| "steps_left TaskStart = 2"
| "steps_left CloseServer = 2"
| "steps_left LoopTest = 3"
| "steps_left ClearSleeping = 4"
| "steps_left (RouteGuard t) = 4"
| "steps_left HandleClient = 5"
| "steps_left (FinalFrame r) = 5"
| "steps_left ReadReason = 6"
| "steps_left LeaveSession = 7"
| "steps_left PollRun = 8"
| "steps_left PollReason = 9"
| "steps_left EnterSession = 10"
| "steps_left ResetReason = 11"
| "steps_left (ConsumeTicket t) = 12"

lemma steps_left_bound: "steps_left pc \<le> 12"
  by (cases pc) auto

lemma server_winds_down:
  assumes "\<not> sv_shouldRun s"
  shows "steps_left (sv_pc (fst (server_step i s))) \<le> steps_left (sv_pc s) - 1"
    and "\<not> sv_shouldRun (fst (server_step i s))" and "sv_main (fst (server_step i s)) = sv_main s"
  using assms
  by (cases "sv_pc s"; auto simp: server_step_defs compare_exchange_def consumeTicket_def split: option.splits)+

fun is_server :: "sse_label \<Rightarrow> bool" where
  "is_server (ServerRuns i) = True" | "is_server _ = False"

lemma stop_wait_ends:
  assumes "sse_inv s" and "sv_main s = StopWait" and "steps_left (sv_pc s) \<le> length (filter is_server ls)"
  shows "StopReturned \<in> set (trace sse_step s (ls @ [MainRuns b]))"
  using assms
proof (induction ls arbitrary: s)
  case Nil
  then have "sv_pc s = NoTask" by (cases "sv_pc s") auto
  then show ?case using Nil by (auto simp: sse_inv_def main_ok_def main_step_defs)
next
  case (Cons l ls)
  have stopped: "\<not> sv_shouldRun s" using Cons.prems(1,2) by (simp add: sse_inv_def main_ok_def)
  have inv: "sse_inv (fst (sse_step s l))" by (rule sse_step_inv [OF Cons.prems(1)])
  have down: "steps_left (sv_pc (fst (server_step i s))) \<le> n" if "steps_left (sv_pc s) \<le> Suc n" for i n
    using server_winds_down(1) [OF stopped, of i] that by linarith
  show ?case
  proof (cases "\<exists>c. l = MainRuns c \<and> sv_taskExited s")
    case True
    then show ?thesis using Cons.prems(2) by (auto simp: main_step_defs)
  next
    case False
    then have "sv_main (fst (sse_step s l)) = StopWait
        \<and> steps_left (sv_pc (fst (sse_step s l))) \<le> length (filter is_server ls)"
      using Cons.prems(2,3) server_winds_down(3) [OF stopped] down
      by (cases l) (auto simp: main_step_defs main_call_def forceStopActiveSession_def mintTicket_def)
    then show ?thesis using Cons.IH [OF inv] by auto
  qed
qed

text \<open>C35: \<open>stop\<close> returns: once it waits, twelve steps of the server task are enough, whatever that task was
  doing, whatever requests arrive and whatever takeovers and mints fall in between. When it has
  returned there is no task, no session, and the server is not running.\<close>

theorem stop_returns:
  assumes "sv_main (run sse_step sse_init ops) = StopWait" and "12 \<le> length (filter is_server ls)"
  shows "StopReturned \<in> set (trace sse_step (run sse_step sse_init ops) (ls @ [MainRuns b]))
     \<and> (let s = run sse_step sse_init ops' in
        StopReturned \<in> set (snd (main_step b s)) \<longrightarrow>
          sv_pc s = NoTask \<and> sv_taskExited s \<and> \<not> sv_sessionActive s \<and> \<not> sv_shouldRun s)"
proof -
  have "steps_left (sv_pc (run sse_step sse_init ops)) \<le> length (filter is_server ls)"
    using assms(2) steps_left_bound order_trans by blast
  then have 1: "StopReturned \<in> set (trace sse_step (run sse_step sse_init ops) (ls @ [MainRuns b]))"
    by (rule stop_wait_ends [OF sse.inv_reach assms(1)])
  define s where "s = run sse_step sse_init ops'"
  have "sse_inv s" unfolding s_def by (rule sse.inv_reach)
  then have "StopReturned \<in> set (snd (main_step b s)) \<longrightarrow>
      sv_pc s = NoTask \<and> sv_taskExited s \<and> \<not> sv_sessionActive s \<and> \<not> sv_shouldRun s"
    by (cases "sv_main s") (auto simp: main_step_defs sse_inv_def main_ok_def in_session_def)
  then show ?thesis using 1 by (simp add: s_def)
qed


section \<open>A takeover can be lost\<close>

text \<open>A ticket nobody used comes back to life when \<open>millis()\<close> has wrapped around to its minting time.\<close>

lemma ticket_revives:
  assumes "\<not> sv_ticketConsumed s" and "sv_ticketMintedMs s = sv_millis s" and "sv_ticketToken s \<noteq> []"
  shows "snd (consumeTicket (sv_ticketToken s) (s\<lparr>sv_clock := sv_clock s + 2 ^ 32\<rparr>))"
proof -
  have "(of_nat (sv_clock s + 2 ^ 32) :: u32) = of_nat (sv_clock s)" by simp
  then show ?thesis using assms by (simp add: consumeTicket_def sv_millis_def kTicketTtlMs_def del: of_nat_add)
qed

text \<open>The handler keeps polling as long as nothing asks it to stop and it does not return itself.\<close>

lemma session_stays:
  assumes "sv_shouldRun s" and "sv_stopReason s = NoReason" and "sv_pc s = PollReason \<or> sv_pc s = PollRun"
    and "\<forall>i \<in> set is. \<not> in_handlerReturns i"
  shows "(\<exists>pc. (pc = PollReason \<or> pc = PollRun) \<and> run sse_step s (map ServerRuns is) = s\<lparr>sv_pc := pc\<rparr>)
     \<and> trace sse_step s (map ServerRuns is) = []"
  using assms
proof (induction "is" arbitrary: s)
  case Nil
  then show ?case by (auto intro: exI [of _ "sv_pc s"])
next
  case (Cons i "is")
  then obtain pc where "server_step i s = (s\<lparr>sv_pc := pc\<rparr>, [])" "pc = PollReason \<or> pc = PollRun"
    by (auto simp: server_step_defs)
  then show ?case using Cons.IH [of "s\<lparr>sv_pc := pc\<rparr>"] Cons.prems by auto
qed

text \<open>C36: A takeover asked for while a session is starting, after its ticket was consumed and before its
  headers are out, is lost: the session clears the request and runs on for as long as its browser
  stays, while the new ticket waits for a connection that is never accepted.\<close>

theorem takeover_lost:
  assumes "sv_pc s = ResetReason" and "sv_shouldRun s"
    and "2 \<le> length is" and "\<forall>i \<in> set is. \<not> in_handlerReturns i"
  shows "let ops = Takeover # Mint bytes # map ServerRuns is; s' = run sse_step s ops in
     (sv_pc s' = PollReason \<or> sv_pc s' = PollRun) \<and> sv_stopReason s' = NoReason \<and> sv_sessionActive s'
     \<and> \<not> sv_ticketConsumed s' \<and> sv_ticketToken s' = hexOf bytes
     \<and> trace sse_step s ops = [TakeoverAsked, Minted (hexOf bytes) (sv_clock s)]"
proof -
  obtain i j js where i: "is = i # j # js" using assms(3) by (cases "is"; cases "tl is") auto
  define t where "t = run sse_step s [Takeover, Mint bytes, ServerRuns i, ServerRuns j]"
  have t: "t = s\<lparr>sv_stopReason := NoReason, sv_ticketToken := hexOf bytes, sv_ticketMintedMs := sv_millis s,
      sv_ticketConsumed := False, sv_sessionActive := True, sv_pc := PollReason\<rparr>"
    using assms(1) by (simp add: t_def forceStopActiveSession_def mintTicket_def server_step_defs compare_exchange_def sv_millis_def)
  have tr: "trace sse_step s [Takeover, Mint bytes, ServerRuns i, ServerRuns j] = [TakeoverAsked, Minted (hexOf bytes) (sv_clock s)]"
    using assms(1) by (simp add: forceStopActiveSession_def mintTicket_def server_step_defs compare_exchange_def sv_millis_def)
  have "(\<exists>pc. (pc = PollReason \<or> pc = PollRun) \<and> run sse_step t (map ServerRuns js) = t\<lparr>sv_pc := pc\<rparr>)
      \<and> trace sse_step t (map ServerRuns js) = []"
    by (rule session_stays) (use assms i in \<open>auto simp: t\<close>)
  then obtain pc where "pc = PollReason \<or> pc = PollRun" "run sse_step t (map ServerRuns js) = t\<lparr>sv_pc := pc\<rparr>"
      "trace sse_step t (map ServerRuns js) = []" by blast
  moreover have "run sse_step s (Takeover # Mint bytes # map ServerRuns is) = run sse_step t (map ServerRuns js)"
    by (simp add: t_def i)
  moreover have "trace sse_step s (Takeover # Mint bytes # map ServerRuns is)
      = [TakeoverAsked, Minted (hexOf bytes) (sv_clock s)] @ trace sse_step t (map ServerRuns js)"
    using trace_simps(3) [of sse_step s "[Takeover, Mint bytes, ServerRuns i, ServerRuns j]" "map ServerRuns js"] tr
    by (simp add: t_def i)
  ultimately show ?thesis by (simp add: Let_def t)
qed

section \<open>A concrete server\<close>

definition quiet_net :: server_input where
  "quiet_net = \<lparr>in_request = None, in_handlerReturns = False, in_connected = True\<rparr>"

definition boot_server :: "sse_label list" where
  "boot_server = CallBegin # replicate 6 (MainRuns True) @ replicate 2 (ServerRuns quiet_net)"

definition browser_connects :: "u8 list \<Rightarrow> sse_label list" where
  "browser_connects bytes = [Takeover, Mint bytes, TimePasses 40,
     ServerRuns (quiet_net\<lparr>in_request := Some (hexOf bytes)\<rparr>), ServerRuns quiet_net, ServerRuns quiet_net]"

text \<open>One browser streams, another takes over.\<close>

definition handover :: "sse_label list" where
  "handover = boot_server @ browser_connects [7, 200] @ replicate 5 (ServerRuns quiet_net)
     @ [Takeover, Mint [9]] @ replicate 5 (ServerRuns quiet_net)"

lemma handover_trace: "trace sse_step sse_init handover =
    [BeginReturned True, TakeoverAsked, Minted ''07c8'' 0, SessionStarted ''07c8'' 40, TakeoverAsked, Minted ''09'' 40,
     ReplacedFrame, SocketClosed]"
  by code_simp

lemma ticket_admits_once_witness:
  "\<exists>us m vs. [BeginReturned True, TakeoverAsked, Minted ''07c8'' 0] = us @ Minted ''07c8'' m # vs \<and> m \<le> 40
     \<and> (of_nat 40 :: u32) - of_nat m \<le> 30000 \<and> (\<forall>e \<in> set vs. \<not> is_minted e \<and> \<not> is_started e)"
  by (rule ticket_admits_once [of handover _ _ _ "[TakeoverAsked, Minted ''09'' 40, ReplacedFrame, SocketClosed]"])
    (simp add: handover_trace)

lemma replaced_frame_honest_witness:
  "TakeoverAsked \<in> set (since is_started [BeginReturned True, TakeoverAsked, Minted ''07c8'' 0, SessionStarted ''07c8'' 40,
     TakeoverAsked, Minted ''09'' 40])"
  by (rule replaced_frame_honest [of handover _ "[SocketClosed]"]) (simp add: handover_trace)

lemma stop_returns_witness:
  "StopReturned \<in> set (trace sse_step (run sse_step sse_init (boot_server @ browser_connects [7, 200] @ [CallStop, MainRuns True, MainRuns True, MainRuns True]))
     (replicate 12 (ServerRuns quiet_net) @ [MainRuns True]))"
proof -
  have "sv_main (run sse_step sse_init (boot_server @ browser_connects [7, 200] @ [CallStop, MainRuns True, MainRuns True, MainRuns True])) = StopWait"
    by code_simp
  from stop_returns [OF this, of "replicate 12 (ServerRuns quiet_net)" True "[]"]
  show ?thesis by simp
qed

lemma takeover_lost_witness:
  "let s = run sse_step sse_init (boot_server @ browser_connects [7, 200]);
       s' = run sse_step s (Takeover # Mint [9] # map ServerRuns (replicate 100 quiet_net)) in
     sv_sessionActive s' \<and> sv_stopReason s' = NoReason \<and> \<not> sv_ticketConsumed s'"
proof -
  have "sv_pc (run sse_step sse_init (boot_server @ browser_connects [7, 200])) = ResetReason"
    and "sv_shouldRun (run sse_step sse_init (boot_server @ browser_connects [7, 200]))"
    by code_simp+
  from takeover_lost [OF this, of "replicate 100 quiet_net" "[9]"]
  show ?thesis by (simp add: Let_def quiet_net_def del: run.simps)
qed

end
