(* ===== verification/ExtractionStream.thy ===== *)
theory ExtractionStream
  imports Wire Controller
begin

unbundle bit_operations_syntax

text \<open>
  \<open>src/src/apps/extraction/ExtractionStream.h/.cpp\<close>: what one browser is sent. A session compares
  copies of the controller's state with what the browser already has and sends the packets that
  bring it up to date. The copies, the clock readings and the fate of each write are inputs of a
  turn; a packet is the bytes before base64, with the number in its \<open>id:\<close> line.
\<close>

section \<open>Packets\<close>

definition kPacketState :: u8 where "kPacketState = 1"
definition kPacketCurrentRecord :: u8 where "kPacketCurrentRecord = 2"
definition kPacketSampleBatch :: u8 where "kPacketSampleBatch = 3"
definition kPacketFinalRecord :: u8 where "kPacketFinalRecord = 4"
definition kPacketHeartbeat :: u8 where "kPacketHeartbeat = 5"
definition kHeartbeatIntervalMs :: u32 where "kHeartbeatIntervalMs = 10000"
definition kStateMinIntervalMs :: u32 where "kStateMinIntervalMs = 200"
definition SAMPLE_BATCH_FLAG_SCALE_TIMERS :: u8 where "SAMPLE_BATCH_FLAG_SCALE_TIMERS = 0x01"

lemmas packet_consts = kPacketState_def kPacketCurrentRecord_def kPacketSampleBatch_def kPacketFinalRecord_def
  kPacketHeartbeat_def

definition packetHeader :: "u8 \<Rightarrow> u32 \<Rightarrow> u32 \<Rightarrow> u8 list" where
  "packetHeader type streamSeq shotSeq =
     [0x53, 0x54, 0x4B, 0x50, 4, type] @ writeU32LE streamSeq @ writeU32LE shotSeq"

fun scale_state_byte :: "ScaleState \<Rightarrow> u8" where
  "scale_state_byte SCALE_OFF = 0"
| "scale_state_byte SCANNING = 1"
| "scale_state_byte CONNECTING = 2"
| "scale_state_byte READY = 3"
| "scale_state_byte RECONNECTING = 4"

definition decay_candidate :: "status_snapshot \<Rightarrow> bool" where
  "decay_candidate snap \<longleftrightarrow> st_pumpSignalState snap = DecayCandidate"

definition state_flags :: "status_snapshot \<Rightarrow> u8" where
  "state_flags snap =
     (if st_active snap then 0x01 else 0) OR (if st_currentWeightCg snap \<noteq> None then 0x02 else 0)
     OR (if st_currentYieldCg snap \<noteq> None then 0x04 else 0) OR (if st_currentPouring snap then 0x08 else 0)
     OR (if st_hasDisplayShot snap then 0x10 else 0) OR (if decay_candidate snap then 0x20 else 0)"

definition cg_or_none :: "i16 option \<Rightarrow> i16" where
  "cg_or_none c = (case c of Some v \<Rightarrow> v | None \<Rightarrow> NO_WEIGHT)"

definition state_payload :: "status_snapshot \<Rightarrow> u8 list" where
  "state_payload snap =
     [state_flags snap, st_currentPhase snap, scale_state_byte (st_scaleState snap),
      if st_storageReady snap then 0 else 1]
     @ writeU32LE (st_currentElapsedMs snap) @ writeU32LE (st_savedSeq snap)
     @ writeI16LE (cg_or_none (st_currentWeightCg snap)) @ writeI16LE (cg_or_none (st_currentYieldCg snap))"

section \<open>The session\<close>

record stream_session =
  es_streamSeq :: u32
  es_lastSeenLiveSeq :: u32
  es_lastDisplaySeq :: u32
  es_lastSentSampleIdx :: nat
  es_lastSentTMs :: u32
  es_lastSentCg :: i32
  es_lastInFlightBeginMs :: u32
  es_lastSentRecordPhase :: u8
  es_lastSentRecordInit :: bool
  es_lastSentState :: "status_snapshot option"    \<comment> \<open>\<open>None\<close> until \<open>lastSentStateInit\<close>\<close>
  es_lastStateMs :: u32
  es_lastPacketMs :: u32
  es_snapAcceptedSeq :: u32      \<comment> \<open>\<open>acceptedSeq\<close> of the status copy the loop holds\<close>

definition es_init :: stream_session where
  "es_init = \<lparr>es_streamSeq = 0, es_lastSeenLiveSeq = 0, es_lastDisplaySeq = 0, es_lastSentSampleIdx = 0,
     es_lastSentTMs = 0, es_lastSentCg = 0, es_lastInFlightBeginMs = 0,
     es_lastSentRecordPhase = phase_byte PHASE_IDLE, es_lastSentRecordInit = False, es_lastSentState = None,
     es_lastStateMs = 0, es_lastPacketMs = 0, es_snapAcceptedSeq = 0\<rparr>"

text \<open>A send returns the session, the packets written and whether to go on. \<open>wr\<close> is the answer of the heap
  and the socket, \<open>t\<close> the clock after the write.\<close>

type_synonym sent = "stream_session \<times> (u32 \<times> u8 list) list \<times> bool"

definition sendState :: "bool \<Rightarrow> u32 \<Rightarrow> status_snapshot \<Rightarrow> stream_session \<Rightarrow> sent" where
  "sendState wr t snap s =
     (if \<not> wr then (s, [], False)
      else (s\<lparr>es_streamSeq := es_streamSeq s + 1, es_lastSentState := Some snap, es_lastStateMs := t, es_lastPacketMs := t\<rparr>,
            [(es_streamSeq s, packetHeader kPacketState (es_streamSeq s) (st_acceptedSeq snap) @ state_payload snap)], True))"

definition sendHeartbeat :: "bool \<Rightarrow> u32 \<Rightarrow> u32 \<Rightarrow> stream_session \<Rightarrow> sent" where
  "sendHeartbeat wr t shotSeq s =
     (if \<not> wr then (s, [], False)
      else (s\<lparr>es_streamSeq := es_streamSeq s + 1, es_lastPacketMs := t\<rparr>,
            [(es_streamSeq s, packetHeader kPacketHeartbeat (es_streamSeq s) shotSeq)], True))"

definition sendFullRecord :: "bool \<Rightarrow> u32 \<Rightarrow> u8 \<Rightarrow> extraction \<Rightarrow> u32 \<Rightarrow> stream_session \<Rightarrow> sent" where
  "sendFullRecord wr t type ext shotSeq s =
     (case (encodeCompactSize ext, encodeCompact ext) of
        ((True, bodyLen), Some chunks) \<Rightarrow>
          if length (concat chunks) = bodyLen \<and> wr
          then (s\<lparr>es_streamSeq := es_streamSeq s + 1, es_lastPacketMs := t\<rparr>,
                [(es_streamSeq s, packetHeader type (es_streamSeq s) shotSeq @ concat chunks)], True)
          else (s, [], False)
      | _ \<Rightarrow> (s, [], False))"

definition sendCurrentRecord :: "bool \<Rightarrow> u32 \<Rightarrow> extraction \<Rightarrow> u32 \<Rightarrow> stream_session \<Rightarrow> sent" where
  "sendCurrentRecord wr t ext shotSeq s =
     (case sendFullRecord wr t kPacketCurrentRecord ext shotSeq s of
        (s1, out, False) \<Rightarrow> (s1, out, False)
      | (s1, out, True) \<Rightarrow>
          (s1\<lparr>es_lastInFlightBeginMs := ex_beginMs ext, es_lastSentRecordPhase := ex_phase ext,
              es_lastSentRecordInit := True, es_lastSentSampleIdx := length (ex_samples ext),
              es_lastSentTMs := if ex_samples ext = [] then ex_beginMs ext else sm_tMs (last (ex_samples ext)),
              es_lastSentCg := if ex_samples ext = [] then 0 else scast (sm_cg (last (ex_samples ext)))\<rparr>, out, True))"

definition batch_cursor :: "extraction \<Rightarrow> stream_session \<Rightarrow> sample_cursor" where
  "batch_cursor ext s =
     \<lparr>cu_prevTMs = if es_lastSentSampleIdx s = 0 then ex_beginMs ext else es_lastSentTMs s,
      cu_prevCg = if es_lastSentSampleIdx s = 0 then 0 else es_lastSentCg s,
      cu_includeScaleTimers = sampleRangeHasScaleTimer (drop (es_lastSentSampleIdx s) (ex_samples ext))\<rparr>"

definition batch_payload :: "extraction \<Rightarrow> stream_session \<Rightarrow> u8 list" where
  "batch_payload ext s =
     (let startIdx = es_lastSentSampleIdx s; fresh = drop startIdx (ex_samples ext); c = batch_cursor ext s
      in writeU16LE (of_nat startIdx) @ writeU16LE (of_nat (length fresh))
         @ writeU32LE (cu_prevTMs c) @ writeI16LE (scast (cu_prevCg c))
         @ [if cu_includeScaleTimers c then SAMPLE_BATCH_FLAG_SCALE_TIMERS else 0]
         @ encode_all writeSampleDelta sample_advance c fresh)"

text \<open>\<open>bodyLen\<close> is the sum of the pre-pass; the buffer is written by the same deltas.\<close>

definition batch_size :: "extraction \<Rightarrow> stream_session \<Rightarrow> nat" where
  "batch_size ext s = 11 + samples_size (batch_cursor ext s) (drop (es_lastSentSampleIdx s) (ex_samples ext))"

definition sendSampleBatch :: "bool \<Rightarrow> u32 \<Rightarrow> extraction \<Rightarrow> u32 \<Rightarrow> stream_session \<Rightarrow> sent" where
  "sendSampleBatch wr t ext shotSeq s =
     (if length (ex_samples ext) \<le> es_lastSentSampleIdx s then (s, [], True)
      else if length (batch_payload ext s) = batch_size ext s \<and> wr
      then (s\<lparr>es_streamSeq := es_streamSeq s + 1, es_lastPacketMs := t,
              es_lastSentSampleIdx := length (ex_samples ext), es_lastSentTMs := sm_tMs (last (ex_samples ext)),
              es_lastSentCg := scast (sm_cg (last (ex_samples ext)))\<rparr>,
            [(es_streamSeq s, packetHeader kPacketSampleBatch (es_streamSeq s) shotSeq @ batch_payload ext s)], True)
      else (s, [], False))"

definition stateShouldSend :: "status_snapshot \<Rightarrow> u32 \<Rightarrow> stream_session \<Rightarrow> bool" where
  "stateShouldSend cur nowMs s =
     (case es_lastSentState s of
        None \<Rightarrow> True
      | Some lst \<Rightarrow>
          if st_active cur \<noteq> st_active lst \<or> st_currentPhase cur \<noteq> st_currentPhase lst
             \<or> st_scaleState cur \<noteq> st_scaleState lst \<or> st_acceptedSeq cur \<noteq> st_acceptedSeq lst
             \<or> st_savedSeq cur \<noteq> st_savedSeq lst \<or> st_storageReady cur \<noteq> st_storageReady lst
             \<or> (st_currentWeightCg cur = None) \<noteq> (st_currentWeightCg lst = None)
             \<or> (st_currentYieldCg cur = None) \<noteq> (st_currentYieldCg lst = None)
             \<or> st_currentPouring cur \<noteq> st_currentPouring lst \<or> decay_candidate cur \<noteq> decay_candidate lst
             \<or> st_hasDisplayShot cur \<noteq> st_hasDisplayShot lst
          then True
          else (st_currentElapsedMs cur \<noteq> st_currentElapsedMs lst \<or> st_currentWeightCg cur \<noteq> st_currentWeightCg lst
                \<or> st_currentYieldCg cur \<noteq> st_currentYieldCg lst)
               \<and> kStateMinIntervalMs \<le> nowMs - es_lastStateMs s)"

section \<open>One turn of the loop\<close>

record stream_input =
  si_liveSeq :: u32
  si_now :: u32
  si_status :: status_snapshot
  si_display :: "extraction \<times> u32"     \<comment> \<open>\<open>snapshotExtraction(wantDisplayShot)\<close>\<close>
  si_record :: "extraction \<times> u32"      \<comment> \<open>\<open>snapshotExtraction\<close> of the shot in flight\<close>
  si_displayWrite :: "bool \<times> u32"
  si_recordWrite :: "bool \<times> u32"
  si_stateWrite :: "bool \<times> u32"
  si_heartbeatNow :: u32
  si_heartbeatWrite :: "bool \<times> u32"

definition and_then :: "sent \<Rightarrow> (stream_session \<Rightarrow> sent) \<Rightarrow> sent" where
  "and_then r f =
     (case r of (s, out, True) \<Rightarrow> (case f s of (s1, out1, ok) \<Rightarrow> (s1, out @ out1, ok)) | (s, out, False) \<Rightarrow> (s, out, False))"

definition go_on :: "stream_session \<Rightarrow> sent" where
  "go_on s = (s, [], True)"

definition sendDisplayRecord :: "stream_input \<Rightarrow> stream_session \<Rightarrow> sent" where
  "sendDisplayRecord i s =
     and_then
       (if st_hasDisplayShot (si_status i)
        then (case (si_display i, si_displayWrite i) of
                ((ext, recordSeq), wr, t) \<Rightarrow> sendFullRecord wr t kPacketFinalRecord ext recordSeq s)
        else go_on s)
       (\<lambda>s1. go_on (s1\<lparr>es_lastDisplaySeq := st_displayShotSeq (si_status i), es_lastInFlightBeginMs := 0,
                     es_lastSentRecordPhase := phase_byte PHASE_IDLE, es_lastSentRecordInit := False,
                     es_lastSentSampleIdx := 0, es_lastSentTMs := 0, es_lastSentCg := 0\<rparr>))"

definition record_active :: "extraction \<Rightarrow> bool" where
  "record_active ext \<longleftrightarrow> ex_phase ext = phase_byte PHASE_RUNNING \<or> ex_phase ext = phase_byte PHASE_POST_PUMP"

definition record_stage :: "stream_input \<Rightarrow> stream_session \<Rightarrow> sent" where
  "record_stage i s =
     (let snap = si_status i in
      if st_active snap \<and> st_currentPhase snap \<noteq> phase_byte PHASE_IDLE
         \<and> (st_currentBeginMs snap \<noteq> es_lastInFlightBeginMs s
            \<or> es_lastSentRecordInit s \<and> st_currentPhase snap \<noteq> es_lastSentRecordPhase s
            \<or> es_lastSentSampleIdx s < st_currentSampleCount snap)
      then
        (case (si_record i, si_recordWrite i) of ((ext, recordSeq), wr, t) \<Rightarrow>
           (let newInFlight = (ex_beginMs ext \<noteq> es_lastInFlightBeginMs s);
                phaseChanged = (es_lastSentRecordInit s \<and> ex_phase ext \<noteq> es_lastSentRecordPhase s);
                newSamples = (es_lastSentSampleIdx s < length (ex_samples ext))
            in if record_active ext \<and> recordSeq = st_acceptedSeq snap
               then if newInFlight \<or> phaseChanged then sendCurrentRecord wr t ext recordSeq s
                    else if newSamples then sendSampleBatch wr t ext recordSeq s
                    else go_on s
               else go_on s))
      else go_on s)"

definition display_stage :: "stream_input \<Rightarrow> stream_session \<Rightarrow> sent" where
  "display_stage i s =
     (if st_displayShotSeq (si_status i) \<noteq> es_lastDisplaySeq s then sendDisplayRecord i s else go_on s)"

definition state_stage :: "stream_input \<Rightarrow> stream_session \<Rightarrow> sent" where
  "state_stage i s =
     (if stateShouldSend (si_status i) (si_now i) s
      then (case si_stateWrite i of (wr, t) \<Rightarrow> sendState wr t (si_status i) s) else go_on s)"

definition heartbeat_stage :: "stream_input \<Rightarrow> stream_session \<Rightarrow> sent" where
  "heartbeat_stage i s =
     (if kHeartbeatIntervalMs < si_heartbeatNow i - es_lastPacketMs s
      then (case si_heartbeatWrite i of (wr, t) \<Rightarrow> sendHeartbeat wr t (es_snapAcceptedSeq s) s) else go_on s)"

definition keep_status :: "stream_input \<Rightarrow> stream_session \<Rightarrow> sent" where
  "keep_status i s = go_on (s\<lparr>es_snapAcceptedSeq := st_acceptedSeq (si_status i)\<rparr>)"

definition tickle_stages :: "stream_input \<Rightarrow> stream_session \<Rightarrow> sent" where
  "tickle_stages i s =
     and_then (and_then (and_then (display_stage i s) (record_stage i)) (state_stage i)) (keep_status i)"

definition stream_turn :: "stream_input \<Rightarrow> stream_session \<Rightarrow> sent" where
  "stream_turn i s =
     and_then
       (if si_liveSeq i \<noteq> es_lastSeenLiveSeq s
        then tickle_stages i (s\<lparr>es_lastSeenLiveSeq := si_liveSeq i\<rparr>) else go_on s)
       (heartbeat_stage i)"

text \<open>The packets of a new connection.\<close>

definition first_record_stage :: "stream_input \<Rightarrow> stream_session \<Rightarrow> sent" where
  "first_record_stage i s =
     (let snap = si_status i in
      if st_active snap \<and> st_currentPhase snap \<noteq> phase_byte PHASE_IDLE
      then (case (si_record i, si_recordWrite i) of ((ext, recordSeq), wr, t) \<Rightarrow>
              if record_active ext \<and> recordSeq = st_acceptedSeq snap then sendCurrentRecord wr t ext recordSeq s
              else go_on s)
      else go_on s)"

definition stream_open :: "stream_input \<Rightarrow> sent" where
  "stream_open i =
     and_then (and_then (and_then
       (case si_stateWrite i of (wr, t) \<Rightarrow> sendState wr t (si_status i) (es_init\<lparr>es_lastSeenLiveSeq := si_liveSeq i\<rparr>))
       (sendDisplayRecord i)) (first_record_stage i))
       (\<lambda>s. go_on (s\<lparr>es_lastPacketMs := si_heartbeatNow i, es_snapAcceptedSeq := st_acceptedSeq (si_status i)\<rparr>))"

text \<open>The rest of the session, until the loop is left. Each input is one turn in which the client was
  connected and nobody asked to stop.\<close>

fun stream_loop :: "stream_session \<Rightarrow> stream_input list \<Rightarrow> sent" where
  "stream_loop s [] = go_on s"
| "stream_loop s (i # is) = and_then (stream_turn i s) (\<lambda>s1. stream_loop s1 is)"

definition runSession :: "stream_input \<Rightarrow> stream_input list \<Rightarrow> sent" where
  "runSession i is = and_then (stream_open i) (\<lambda>s. stream_loop s is)"

section \<open>A browser\<close>

text \<open>
  The reference receiver: it keeps the shot in flight with the sequence number it came under, appends
  sample batches that continue it, and drops it when a state says the pump window closed without a
  new accepted shot. Anything it cannot use makes it ask for a new connection.
\<close>

record receiver =
  rv_inflight :: "(u32 \<times> extraction) option"
  rv_phase :: u8
  rv_acceptedSeq :: u32
  rv_display :: "extraction option"
  rv_resync :: bool

definition rv_init :: receiver where
  "rv_init = \<lparr>rv_inflight = None, rv_phase = phase_byte PHASE_IDLE, rv_acceptedSeq = 0, rv_display = None, rv_resync = False\<rparr>"

definition pump_window :: "u8 \<Rightarrow> bool" where
  "pump_window p \<longleftrightarrow> p = phase_byte PHASE_RUNNING \<or> p = phase_byte PHASE_POST_PUMP"

definition recv_state :: "u32 \<Rightarrow> u8 list \<Rightarrow> receiver \<Rightarrow> receiver" where
  "recv_state shotSeq payload r =
     r\<lparr>rv_inflight := if pump_window (rv_phase r) \<and> payload ! 1 = phase_byte PHASE_IDLE \<and> shotSeq = rv_acceptedSeq r
                      then None else rv_inflight r,
       rv_phase := payload ! 1, rv_acceptedSeq := shotSeq,
       rv_display := if payload ! 0 AND 0x10 = 0 then None else rv_display r\<rparr>"

definition recv_current :: "u32 \<Rightarrow> u8 list \<Rightarrow> receiver \<Rightarrow> receiver" where
  "recv_current shotSeq payload r =
     (case decodeCompact payload of
        Some (e, _) \<Rightarrow> r\<lparr>rv_inflight := Some (shotSeq, e)\<rparr> | None \<Rightarrow> r\<lparr>rv_resync := True\<rparr>)"

definition recv_final :: "u32 \<Rightarrow> u8 list \<Rightarrow> receiver \<Rightarrow> receiver" where
  "recv_final shotSeq payload r =
     (case decodeCompact payload of
        Some (e, _) \<Rightarrow> r\<lparr>rv_display := Some e,
            rv_inflight := (case rv_inflight r of Some (q, c) \<Rightarrow> if q \<noteq> shotSeq then None else Some (q, c) | None \<Rightarrow> None)\<rparr>
      | None \<Rightarrow> r\<lparr>rv_resync := True\<rparr>)"

definition parse_batch :: "u8 list \<Rightarrow> (nat \<times> sample list) option" where
  "parse_batch payload =
     (let c = \<lparr>cu_prevTMs = readU32LE (drop 4 payload), cu_prevCg = scast (readI16LE (drop 8 payload)),
               cu_includeScaleTimers = (payload ! 10 AND SAMPLE_BATCH_FLAG_SCALE_TIMERS \<noteq> 0)\<rparr>
      in map_option (\<lambda>(ss, _). (unat (readU16LE payload), ss))
           (decode_all readSample (unat (readU16LE (drop 2 payload))) c (drop 11 payload)))"

definition recv_batch :: "u32 \<Rightarrow> u8 list \<Rightarrow> receiver \<Rightarrow> receiver" where
  "recv_batch shotSeq payload r =
     (case rv_inflight r of
        Some (q, e) \<Rightarrow>
          (case parse_batch payload of
             Some (firstIdx, ss) \<Rightarrow>
               if q = shotSeq \<and> firstIdx = length (ex_samples e)
               then r\<lparr>rv_inflight := Some (q, e\<lparr>ex_samples := ex_samples e @ ss\<rparr>)\<rparr>
               else r\<lparr>rv_resync := True\<rparr>
           | None \<Rightarrow> r\<lparr>rv_resync := True\<rparr>)
      | None \<Rightarrow> r\<lparr>rv_resync := True\<rparr>)"

definition recv :: "u8 list \<Rightarrow> receiver \<Rightarrow> receiver" where
  "recv p r =
     (if take 5 p \<noteq> [0x53, 0x54, 0x4B, 0x50, 4] then r\<lparr>rv_resync := True\<rparr>
      else let shotSeq = readU32LE (drop 10 p); payload = drop 14 p in
        if p ! 5 = kPacketState then recv_state shotSeq payload r
        else if p ! 5 = kPacketCurrentRecord then recv_current shotSeq payload r
        else if p ! 5 = kPacketSampleBatch then recv_batch shotSeq payload r
        else if p ! 5 = kPacketFinalRecord then recv_final shotSeq payload r
        else r)"

definition recv_all :: "(u32 \<times> u8 list) list \<Rightarrow> receiver \<Rightarrow> receiver" where
  "recv_all out r = fold (\<lambda>(_, p). recv p) out r"

lemma recv_all_simps [simp]:
  "recv_all [] r = r" "recv_all ((n, p) # out) r = recv_all out (recv p r)"
  "recv_all (out @ out') r = recv_all out' (recv_all out r)"
  by (simp_all add: recv_all_def)

text \<open>Each kind of packet reaches its handler whole.\<close>

lemma recv_packet:
  "recv (packetHeader type n q @ payload) r =
     (if type = kPacketState then recv_state q payload r
      else if type = kPacketCurrentRecord then recv_current q payload r
      else if type = kPacketSampleBatch then recv_batch q payload r
      else if type = kPacketFinalRecord then recv_final q payload r
      else r)"
  by (simp add: recv_def packetHeader_def writeU32LE_def Let_def readU32LE_write [unfolded writeU32LE_def, simplified])

lemma recv_record:
  assumes "wire_wf e" and "encodeCompact e = Some chunks"
  shows "recv_current q (concat chunks) r = r\<lparr>rv_inflight := Some (q, wire_norm e)\<rparr>"
    and "recv_final q (concat chunks) r = r\<lparr>rv_display := Some (wire_norm e),
            rv_inflight := (case rv_inflight r of Some (q', c) \<Rightarrow> if q' \<noteq> q then None else Some (q', c) | None \<Rightarrow> None)\<rparr>"
  using record_roundtrip_plain [OF assms] by (simp_all add: recv_current_def recv_final_def)


text \<open>The session's cursor stands at the end of the samples it has sent.\<close>

definition cursor_at :: "extraction \<Rightarrow> stream_session \<Rightarrow> bool" where
  "cursor_at e s \<longleftrightarrow> es_lastInFlightBeginMs s = ex_beginMs e \<and> es_lastSentSampleIdx s = length (ex_samples e)
     \<and> (ex_samples e \<noteq> [] \<longrightarrow> es_lastSentTMs s = sm_tMs (last (ex_samples e))
                        \<and> es_lastSentCg s = scast (sm_cg (last (ex_samples e))))"

lemma narrow_cg: "scast (scast (scast c :: i32) :: i16) = (scast c :: i32)" for c :: i16
  by (simp add: scast_down_scast_id is_down_def)

lemma samples_size_bytes: "length (batch_payload ext s) = batch_size ext s"
  by (simp add: batch_payload_def batch_size_def samples_size_length Let_def writeU16LE_def writeI16LE_def writeU32LE_def)

lemma batch_cursor_ok: "cursor_at e s \<Longrightarrow> cursor_ok (batch_cursor ext s)"
  using sint_i16_range by (cases "ex_samples e = []") (auto simp: cursor_at_def batch_cursor_def cursor_ok_def sint_scast16)

lemma parse_batch_payload:
  assumes "cursor_at e s" and "wire_wf ext" and "length (ex_samples e) \<le> length (ex_samples ext)"
  shows "parse_batch (batch_payload ext s) = Some (length (ex_samples e), drop (length (ex_samples e)) (ex_samples ext))"
proof -
  let ?n = "length (ex_samples e)" let ?fresh = "drop ?n (ex_samples ext)" let ?c = "batch_cursor ext s"
  have n: "es_lastSentSampleIdx s = ?n" using assms(1) by (simp add: cursor_at_def)
  have small: "length (ex_samples ext) \<le> 768" using assms(2) by (simp add: wire_wf_def MAX_SAMPLES_def)
  have counts: "unat (of_nat ?n :: u16) = ?n" "unat (of_nat (length ?fresh) :: u16) = length ?fresh"
    using assms(3) small by (simp_all add: unat_of_nat take_bit_nat_eq_self del: of_nat_diff)
  have body: "batch_payload ext s = writeU16LE (of_nat ?n) @ writeU16LE (of_nat (length ?fresh)) @ writeU32LE (cu_prevTMs ?c)
      @ writeI16LE (scast (cu_prevCg ?c)) @ [if cu_includeScaleTimers ?c then SAMPLE_BATCH_FLAG_SCALE_TIMERS else 0]
      @ encode_all writeSampleDelta sample_advance ?c ?fresh"
    by (simp add: batch_payload_def n Let_def)
  have cg: "(scast (scast (cu_prevCg ?c) :: i16) :: i32) = cu_prevCg ?c"
    using assms(1) narrow_cg by (cases "ex_samples e = []") (auto simp: cursor_at_def batch_cursor_def)
  have valid: "list_all (sample_valid (cu_includeScaleTimers ?c)) ?fresh"
  proof -
    have "list_all (\<lambda>s. sm_cg s \<noteq> NO_WEIGHT) ?fresh" using assms(2) by (auto simp: wire_wf_def list_all_iff dest: in_set_dropD)
    then show ?thesis using wire_samples_valid by (simp add: batch_cursor_def n)
  qed
  have dec: "decode_all readSample (length ?fresh) ?c (encode_all writeSampleDelta sample_advance ?c ?fresh @ []) = Some (?fresh, [])"
    using samples.decode_encode_all [of ?c _ ?fresh "[]"] batch_cursor_ok [OF assms(1), of ext] valid by simp
  have fields: "readU16LE (batch_payload ext s) = of_nat ?n"
    "readU16LE (drop 2 (batch_payload ext s)) = of_nat (length ?fresh)"
    "readU32LE (drop 4 (batch_payload ext s)) = cu_prevTMs ?c"
    "readI16LE (drop 8 (batch_payload ext s)) = scast (cu_prevCg ?c)"
    "batch_payload ext s ! 10 = (if cu_includeScaleTimers ?c then SAMPLE_BATCH_FLAG_SCALE_TIMERS else 0)"
    "drop 11 (batch_payload ext s) = encode_all writeSampleDelta sample_advance ?c ?fresh"
    unfolding body by (simp_all add: nth_append)
  have flag: "((if cu_includeScaleTimers ?c then SAMPLE_BATCH_FLAG_SCALE_TIMERS else 0) AND SAMPLE_BATCH_FLAG_SCALE_TIMERS \<noteq> 0)
      = cu_includeScaleTimers ?c"
    by (simp add: SAMPLE_BATCH_FLAG_SCALE_TIMERS_def)
  have "parse_batch (batch_payload ext s) = map_option (\<lambda>(ss, _). (?n, ss))
      (decode_all readSample (length ?fresh)
        \<lparr>cu_prevTMs = cu_prevTMs ?c, cu_prevCg = cu_prevCg ?c, cu_includeScaleTimers = cu_includeScaleTimers ?c\<rparr>
        (encode_all writeSampleDelta sample_advance ?c ?fresh))"
    by (simp only: parse_batch_def Let_def fields flag counts cg)
  moreover have "\<lparr>cu_prevTMs = cu_prevTMs ?c, cu_prevCg = cu_prevCg ?c, cu_includeScaleTimers = cu_includeScaleTimers ?c\<rparr> = ?c"
    by (simp add: batch_cursor_def)
  ultimately show ?thesis using dec by simp
qed


section \<open>The browser has what the session thinks it has\<close>

text \<open>
  What the controller promises of the copies of one session, in the order they are taken. Later copies of
  a shot in flight, known by its begin time, extend its samples, and no shot comes back after the
  recorder was seen idle. While the display number is unchanged, so is the number of accepted shots.
\<close>

definition rec_of :: "stream_input \<Rightarrow> extraction" where
  "rec_of i = fst (si_record i)"

fun continues :: "extraction \<Rightarrow> bool \<Rightarrow> stream_input list \<Rightarrow> bool" where
  "continues e idle [] \<longleftrightarrow> True"
| "continues e idle (j # js) \<longleftrightarrow>
     (let idle' = (idle \<or> st_currentPhase (si_status j) = phase_byte PHASE_IDLE) in
      (record_active (rec_of j) \<and> ex_beginMs (rec_of j) = ex_beginMs e \<longrightarrow>
         \<not> idle' \<and> take (length (ex_samples e)) (ex_samples (rec_of j)) = ex_samples e
         \<and> length (ex_samples e) \<le> length (ex_samples (rec_of j)))
      \<and> continues e idle' js)"

definition copy_ok :: "stream_input \<Rightarrow> bool" where
  "copy_ok i \<longleftrightarrow> wire_wf (rec_of i) \<and> wire_wf (fst (si_display i))
     \<and> (record_active (rec_of i) \<longrightarrow> ex_beginMs (rec_of i) \<noteq> 0)"

fun feed_ok :: "stream_input list \<Rightarrow> bool" where
  "feed_ok [] \<longleftrightarrow> True"
| "feed_ok (i # is) \<longleftrightarrow> copy_ok i
     \<and> (record_active (rec_of i) \<longrightarrow> continues (rec_of i) False is)
     \<and> (\<forall>j \<in> set is. st_displayShotSeq (si_status j) = st_displayShotSeq (si_status i)
                     \<longrightarrow> st_acceptedSeq (si_status j) = st_acceptedSeq (si_status i))
     \<and> feed_ok is"

text \<open>Session and browser agree, before the remaining copies are taken. \<open>acc\<close> is the accepted number of the
  last status processed.\<close>

definition holds_shot :: "receiver \<Rightarrow> u32 \<Rightarrow> extraction \<Rightarrow> bool" where
  "holds_shot r acc e \<longleftrightarrow>
     (\<exists>c. rv_inflight r = Some (acc, c) \<and> ex_samples c = ex_samples e \<and> ex_beginMs c = ex_beginMs e)"

definition display_known :: "stream_session \<Rightarrow> u32 \<Rightarrow> stream_input list \<Rightarrow> bool" where
  "display_known s acc is \<longleftrightarrow>
     (\<forall>j \<in> set is. st_displayShotSeq (si_status j) = es_lastDisplaySeq s \<longrightarrow> st_acceptedSeq (si_status j) = acc)"

definition in_step :: "stream_session \<Rightarrow> receiver \<Rightarrow> u32 \<Rightarrow> stream_input list \<Rightarrow> bool" where
  "in_step s r acc is \<longleftrightarrow>
     (if es_lastSentRecordInit s
      then \<exists>e idle. ex_beginMs e \<noteq> 0 \<and> cursor_at e s \<and> continues e idle is \<and> (\<not> idle \<longrightarrow> holds_shot r acc e)
      else es_lastInFlightBeginMs s = 0)"

definition sent_ok :: "receiver \<Rightarrow> sent \<Rightarrow> (stream_session \<Rightarrow> receiver \<Rightarrow> bool) \<Rightarrow> bool" where
  "sent_ok r res Q \<longleftrightarrow>
     (case res of (s, out, ok) \<Rightarrow> \<not> rv_resync (recv_all out r) \<and> (ok \<longrightarrow> Q s (recv_all out r)))"

lemma sent_ok_go_on: "\<not> rv_resync r \<Longrightarrow> Q s r \<Longrightarrow> sent_ok r (go_on s) Q"
  by (simp add: sent_ok_def go_on_def)

lemma sent_ok_and_then:
  assumes "sent_ok r res P" and "\<And>s r'. \<not> rv_resync r' \<Longrightarrow> P s r' \<Longrightarrow> sent_ok r' (f s) Q"
  shows "sent_ok r (and_then res f) Q"
proof -
  obtain s out ok where res: "res = (s, out, ok)" by (cases res) auto
  show ?thesis
  proof (cases ok)
    case True
    then have "sent_ok (recv_all out r) (f s) Q" using assms by (simp add: sent_ok_def res)
    then show ?thesis using True by (simp add: sent_ok_def and_then_def res split: prod.splits)
  next
    case False
    then show ?thesis using assms(1) by (simp add: sent_ok_def and_then_def res)
  qed
qed

lemma sent_ok_weaken: "sent_ok r res P \<Longrightarrow> (\<And>s r'. P s r' \<Longrightarrow> Q s r') \<Longrightarrow> sent_ok r res Q"
  by (auto simp: sent_ok_def)

lemma sent_heartbeat:
  "\<not> rv_resync r \<Longrightarrow> Q s r \<Longrightarrow> (\<And>n t. Q s r \<Longrightarrow> Q (s\<lparr>es_streamSeq := n, es_lastPacketMs := t\<rparr>) r) \<Longrightarrow>
     sent_ok r (heartbeat_stage i s) Q"
  by (auto simp: sent_ok_def heartbeat_stage_def sendHeartbeat_def go_on_def packet_consts
      recv_packet [of _ _ _ "[]", simplified] split: prod.splits)

lemma sent_full:
  assumes "wire_wf ext" and "\<not> rv_resync r" and "type = kPacketCurrentRecord \<or> type = kPacketFinalRecord"
    and "\<And>chunks. encodeCompact ext = Some chunks \<Longrightarrow>
      Q (s\<lparr>es_streamSeq := es_streamSeq s + 1, es_lastPacketMs := t\<rparr>)
        (if type = kPacketCurrentRecord then recv_current q (concat chunks) r else recv_final q (concat chunks) r)"
  shows "sent_ok r (sendFullRecord wr t type ext q s) Q"
proof (cases "encodeCompact ext")
  case None
  then show ?thesis using assms(2) by (simp add: sent_ok_def sendFullRecord_def split: prod.splits bool.splits)
next
  case (Some chunks)
  obtain ok n where sz: "encodeCompactSize ext = (ok, n)" by (metis surj_pair)
  show ?thesis
  proof (cases "ok \<and> length (concat chunks) = n \<and> wr")
    case True
    then show ?thesis
      using assms(2,3) assms(4) [OF Some] recv_record [OF assms(1) Some]
      by (auto simp: sent_ok_def sendFullRecord_def Some sz recv_packet packet_consts)
  next
    case False
    then show ?thesis using assms(2) by (cases ok) (auto simp: sent_ok_def sendFullRecord_def Some sz)
  qed
qed

text \<open>The stages of a turn. After the display stage the display number is this turn's.\<close>

lemma sent_display:
  assumes "in_step s r acc (i # is)" and "display_known s acc (i # is)" and "feed_ok (i # is)" and "\<not> rv_resync r"
  shows "sent_ok r (display_stage i s)
     (\<lambda>s1 r1. in_step s1 r1 (st_acceptedSeq (si_status i)) (i # is)
        \<and> es_lastDisplaySeq s1 = st_displayShotSeq (si_status i))"
proof (cases "st_displayShotSeq (si_status i) = es_lastDisplaySeq s")
  case True
  then have "acc = st_acceptedSeq (si_status i)" using assms(2) by (simp add: display_known_def)
  then show ?thesis using True assms(1,4) by (simp add: display_stage_def sent_ok_go_on)
next
  case False
  have wf: "wire_wf (fst (si_display i))" using assms(3) by (simp add: copy_ok_def)
  have "sent_ok r (sendDisplayRecord i s)
     (\<lambda>s1 r1. in_step s1 r1 (st_acceptedSeq (si_status i)) (i # is)
        \<and> es_lastDisplaySeq s1 = st_displayShotSeq (si_status i))"
    unfolding sendDisplayRecord_def
  proof (rule sent_ok_and_then [where P = "\<lambda>s1 r1. True"])
    show "sent_ok r (if st_hasDisplayShot (si_status i)
        then (case (si_display i, si_displayWrite i) of
                ((ext, recordSeq), wr, t) \<Rightarrow> sendFullRecord wr t kPacketFinalRecord ext recordSeq s)
        else go_on s) (\<lambda>s1 r1. True)"
      using wf assms(4) by (auto intro: sent_ok_go_on sent_full split: prod.splits)
  qed (auto intro!: sent_ok_go_on simp: in_step_def)
  then show ?thesis using False by (simp add: display_stage_def)
qed

lemma sent_current:
  assumes "wire_wf ext" and "\<not> rv_resync r" and "ex_beginMs ext \<noteq> 0" and "continues ext False is"
  shows "sent_ok r (sendCurrentRecord wr t ext q s)
     (\<lambda>s1 r1. es_lastDisplaySeq s1 = es_lastDisplaySeq s \<and> in_step s1 r1 q is \<and> holds_shot r1 q ext)"
proof -
  have "sendCurrentRecord wr t ext q s = and_then (sendFullRecord wr t kPacketCurrentRecord ext q s)
     (\<lambda>s1. go_on (s1\<lparr>es_lastInFlightBeginMs := ex_beginMs ext, es_lastSentRecordPhase := ex_phase ext,
              es_lastSentRecordInit := True, es_lastSentSampleIdx := length (ex_samples ext),
              es_lastSentTMs := if ex_samples ext = [] then ex_beginMs ext else sm_tMs (last (ex_samples ext)),
              es_lastSentCg := if ex_samples ext = [] then 0 else scast (sm_cg (last (ex_samples ext)))\<rparr>))"
    by (simp add: sendCurrentRecord_def and_then_def go_on_def split: prod.splits bool.splits)
  moreover have "sent_ok r (sendFullRecord wr t kPacketCurrentRecord ext q s)
      (\<lambda>s1 r1. es_lastDisplaySeq s1 = es_lastDisplaySeq s \<and> holds_shot r1 q ext)"
    by (rule sent_full) (use assms recv_record(1) [OF assms(1)] in \<open>auto simp: holds_shot_def wire_norm_def\<close>)
  ultimately show ?thesis
    using assms(3,4)
    by (auto intro!: sent_ok_and_then [where P = "\<lambda>s1 r1. es_lastDisplaySeq s1 = es_lastDisplaySeq s \<and> holds_shot r1 q ext"] sent_ok_go_on
        simp: in_step_def cursor_at_def)
qed

lemma sent_batch:
  assumes "wire_wf ext" and "\<not> rv_resync r" and "ex_beginMs ext \<noteq> 0" and "continues ext False is"
    and "es_lastSentRecordInit s" and "cursor_at e s" and "holds_shot r q e" and "ex_beginMs ext = ex_beginMs e"
    and "take (length (ex_samples e)) (ex_samples ext) = ex_samples e" "length (ex_samples e) < length (ex_samples ext)"
  shows "sent_ok r (sendSampleBatch wr t ext q s)
     (\<lambda>s1 r1. es_lastDisplaySeq s1 = es_lastDisplaySeq s \<and> in_step s1 r1 q is \<and> holds_shot r1 q ext)"
proof -
  have idx: "es_lastSentSampleIdx s = length (ex_samples e)" using assms(6) by (simp add: cursor_at_def)
  have parse: "parse_batch (batch_payload ext s) = Some (length (ex_samples e), drop (length (ex_samples e)) (ex_samples ext))"
    by (rule parse_batch_payload [OF assms(6,1)]) (use assms(10) in simp)
  have whole: "ex_samples e @ drop (length (ex_samples e)) (ex_samples ext) = ex_samples ext"
    using assms(9) append_take_drop_id [of "length (ex_samples e)" "ex_samples ext"] by simp
  obtain c where c: "rv_inflight r = Some (q, c)" "ex_samples c = ex_samples e" "ex_beginMs c = ex_beginMs e"
    using assms(7) by (auto simp: holds_shot_def)
  have recv: "recv_batch q (batch_payload ext s) r = r\<lparr>rv_inflight := Some (q, c\<lparr>ex_samples := ex_samples ext\<rparr>)\<rparr>"
    using parse c whole by (simp add: recv_batch_def)
  have ne: "ex_samples ext \<noteq> []" using assms(10) by auto
  show ?thesis
    using assms(2,3,4,5,6,8,10) idx recv c(3) ne
    by (auto simp: sent_ok_def sendSampleBatch_def samples_size_bytes recv_packet packet_consts in_step_def cursor_at_def
        holds_shot_def intro!: exI [of _ ext])
qed


text \<open>A status and a record copied in the same turn that speak of the same running shot.\<close>

definition shot_in_flight :: "stream_input \<Rightarrow> bool" where
  "shot_in_flight i \<longleftrightarrow>
     (let snap = si_status i; ext = rec_of i in
      st_active snap \<and> st_currentPhase snap \<noteq> phase_byte PHASE_IDLE \<and> record_active ext
      \<and> snd (si_record i) = st_acceptedSeq snap \<and> st_currentBeginMs snap = ex_beginMs ext
      \<and> st_currentSampleCount snap \<le> length (ex_samples ext))"

definition up_to_date :: "receiver \<Rightarrow> stream_input \<Rightarrow> bool" where
  "up_to_date r i \<longleftrightarrow>
     (\<exists>e. rv_inflight r = Some (st_acceptedSeq (si_status i), e) \<and> ex_beginMs e = ex_beginMs (rec_of i)
        \<and> take (length (ex_samples e)) (ex_samples (rec_of i)) = ex_samples e
        \<and> st_currentSampleCount (si_status i) \<le> length (ex_samples e))"

definition idle_status :: "stream_input \<Rightarrow> bool" where
  "idle_status i \<longleftrightarrow> st_currentPhase (si_status i) = phase_byte PHASE_IDLE"

text \<open>After the record stage: an idle status may still take the shot in flight away.\<close>

definition recorded :: "stream_input \<Rightarrow> stream_input list \<Rightarrow> stream_session \<Rightarrow> receiver \<Rightarrow> bool" where
  "recorded i is s r \<longleftrightarrow>
     es_lastDisplaySeq s = st_displayShotSeq (si_status i)
     \<and> (if es_lastSentRecordInit s
        then \<exists>e idle. ex_beginMs e \<noteq> 0 \<and> cursor_at e s \<and> continues e idle is \<and> (idle_status i \<longrightarrow> idle)
               \<and> (\<not> idle \<longrightarrow> holds_shot r (st_acceptedSeq (si_status i)) e)
        else es_lastInFlightBeginMs s = 0)
     \<and> (shot_in_flight i \<longrightarrow> up_to_date r i)"

lemma holds_up_to_date:
  "holds_shot r (st_acceptedSeq (si_status i)) (rec_of i) \<Longrightarrow> shot_in_flight i \<Longrightarrow> up_to_date r i"
  by (auto simp: holds_shot_def up_to_date_def shot_in_flight_def Let_def)

lemma recorded_in_step:
  assumes "in_step s r (st_acceptedSeq (si_status i)) is" and "holds_shot r (st_acceptedSeq (si_status i)) (rec_of i)"
    and "es_lastDisplaySeq s = st_displayShotSeq (si_status i)" and "\<not> idle_status i"
  shows "recorded i is s r"
  using assms holds_up_to_date by (auto simp: recorded_def in_step_def)

text \<open>The record stage when it sends nothing.\<close>

lemma recorded_quiet:
  assumes "in_step s r (st_acceptedSeq (si_status i)) (i # is)" and "es_lastDisplaySeq s = st_displayShotSeq (si_status i)"
    and "shot_in_flight i \<Longrightarrow> es_lastSentRecordInit s \<and> ex_beginMs (rec_of i) = es_lastInFlightBeginMs s
          \<and> st_currentSampleCount (si_status i) \<le> es_lastSentSampleIdx s"
  shows "recorded i is s r"
proof (cases "es_lastSentRecordInit s")
  case False
  then show ?thesis using assms by (auto simp: recorded_def in_step_def)
next
  case True
  then obtain e idle where e: "ex_beginMs e \<noteq> 0" "cursor_at e s" "continues e idle (i # is)"
      "\<not> idle \<longrightarrow> holds_shot r (st_acceptedSeq (si_status i)) e"
    using assms(1) by (auto simp: in_step_def)
  have later: "continues e (idle \<or> idle_status i) is" using e(3) by (simp add: Let_def idle_status_def)
  have "up_to_date r i" if "shot_in_flight i"
  proof -
    have same: "ex_beginMs (rec_of i) = ex_beginMs e" "st_currentSampleCount (si_status i) \<le> length (ex_samples e)"
      using assms(3) [OF that] e(2) by (simp_all add: cursor_at_def)
    then have "\<not> idle" "take (length (ex_samples e)) (ex_samples (rec_of i)) = ex_samples e"
      using e(3) that by (auto simp: Let_def shot_in_flight_def)
    then show ?thesis using e(4) same by (auto simp: holds_shot_def up_to_date_def)
  qed
  then show ?thesis using True assms(2) e later by (auto simp: recorded_def)
qed

lemma sent_record:
  assumes "in_step s r (st_acceptedSeq (si_status i)) (i # is)" and "es_lastDisplaySeq s = st_displayShotSeq (si_status i)"
    and "feed_ok (i # is)" and "\<not> rv_resync r"
  shows "sent_ok r (record_stage i s) (recorded i is)"
proof -
  let ?snap = "si_status i" let ?ext = "rec_of i" let ?acc = "st_acceptedSeq (si_status i)"
  obtain wr t where w: "si_recordWrite i = (wr, t)" by (metis surj_pair)
  have rec: "si_record i = (?ext, snd (si_record i))" by (simp add: rec_of_def)
  have wf: "wire_wf ?ext" using assms(3) by (simp add: copy_ok_def)
  define wanted where "wanted \<longleftrightarrow> st_active ?snap \<and> st_currentPhase ?snap \<noteq> phase_byte PHASE_IDLE
         \<and> (st_currentBeginMs ?snap \<noteq> es_lastInFlightBeginMs s
            \<or> es_lastSentRecordInit s \<and> st_currentPhase ?snap \<noteq> es_lastSentRecordPhase s
            \<or> es_lastSentSampleIdx s < st_currentSampleCount ?snap)"
  define fresh where "fresh \<longleftrightarrow> ex_beginMs ?ext \<noteq> es_lastInFlightBeginMs s
            \<or> es_lastSentRecordInit s \<and> ex_phase ?ext \<noteq> es_lastSentRecordPhase s"
  have stage: "record_stage i s = (if wanted \<and> record_active ?ext \<and> snd (si_record i) = ?acc
      then if fresh then sendCurrentRecord wr t ?ext ?acc s
           else if es_lastSentSampleIdx s < length (ex_samples ?ext) then sendSampleBatch wr t ?ext ?acc s else go_on s
      else go_on s)"
    unfolding record_stage_def wanted_def fresh_def by (subst rec) (auto simp: w Let_def)
  have init: "es_lastSentRecordInit s" if "ex_beginMs ?ext = es_lastInFlightBeginMs s" "record_active ?ext"
    using assms(1,3) that by (auto simp: in_step_def copy_ok_def split: if_splits)
  show ?thesis
  proof (cases "wanted \<and> record_active ?ext \<and> snd (si_record i) = ?acc")
    case False
    have "recorded i is s r"
    proof (rule recorded_quiet [OF assms(1,2)])
      assume f: "shot_in_flight i"
      then have "ex_beginMs ?ext = es_lastInFlightBeginMs s" "st_currentSampleCount ?snap \<le> es_lastSentSampleIdx s"
        using False by (auto simp: shot_in_flight_def wanted_def Let_def)
      then show "es_lastSentRecordInit s \<and> ex_beginMs ?ext = es_lastInFlightBeginMs s
          \<and> st_currentSampleCount ?snap \<le> es_lastSentSampleIdx s"
        using f init by (auto simp: shot_in_flight_def Let_def)
    qed
    then show ?thesis using assms(4) False unfolding stage by (auto intro: sent_ok_go_on)
  next
    case True
    have ids: "\<not> idle_status i" using True by (simp add: wanted_def idle_status_def)
    have more_ok: "ex_beginMs ?ext \<noteq> 0" "continues ?ext False is" using assms(3) True by (auto simp: copy_ok_def)
    show ?thesis
    proof (cases fresh)
      case True
      have "sent_ok r (sendCurrentRecord wr t ?ext ?acc s) (recorded i is)"
        by (rule sent_ok_weaken [OF sent_current [OF wf assms(4) more_ok]]) (use assms(2) ids in \<open>auto intro: recorded_in_step\<close>)
      then show ?thesis using \<open>wanted \<and> _ \<and> _\<close> True unfolding stage by simp
    next
      case False
      then have b: "ex_beginMs ?ext = es_lastInFlightBeginMs s" by (simp add: fresh_def)
      have ini: "es_lastSentRecordInit s" using init b True by simp
      then obtain e idle where e: "cursor_at e s" "continues e idle (i # is)" "\<not> idle \<longrightarrow> holds_shot r ?acc e"
        using assms(1) by (auto simp: in_step_def)
      have same: "ex_beginMs ?ext = ex_beginMs e" using e(1) b by (simp add: cursor_at_def)
      then have pre: "\<not> idle" "take (length (ex_samples e)) (ex_samples ?ext) = ex_samples e" "length (ex_samples e) \<le> length (ex_samples ?ext)"
        using e(2) True by (auto simp: Let_def)
      have idx: "es_lastSentSampleIdx s = length (ex_samples e)" using e(1) by (simp add: cursor_at_def)
      show ?thesis
      proof (cases "es_lastSentSampleIdx s < length (ex_samples ?ext)")
        case longer: True
        have "sent_ok r (sendSampleBatch wr t ?ext ?acc s) (recorded i is)"
          by (rule sent_ok_weaken [OF sent_batch [OF wf assms(4) more_ok ini e(1) _ same pre(2)]])
            (use assms(2) ids e(3) pre(1) idx longer in \<open>auto intro: recorded_in_step\<close>)
        then show ?thesis using \<open>wanted \<and> _ \<and> _\<close> False longer unfolding stage by simp
      next
        case shorter: False
        have "recorded i is s r"
          by (rule recorded_quiet [OF assms(1,2)]) (use ini b idx shorter in \<open>auto simp: shot_in_flight_def Let_def\<close>)
        then show ?thesis using \<open>wanted \<and> _ \<and> _\<close> False shorter assms(4) unfolding stage by (auto intro: sent_ok_go_on)
      qed
    qed
  qed
qed


lemma in_step_cong:
  assumes "es_lastSentRecordInit s' = es_lastSentRecordInit s" and "es_lastInFlightBeginMs s' = es_lastInFlightBeginMs s"
    and "es_lastSentSampleIdx s' = es_lastSentSampleIdx s" and "es_lastSentTMs s' = es_lastSentTMs s"
    and "es_lastSentCg s' = es_lastSentCg s" and "rv_inflight r' = rv_inflight r"
  shows "in_step s' r' acc is = in_step s r acc is"
  by (simp only: in_step_def cursor_at_def holds_shot_def assms)

lemma sent_state:
  assumes "recorded i is s r" and "\<not> rv_resync r"
  shows "sent_ok r (state_stage i s)
     (\<lambda>s1 r1. in_step s1 r1 (st_acceptedSeq (si_status i)) is \<and> es_lastDisplaySeq s1 = st_displayShotSeq (si_status i)
        \<and> (shot_in_flight i \<longrightarrow> up_to_date r1 i))"
proof -
  have quiet: "es_lastDisplaySeq s = st_displayShotSeq (si_status i)" "shot_in_flight i \<longrightarrow> up_to_date r i"
    using assms(1) by (simp_all add: recorded_def)
  have step: "in_step s r (st_acceptedSeq (si_status i)) is"
    using assms(1) unfolding recorded_def in_step_def by (cases "es_lastSentRecordInit s") (simp_all, blast)
  have sent: "in_step (s\<lparr>es_streamSeq := n, es_lastSentState := x, es_lastStateMs := t, es_lastPacketMs := t\<rparr>)
        (recv_state q (state_payload (si_status i)) r) (st_acceptedSeq (si_status i)) is
      \<and> (shot_in_flight i \<longrightarrow> up_to_date (recv_state q (state_payload (si_status i)) r) i)" for n x t q
  proof (cases "idle_status i")
    case True
    have not_live: "\<not> shot_in_flight i" using True by (simp add: shot_in_flight_def idle_status_def Let_def)
    show ?thesis
    proof (cases "es_lastSentRecordInit s")
      case init: True
      then obtain e where "ex_beginMs e \<noteq> 0" "cursor_at e s" "continues e True is"
        using assms(1) True by (auto simp: recorded_def)
      then show ?thesis using init not_live by (auto simp: in_step_def cursor_at_def intro!: exI [of _ e] exI [of _ True])
    qed (use assms(1) not_live in \<open>simp add: recorded_def in_step_def\<close>)
  next
    case False
    then have same: "rv_inflight (recv_state q (state_payload (si_status i)) r) = rv_inflight r"
      by (simp add: recv_state_def state_payload_def idle_status_def)
    then have "in_step (s\<lparr>es_streamSeq := n, es_lastSentState := x, es_lastStateMs := t, es_lastPacketMs := t\<rparr>)
        (recv_state q (state_payload (si_status i)) r) (st_acceptedSeq (si_status i)) is"
      using step by (subst in_step_cong [where s = s and r = r]) simp_all
    then show ?thesis using quiet(2) same by (simp add: up_to_date_def)
  qed
  show ?thesis
    using quiet step sent assms(2)
    by (auto simp: sent_ok_def state_stage_def sendState_def go_on_def recv_packet packet_consts recv_state_def split: prod.splits)
qed

lemma in_step_frame:
  assumes "in_step s r acc (i # is)"
  shows "in_step s r acc is"
proof (cases "es_lastSentRecordInit s")
  case True
  then obtain e idle where e: "ex_beginMs e \<noteq> 0" "cursor_at e s" "continues e idle (i # is)" "\<not> idle \<longrightarrow> holds_shot r acc e"
    using assms by (auto simp: in_step_def)
  then have "continues e (idle \<or> idle_status i) is" by (simp add: Let_def idle_status_def)
  then show ?thesis using True e by (auto simp: in_step_def)
qed (use assms in \<open>simp add: in_step_def\<close>)

lemma sent_tickle:
  assumes "in_step s r acc (i # is)" and "display_known s acc (i # is)" and "feed_ok (i # is)" and "\<not> rv_resync r"
  shows "sent_ok r (tickle_stages i s)
     (\<lambda>s1 r1. in_step s1 r1 (es_snapAcceptedSeq s1) is \<and> display_known s1 (es_snapAcceptedSeq s1) is
        \<and> (shot_in_flight i \<longrightarrow> up_to_date r1 i))"
  unfolding tickle_stages_def
proof (rule sent_ok_and_then [OF sent_ok_and_then [OF sent_ok_and_then [OF sent_display [OF assms]]]])
  show "sent_ok r' (record_stage i s1) (recorded i is)" if "\<not> rv_resync r'"
      "in_step s1 r' (st_acceptedSeq (si_status i)) (i # is) \<and> es_lastDisplaySeq s1 = st_displayShotSeq (si_status i)" for s1 r'
    using sent_record assms(3) that by blast
  show "sent_ok r' (state_stage i s1)
     (\<lambda>s1 r1. in_step s1 r1 (st_acceptedSeq (si_status i)) is \<and> es_lastDisplaySeq s1 = st_displayShotSeq (si_status i)
        \<and> (shot_in_flight i \<longrightarrow> up_to_date r1 i))" if "\<not> rv_resync r'" "recorded i is s1 r'" for s1 r'
    using sent_state that by blast
qed (use assms(3) in \<open>auto intro!: sent_ok_go_on simp: keep_status_def in_step_def cursor_at_def display_known_def\<close>)

definition tracked :: "stream_session \<Rightarrow> receiver \<Rightarrow> stream_input list \<Rightarrow> bool" where
  "tracked s r is \<longleftrightarrow> in_step s r (es_snapAcceptedSeq s) is \<and> display_known s (es_snapAcceptedSeq s) is"

lemma sent_turn:
  assumes "tracked s r (i # is)" and "feed_ok (i # is)" and "\<not> rv_resync r"
  shows "sent_ok r (stream_turn i s)
     (\<lambda>s1 r1. tracked s1 r1 is \<and> (si_liveSeq i \<noteq> es_lastSeenLiveSeq s \<longrightarrow> shot_in_flight i \<longrightarrow> up_to_date r1 i))"
  unfolding stream_turn_def
proof (rule sent_ok_and_then [where P = "\<lambda>s1 r1. tracked s1 r1 is
      \<and> (si_liveSeq i \<noteq> es_lastSeenLiveSeq s \<longrightarrow> shot_in_flight i \<longrightarrow> up_to_date r1 i)"])
  show "sent_ok r (if si_liveSeq i \<noteq> es_lastSeenLiveSeq s
        then tickle_stages i (s\<lparr>es_lastSeenLiveSeq := si_liveSeq i\<rparr>) else go_on s) (\<lambda>s1 r1. tracked s1 r1 is
      \<and> (si_liveSeq i \<noteq> es_lastSeenLiveSeq s \<longrightarrow> shot_in_flight i \<longrightarrow> up_to_date r1 i))"
  proof (cases "si_liveSeq i = es_lastSeenLiveSeq s")
    case True
    then show ?thesis
      using assms(1,3) in_step_frame by (auto intro!: sent_ok_go_on simp: tracked_def display_known_def)
  next
    case False
    let ?s = "s\<lparr>es_lastSeenLiveSeq := si_liveSeq i\<rparr>"
    have "in_step ?s r (es_snapAcceptedSeq s) (i # is)" "display_known ?s (es_snapAcceptedSeq s) (i # is)"
      using assms(1) in_step_cong [of ?s s r r] by (simp_all add: tracked_def display_known_def)
    then show ?thesis
      using sent_ok_weaken [OF sent_tickle [OF _ _ assms(2,3)]] False by (simp add: tracked_def)
  qed
  have beat: "tracked (s1\<lparr>es_streamSeq := n, es_lastPacketMs := t\<rparr>) r1 is" if "tracked s1 r1 is" for s1 r1 n t
    using that in_step_cong [of "s1\<lparr>es_streamSeq := n, es_lastPacketMs := t\<rparr>" s1 r1 r1] by (simp add: tracked_def display_known_def)
  show "sent_ok r' (heartbeat_stage i s1) (\<lambda>s1 r1. tracked s1 r1 is
      \<and> (si_liveSeq i \<noteq> es_lastSeenLiveSeq s \<longrightarrow> shot_in_flight i \<longrightarrow> up_to_date r1 i))"
    if "\<not> rv_resync r'" "tracked s1 r' is \<and> (si_liveSeq i \<noteq> es_lastSeenLiveSeq s \<longrightarrow> shot_in_flight i \<longrightarrow> up_to_date r' i)" for s1 r'
    by (rule sent_heartbeat) (use that beat in auto)
qed

lemma feed_ok_append: "feed_ok (is @ js) \<Longrightarrow> feed_ok js"
  by (induction "is") auto

lemma sent_loop:
  assumes "tracked s r (is @ js)" and "feed_ok (is @ js)" and "\<not> rv_resync r"
  shows "sent_ok r (stream_loop s is) (\<lambda>s1 r1. tracked s1 r1 js)"
  using assms
proof (induction "is" arbitrary: s r)
  case (Cons i "is")
  have "sent_ok r (stream_turn i s) (\<lambda>s1 r1. tracked s1 r1 (is @ js))"
    by (rule sent_ok_weaken [OF sent_turn]) (use Cons.prems in auto)
  then show ?case
    using Cons by (auto intro!: sent_ok_and_then [where P = "\<lambda>s1 r1. tracked s1 r1 (is @ js)"])
qed (simp add: sent_ok_go_on)

lemma and_then_assoc: "and_then (and_then r f) g = and_then r (\<lambda>s. and_then (f s) g)"
  by (auto simp: and_then_def split: prod.splits bool.splits)

lemma and_then_go_on: "and_then (go_on s) f = f s" "and_then r go_on = r"
  by (auto simp: and_then_def go_on_def split: prod.splits bool.splits)

lemma stream_loop_snoc: "stream_loop s (is @ [i]) = and_then (stream_loop s is) (stream_turn i)"
  by (induction "is" arbitrary: s) (simp_all add: and_then_assoc and_then_go_on)

lemma runSession_snoc: "runSession i0 (is @ [i]) = and_then (runSession i0 is) (stream_turn i)"
  by (simp add: runSession_def stream_loop_snoc and_then_assoc)

lemma sent_open:
  assumes "feed_ok (i # is)"
  shows "sent_ok rv_init (stream_open i) (\<lambda>s r. tracked s r is)"
proof -
  let ?acc = "st_acceptedSeq (si_status i)"
  let ?opened = "\<lambda>s r. \<not> es_lastSentRecordInit s \<and> es_lastInFlightBeginMs s = 0 \<and> es_lastDisplaySeq s = st_displayShotSeq (si_status i)"
  let ?ready = "\<lambda>s r. es_lastDisplaySeq s = st_displayShotSeq (si_status i) \<and> in_step s r ?acc is"
  have wf: "wire_wf (fst (si_display i))" "wire_wf (rec_of i)"
    and live: "record_active (rec_of i) \<Longrightarrow> ex_beginMs (rec_of i) \<noteq> 0 \<and> continues (rec_of i) False is"
    and known: "\<forall>j \<in> set is. st_displayShotSeq (si_status j) = st_displayShotSeq (si_status i) \<longrightarrow> st_acceptedSeq (si_status j) = ?acc"
    using assms by (simp_all add: copy_ok_def)
  have init: "\<not> rv_resync rv_init" by (simp add: rv_init_def)
  show ?thesis unfolding stream_open_def
  proof (rule sent_ok_and_then [where P = ?ready, OF sent_ok_and_then [where P = ?opened,
        OF sent_ok_and_then [where P = "\<lambda>s r. True"]]])
    show "sent_ok rv_init (case si_stateWrite i of (wr, t) \<Rightarrow>
        sendState wr t (si_status i) (es_init\<lparr>es_lastSeenLiveSeq := si_liveSeq i\<rparr>)) (\<lambda>s r. True)"
      using init by (auto simp: sent_ok_def sendState_def recv_packet packet_consts recv_state_def split: prod.splits)
    show "sent_ok r (sendDisplayRecord i s) ?opened" if "\<not> rv_resync r" for s r
      unfolding sendDisplayRecord_def
    proof (rule sent_ok_and_then [where P = "\<lambda>s1 r1. True"])
      show "sent_ok r (if st_hasDisplayShot (si_status i)
        then (case (si_display i, si_displayWrite i) of
                ((ext, recordSeq), wr, t) \<Rightarrow> sendFullRecord wr t kPacketFinalRecord ext recordSeq s)
        else go_on s) (\<lambda>s1 r1. True)"
        using wf that by (auto intro: sent_ok_go_on sent_full split: prod.splits)
    qed (auto intro!: sent_ok_go_on)
    show "sent_ok r (first_record_stage i s) ?ready" if r: "\<not> rv_resync r" and o: "?opened s r" for s r
    proof -
      have quiet: "?ready s r" using o by (simp add: in_step_def)
      have "sent_ok r (sendCurrentRecord wr t ext ?acc s) ?ready"
        if "si_record i = (ext, ?acc)" "record_active ext" for wr t ext
      proof -
        have e: "ext = rec_of i" using that by (simp add: rec_of_def)
        show ?thesis unfolding e
          by (rule sent_ok_weaken [OF sent_current]) (use wf r live that e o in auto)
      qed
      then show ?thesis using quiet r by (auto simp: first_record_stage_def Let_def intro: sent_ok_go_on split: prod.splits)
    qed
    show "sent_ok r (go_on (s\<lparr>es_lastPacketMs := si_heartbeatNow i, es_snapAcceptedSeq := ?acc\<rparr>)) (\<lambda>s r. tracked s r is)"
      if "\<not> rv_resync r" "?ready s r" for s r
      using that known in_step_cong [of "s\<lparr>es_lastPacketMs := si_heartbeatNow i, es_snapAcceptedSeq := ?acc\<rparr>" s r r]
      by (auto intro!: sent_ok_go_on simp: tracked_def display_known_def)
  qed
qed


lemma sent_session:
  assumes "feed_ok (i0 # is @ js)"
  shows "sent_ok rv_init (runSession i0 is) (\<lambda>s r. tracked s r js)"
  unfolding runSession_def
  by (rule sent_ok_and_then [OF sent_open [OF assms]]) (use assms sent_loop in auto)


section \<open>The status on the screen\<close>

text \<open>What a browser shows at once, and what may lag by the rate limit.\<close>

definition same_display :: "status_snapshot \<Rightarrow> status_snapshot \<Rightarrow> bool" where
  "same_display a b \<longleftrightarrow> state_flags a = state_flags b \<and> st_currentPhase a = st_currentPhase b
     \<and> st_scaleState a = st_scaleState b \<and> st_acceptedSeq a = st_acceptedSeq b \<and> st_savedSeq a = st_savedSeq b
     \<and> st_storageReady a = st_storageReady b"

lemma state_stage_current:
  assumes "state_stage i s = (s1, out, True)"
  shows "\<exists>lst. es_lastSentState s1 = Some lst \<and> same_display lst (si_status i)
     \<and> (si_now i - es_lastStateMs s < kStateMinIntervalMs \<or> state_payload lst = state_payload (si_status i))"
proof (cases "stateShouldSend (si_status i) (si_now i) s")
  case True
  then show ?thesis using assms by (auto simp: state_stage_def sendState_def same_display_def split: prod.splits if_splits)
next
  case False
  then obtain lst where lst: "es_lastSentState s = Some lst" by (auto simp: stateShouldSend_def split: option.splits)
  let ?cur = "si_status i"
  have eq: "st_active ?cur = st_active lst" "st_currentPhase ?cur = st_currentPhase lst" "st_scaleState ?cur = st_scaleState lst"
      "st_acceptedSeq ?cur = st_acceptedSeq lst" "st_savedSeq ?cur = st_savedSeq lst" "st_storageReady ?cur = st_storageReady lst"
      "(st_currentWeightCg ?cur = None) = (st_currentWeightCg lst = None)"
      "(st_currentYieldCg ?cur = None) = (st_currentYieldCg lst = None)"
      "st_currentPouring ?cur = st_currentPouring lst" "decay_candidate ?cur = decay_candidate lst"
      "st_hasDisplayShot ?cur = st_hasDisplayShot lst"
    and slow: "si_now i - es_lastStateMs s < kStateMinIntervalMs \<or> st_currentElapsedMs ?cur = st_currentElapsedMs lst
        \<and> st_currentWeightCg ?cur = st_currentWeightCg lst \<and> st_currentYieldCg ?cur = st_currentYieldCg lst"
    using False unfolding stateShouldSend_def lst option.case by (meson linorder_not_le)+
  have flags: "state_flags lst = state_flags ?cur" by (simp only: state_flags_def eq)
  then have "same_display lst ?cur" by (simp add: same_display_def eq)
  moreover have "si_now i - es_lastStateMs s < kStateMinIntervalMs \<or> state_payload lst = state_payload ?cur"
    using slow flags by (auto simp: state_payload_def eq)
  moreover have "s1 = s" using assms False by (simp add: state_stage_def go_on_def)
  ultimately show ?thesis using lst by blast
qed

lemma and_then_True:
  assumes "and_then r f = (s, out, True)"
  obtains s1 out1 out2 where "r = (s1, out1, True)" "f s1 = (s, out2, True)"
  using assms by (auto simp: and_then_def split: prod.splits bool.splits)

lemma record_frame:
  "fst (record_stage i s) = s1 \<Longrightarrow> es_lastStateMs s1 = es_lastStateMs s"
  by (auto simp: record_stage_def sendCurrentRecord_def sendSampleBatch_def sendFullRecord_def go_on_def Let_def
      split: prod.splits option.splits bool.splits if_splits)

lemma display_frame:
  "fst (display_stage i s) = s1 \<Longrightarrow> es_lastStateMs s1 = es_lastStateMs s"
  by (auto simp: display_stage_def sendDisplayRecord_def and_then_def sendFullRecord_def go_on_def
      split: prod.splits option.splits bool.splits if_splits)


text \<open>Packets are numbered without gaps from zero.\<close>

definition numbered :: "stream_session \<Rightarrow> sent \<Rightarrow> bool" where
  "numbered s r \<longleftrightarrow> (case r of (s1, out, ok) \<Rightarrow>
     es_streamSeq s1 = es_streamSeq s + of_nat (length out)
     \<and> map fst out = map (\<lambda>k. es_streamSeq s + of_nat k) [0..<length out])"


lemma numbered_and_then:
  assumes "numbered s r" and "\<And>s1. numbered s1 (f s1)"
  shows "numbered s (and_then r f)"
proof -
  obtain s1 out ok where r: "r = (s1, out, ok)" by (metis surj_pair)
  obtain s2 out2 ok2 where f: "f s1 = (s2, out2, ok2)" by (metis surj_pair)
  have "map fst out2 = map (\<lambda>k. es_streamSeq s + of_nat (length out) + of_nat k) [0..<length out2]"
    using assms(1) assms(2) [of s1] by (simp add: numbered_def r f)
  also have "\<dots> = map (\<lambda>k. es_streamSeq s + of_nat k) [length out..<length out + length out2]"
    by (rule nth_equalityI) (simp_all add: add.assoc)
  finally show ?thesis
    using assms(1) assms(2) [of s1] upt_add_eq_append [of 0 "length out" "length out2"]
    by (cases ok) (simp_all add: numbered_def r f and_then_def)
qed

lemma numbered_sends:
  "numbered s (go_on s)" "numbered s (sendState wr t snap s)" "numbered s (sendHeartbeat wr t q s)"
  "numbered s (sendFullRecord wr t ty e q s)" "numbered s (sendCurrentRecord wr t e q s)"
  "numbered s (sendSampleBatch wr t e q s)"
  by (auto simp: numbered_def go_on_def sendState_def sendHeartbeat_def sendFullRecord_def sendCurrentRecord_def
      sendSampleBatch_def split: prod.splits option.splits bool.splits)

lemma numbered_frame: "es_streamSeq s = es_streamSeq s' \<Longrightarrow> numbered s r = numbered s' r"
  by (simp add: numbered_def)

lemma numbered_display: "numbered s (sendDisplayRecord i s)"
  unfolding sendDisplayRecord_def
  by (rule numbered_and_then) (auto simp: numbered_sends split: prod.splits, auto simp: numbered_def go_on_def)

lemma numbered_stages:
  "numbered s (display_stage i s)" "numbered s (record_stage i s)" "numbered s (state_stage i s)"
  "numbered s (heartbeat_stage i s)" "numbered s (keep_status i s)" "numbered s (first_record_stage i s)"
  by (auto simp: display_stage_def record_stage_def state_stage_def heartbeat_stage_def first_record_stage_def
      numbered_display numbered_sends Let_def split: prod.splits)
    (simp add: keep_status_def numbered_def go_on_def)

lemma numbered_turn: "numbered s (stream_turn i s)"
proof -
  have "numbered s1 (tickle_stages i s1)" for s1
    unfolding tickle_stages_def by (intro numbered_and_then numbered_stages)
  then show ?thesis
    unfolding stream_turn_def
    using numbered_frame [of s "s\<lparr>es_lastSeenLiveSeq := si_liveSeq i\<rparr>"]
    by (intro numbered_and_then numbered_stages) (auto simp: numbered_sends)
qed

text \<open>Within a connection the packets are numbered from zero without a gap.\<close>

lemma runSession_numbered:
  assumes "runSession i is = (s, out, ok)"
  shows "map fst out = map of_nat [0..<length out]"
proof -
  have loop: "numbered s1 (stream_loop s1 js)" for s1 js
    by (induction js arbitrary: s1) (auto intro: numbered_and_then numbered_turn numbered_sends)
  have "numbered es_init (case si_stateWrite i of (wr, t) \<Rightarrow>
      sendState wr t (si_status i) (es_init\<lparr>es_lastSeenLiveSeq := si_liveSeq i\<rparr>))"
    using numbered_sends(2) [of "es_init\<lparr>es_lastSeenLiveSeq := si_liveSeq i\<rparr>"] numbered_frame [of es_init "es_init\<lparr>es_lastSeenLiveSeq := si_liveSeq i\<rparr>"]
    by (auto split: prod.splits)
  then have "numbered es_init (stream_open i)"
    unfolding stream_open_def
    by (intro numbered_and_then numbered_display numbered_stages) (simp_all add: numbered_def go_on_def)
  then have "numbered es_init (runSession i is)"
    unfolding runSession_def by (intro numbered_and_then loop)
  then show ?thesis using assms by (simp add: numbered_def es_init_def)
qed

section \<open>A session\<close>

definition demo_sample :: "nat \<Rightarrow> sample" where
  "demo_sample k = \<lparr>sm_tMs = of_nat (1000 + 100 * k), sm_cg = of_nat (50 * k), sm_scaleTimerMs = UNKNOWN_MS\<rparr>"

definition demo_pour :: "nat \<Rightarrow> extraction" where
  "demo_pour n = default_extraction\<lparr>ex_version := VERSION_V7, ex_phase := phase_byte PHASE_RUNNING, ex_beginMs := 1000,
     ex_samples := map demo_sample [0..<n]\<rparr>"

definition demo_status :: "nat \<Rightarrow> status_snapshot" where
  "demo_status n = \<lparr>st_active = True, st_currentPhase = phase_byte PHASE_RUNNING, st_acceptedSeq = 3, st_savedSeq = 3,
     st_storageReady = True, st_currentBeginMs = 1000, st_currentElapsedMs = of_nat (100 * n), st_currentSampleCount = n,
     st_scaleState = READY, st_currentWeightCg = Some (of_nat (50 * n)), st_currentWeightSequence = 0,
     st_currentYieldCg = None, st_currentPouring = True, st_pumpSignalState = PumpOn, st_hasDisplayShot = False,
     st_displayShotSeq = 1\<rparr>"

definition demo_look :: "nat \<Rightarrow> stream_input" where
  "demo_look n = \<lparr>si_liveSeq = of_nat n, si_now = of_nat (5000 + 100 * n), si_status = demo_status n,
     si_display = (demo_pour 0, 3), si_record = (demo_pour (Suc n), 3), si_displayWrite = (True, 0), si_recordWrite = (True, 0),
     si_stateWrite = (True, of_nat (5000 + 100 * n)), si_heartbeatNow = 0, si_heartbeatWrite = (True, 0)\<rparr>"


text \<open>One evaluation of the session and the turn after it, for both statements.\<close>

lemma demo_session:
  "case runSession (demo_look 1) [demo_look 2] of (s, out, ok) \<Rightarrow>
     ok \<and> es_lastSeenLiveSeq s = 2 \<and> snd (snd (stream_turn (demo_look 3) s))"
  by code_simp



text \<open>A shot that begins at the time of the last one sent, as replaying one record twice can make it, and in
  the same phase, is taken for its continuation: nothing is sent until it has more samples.\<close>

lemma same_begin_is_silent:
  assumes "es_lastSentRecordInit s" and "ex_beginMs (rec_of i) = es_lastInFlightBeginMs s"
    and "ex_phase (rec_of i) = es_lastSentRecordPhase s" and "length (ex_samples (rec_of i)) \<le> es_lastSentSampleIdx s"
  shows "record_stage i s = go_on s"
  using assms by (auto simp: record_stage_def rec_of_def Let_def split: prod.splits)

end
