(* ===== verification/Wifi.thy ===== *)
theory Wifi
  imports Traces "HOL-Library.Char_ord"
begin

text \<open>
  \<open>src/src/net/WifiManager.h/.cpp\<close>: who decides whether the radio is a client, an access point or off.
  Requests from the screens and the HTTP task wait in one slot; the main task takes them up in
  \<open>update\<close>, after stopping both servers; the Wi-Fi event task reports what the link does. Preferences
  (NVS), the driver's answers and random bytes are parameters; \<open>'n\<close> is the state of the NVS.
\<close>

section \<open>State\<close>

datatype WifiMode = ModeOff | ModeSta | ModeAp
datatype WifiState = RadioOff | StaConnecting | StaConnected | ApUp

fun mode_byte :: "WifiMode \<Rightarrow> u8" where
  "mode_byte ModeOff = 0" | "mode_byte ModeSta = 1" | "mode_byte ModeAp = 2"

definition kStaTimeoutMs :: u32 where "kStaTimeoutMs = 15000"
definition kMaxHostnameLen :: nat where "kMaxHostnameLen = 31"
definition kMaxSsidLen :: nat where "kMaxSsidLen = 32"
definition kMaxPassLen :: nat where "kMaxPassLen = 63"
definition kApPassLen :: nat where "kApPassLen = 8"
definition kApPassCharset :: string where "kApPassCharset = ''abcdefghjkmnpqrstuvwxyz23456789''"
definition kMaxScanResults :: nat where "kMaxScanResults = 15"

text \<open>The reason codes of ESP-IDF.\<close>

definition WIFI_REASON_4WAY_HANDSHAKE_TIMEOUT :: u8 where "WIFI_REASON_4WAY_HANDSHAKE_TIMEOUT = 15"
definition WIFI_REASON_NO_AP_FOUND :: u8 where "WIFI_REASON_NO_AP_FOUND = 201"
definition WIFI_REASON_AUTH_FAIL :: u8 where "WIFI_REASON_AUTH_FAIL = 202"

definition isCredentialFailureReason :: "u8 \<Rightarrow> bool" where
  "isCredentialFailureReason reason \<longleftrightarrow> reason = WIFI_REASON_AUTH_FAIL \<or> reason = WIFI_REASON_4WAY_HANDSHAKE_TIMEOUT"

definition isActionableFailureReason :: "u8 \<Rightarrow> bool" where
  "isActionableFailureReason reason \<longleftrightarrow> isCredentialFailureReason reason \<or> reason = WIFI_REASON_NO_AP_FOUND"

datatype PendingAction = NoAction | ConnectSta | Reset | StartAp | StopWifi | RetrySta

record pending_request =
  pr_action :: PendingAction
  pr_persist :: bool
  pr_terminal :: bool
  pr_ssid :: string
  pr_pass :: string

definition no_request :: pending_request where
  "no_request = \<lparr>pr_action = NoAction, pr_persist = False, pr_terminal = False, pr_ssid = [], pr_pass = []\<rparr>"

text \<open>\<open>Preferences\<close> on the namespace \<open>wifi\<close>: \<open>begin\<close> may fail; a put returns the bytes it wrote.\<close>

record 'n prefs =
  pf_open :: "bool \<Rightarrow> 'n \<Rightarrow> bool"                              \<comment> \<open>read-only?\<close>
  pf_getString :: "string \<Rightarrow> 'n \<Rightarrow> string"                    \<comment> \<open>default: empty\<close>
  pf_putString :: "string \<Rightarrow> string \<Rightarrow> 'n \<Rightarrow> 'n \<times> nat"
  pf_getUChar :: "string \<Rightarrow> 'n \<Rightarrow> u8"                         \<comment> \<open>default: 0\<close>
  pf_putUChar :: "string \<Rightarrow> u8 \<Rightarrow> 'n \<Rightarrow> 'n \<times> nat"
  pf_clear :: "'n \<Rightarrow> 'n"

definition kKeyConfigured :: string where "kKeyConfigured = ''configured''"
definition kKeyMode :: string where "kKeyMode = ''mode''"
definition kKeyStaSsid :: string where "kKeyStaSsid = ''sta_ssid''"
definition kKeyStaPass :: string where "kKeyStaPass = ''sta_pass''"
definition kKeyApPass :: string where "kKeyApPass = ''ap_pass''"
definition kKeyHostname :: string where "kKeyHostname = ''hostname''"

text \<open>What the driver answers during one call.\<close>

record driver =
  dr_softApUp :: bool            \<comment> \<open>\<open>softAP\<close> succeeded\<close>
  dr_offAfterStop :: bool        \<comment> \<open>\<open>wifiDriverIsOff\<close> at the end of \<open>stop\<close>\<close>
  dr_offBefore :: bool           \<comment> \<open>\<open>wifiDriverIsOff\<close> before a conditioning cycle\<close>
  dr_modeSta :: "bool \<times> bool"    \<comment> \<open>\<open>WiFi.mode(WIFI_STA)\<close>, first and second try\<close>
  dr_offAfterCycle :: bool
  dr_random :: "u32 list"        \<comment> \<open>\<open>esp_random\<close>\<close>

record 'n wifi =
  wm_state :: WifiState
  wm_mode :: WifiMode
  wm_apIsFallback :: bool
  wm_staCredsCached :: "bool option"
  wm_configuredCached :: "bool option"
  wm_fallbackSuppressed :: bool
  wm_requestedGeneration :: u32
  wm_completedGeneration :: u32
  wm_attemptedGeneration :: u32
  wm_staAssociated :: bool
  wm_lastDisconnectReason :: u8
  wm_staConnectingStartedMs :: u32
  wm_staSsid :: string
  wm_apPass :: string
  wm_apStations :: u8
  wm_hostname :: string
  wm_pending :: pending_request
  wm_nvs :: 'n

definition wm_init :: "'n \<Rightarrow> 'n wifi" where
  "wm_init nvs = \<lparr>wm_state = RadioOff, wm_mode = ModeOff, wm_apIsFallback = False, wm_staCredsCached = None,
     wm_configuredCached = None, wm_fallbackSuppressed = False, wm_requestedGeneration = 0,
     wm_completedGeneration = 0, wm_attemptedGeneration = 0, wm_staAssociated = False,
     wm_lastDisconnectReason = 0, wm_staConnectingStartedMs = 0, wm_staSsid = [], wm_apPass = [],
     wm_apStations = 0, wm_hostname = [], wm_pending = no_request, wm_nvs = nvs\<rparr>"

text \<open>What the rest of the system sees of a call.\<close>

datatype wifi_event =
    ServersStopped | JoinStarted string | ApStarted bool | RadioStopped bool | DriverRestored
  | ConfigWiped | ConnectTimeout u8 | ConditioningFailed | ConditioningDone
  | LinkAssociated | LinkGotIp | LinkDropped u8

section \<open>Requests\<close>

definition post :: "pending_request \<Rightarrow> 'n wifi \<Rightarrow> 'n wifi" where
  "post r s =
     (let locked = (pr_terminal (wm_pending s) \<or> pr_action (wm_pending s) = Reset \<and> pr_action r \<noteq> Reset)
      in if locked then s else s\<lparr>wm_pending := r\<rparr>)"

definition hasPendingAction :: "'n wifi \<Rightarrow> bool" where
  "hasPendingAction s \<longleftrightarrow> pr_action (wm_pending s) \<noteq> NoAction"

definition requestConnectSta :: "string \<Rightarrow> string \<Rightarrow> 'n wifi \<Rightarrow> 'n wifi" where
  "requestConnectSta ssid pass = post (no_request\<lparr>pr_action := ConnectSta, pr_ssid := ssid, pr_pass := pass\<rparr>)"

definition requestReset :: "bool \<Rightarrow> 'n wifi \<Rightarrow> 'n wifi" where
  "requestReset terminal = post (no_request\<lparr>pr_action := Reset, pr_terminal := terminal\<rparr>)"

definition requestStartAp :: "'n wifi \<Rightarrow> 'n wifi" where
  "requestStartAp = post (no_request\<lparr>pr_action := StartAp\<rparr>)"

definition requestStop :: "bool \<Rightarrow> 'n wifi \<Rightarrow> 'n wifi" where
  "requestStop persist = post (no_request\<lparr>pr_action := StopWifi, pr_persist := persist\<rparr>)"

definition requestRetrySta :: "bool \<Rightarrow> 'n wifi \<Rightarrow> 'n wifi" where
  "requestRetrySta persist = post (no_request\<lparr>pr_action := RetrySta, pr_persist := persist\<rparr>)"

section \<open>What is stored\<close>

definition loadStaCreds :: "'n prefs \<Rightarrow> 'n wifi \<Rightarrow> (string \<times> string) option" where
  "loadStaCreds pf s =
     (if pf_open pf True (wm_nvs s)
      then Some (pf_getString pf kKeyStaSsid (wm_nvs s), pf_getString pf kKeyStaPass (wm_nvs s)) else None)"

definition saveStaCreds :: "'n prefs \<Rightarrow> string \<Rightarrow> string \<Rightarrow> 'n wifi \<Rightarrow> 'n wifi" where
  "saveStaCreds pf ssid pass s =
     (let s1 = s\<lparr>wm_staCredsCached := None\<rparr> in
      if \<not> pf_open pf False (wm_nvs s1) then s1
      else s1\<lparr>wm_nvs := fst (pf_putString pf kKeyStaPass pass (fst (pf_putString pf kKeyStaSsid ssid (wm_nvs s1))))\<rparr>)"

definition persistMode :: "'n prefs \<Rightarrow> WifiMode \<Rightarrow> 'n wifi \<Rightarrow> 'n wifi" where
  "persistMode pf m s =
     (if \<not> pf_open pf False (wm_nvs s) then s
      else s\<lparr>wm_nvs := fst (pf_putUChar pf kKeyMode (mode_byte m) (wm_nvs s))\<rparr>)"

definition persistedMode :: "'n prefs \<Rightarrow> 'n wifi \<Rightarrow> u8" where
  "persistedMode pf s = (if \<not> pf_open pf True (wm_nvs s) then 0 else pf_getUChar pf kKeyMode (wm_nvs s))"

definition markConfigured :: "'n prefs \<Rightarrow> 'n wifi \<Rightarrow> 'n wifi" where
  "markConfigured pf s =
     (if \<not> pf_open pf False (wm_nvs s) then s
      else (case pf_putUChar pf kKeyConfigured 1 (wm_nvs s) of (nvs, n) \<Rightarrow>
              if n = 0 then s\<lparr>wm_nvs := nvs\<rparr> else s\<lparr>wm_nvs := nvs, wm_configuredCached := Some True\<rparr>))"

definition isConfigured :: "'n prefs \<Rightarrow> 'n wifi \<Rightarrow> 'n wifi \<times> bool" where
  "isConfigured pf s =
     (case wm_configuredCached s of
        Some b \<Rightarrow> (s, b)
      | None \<Rightarrow>
          if \<not> pf_open pf True (wm_nvs s) then (s, False)
          else let b = (pf_getUChar pf kKeyConfigured (wm_nvs s) \<noteq> 0) in (s\<lparr>wm_configuredCached := Some b\<rparr>, b))"

definition hasStaCreds :: "'n prefs \<Rightarrow> 'n wifi \<Rightarrow> 'n wifi \<times> bool" where
  "hasStaCreds pf s =
     (case wm_staCredsCached s of
        Some b \<Rightarrow> (s, b)
      | None \<Rightarrow>
          let b = (case loadStaCreds pf s of Some (ssid, _) \<Rightarrow> ssid \<noteq> [] | None \<Rightarrow> False)
          in (s\<lparr>wm_staCredsCached := Some b\<rparr>, b))"

definition loadHostname :: "'n prefs \<Rightarrow> 'n wifi \<Rightarrow> 'n wifi" where
  "loadHostname pf s =
     s\<lparr>wm_hostname := if pf_open pf True (wm_nvs s) then take kMaxHostnameLen (pf_getString pf kKeyHostname (wm_nvs s)) else []\<rparr>"

definition generateApPass :: "u32 list \<Rightarrow> string" where
  "generateApPass rnd = map (\<lambda>r. kApPassCharset ! (unat r mod length kApPassCharset)) (take kApPassLen rnd)"

definition ensureApPassword :: "'n prefs \<Rightarrow> u32 list \<Rightarrow> 'n wifi \<Rightarrow> 'n wifi" where
  "ensureApPassword pf rnd s =
     (if wm_apPass s \<noteq> [] then s
      else
        let nvsOk = pf_open pf False (wm_nvs s);
            stored = (if nvsOk then pf_getString pf kKeyApPass (wm_nvs s) else [])
        in if stored \<noteq> [] then s\<lparr>wm_apPass := stored\<rparr>
           else let p = generateApPass rnd
                in s\<lparr>wm_apPass := p,
                     wm_nvs := if nvsOk then fst (pf_putString pf kKeyApPass p (wm_nvs s)) else wm_nvs s\<rparr>)"

text \<open>Host names: the loop of \<open>_isValidHostname\<close> with its early returns.\<close>

definition char_from_to :: "string \<Rightarrow> char \<Rightarrow> bool" where
  "char_from_to ends c \<longleftrightarrow> hd ends \<le> c \<and> c \<le> last ends"

definition host_char :: "char \<Rightarrow> bool" where
  "host_char c \<longleftrightarrow> list_ex (\<lambda>ends. char_from_to ends c) [''az'', ''AZ'', ''09''] \<or> c = CHR ''-''"

fun host_loop :: "nat \<Rightarrow> string \<Rightarrow> nat option" where
  "host_loop len [] = Some len"
| "host_loop len (c # cs) =
     (if \<not> host_char c then None
      else if len = 0 \<and> c = CHR ''-'' then None
      else host_loop (Suc len) cs)"

definition isValidHostname :: "string \<Rightarrow> bool" where
  "isValidHostname s =
     (case host_loop 0 s of
        None \<Rightarrow> False
      | Some len \<Rightarrow> if len < 1 \<or> kMaxHostnameLen < len then False else s ! (len - 1) \<noteq> CHR ''-'')"

definition setHostname :: "'n prefs \<Rightarrow> string \<Rightarrow> 'n wifi \<Rightarrow> 'n wifi \<times> bool" where
  "setHostname pf name s =
     (if \<not> isValidHostname name then (s, False)
      else if \<not> pf_open pf False (wm_nvs s) then (s, False)
      else (case pf_putString pf kKeyHostname name (wm_nvs s) of (nvs, n) \<Rightarrow> (s\<lparr>wm_nvs := nvs\<rparr>, n \<noteq> 0)))"

section \<open>Radio changes\<close>

type_synonym 'n did = "'n wifi \<times> wifi_event list"

definition startSta :: "'n prefs \<Rightarrow> u32 \<Rightarrow> string \<Rightarrow> string \<Rightarrow> bool \<Rightarrow> 'n wifi \<Rightarrow> 'n did" where
  "startSta pf now ssid pass persist s =
     (if ssid = [] then (s, [])
      else
        let s1 = loadHostname pf s;
            s2 = (if persist then persistMode pf ModeSta (markConfigured pf (saveStaCreds pf ssid pass s1)) else s1)
        in (s2\<lparr>wm_staSsid := ssid, wm_mode := ModeSta, wm_state := StaConnecting, wm_apIsFallback := False,
               wm_staAssociated := False, wm_fallbackSuppressed := False, wm_lastDisconnectReason := 0,
               wm_staConnectingStartedMs := now\<rparr>, [JoinStarted ssid]))"

definition startAp :: "'n prefs \<Rightarrow> driver \<Rightarrow> bool \<Rightarrow> 'n wifi \<Rightarrow> 'n did" where
  "startAp pf d persist s =
     (let s1 = loadHostname pf (ensureApPassword pf (dr_random d) s);
          s2 = (if persist then persistMode pf ModeAp s1 else s1);
          s3 = s2\<lparr>wm_apIsFallback := False, wm_apStations := 0\<rparr>
      in if \<not> dr_softApUp d then (s3\<lparr>wm_state := RadioOff, wm_mode := ModeOff\<rparr>, [ApStarted False])
         else (s3\<lparr>wm_mode := ModeAp, wm_state := ApUp\<rparr>, [ApStarted True]))"

definition retrySta :: "'n prefs \<Rightarrow> u32 \<Rightarrow> bool \<Rightarrow> 'n wifi \<Rightarrow> 'n did" where
  "retrySta pf now persist s =
     (case loadStaCreds pf s of
        Some (ssid, pass) \<Rightarrow> if ssid = [] then (s, []) else startSta pf now ssid pass persist s
      | None \<Rightarrow> (s, []))"

definition wifi_stop :: "'n prefs \<Rightarrow> driver \<Rightarrow> bool \<Rightarrow> 'n wifi \<Rightarrow> 'n did" where
  "wifi_stop pf d persist s =
     (let s1 = (if persist then persistMode pf ModeOff s else s);
          generation = wm_requestedGeneration s1;
          stopped = dr_offAfterStop d;
          s2 = (if \<not> stopped then s1\<lparr>wm_completedGeneration := 0, wm_attemptedGeneration := generation\<rparr>
                else if generation \<noteq> 0 \<and> wm_completedGeneration s1 \<noteq> generation
                        \<and> wm_attemptedGeneration s1 = generation
                then s1\<lparr>wm_attemptedGeneration := 0\<rparr> else s1)
      in (s2\<lparr>wm_mode := ModeOff, wm_state := RadioOff, wm_apIsFallback := False\<rparr>, [RadioStopped stopped]))"

definition resetAllConfig :: "'n prefs \<Rightarrow> driver \<Rightarrow> bool \<Rightarrow> 'n wifi \<Rightarrow> 'n did" where
  "resetAllConfig pf d scrubFramework s =
     (case wifi_stop pf d False s of (s1, out) \<Rightarrow>
        let s2 = (if pf_open pf False (wm_nvs s1) then s1\<lparr>wm_nvs := pf_clear pf (wm_nvs s1)\<rparr> else s1);
            s3 = s2\<lparr>wm_staCredsCached := None, wm_configuredCached := None, wm_staSsid := [], wm_apPass := []\<rparr>;
            s4 = (loadHostname pf s3)\<lparr>wm_fallbackSuppressed := False\<rparr>
        in (s4, (if scrubFramework then [DriverRestored] else []) @ out @ [ConfigWiped]))"

definition staSessionMatches :: "'n prefs \<Rightarrow> string \<Rightarrow> string \<Rightarrow> 'n wifi \<Rightarrow> bool" where
  "staSessionMatches pf ssid pass s \<longleftrightarrow>
     wm_state s = StaConnected \<and> wm_mode s = ModeSta \<and> ssid = wm_staSsid s
     \<and> loadStaCreds pf s = Some (ssid, pass)"

definition applyRequest :: "'n prefs \<Rightarrow> driver \<Rightarrow> u32 \<Rightarrow> pending_request \<Rightarrow> 'n wifi \<Rightarrow> 'n did" where
  "applyRequest pf d now r s =
     (case pr_action r of
        ConnectSta \<Rightarrow> startSta pf now (pr_ssid r) (pr_pass r) True s
      | Reset \<Rightarrow> resetAllConfig pf d (pr_terminal r) s
      | StartAp \<Rightarrow> (case isConfigured pf s of (s1, configured) \<Rightarrow> startAp pf d (\<not> configured) s1)
      | StopWifi \<Rightarrow> wifi_stop pf d (pr_persist r) s
      | RetrySta \<Rightarrow> retrySta pf now (pr_persist r) s
      | NoAction \<Rightarrow> (s, []))"

definition processPending :: "'n prefs \<Rightarrow> driver \<Rightarrow> u32 \<Rightarrow> 'n wifi \<Rightarrow> 'n did" where
  "processPending pf d now s0 =
     (let r = wm_pending s0;
          s = s0\<lparr>wm_pending := r\<lparr>pr_action := NoAction, pr_ssid := [], pr_pass := []\<rparr>\<rparr> in
      if pr_action r = NoAction then (s, [])
      else if pr_action r = ConnectSta \<and> staSessionMatches pf (pr_ssid r) (pr_pass r) s then (s, [])
      else (case applyRequest pf d now r s of (s1, out) \<Rightarrow> (s1, ServersStopped # out)))"

definition attemptBluetoothConditioning :: "driver \<Rightarrow> 'n wifi \<Rightarrow> 'n did" where
  "attemptBluetoothConditioning d s =
     (let generation = wm_requestedGeneration s in
      if generation = 0 \<or> generation = wm_attemptedGeneration s then (s, [])
      else
        let s1 = s\<lparr>wm_attemptedGeneration := generation\<rparr> in
        if \<not> dr_offBefore d then (s1, [ConditioningFailed])
        else if \<not> fst (dr_modeSta d) \<and> \<not> snd (dr_modeSta d) then (s1, [ConditioningFailed])
        else if \<not> dr_offAfterCycle d then (s1, [ConditioningFailed])
        else (s1\<lparr>wm_completedGeneration := generation\<rparr>, [ConditioningDone]))"

definition isBluetoothConditioned :: "'n wifi \<Rightarrow> bool" where
  "isBluetoothConditioned s \<longleftrightarrow>
     wm_mode s = ModeOff \<and> wm_requestedGeneration s \<noteq> 0 \<and> wm_completedGeneration s = wm_requestedGeneration s"

text \<open>The rest of \<open>update\<close>: a client connection that takes too long becomes an access point.\<close>

definition connectTimeout :: "'n prefs \<Rightarrow> driver \<Rightarrow> u32 \<Rightarrow> 'n wifi \<Rightarrow> 'n did" where
  "connectTimeout pf d now s =
     (if wm_state s \<noteq> StaConnecting then (s, [])
      else if wm_fallbackSuppressed s then (s, [])
      else if now - wm_staConnectingStartedMs s \<le> kStaTimeoutMs then (s, [])
      else (case startAp pf d False s of (s1, out) \<Rightarrow>
              (if dr_softApUp d then s1\<lparr>wm_apIsFallback := True\<rparr> else s1,
               ConnectTimeout (wm_lastDisconnectReason s) # out)))"

definition wifi_update :: "'n prefs \<Rightarrow> driver \<Rightarrow> u32 \<Rightarrow> 'n wifi \<Rightarrow> 'n did" where
  "wifi_update pf d now s =
     (case processPending pf d now s of (s1, out1) \<Rightarrow>
      case (if wm_state s1 = RadioOff then attemptBluetoothConditioning d s1 else (s1, [])) of (s2, out2) \<Rightarrow>
      case connectTimeout pf d now s2 of (s3, out3) \<Rightarrow> (s3, out1 @ out2 @ out3))"

definition beginIfPersisted :: "'n prefs \<Rightarrow> driver \<Rightarrow> u32 \<Rightarrow> 'n wifi \<Rightarrow> 'n did" where
  "beginIfPersisted pf d now s0 =
     (case isConfigured pf (loadHostname pf s0) of (s, configured) \<Rightarrow>
        if \<not> configured then (s, [])
        else if persistedMode pf s = mode_byte ModeOff then (s, [])
        else if persistedMode pf s = mode_byte ModeSta
                \<and> (case loadStaCreds pf s of Some (ssid, _) \<Rightarrow> ssid \<noteq> [] | None \<Rightarrow> False)
        then (case loadStaCreds pf s of Some (ssid, pass) \<Rightarrow> startSta pf now ssid pass False s | None \<Rightarrow> (s, []))
        else startAp pf d True s)"

section \<open>The event task\<close>

datatype link_event =
    StaAssociatedEv | StaGotIpEv | StaDisconnectedEv u8 | ApStaConnectedEv | ApStaDisconnectedEv
  | ApStartEv | ApStopEv | OtherEv

definition got_ip :: "'n wifi \<Rightarrow> 'n wifi" where
  "got_ip s =
     (if wm_mode s \<noteq> ModeSta \<or> \<not> wm_staAssociated s then s
      else s\<lparr>wm_fallbackSuppressed := True, wm_state := StaConnected, wm_lastDisconnectReason := 0\<rparr>)"

text \<open>A drop of the link, after the test of the mode.\<close>

definition link_lost :: "u32 \<Rightarrow> u8 \<Rightarrow> 'n wifi \<Rightarrow> 'n wifi" where
  "link_lost now reason s =
     (let s1 = (if wm_lastDisconnectReason s = 0 \<or> isActionableFailureReason reason
                then s\<lparr>wm_lastDisconnectReason := reason\<rparr> else s);
          s2 = (if isCredentialFailureReason reason \<and> wm_fallbackSuppressed s1
                then s1\<lparr>wm_fallbackSuppressed := False, wm_staConnectingStartedMs := now\<rparr> else s1)
      in s2\<lparr>wm_state := StaConnecting\<rparr>)"

definition onWifiEvent :: "u32 \<Rightarrow> link_event \<Rightarrow> 'n wifi \<Rightarrow> 'n did" where
  "onWifiEvent now ev s =
     (case ev of
        StaAssociatedEv \<Rightarrow> (s\<lparr>wm_staAssociated := (wm_mode s = ModeSta)\<rparr>, [LinkAssociated])
      | StaGotIpEv \<Rightarrow> (got_ip s, [LinkGotIp])
      | StaDisconnectedEv reason \<Rightarrow>
          (let s1 = s\<lparr>wm_staAssociated := False\<rparr>
           in if wm_mode s1 \<noteq> ModeSta then s1 else link_lost now reason s1, [LinkDropped reason])
      | ApStaConnectedEv \<Rightarrow> (s\<lparr>wm_apStations := wm_apStations s + 1\<rparr>, [])
      | ApStaDisconnectedEv \<Rightarrow> (s\<lparr>wm_apStations := if 0 < wm_apStations s then wm_apStations s - 1 else 0\<rparr>, [])
      | ApStartEv \<Rightarrow> (if wm_mode s = ModeAp then s\<lparr>wm_state := ApUp\<rparr> else s, [])
      | ApStopEv \<Rightarrow> (if wm_mode s = ModeAp then s\<lparr>wm_state := RadioOff\<rparr> else s, [])
      | OtherEv \<Rightarrow> (s, []))"

definition lastDisconnectReason :: "'n wifi \<Rightarrow> string" where
  "lastDisconnectReason s =
     (let r = wm_lastDisconnectReason s in
      if r = 0 then ''''
      else if r = WIFI_REASON_AUTH_FAIL \<or> r = WIFI_REASON_4WAY_HANDSHAKE_TIMEOUT then ''wrong password''
      else if r = WIFI_REASON_NO_AP_FOUND then ''ssid not found''
      else ''connect failed'')"

section \<open>Any order of calls\<close>

datatype wifi_call =
    ReqConnect string string | ReqReset bool | ReqStartAp | ReqStop bool | ReqRetry bool
  | Update driver u32 | LinkEvent u32 link_event | ScheduleConditioning u32
  | MarkConfigured | SetHostname string | AskConfigured | AskCreds | AskApPassword "u32 list"

fun wifi_step :: "'n prefs \<Rightarrow> 'n wifi \<Rightarrow> wifi_call \<Rightarrow> 'n did" where
  "wifi_step pf s (ReqConnect ssid pass) = (requestConnectSta ssid pass s, [])"
| "wifi_step pf s (ReqReset terminal) = (requestReset terminal s, [])"
| "wifi_step pf s ReqStartAp = (requestStartAp s, [])"
| "wifi_step pf s (ReqStop persist) = (requestStop persist s, [])"
| "wifi_step pf s (ReqRetry persist) = (requestRetrySta persist s, [])"
| "wifi_step pf s (Update d now) = wifi_update pf d now s"
| "wifi_step pf s (LinkEvent now ev) = onWifiEvent now ev s"
| "wifi_step pf s (ScheduleConditioning g) = (s\<lparr>wm_requestedGeneration := g\<rparr>, [])"
| "wifi_step pf s MarkConfigured = (markConfigured pf s, [])"
| "wifi_step pf s (SetHostname name) = (fst (setHostname pf name s), [])"
| "wifi_step pf s AskConfigured = (fst (isConfigured pf s), [])"
| "wifi_step pf s AskCreds = (fst (hasStaCreds pf s), [])"
| "wifi_step pf s (AskApPassword rnd) = (ensureApPassword pf rnd s, [])"

end
