(* ===== verification/WifiLaws.thy ===== *)
theory WifiLaws
  imports Wifi
begin

text \<open>
  What the Wi-Fi manager guarantees: mode and state fit together, an erase that precedes a reboot is
  final, a link is called connected only when this join got it, a join that hangs ends in the
  access point after fifteen seconds while a dropped link never does, and one race that breaks this.
\<close>

section \<open>Frames\<close>

lemma store_frame:
  "wm_pending (loadHostname pf s) = wm_pending s" "wm_pending (persistMode pf m s) = wm_pending s"
  "wm_pending (markConfigured pf s) = wm_pending s" "wm_pending (saveStaCreds pf a b s) = wm_pending s"
  "wm_pending (ensureApPassword pf rnd s) = wm_pending s" "wm_pending (fst (setHostname pf h s)) = wm_pending s"
  "wm_pending (fst (isConfigured pf s)) = wm_pending s" "wm_pending (fst (hasStaCreds pf s)) = wm_pending s"
  by (auto simp: loadHostname_def persistMode_def markConfigured_def saveStaCreds_def ensureApPassword_def setHostname_def
      isConfigured_def hasStaCreds_def Let_def split: prod.splits option.splits)

text \<open>Everything about the link.\<close>

definition link_of :: "'n wifi \<Rightarrow> WifiState \<times> WifiMode \<times> bool \<times> bool \<times> u8 \<times> u32 \<times> bool" where
  "link_of s = (wm_state s, wm_mode s, wm_fallbackSuppressed s, wm_staAssociated s, wm_lastDisconnectReason s,
     wm_staConnectingStartedMs s, wm_apIsFallback s)"

lemma store_link:
  "link_of (loadHostname pf s) = link_of s" "link_of (persistMode pf m s) = link_of s"
  "link_of (markConfigured pf s) = link_of s" "link_of (saveStaCreds pf a b s) = link_of s"
  "link_of (ensureApPassword pf rnd s) = link_of s" "link_of (fst (setHostname pf h s)) = link_of s"
  "link_of (fst (isConfigured pf s)) = link_of s" "link_of (fst (hasStaCreds pf s)) = link_of s"
  "link_of (post r s) = link_of s" "link_of (fst (attemptBluetoothConditioning d s)) = link_of s"
  by (auto simp: loadHostname_def persistMode_def markConfigured_def saveStaCreds_def ensureApPassword_def setHostname_def
      isConfigured_def hasStaCreds_def post_def attemptBluetoothConditioning_def link_of_def Let_def split: prod.splits option.splits)

lemma link_fields:
  "link_of s = link_of s' \<Longrightarrow> wm_state s = wm_state s' \<and> wm_mode s = wm_mode s'
     \<and> wm_fallbackSuppressed s = wm_fallbackSuppressed s' \<and> wm_staAssociated s = wm_staAssociated s'
     \<and> wm_staConnectingStartedMs s = wm_staConnectingStartedMs s' \<and> wm_apIsFallback s = wm_apIsFallback s'
     \<and> wm_lastDisconnectReason s = wm_lastDisconnectReason s'"
  by (simp add: link_of_def)

lemma attempt_pending: "wm_pending (fst (attemptBluetoothConditioning d s)) = wm_pending s"
  by (auto simp: attemptBluetoothConditioning_def Let_def)

lemma attempt_events: "set (snd (attemptBluetoothConditioning d s)) \<subseteq> {ConditioningFailed, ConditioningDone}"
  by (auto simp: attemptBluetoothConditioning_def Let_def)

text \<open>What the radio changes do to the link and to the waiting request.\<close>

lemma startSta_link:
  assumes "ssid \<noteq> []"
  shows "link_of (fst (startSta pf now ssid pass p s)) = (StaConnecting, ModeSta, False, False, 0, now, False)"
    and "snd (startSta pf now ssid pass p s) = [JoinStarted ssid]"
    and "wm_pending (fst (startSta pf now ssid pass p s)) = wm_pending s"
  using assms by (simp_all add: startSta_def Let_def link_of_def store_frame)

lemma startAp_link:
  "fst (startAp pf d p s) = s' \<Longrightarrow>
     wm_mode s' = (if dr_softApUp d then ModeAp else ModeOff) \<and> wm_state s' = (if dr_softApUp d then ApUp else RadioOff)
   \<and> \<not> wm_apIsFallback s' \<and> wm_pending s' = wm_pending s"
  "snd (startAp pf d p s) = [ApStarted (dr_softApUp d)]"
  by (auto simp: startAp_def Let_def store_frame)

lemma wifi_stop_link:
  "fst (wifi_stop pf d p s) = s' \<Longrightarrow> wm_mode s' = ModeOff \<and> wm_state s' = RadioOff \<and> wm_pending s' = wm_pending s
     \<and> wm_fallbackSuppressed s' = wm_fallbackSuppressed s \<and> wm_lastDisconnectReason s' = wm_lastDisconnectReason s"
  "snd (wifi_stop pf d p s) = [RadioStopped (dr_offAfterStop d)]"
proof -
  have p: "wm_pending (persistMode pf ModeOff s) = wm_pending s"
      "wm_fallbackSuppressed (persistMode pf ModeOff s) = wm_fallbackSuppressed s"
      "wm_lastDisconnectReason (persistMode pf ModeOff s) = wm_lastDisconnectReason s"
    by (simp_all add: persistMode_def)
  show "wm_mode s' = ModeOff \<and> wm_state s' = RadioOff \<and> wm_pending s' = wm_pending s
     \<and> wm_fallbackSuppressed s' = wm_fallbackSuppressed s \<and> wm_lastDisconnectReason s' = wm_lastDisconnectReason s"
    if "fst (wifi_stop pf d p s) = s'"
    unfolding that [symmetric] by (simp add: wifi_stop_def Let_def p)
  show "snd (wifi_stop pf d p s) = [RadioStopped (dr_offAfterStop d)]" by (simp add: wifi_stop_def Let_def)
qed

lemma resetAllConfig_link:
  "wm_mode (fst (resetAllConfig pf d p s)) = ModeOff" "wm_state (fst (resetAllConfig pf d p s)) = RadioOff"
  "wm_pending (fst (resetAllConfig pf d p s)) = wm_pending s" "\<not> wm_apIsFallback (fst (resetAllConfig pf d p s))"
  "snd (resetAllConfig pf d p s) = (if p then [DriverRestored] else []) @ [RadioStopped (dr_offAfterStop d), ConfigWiped]"
proof -
  obtain s1 where s1: "wifi_stop pf d False s = (s1, [RadioStopped (dr_offAfterStop d)])"
    using wifi_stop_link(2) [of pf d False s] by (metis prod.collapse)
  have f: "wm_mode s1 = ModeOff" "wm_state s1 = RadioOff" "wm_pending s1 = wm_pending s"
    using wifi_stop_link(1) [of pf d False s s1] s1 by simp_all
  have "\<not> wm_apIsFallback (fst (wifi_stop pf d False s))" by (simp add: wifi_stop_def Let_def)
  then have g: "\<not> wm_apIsFallback s1" using s1 by simp
  show "wm_mode (fst (resetAllConfig pf d p s)) = ModeOff" "wm_state (fst (resetAllConfig pf d p s)) = RadioOff"
      "wm_pending (fst (resetAllConfig pf d p s)) = wm_pending s" "\<not> wm_apIsFallback (fst (resetAllConfig pf d p s))"
      "snd (resetAllConfig pf d p s) = (if p then [DriverRestored] else []) @ [RadioStopped (dr_offAfterStop d), ConfigWiped]"
    using f g by (simp_all add: resetAllConfig_def s1 loadHostname_def Let_def)
qed

text \<open>A reset leaves nothing of the old configuration in memory, and an empty namespace if it opens.\<close>

lemma reset_forgets:
  assumes "fst (resetAllConfig pf d t s) = s'"
  shows "wm_staSsid s' = [] \<and> wm_apPass s' = [] \<and> wm_staCredsCached s' = None \<and> wm_configuredCached s' = None"
    and "pf_open pf False (wm_nvs s) \<Longrightarrow> wm_nvs s' = pf_clear pf (wm_nvs s)"
proof -
  have n: "wm_nvs (fst (wifi_stop pf d False s)) = wm_nvs s" by (auto simp: wifi_stop_def Let_def)
  show "wm_staSsid s' = [] \<and> wm_apPass s' = [] \<and> wm_staCredsCached s' = None \<and> wm_configuredCached s' = None"
    using assms by (auto simp: resetAllConfig_def loadHostname_def Let_def split: prod.splits)
  show "wm_nvs s' = pf_clear pf (wm_nvs s)" if "pf_open pf False (wm_nvs s)"
    using assms that n by (auto simp: resetAllConfig_def loadHostname_def Let_def split: prod.splits)
qed

section \<open>Mode and state\<close>

definition wifi_ok :: "'n wifi \<Rightarrow> bool" where
  "wifi_ok s \<longleftrightarrow>
     (case wm_mode s of
        ModeOff \<Rightarrow> wm_state s = RadioOff
      | ModeSta \<Rightarrow> wm_state s = StaConnecting \<or> wm_state s = StaConnected
      | ModeAp \<Rightarrow> wm_state s = ApUp \<or> wm_state s = RadioOff)
     \<and> (wm_apIsFallback s \<longrightarrow> wm_mode s = ModeAp)"

lemma wifi_ok_link:
  assumes "link_of s = link_of s'"
  shows "wifi_ok s = wifi_ok s'"
proof -
  have "wm_state s = wm_state s'" "wm_mode s = wm_mode s'" "wm_apIsFallback s = wm_apIsFallback s'"
    using link_fields [OF assms] by simp_all
  then show ?thesis by (simp only: wifi_ok_def)
qed

lemma startSta_ok: "wifi_ok s \<Longrightarrow> wifi_ok (fst (startSta pf now ssid pass p s))"
  using startSta_link(1) [of ssid pf now pass p s] by (cases "ssid = []") (auto simp: wifi_ok_def link_of_def startSta_def)

lemma startAp_ok: "wifi_ok (fst (startAp pf d p s))"
  using startAp_link(1) [of pf d p s] by (auto simp: wifi_ok_def)

lemma wifi_stop_ok: "wifi_ok (fst (wifi_stop pf d p s))"
  by (auto simp: wifi_ok_def wifi_stop_def Let_def)

lemma resetAllConfig_ok: "wifi_ok (fst (resetAllConfig pf d p s))"
  by (simp add: wifi_ok_def resetAllConfig_link)

lemma applyRequest_ok:
  assumes "wifi_ok s"
  shows "wifi_ok (fst (applyRequest pf d now r s))"
  using assms startSta_ok startAp_ok wifi_stop_ok resetAllConfig_ok
  by (cases "pr_action r") (auto simp: applyRequest_def retrySta_def split: prod.splits option.splits)

lemma processPending_ok:
  assumes "wifi_ok s"
  shows "wifi_ok (fst (processPending pf d now s))"
proof -
  let ?s = "s\<lparr>wm_pending := (wm_pending s)\<lparr>pr_action := NoAction, pr_ssid := [], pr_pass := []\<rparr>\<rparr>"
  have "wifi_ok ?s" using assms wifi_ok_link [of ?s s] by (simp add: link_of_def)
  then show ?thesis
    using applyRequest_ok [of ?s pf d now "wm_pending s"] by (auto simp: processPending_def Let_def split: prod.splits)
qed

text \<open>The two outcomes of the timeout test.\<close>

definition join_expired :: "u32 \<Rightarrow> 'n wifi \<Rightarrow> bool" where
  "join_expired now s \<longleftrightarrow> wm_state s = StaConnecting \<and> \<not> wm_fallbackSuppressed s
     \<and> \<not> now - wm_staConnectingStartedMs s \<le> kStaTimeoutMs"

lemma connectTimeout_wait: "\<not> join_expired now s \<Longrightarrow> connectTimeout pf d now s = (s, [])"
  by (auto simp: connectTimeout_def join_expired_def)

lemma connectTimeout_expired:
  assumes "join_expired now s"
  shows "wm_mode (fst (connectTimeout pf d now s)) = (if dr_softApUp d then ModeAp else ModeOff)"
    "wm_state (fst (connectTimeout pf d now s)) = (if dr_softApUp d then ApUp else RadioOff)"
    "wm_apIsFallback (fst (connectTimeout pf d now s)) = dr_softApUp d"
    "wm_pending (fst (connectTimeout pf d now s)) = wm_pending s"
    "snd (connectTimeout pf d now s) = [ConnectTimeout (wm_lastDisconnectReason s), ApStarted (dr_softApUp d)]"
proof -
  obtain s1 where a: "startAp pf d False s = (s1, [ApStarted (dr_softApUp d)])"
    using startAp_link(2) [of pf d False s] by (metis prod.collapse)
  have f: "wm_mode s1 = (if dr_softApUp d then ModeAp else ModeOff)" "wm_state s1 = (if dr_softApUp d then ApUp else RadioOff)"
      "\<not> wm_apIsFallback s1" "wm_pending s1 = wm_pending s"
    using startAp_link(1) [of pf d False s s1] a by simp_all
  have c: "connectTimeout pf d now s = (if dr_softApUp d then s1\<lparr>wm_apIsFallback := True\<rparr> else s1,
      [ConnectTimeout (wm_lastDisconnectReason s), ApStarted (dr_softApUp d)])"
    using assms by (simp add: connectTimeout_def join_expired_def a)
  show "wm_mode (fst (connectTimeout pf d now s)) = (if dr_softApUp d then ModeAp else ModeOff)"
    "wm_state (fst (connectTimeout pf d now s)) = (if dr_softApUp d then ApUp else RadioOff)"
    "wm_apIsFallback (fst (connectTimeout pf d now s)) = dr_softApUp d"
    "wm_pending (fst (connectTimeout pf d now s)) = wm_pending s"
    "snd (connectTimeout pf d now s) = [ConnectTimeout (wm_lastDisconnectReason s), ApStarted (dr_softApUp d)]"
    using f by (simp_all add: c)
qed

lemma connectTimeout_ok: "wifi_ok s \<Longrightarrow> wifi_ok (fst (connectTimeout pf d now s))"
  by (cases "join_expired now s")
    (simp_all add: connectTimeout_wait wifi_ok_def connectTimeout_expired)

text \<open>\<open>update\<close> in its three stages.\<close>

definition conditioned :: "driver \<Rightarrow> 'n wifi \<Rightarrow> 'n did" where
  "conditioned d s = (if wm_state s = RadioOff then attemptBluetoothConditioning d s else (s, []))"

lemma wifi_update_stages:
  "fst (wifi_update pf d now s) = fst (connectTimeout pf d now (fst (conditioned d (fst (processPending pf d now s)))))"
  "snd (wifi_update pf d now s) = snd (processPending pf d now s) @ snd (conditioned d (fst (processPending pf d now s)))
     @ snd (connectTimeout pf d now (fst (conditioned d (fst (processPending pf d now s)))))"
  by (simp_all add: wifi_update_def conditioned_def split: prod.splits)

lemma conditioned_frame:
  "link_of (fst (conditioned d s)) = link_of s" "wm_pending (fst (conditioned d s)) = wm_pending s"
  "set (snd (conditioned d s)) \<subseteq> {ConditioningFailed, ConditioningDone}"
  by (simp_all add: conditioned_def store_link attempt_pending attempt_events)

lemma wifi_update_ok: "wifi_ok s \<Longrightarrow> wifi_ok (fst (wifi_update pf d now s))"
  using processPending_ok conditioned_frame(1) wifi_ok_link connectTimeout_ok unfolding wifi_update_stages by metis

lemma onWifiEvent_ok: "wifi_ok s \<Longrightarrow> wifi_ok (fst (onWifiEvent now ev s))"
  by (cases ev) (auto simp: onWifiEvent_def got_ip_def link_lost_def wifi_ok_def Let_def split: WifiMode.splits)

lemma wifi_step_ok: "wifi_ok s \<Longrightarrow> wifi_ok (fst (wifi_step pf s c))"
proof (cases c)
  case (ScheduleConditioning g)
  assume "wifi_ok s"
  then show ?thesis using ScheduleConditioning wifi_ok_link [of "s\<lparr>wm_requestedGeneration := g\<rparr>" s] by (simp add: link_of_def)
qed (use wifi_update_ok onWifiEvent_ok in
      \<open>auto simp: requestConnectSta_def requestReset_def requestStartAp_def requestStop_def requestRetrySta_def
        wifi_ok_link [OF store_link(9)] wifi_ok_link [OF store_link(3)] wifi_ok_link [OF store_link(5)]
        wifi_ok_link [OF store_link(6)] wifi_ok_link [OF store_link(7)] wifi_ok_link [OF store_link(8)]\<close>)

lemma wifi_init_ok: "wifi_ok (wm_init nvs)"
  by (simp add: wifi_ok_def wm_init_def)

interpretation wifi: invariant_machine "wifi_step pf" wifi_ok "wm_init nvs" for pf nvs
  by unfold_locales (auto intro: wifi_step_ok wifi_init_ok)


section \<open>A device to evaluate on\<close>

text \<open>Preferences in memory, and a driver that always succeeds.\<close>

type_synonym ram = "(string \<times> string) list \<times> (string \<times> u8) list"

definition ram_prefs :: "ram prefs" where
  "ram_prefs = \<lparr>pf_open = (\<lambda>readOnly nvs. True),
     pf_getString = (\<lambda>k nvs. case map_of (fst nvs) k of None \<Rightarrow> [] | Some v \<Rightarrow> v),
     pf_putString = (\<lambda>k v nvs. (((k, v) # fst nvs, snd nvs), length v)),
     pf_getUChar = (\<lambda>k nvs. case map_of (snd nvs) k of None \<Rightarrow> 0 | Some v \<Rightarrow> v),
     pf_putUChar = (\<lambda>k v nvs. ((fst nvs, (k, v) # snd nvs), 1)),
     pf_clear = (\<lambda>nvs. ([], []))\<rparr>"

definition good_driver :: driver where
  "good_driver = \<lparr>dr_softApUp = True, dr_offAfterStop = True, dr_offBefore = True, dr_modeSta = (True, True),
     dr_offAfterCycle = True, dr_random = [1, 2, 3, 4, 5, 6, 7, 8]\<rparr>"

text \<open>A client that asked to join, and the same once its link associated.\<close>

definition joined_device :: "ram wifi" where
  "joined_device = run (wifi_step ram_prefs) (wm_init ([], [])) [ReqConnect ''cafe'' ''espresso'', Update good_driver 100]"

definition associated_device :: "ram wifi" where
  "associated_device = run (wifi_step ram_prefs) joined_device [LinkEvent 200 StaAssociatedEv]"

section \<open>An erase before a reboot is final\<close>

lemma applyRequest_pending: "wm_pending (fst (applyRequest pf d now r s)) = wm_pending s"
proof (cases "pr_action r")
  case ConnectSta
  then show ?thesis by (cases "pr_ssid r = []") (simp_all add: applyRequest_def startSta_link, simp add: startSta_def)
next
  case StartAp
  obtain s1 b where c: "isConfigured pf s = (s1, b)" by (metis surj_pair)
  have "wm_pending s1 = wm_pending s" using store_frame(7) [of pf s] c by simp
  then show ?thesis using StartAp c startAp_link(1) [of pf d "\<not> b" s1] by (simp add: applyRequest_def)
next
  case StopWifi
  then show ?thesis using wifi_stop_link(1) [of pf d "pr_persist r" s] by (simp add: applyRequest_def)
next
  case RetrySta
  then show ?thesis
    by (auto simp: applyRequest_def retrySta_def startSta_link split: option.splits)
qed (simp_all add: applyRequest_def resetAllConfig_link)

lemma processPending_pending:
  "wm_pending (fst (processPending pf d now s)) = (wm_pending s)\<lparr>pr_action := NoAction, pr_ssid := [], pr_pass := []\<rparr>"
  using applyRequest_pending [of pf d now "wm_pending s" "s\<lparr>wm_pending := (wm_pending s)\<lparr>pr_action := NoAction, pr_ssid := [], pr_pass := []\<rparr>\<rparr>"]
  by (auto simp: processPending_def Let_def split: prod.splits)

lemma wifi_update_pending:
  "wm_pending (fst (wifi_update pf d now s)) = (wm_pending s)\<lparr>pr_action := NoAction, pr_ssid := [], pr_pass := []\<rparr>"
proof -
  have "wm_pending (fst (connectTimeout pf d now t)) = wm_pending t" for t :: "'a wifi"
    by (cases "join_expired now t") (simp_all add: connectTimeout_wait connectTimeout_expired)
  then show ?thesis by (simp add: wifi_update_stages conditioned_frame processPending_pending)
qed

definition erased :: "'n wifi \<Rightarrow> bool" where
  "erased s \<longleftrightarrow> pr_terminal (wm_pending s) \<and> pr_action (wm_pending s) = NoAction \<and> wm_mode s = ModeOff \<and> wm_state s = RadioOff"

definition radio_event :: "wifi_event \<Rightarrow> bool" where
  "radio_event e \<longleftrightarrow> e \<notin> {ConditioningFailed, ConditioningDone, LinkAssociated, LinkGotIp} \<and> (\<forall>r. e \<noteq> LinkDropped r)"

lemma erased_link: "link_of s' = link_of s \<Longrightarrow> wm_pending s' = wm_pending s \<Longrightarrow> erased s' = erased s"
  by (auto simp: erased_def dest: link_fields)

lemma erased_post: "erased s \<Longrightarrow> post r s = s"
  by (simp add: erased_def post_def)

lemma erased_update:
  assumes "erased s"
  shows "erased (fst (wifi_update pf d now s)) \<and> (\<forall>e \<in> set (snd (wifi_update pf d now s)). \<not> radio_event e)"
proof -
  let ?s1 = "s\<lparr>wm_pending := (wm_pending s)\<lparr>pr_action := NoAction, pr_ssid := [], pr_pass := []\<rparr>\<rparr>"
  have p: "processPending pf d now s = (?s1, [])" using assms by (simp add: processPending_def erased_def Let_def)
  have l: "link_of (fst (conditioned d ?s1)) = link_of s" by (simp add: conditioned_frame) (simp add: link_of_def)
  have "\<not> join_expired now (fst (conditioned d ?s1))"
    using assms link_fields [OF l] by (simp add: erased_def join_expired_def)
  then have u: "fst (wifi_update pf d now s) = fst (conditioned d ?s1)" "snd (wifi_update pf d now s) = snd (conditioned d ?s1)"
    by (simp_all add: wifi_update_stages p connectTimeout_wait)
  have "erased (fst (conditioned d ?s1))"
    using assms link_fields [OF l] by (simp add: erased_def conditioned_frame)
  then show ?thesis unfolding u using conditioned_frame(3) [of d ?s1] by (auto simp: radio_event_def)
qed

lemma erased_step:
  assumes "erased s"
  shows "erased (fst (wifi_step pf s c)) \<and> (\<forall>e \<in> set (snd (wifi_step pf s c)). \<not> radio_event e)"
proof (cases c)
  case (LinkEvent now ev)
  then show ?thesis using assms
    by (cases ev) (auto simp: onWifiEvent_def got_ip_def link_lost_def erased_def radio_event_def Let_def)
next
  case (Update d now)
  then show ?thesis using erased_update [OF assms] by simp
next
  case (ScheduleConditioning g)
  then show ?thesis using assms by (simp add: erased_def)
qed (use assms erased_post [OF assms] in
      \<open>simp_all add: requestConnectSta_def requestReset_def requestStartAp_def requestStop_def requestRetrySta_def
        erased_link [OF store_link(3) store_frame(3)] erased_link [OF store_link(5) store_frame(5)]
        erased_link [OF store_link(6) store_frame(6)] erased_link [OF store_link(7) store_frame(7)]
        erased_link [OF store_link(8) store_frame(8)]\<close>)

text \<open>Before: a terminal reset is waiting, or it has been done.\<close>

definition latch_ok :: "'n wifi \<Rightarrow> bool" where
  "latch_ok s \<longleftrightarrow> (pr_terminal (wm_pending s) \<longrightarrow> pr_action (wm_pending s) = Reset \<or> erased s)"

lemma latch_post: "latch_ok s \<Longrightarrow> (pr_terminal r \<Longrightarrow> pr_action r = Reset) \<Longrightarrow> latch_ok (post r s)"
  by (auto simp: latch_ok_def post_def erased_def Let_def)

lemma latch_frame: "wm_pending s' = wm_pending s \<Longrightarrow> \<not> erased s \<Longrightarrow> latch_ok s \<Longrightarrow> latch_ok s'"
  by (auto simp: latch_ok_def)

lemma reset_update:
  assumes "pr_terminal (wm_pending s)" and "pr_action (wm_pending s) = Reset"
  shows "erased (fst (wifi_update pf d now s))"
proof -
  define s1 where "s1 = fst (processPending pf d now s)"
  have "wm_mode s1 = ModeOff" "wm_state s1 = RadioOff"
    using assms by (simp_all add: s1_def processPending_def applyRequest_def Let_def resetAllConfig_link split: prod.splits)
      (metis fst_conv resetAllConfig_link(1,2))+
  then have off: "wm_mode (fst (conditioned d s1)) = ModeOff" "wm_state (fst (conditioned d s1)) = RadioOff"
    using link_fields [OF conditioned_frame(1) [of d s1]] by simp_all
  then have "\<not> join_expired now (fst (conditioned d s1))" by (simp add: join_expired_def)
  then have "fst (wifi_update pf d now s) = fst (conditioned d s1)" by (simp add: wifi_update_stages s1_def connectTimeout_wait)
  then show ?thesis
    using off assms wifi_update_pending [of pf d now s] by (simp add: erased_def)
qed

lemma latch_step: "latch_ok s \<Longrightarrow> latch_ok (fst (wifi_step pf s c))"
proof -
  assume l: "latch_ok s"
  show ?thesis
  proof (cases "erased s")
    case True
    then show ?thesis using erased_step [OF True, of pf c] by (simp add: latch_ok_def)
  next
    case False
    show ?thesis
    proof (cases c)
      case (Update d now)
      show ?thesis
      proof (cases "pr_terminal (wm_pending s)")
        case True
        then have "erased (fst (wifi_update pf d now s))" using l False reset_update by (auto simp: latch_ok_def)
        then show ?thesis using Update by (simp add: latch_ok_def)
      next
        case no: False
        then show ?thesis using Update by (simp add: latch_ok_def wifi_update_pending)
      qed
    next
      case (LinkEvent now ev)
      have "wm_pending (fst (onWifiEvent now ev s)) = wm_pending s"
        by (cases ev) (auto simp: onWifiEvent_def got_ip_def link_lost_def Let_def)
      then show ?thesis using l LinkEvent False by (auto simp: latch_ok_def)
    qed (use l False in \<open>auto simp: requestConnectSta_def requestReset_def requestStartAp_def requestStop_def
        requestRetrySta_def no_request_def store_frame intro: latch_post latch_frame\<close>)
  qed
qed

lemma latch_run: "latch_ok s \<Longrightarrow> latch_ok (run (wifi_step pf) s cs)"
  by (induction cs arbitrary: s) (auto intro: latch_step)

lemma erased_run:
  "erased s \<Longrightarrow> erased (run (wifi_step pf) s cs) \<and> (\<forall>e \<in> set (trace (wifi_step pf) s cs). \<not> radio_event e)"
proof (induction cs arbitrary: s)
  case (Cons c cs)
  then show ?case using erased_step [OF Cons.prems, of pf c] by fastforce
qed simp




section \<open>Connected means connected\<close>

fun is_join :: "wifi_event \<Rightarrow> bool" where
  "is_join (JoinStarted s) = True" | "is_join _ = False"

fun is_drop :: "wifi_event \<Rightarrow> bool" where
  "is_drop (LinkDropped r) = True" | "is_drop _ = False"

text \<open>Since \<open>xs\<close> no new join and no drop.\<close>

definition unbroken :: "wifi_event list \<Rightarrow> bool" where
  "unbroken xs \<longleftrightarrow> (\<forall>e \<in> set xs. \<not> is_join e \<and> \<not> is_drop e)"

definition associated_since :: "wifi_event list \<Rightarrow> bool" where
  "associated_since evs \<longleftrightarrow> (\<exists>xs ys. evs = xs @ LinkAssociated # ys \<and> unbroken ys)"

definition connected_since :: "wifi_event list \<Rightarrow> bool" where
  "connected_since evs \<longleftrightarrow> (\<exists>xs ys zs. evs = xs @ LinkAssociated # ys @ LinkGotIp # zs \<and> unbroken (ys @ zs))"

lemma since_mono:
  assumes "unbroken new"
  shows "associated_since evs \<Longrightarrow> associated_since (evs @ new)" "connected_since evs \<Longrightarrow> connected_since (evs @ new)"
proof -
  show "associated_since (evs @ new)" if "associated_since evs"
    using that assms unfolding associated_since_def unbroken_def by fastforce
  show "connected_since (evs @ new)" if c: "connected_since evs"
  proof -
    obtain xs ys zs where "evs = xs @ LinkAssociated # ys @ LinkGotIp # zs" "unbroken (ys @ zs)"
      using c unfolding connected_since_def by blast
    then have "evs @ new = xs @ LinkAssociated # ys @ LinkGotIp # (zs @ new)" "unbroken (ys @ zs @ new)"
      using assms by (auto simp: unbroken_def)
    then show ?thesis unfolding connected_since_def by blast
  qed
qed

lemma got_ip_connected: "associated_since evs \<Longrightarrow> connected_since (evs @ [LinkGotIp])"
proof -
  assume "associated_since evs"
  then obtain xs ys where "evs = xs @ LinkAssociated # ys" "unbroken ys" by (auto simp: associated_since_def)
  then have "evs @ [LinkGotIp] = xs @ LinkAssociated # ys @ LinkGotIp # []" "unbroken (ys @ [])" by simp_all
  then show ?thesis unfolding connected_since_def by blast
qed

definition link_inv :: "wifi_event list \<Rightarrow> 'n wifi \<Rightarrow> bool" where
  "link_inv evs s \<longleftrightarrow> wifi_ok s
     \<and> (wm_mode s = ModeSta \<and> wm_staAssociated s \<longrightarrow> associated_since evs)
     \<and> (wm_state s = StaConnected \<longrightarrow> connected_since evs)"

lemma link_inv_same:
  "link_inv evs s \<Longrightarrow> link_of s' = link_of s \<Longrightarrow> unbroken new \<Longrightarrow> link_inv (evs @ new) s'"
  using wifi_ok_link [of s' s] link_fields [of s' s] since_mono [of new evs] by (auto simp: link_inv_def)

text \<open>A change of the radio: the link is the same, or a new join, or no client at all.\<close>

definition radio_change :: "'n wifi \<Rightarrow> 'n wifi \<Rightarrow> wifi_event list \<Rightarrow> bool" where
  "radio_change s s' new \<longleftrightarrow>
     link_of s' = link_of s \<and> unbroken new
   \<or> wm_state s' = StaConnecting \<and> wm_mode s' = ModeSta \<and> \<not> wm_staAssociated s' \<and> \<not> wm_apIsFallback s'
   \<or> wm_mode s' \<noteq> ModeSta \<and> wifi_ok s'"

lemma radio_change_inv: "link_inv evs s \<Longrightarrow> radio_change s s' new \<Longrightarrow> link_inv (evs @ new) s'"
  using link_inv_same [of evs s s' new]
  by (auto simp: radio_change_def link_inv_def wifi_ok_def split: WifiMode.splits)

lemma startSta_change: "radio_change s (fst (startSta pf now ssid pass p s)) (snd (startSta pf now ssid pass p s))"
proof (cases "ssid = []")
  case True
  then show ?thesis by (simp add: startSta_def radio_change_def unbroken_def)
next
  case False
  then have "link_of (fst (startSta pf now ssid pass p s)) = (StaConnecting, ModeSta, False, False, 0, now, False)"
    by (rule startSta_link(1))
  then show ?thesis by (simp add: radio_change_def link_of_def)
qed

lemma applyRequest_change: "radio_change s (fst (applyRequest pf d now r s)) (snd (applyRequest pf d now r s))"
proof (cases "pr_action r")
  case StartAp
  obtain s1 b where c: "isConfigured pf s = (s1, b)" by (metis surj_pair)
  show ?thesis using StartAp c startAp_link(1) [of pf d "\<not> b" s1] startAp_ok [of pf d "\<not> b" s1]
    by (simp add: applyRequest_def radio_change_def)
next
  case StopWifi
  then show ?thesis using wifi_stop_link(1) [of pf d "pr_persist r" s] wifi_stop_ok [of pf d "pr_persist r" s]
    by (simp add: applyRequest_def radio_change_def)
next
  case Reset
  then show ?thesis by (simp add: applyRequest_def radio_change_def resetAllConfig_link resetAllConfig_ok)
next
  case RetrySta
  show ?thesis
  proof (cases "\<exists>ssid pass. loadStaCreds pf s = Some (ssid, pass) \<and> ssid \<noteq> []")
    case True
    then show ?thesis using RetrySta startSta_change [of s pf now] by (auto simp: applyRequest_def retrySta_def)
  next
    case False
    then have "applyRequest pf d now r s = (s, [])"
      using RetrySta by (auto simp: applyRequest_def retrySta_def split: option.splits)
    then show ?thesis by (simp add: radio_change_def unbroken_def)
  qed
qed (simp_all add: applyRequest_def startSta_change, simp add: radio_change_def unbroken_def)

lemma processPending_change: "radio_change s (fst (processPending pf d now s)) (snd (processPending pf d now s))"
proof -
  let ?s = "s\<lparr>wm_pending := (wm_pending s)\<lparr>pr_action := NoAction, pr_ssid := [], pr_pass := []\<rparr>\<rparr>"
  have l: "link_of ?s = link_of s" by (simp add: link_of_def)
  have "radio_change s s1 (ServersStopped # out)" if "applyRequest pf d now (wm_pending s) ?s = (s1, out)" for s1 out
    using applyRequest_change [of ?s pf d now "wm_pending s"] that l by (auto simp: radio_change_def unbroken_def)
  then show ?thesis
    using l by (auto simp: processPending_def Let_def radio_change_def unbroken_def split: prod.splits)
qed

lemma link_inv_update:
  assumes "link_inv evs s"
  shows "link_inv (evs @ snd (wifi_update pf d now s)) (fst (wifi_update pf d now s))"
proof -
  define s1 where "s1 = fst (processPending pf d now s)"
  define s2 where "s2 = fst (conditioned d s1)"
  have 1: "link_inv (evs @ snd (processPending pf d now s)) s1"
    unfolding s1_def by (rule radio_change_inv [OF assms processPending_change])
  have "unbroken (snd (conditioned d s1))" using conditioned_frame(3) [of d s1] by (auto simp: unbroken_def)
  then have 2: "link_inv ((evs @ snd (processPending pf d now s)) @ snd (conditioned d s1)) s2"
    unfolding s2_def by (rule link_inv_same [OF 1 conditioned_frame(1)])
  have "radio_change s2 (fst (connectTimeout pf d now s2)) (snd (connectTimeout pf d now s2))"
    using connectTimeout_ok [of s2 pf d now] 2
    by (cases "join_expired now s2")
      (simp_all add: connectTimeout_wait connectTimeout_expired radio_change_def link_inv_def unbroken_def)
  from radio_change_inv [OF 2 this] show ?thesis by (simp add: wifi_update_stages s1_def s2_def)
qed

lemma link_inv_event:
  assumes "link_inv evs s"
  shows "link_inv (evs @ snd (onWifiEvent now ev s)) (fst (onWifiEvent now ev s))"
proof (cases ev)
  case StaAssociatedEv
  have "associated_since (evs @ [LinkAssociated])"
    unfolding associated_since_def unbroken_def by (intro exI [of _ evs] exI [of _ "[]"]) simp
  moreover have "connected_since evs \<Longrightarrow> connected_since (evs @ [LinkAssociated])"
    by (rule since_mono(2)) (simp add: unbroken_def)
  ultimately show ?thesis using assms StaAssociatedEv
    by (auto simp: onWifiEvent_def link_inv_def wifi_ok_def split: WifiMode.splits)
next
  case StaGotIpEv
  have s: "associated_since evs \<Longrightarrow> associated_since (evs @ [LinkGotIp])" "connected_since evs \<Longrightarrow> connected_since (evs @ [LinkGotIp])"
    by (rule since_mono; simp add: unbroken_def)+
  then show ?thesis using assms StaGotIpEv got_ip_connected [of evs]
    by (auto simp: onWifiEvent_def got_ip_def link_inv_def wifi_ok_def split: WifiMode.splits)
next
  case (StaDisconnectedEv r)
  then show ?thesis using assms
    by (auto simp: onWifiEvent_def link_lost_def link_inv_def wifi_ok_def Let_def split: WifiMode.splits)
qed (use assms in \<open>auto simp: onWifiEvent_def link_inv_def wifi_ok_def split: WifiMode.splits\<close>)

lemma link_inv_step:
  assumes "link_inv evs s"
  shows "link_inv (evs @ snd (wifi_step pf s c)) (fst (wifi_step pf s c))"
proof -
  have frame: "link_inv evs s'" if "link_of s' = link_of s" for s'
    using link_inv_same [OF assms that, of "[]"] by (simp add: unbroken_def)
  show ?thesis
  proof (cases c)
    case (ScheduleConditioning g)
    then show ?thesis using frame [of "s\<lparr>wm_requestedGeneration := g\<rparr>"] by (simp add: link_of_def)
  qed (simp_all add: link_inv_update [OF assms] link_inv_event [OF assms] frame store_link requestConnectSta_def
        requestReset_def requestStartAp_def requestStop_def requestRetrySta_def)
qed

interpretation wifi_links: traced_machine "wifi_step pf" link_inv "\<lambda>evs e. True" "wm_init nvs" for pf nvs
proof
  show "link_inv [] (wm_init nvs)" using wifi_init_ok [of nvs] by (simp add: link_inv_def wm_init_def)
qed (auto intro: link_inv_step)

text \<open>C18: Whatever requests, updates and late events of earlier sessions come, in any order, the manager says
  connected only if the link associated and then got an address with no new join and no drop since.\<close>

theorem connected_is_current:
  assumes "wm_state (run (wifi_step pf) (wm_init nvs) calls) = StaConnected"
  shows "\<exists>xs ys zs. trace (wifi_step pf) (wm_init nvs) calls = xs @ LinkAssociated # ys @ LinkGotIp # zs
     \<and> (\<forall>e \<in> set (ys @ zs). \<not> is_join e \<and> \<not> is_drop e)"
  using wifi_links.inv_trace [of pf nvs calls] assms by (simp add: link_inv_def connected_since_def unbroken_def)

theorem connected_is_current_witness:
  "let calls = [ReqConnect ''cafe'' ''espresso'', Update good_driver 100, LinkEvent 200 StaAssociatedEv, LinkEvent 300 StaGotIpEv] in
   wm_state (run (wifi_step ram_prefs) (wm_init ([], [])) calls) = StaConnected
   \<and> (\<exists>xs ys zs. trace (wifi_step ram_prefs) (wm_init ([], [])) calls = xs @ LinkAssociated # ys @ LinkGotIp # zs
        \<and> list_all (\<lambda>e. \<not> is_join e \<and> \<not> is_drop e) (ys @ zs))"
proof -
  have c: "wm_state (run (wifi_step ram_prefs) (wm_init ([], []))
    [ReqConnect ''cafe'' ''espresso'', Update good_driver 100, LinkEvent 200 StaAssociatedEv, LinkEvent 300 StaGotIpEv]) = StaConnected"
    by code_simp
  show ?thesis unfolding Let_def list_all_iff using connected_is_current [OF c] c by (rule conjI [rotated])
qed


section \<open>A join that hangs, a link that drops\<close>

text \<open>Calls that change no request and bring no address, all updates within the time a join has.\<close>

fun waiting_call :: "u32 \<Rightarrow> wifi_call \<Rightarrow> bool" where
  "waiting_call t0 (Update d now) \<longleftrightarrow> now - t0 \<le> kStaTimeoutMs"
| "waiting_call t0 (LinkEvent now ev) \<longleftrightarrow> ev \<noteq> StaGotIpEv"
| "waiting_call t0 (ReqConnect _ _) \<longleftrightarrow> False"
| "waiting_call t0 (ReqReset _) \<longleftrightarrow> False"
| "waiting_call t0 ReqStartAp \<longleftrightarrow> False"
| "waiting_call t0 (ReqStop _) \<longleftrightarrow> False"
| "waiting_call t0 (ReqRetry _) \<longleftrightarrow> False"
| "waiting_call t0 _ \<longleftrightarrow> True"

definition joining :: "u32 \<Rightarrow> 'n wifi \<Rightarrow> bool" where
  "joining t0 s \<longleftrightarrow> wm_state s = StaConnecting \<and> wm_mode s = ModeSta \<and> \<not> wm_fallbackSuppressed s
     \<and> wm_staConnectingStartedMs s = t0 \<and> \<not> hasPendingAction s"

lemma joining_same: "joining t0 s \<Longrightarrow> link_of s' = link_of s \<Longrightarrow> wm_pending s' = wm_pending s \<Longrightarrow> joining t0 s'"
  by (auto simp: joining_def hasPendingAction_def dest: link_fields)

lemma quiet_update:
  assumes "\<not> hasPendingAction s" and "wm_state s \<noteq> RadioOff"
  shows "\<exists>s1. link_of s1 = link_of s \<and> \<not> hasPendingAction s1 \<and> wifi_update pf d now s = connectTimeout pf d now s1"
proof -
  let ?s = "s\<lparr>wm_pending := (wm_pending s)\<lparr>pr_action := NoAction, pr_ssid := [], pr_pass := []\<rparr>\<rparr>"
  have "processPending pf d now s = (?s, [])" using assms(1) by (simp add: processPending_def hasPendingAction_def Let_def)
  then have "wifi_update pf d now s = connectTimeout pf d now ?s"
    using assms(2) by (simp add: wifi_update_def split: prod.splits)
  then show ?thesis by (intro exI [of _ ?s]) (simp add: link_of_def hasPendingAction_def)
qed

lemma joining_step:
  assumes "joining t0 s" and "waiting_call t0 c"
  shows "joining t0 (fst (wifi_step pf s c)) \<and> snd (wifi_step pf s c) \<noteq> [ApStarted True]"
proof (cases c)
  case (Update d now)
  obtain s1 where s1: "link_of s1 = link_of s" "\<not> hasPendingAction s1" "wifi_update pf d now s = connectTimeout pf d now s1"
    using quiet_update [of s pf d now] assms(1) by (auto simp: joining_def)
  have "joining t0 s1" using assms(1) s1(1,2) by (auto simp: joining_def dest: link_fields)
  moreover from this have "\<not> join_expired now s1" using assms(2) Update by (simp add: joining_def join_expired_def)
  ultimately show ?thesis using Update s1(3) by (simp add: connectTimeout_wait)
next
  case (LinkEvent now ev)
  then show ?thesis using assms
    by (cases ev) (auto simp: onWifiEvent_def link_lost_def joining_def hasPendingAction_def Let_def)
next
  case (ScheduleConditioning g)
  then show ?thesis using assms(1) by (simp add: joining_def hasPendingAction_def)
qed (use assms(2) in \<open>simp_all add: assms(1) joining_same [OF assms(1)] store_link store_frame\<close>)

lemma joining_run: "joining t0 s \<Longrightarrow> list_all (waiting_call t0) cs \<Longrightarrow> joining t0 (run (wifi_step pf) s cs)"
  by (induction cs arbitrary: s) (auto simp: joining_step)

text \<open>C19: A join that gets no address within fifteen seconds ends: whatever drops, associations and
  queries happen meanwhile, the manager stays a joining client until then, and the first update
  after it makes the device its own access point, marked as a fallback, or switches off when even
  that fails. The fallback leaves the saved mode alone.\<close>

theorem hung_join_falls_back:
  assumes "ssid \<noteq> []" and "\<not> hasPendingAction s" and "list_all (waiting_call t0) calls" and "kStaTimeoutMs < now - t0"
    and "\<And>nvs k v. pf_getUChar pf kKeyMode (fst (pf_putString pf k v nvs)) = pf_getUChar pf kKeyMode nvs"
  shows "let s1 = run (wifi_step pf) (fst (startSta pf t0 ssid pass persist s)) calls;
             s2 = fst (wifi_step pf s1 (Update d now)) in
     wm_state s1 = StaConnecting \<and> wm_mode s1 = ModeSta
     \<and> (if dr_softApUp d then wm_state s2 = ApUp \<and> wm_mode s2 = ModeAp \<and> wm_apIsFallback s2
        else wm_state s2 = RadioOff \<and> wm_mode s2 = ModeOff)
     \<and> pf_getUChar pf kKeyMode (wm_nvs s2) = pf_getUChar pf kKeyMode (wm_nvs s1)"
proof -
  define s1 where "s1 = run (wifi_step pf) (fst (startSta pf t0 ssid pass persist s)) calls"
  have "joining t0 (fst (startSta pf t0 ssid pass persist s))"
    using startSta_link [OF assms(1), of pf t0 pass persist s] assms(2) by (simp add: joining_def link_of_def hasPendingAction_def)
  then have j: "joining t0 s1" unfolding s1_def by (rule joining_run) (rule assms(3))
  let ?s = "s1\<lparr>wm_pending := (wm_pending s1)\<lparr>pr_action := NoAction, pr_ssid := [], pr_pass := []\<rparr>\<rparr>"
  have u: "wifi_update pf d now s1 = connectTimeout pf d now ?s"
    using j by (simp add: joining_def processPending_def hasPendingAction_def wifi_update_def Let_def split: prod.splits)
  have e: "join_expired now ?s" using j assms(4) by (simp add: joining_def join_expired_def not_le)
  have "pf_getUChar pf kKeyMode (wm_nvs (fst (startAp pf d False ?s))) = pf_getUChar pf kKeyMode (wm_nvs s1)"
    using assms(5) by (simp add: startAp_def loadHostname_def ensureApPassword_def Let_def)
  then have "pf_getUChar pf kKeyMode (wm_nvs (fst (connectTimeout pf d now ?s))) = pf_getUChar pf kKeyMode (wm_nvs s1)"
    using e by (auto simp: connectTimeout_def join_expired_def split: prod.splits)
  then show ?thesis
    using j connectTimeout_expired [OF e, of pf d] by (simp add: Let_def s1_def [symmetric] u joining_def)
qed

theorem hung_join_falls_back_witness:
  "let s1 = run (wifi_step ram_prefs) (fst (startSta ram_prefs 100 ''cafe'' ''espresso'' True joined_device))
              [Update good_driver 9000, LinkEvent 9500 (StaDisconnectedEv 202), Update good_driver 15100];
       s2 = fst (wifi_step ram_prefs s1 (Update good_driver 15101)) in
   wm_state s1 = StaConnecting \<and> wm_mode s1 = ModeSta
   \<and> wm_state s2 = ApUp \<and> wm_mode s2 = ModeAp \<and> wm_apIsFallback s2
   \<and> pf_getUChar ram_prefs kKeyMode (wm_nvs s2) = pf_getUChar ram_prefs kKeyMode (wm_nvs s1)"
proof -
  have 1: "\<not> hasPendingAction joined_device" by code_simp
  have 2: "list_all (waiting_call 100) [Update good_driver 9000, LinkEvent 9500 (StaDisconnectedEv 202), Update good_driver 15100]"
    by code_simp
  have 3: "kStaTimeoutMs < (15101 :: u32) - 100" by code_simp
  have 4: "pf_getUChar ram_prefs kKeyMode (fst (pf_putString ram_prefs k v nvs)) = pf_getUChar ram_prefs kKeyMode nvs" for k v nvs
    by (simp add: ram_prefs_def)
  have 5: "dr_softApUp good_driver" by (simp add: good_driver_def)
  show ?thesis using hung_join_falls_back [of "''cafe''", OF _ 1 2 3 4, of "''espresso''" True good_driver] 5 by (simp add: Let_def)
qed


fun transient_call :: "wifi_call \<Rightarrow> bool" where
  "transient_call (LinkEvent now (StaDisconnectedEv r)) \<longleftrightarrow> \<not> isCredentialFailureReason r"
| "transient_call (ReqConnect _ _) \<longleftrightarrow> False"
| "transient_call (ReqReset _) \<longleftrightarrow> False"
| "transient_call ReqStartAp \<longleftrightarrow> False"
| "transient_call (ReqStop _) \<longleftrightarrow> False"
| "transient_call (ReqRetry _) \<longleftrightarrow> False"
| "transient_call _ \<longleftrightarrow> True"

definition held :: "'n wifi \<Rightarrow> bool" where
  "held s \<longleftrightarrow> wm_mode s = ModeSta \<and> wm_fallbackSuppressed s \<and> wm_state s \<in> {StaConnecting, StaConnected} \<and> \<not> hasPendingAction s"

lemma held_same: "held s \<Longrightarrow> link_of s' = link_of s \<Longrightarrow> wm_pending s' = wm_pending s \<Longrightarrow> held s'"
  using link_fields [of s' s] by (auto simp: held_def hasPendingAction_def)

lemma held_step:
  assumes "held s" and "transient_call c"
  shows "held (fst (wifi_step pf s c)) \<and> (\<forall>e \<in> set (snd (wifi_step pf s c)). \<not> radio_event e)"
proof (cases c)
  case (Update d now)
  obtain s1 where s1: "link_of s1 = link_of s" "\<not> hasPendingAction s1" "wifi_update pf d now s = connectTimeout pf d now s1"
    using quiet_update [of s pf d now] assms(1) by (auto simp: held_def)
  have "held s1" using assms(1) s1(2) link_fields [OF s1(1)] by (simp add: held_def)
  moreover from this have "\<not> join_expired now s1" by (simp add: held_def join_expired_def)
  ultimately show ?thesis using Update s1(3) by (simp add: connectTimeout_wait)
next
  case (LinkEvent now ev)
  then show ?thesis using assms
    by (cases ev) (auto simp: onWifiEvent_def got_ip_def link_lost_def held_def hasPendingAction_def radio_event_def Let_def)
next
  case (ScheduleConditioning g)
  then show ?thesis using assms(1) by (simp add: held_def hasPendingAction_def)
qed (use assms(2) in \<open>simp_all add: assms(1) held_same [OF assms(1)] store_link store_frame\<close>)

lemma held_run:
  "held s \<Longrightarrow> list_all transient_call cs \<Longrightarrow>
     held (run (wifi_step pf) s cs) \<and> (\<forall>e \<in> set (trace (wifi_step pf) s cs). \<not> radio_event e)"
proof (induction cs arbitrary: s)
  case (Cons c cs)
  then show ?case using held_step [of s c pf] by fastforce
qed simp

text \<open>C20: Once the device got its address, no outage without a credential failure makes it give the network
  up: it stays a client, connected or reconnecting, however long the updates wait.\<close>

theorem outage_keeps_client:
  assumes "wm_mode s = ModeSta" and "wm_staAssociated s" and "\<not> hasPendingAction s" and "list_all transient_call calls"
  shows "let s' = run (wifi_step pf) s (LinkEvent t StaGotIpEv # calls) in
     wm_mode s' = ModeSta \<and> wm_state s' \<in> {StaConnecting, StaConnected}
     \<and> (\<forall>e \<in> set (trace (wifi_step pf) s (LinkEvent t StaGotIpEv # calls)). \<not> radio_event e)"
proof -
  have "held (got_ip s)" using assms(1-3) by (simp add: held_def got_ip_def hasPendingAction_def)
  from held_run [OF this assms(4), of pf] show ?thesis
    by (auto simp: Let_def onWifiEvent_def held_def radio_event_def)
qed

theorem outage_keeps_client_witness:
  "let calls = [LinkEvent 900 (StaDisconnectedEv 201), Update good_driver 90000, LinkEvent 90001 StaAssociatedEv];
       s' = run (wifi_step ram_prefs) associated_device (LinkEvent 300 StaGotIpEv # calls) in
   wm_mode s' = ModeSta \<and> wm_state s' \<in> {StaConnecting, StaConnected}
   \<and> list_all (\<lambda>e. \<not> radio_event e) (trace (wifi_step ram_prefs) associated_device (LinkEvent 300 StaGotIpEv # calls))"
proof -
  have 1: "wm_mode associated_device = ModeSta" "wm_staAssociated associated_device" "\<not> hasPendingAction associated_device"
    by code_simp+
  have 2: "list_all transient_call [LinkEvent 900 (StaDisconnectedEv 201), Update good_driver 90000, LinkEvent 90001 StaAssociatedEv]"
    by code_simp
  from outage_keeps_client [OF 1 2, of ram_prefs 300] show ?thesis unfolding Let_def list_all_iff .
qed


section \<open>A stop that does not last\<close>

text \<open>C21: \<open>stop\<close> disconnects, so the event task is handling that very drop. If it has tested the mode before
  \<open>stop\<close> sets it and stores afterwards, the manager is off and connecting at once, and an update more
  than fifteen seconds after the join began, or after the credential failure, starts the access point
  nobody asked for.\<close>

theorem stop_undone_by_late_drop:
  assumes "wm_mode s = ModeSta"                             \<comment> \<open>the event task's test\<close>
    and "\<not> wm_fallbackSuppressed s" and "\<not> hasPendingAction s"
    and "kStaTimeoutMs < now - wm_staConnectingStartedMs s" and "dr_softApUp d"
  shows "let s1 = fst (wifi_stop pf d0 False s); s2 = link_lost t reason s1; s3 = fst (wifi_update pf d now s2) in
     wm_mode s1 = ModeOff \<and> wm_state s1 = RadioOff
     \<and> wm_mode s2 = ModeOff \<and> wm_state s2 = StaConnecting
     \<and> wm_mode s3 = ModeAp \<and> wm_state s3 = ApUp"
proof -
  define s1 where "s1 = fst (wifi_stop pf d0 False s)"
  define s2 where "s2 = link_lost t reason s1"
  have 1: "wm_mode s1 = ModeOff" "wm_state s1 = RadioOff" "wm_pending s1 = wm_pending s" "\<not> wm_fallbackSuppressed s1"
      "wm_staConnectingStartedMs s1 = wm_staConnectingStartedMs s"
    using wifi_stop_link(1) [of pf d0 False s s1] assms(2) by (auto simp: s1_def wifi_stop_def Let_def)
  have 2: "wm_mode s2 = ModeOff" "wm_state s2 = StaConnecting" "\<not> wm_fallbackSuppressed s2" "wm_pending s2 = wm_pending s"
      "wm_staConnectingStartedMs s2 = wm_staConnectingStartedMs s"
    using 1 by (auto simp: s2_def link_lost_def Let_def)
  obtain s' where s': "link_of s' = link_of s2" "wifi_update pf d now s2 = connectTimeout pf d now s'"
    using quiet_update [of s2 pf d now] 2 assms(3) by (auto simp: hasPendingAction_def)
  have "join_expired now s'" using link_fields [OF s'(1)] 2 assms(4) by (simp add: join_expired_def not_le)
  from connectTimeout_expired [OF this, of pf d] show ?thesis
    using 1 2 assms(5) s'(2) by (simp add: Let_def s1_def [symmetric] s2_def [symmetric])
qed

theorem stop_undone_by_late_drop_witness:
  "let s1 = fst (wifi_stop ram_prefs good_driver False joined_device); s2 = link_lost 20000 8 s1;
       s3 = fst (wifi_update ram_prefs good_driver 20001 s2) in
   wm_mode s1 = ModeOff \<and> wm_state s1 = RadioOff
   \<and> wm_mode s2 = ModeOff \<and> wm_state s2 = StaConnecting
   \<and> wm_mode s3 = ModeAp \<and> wm_state s3 = ApUp"
proof -
  have 1: "wm_mode joined_device = ModeSta" "\<not> wm_fallbackSuppressed joined_device" "\<not> hasPendingAction joined_device"
    "kStaTimeoutMs < 20001 - wm_staConnectingStartedMs joined_device" "dr_softApUp good_driver"
    by code_simp+
  show ?thesis using stop_undone_by_late_drop [OF 1, of ram_prefs good_driver 20000 8] .
qed


end
