(* ===== verification/WifiScan.thy ===== *)
theory WifiScan
  imports WifiLaws
begin

text \<open>
  The configuration page of \<open>src/src/net/WifiManager.cpp\<close>: the networks a scan reports, and the requests
  that set the network, the name or erase the configuration. A reply is its HTTP status.
\<close>

section \<open>Scan results\<close>

record network =
  nw_ssid :: string
  nw_rssi :: int
  nw_secure :: bool

text \<open>The loop over \<open>picked\<close>: a known name keeps its stronger instance, in place.\<close>

fun pick :: "network list \<Rightarrow> network \<Rightarrow> network list" where
  "pick [] n = [n]"
| "pick (p # ps) n =
     (if nw_ssid p = nw_ssid n then (if nw_rssi p < nw_rssi n then n else p) # ps else p # pick ps n)"

definition picked :: "network list \<Rightarrow> network list" where
  "picked found = foldl (\<lambda>ps n. if nw_ssid n = [] then ps else pick ps n) [] found"

text \<open>\<open>std::sort\<close> by falling strength; networks of equal strength may come in any order there.\<close>

definition scan_results :: "network list \<Rightarrow> network list" where
  "scan_results found = take kMaxScanResults (sort_key (\<lambda>n. - nw_rssi n) (picked found))"

definition ssids :: "network list \<Rightarrow> string list" where
  "ssids ns = List.map nw_ssid ns"

lemma pick_ssids: "set (ssids (pick ps n)) = insert (nw_ssid n) (set (ssids ps))"
  by (induction ps n rule: pick.induct) (auto simp: ssids_def)

lemma pick_distinct: "distinct (ssids ps) \<Longrightarrow> distinct (ssids (pick ps n))"
proof (induction ps n rule: pick.induct)
  case (2 p ps n)
  then show ?case using pick_ssids [of ps n] by (auto simp: ssids_def)
qed (simp add: ssids_def)

lemma pick_subset: "set (pick ps n) \<subseteq> insert n (set ps)"
  by (induction ps n rule: pick.induct) auto

lemma pick_covers:
  "\<exists>q \<in> set (pick ps n). nw_ssid q = nw_ssid n \<and> nw_rssi n \<le> nw_rssi q"
  "p \<in> set ps \<Longrightarrow> \<exists>q \<in> set (pick ps n). nw_ssid q = nw_ssid p \<and> nw_rssi p \<le> nw_rssi q"
  by (induction ps n rule: pick.induct) (auto intro: less_imp_le)

text \<open>What the list of picked networks is to the networks seen: one instance of each name, the strongest.\<close>

definition strongest_of :: "network list \<Rightarrow> network list \<Rightarrow> bool" where
  "strongest_of found ps \<longleftrightarrow> distinct (ssids ps) \<and> set ps \<subseteq> set found \<and> [] \<notin> set (ssids ps)
     \<and> (\<forall>n \<in> set found. nw_ssid n \<noteq> [] \<longrightarrow> (\<exists>p \<in> set ps. nw_ssid p = nw_ssid n \<and> nw_rssi n \<le> nw_rssi p))"

lemma strongest_pick:
  assumes "strongest_of seen ps"
  shows "strongest_of (seen @ [n]) (if nw_ssid n = [] then ps else pick ps n)"
proof (cases "nw_ssid n = []")
  case True
  then show ?thesis using assms by (auto simp: strongest_of_def)
next
  case False
  have c: "\<exists>q \<in> set (pick ps n). nw_ssid q = nw_ssid m \<and> nw_rssi m \<le> nw_rssi q" if "m \<in> set seen" "nw_ssid m \<noteq> []" for m
  proof -
    obtain p where p: "p \<in> set ps" "nw_ssid p = nw_ssid m" "nw_rssi m \<le> nw_rssi p"
      using assms \<open>m \<in> set seen\<close> \<open>nw_ssid m \<noteq> []\<close> unfolding strongest_of_def by blast
    then show ?thesis using pick_covers(2) [OF p(1), of n] by fastforce
  qed
  have "distinct (ssids (pick ps n))" "set (pick ps n) \<subseteq> set (seen @ [n])" "[] \<notin> set (ssids (pick ps n))"
    using assms False pick_distinct pick_subset [of ps n] pick_ssids [of ps n] by (auto simp: strongest_of_def)
  then show ?thesis using False c pick_covers(1) [of ps n] by (auto simp: strongest_of_def)
qed

lemma strongest_foldl:
  "strongest_of seen ps \<Longrightarrow>
     strongest_of (seen @ found) (foldl (\<lambda>ps n. if nw_ssid n = [] then ps else pick ps n) ps found)"
proof (induction found arbitrary: seen ps)
  case (Cons n found)
  then show ?case using Cons.IH [OF strongest_pick [OF Cons.prems, of n]] by simp
qed simp

lemma picked_strongest: "strongest_of found (picked found)"
  using strongest_foldl [of "[]" "[]" found] by (simp add: picked_def strongest_of_def ssids_def)

lemma sorted_take_drop:
  assumes "sorted (List.map f xs)" and "x \<in> set (take k xs)" and "y \<in> set (drop k xs)"
  shows "f x \<le> f y"
proof -
  have "sorted (List.map f (take k xs) @ List.map f (drop k xs))"
    using assms(1) by (metis append_take_drop_id map_append)
  then show ?thesis using assms(2,3) by (auto simp: sorted_append)
qed

text \<open>The list the configuration page shows names at most fifteen networks, each once and none hidden, strongest
  first, each by its strongest instance; and a network with a name that it does not show is no
  stronger than any it does, which are then fifteen.\<close>

theorem scan_shows_strongest:
  "let shown = scan_results found in
     length shown \<le> 15 \<and> distinct (ssids shown) \<and> set shown \<subseteq> set found \<and> [] \<notin> set (ssids shown)
   \<and> sorted (List.map (\<lambda>n. - nw_rssi n) shown)
   \<and> (\<forall>n \<in> set found. nw_ssid n \<noteq> [] \<longrightarrow>
        (\<exists>p \<in> set shown. nw_ssid p = nw_ssid n \<and> nw_rssi n \<le> nw_rssi p)
        \<or> length shown = 15 \<and> (\<forall>p \<in> set shown. nw_rssi n \<le> nw_rssi p))"
proof -
  define ps where "ps = sort_key (\<lambda>n. - nw_rssi n) (picked found)"
  have s: "strongest_of found ps" "sorted (List.map (\<lambda>n. - nw_rssi n) ps)"
    using picked_strongest [of found] by (simp_all add: ps_def strongest_of_def ssids_def distinct_map)
  have shown: "scan_results found = take 15 ps" by (simp add: scan_results_def ps_def kMaxScanResults_def)
  have d: "distinct (ssids (take 15 ps))" "set (take 15 ps) \<subseteq> set found" "[] \<notin> set (ssids (take 15 ps))"
    using s(1) by (auto simp: strongest_of_def ssids_def take_map [symmetric] dest: in_set_takeD)
  have o: "sorted (List.map (\<lambda>n. - nw_rssi n) (take 15 ps))"
    using s(2) by (metis sorted_wrt_take take_map)
  have m: "(\<exists>p \<in> set (take 15 ps). nw_ssid p = nw_ssid n \<and> nw_rssi n \<le> nw_rssi p)
        \<or> length (take 15 ps) = 15 \<and> (\<forall>p \<in> set (take 15 ps). nw_rssi n \<le> nw_rssi p)"
    if n: "n \<in> set found" "nw_ssid n \<noteq> []" for n
  proof -
    obtain q where q: "q \<in> set ps" "nw_ssid q = nw_ssid n" "nw_rssi n \<le> nw_rssi q"
      using s(1) n unfolding strongest_of_def by blast
    show ?thesis
    proof (cases "q \<in> set (take 15 ps)")
      case True
      then show ?thesis using q by blast
    next
      case False
      then have dq: "q \<in> set (drop 15 ps)" using q(1) by (metis Un_iff append_take_drop_id set_append)
      then have "15 \<le> length ps" by (cases "length ps < 15") auto
      moreover have "nw_rssi q \<le> nw_rssi p" if "p \<in> set (take 15 ps)" for p
        using sorted_take_drop [OF s(2) that dq] by simp
      ultimately show ?thesis using q(3) by fastforce
    qed
  qed
  show ?thesis using d o m by (simp add: shown Let_def)
qed

theorem scan_shows_strongest_witness:
  "let found = [\<lparr>nw_ssid = ''bar'', nw_rssi = - 70, nw_secure = True\<rparr>, \<lparr>nw_ssid = [], nw_rssi = - 20, nw_secure = True\<rparr>,
      \<lparr>nw_ssid = ''cafe'', nw_rssi = - 60, nw_secure = False\<rparr>, \<lparr>nw_ssid = ''bar'', nw_rssi = - 50, nw_secure = True\<rparr>] in
   ssids (scan_results found) = [''bar'', ''cafe''] \<and> length (scan_results found) \<le> 15"
proof -
  let ?found = "[\<lparr>nw_ssid = ''bar'', nw_rssi = - 70, nw_secure = True\<rparr>, \<lparr>nw_ssid = [], nw_rssi = - 20, nw_secure = True\<rparr>,
      \<lparr>nw_ssid = ''cafe'', nw_rssi = - 60, nw_secure = False\<rparr>, \<lparr>nw_ssid = ''bar'', nw_rssi = - 50, nw_secure = True\<rparr>]"
  have "ssids (scan_results ?found) = [''bar'', ''cafe'']" by code_simp
  then show ?thesis using scan_shows_strongest [of ?found] unfolding Let_def by blast
qed

section \<open>Requests of the configuration page\<close>

type_synonym http_status = int

text \<open>\<open>set_sta\<close>: the arguments are None when the form has not got them.\<close>

definition handleSetSta :: "string option \<Rightarrow> string option \<Rightarrow> 'n wifi \<Rightarrow> 'n wifi \<times> http_status" where
  "handleSetSta ssid_arg pass_arg s =
     (case ssid_arg of
        None \<Rightarrow> (s, 400)
      | Some ssid \<Rightarrow>
          let pass = (case pass_arg of None \<Rightarrow> [] | Some p \<Rightarrow> p) in
          if length ssid = 0 \<or> kMaxSsidLen < length ssid then (s, 400)
          else if kMaxPassLen < length pass then (s, 400)
          else (requestConnectSta ssid pass s, 200))"

definition handleForget :: "'n wifi \<Rightarrow> 'n wifi \<times> http_status" where
  "handleForget s = (requestReset False s, 200)"

definition handleSetHostname :: "'n prefs \<Rightarrow> string option \<Rightarrow> 'n wifi \<Rightarrow> 'n wifi \<times> http_status" where
  "handleSetHostname pf name_arg s =
     (case name_arg of
        None \<Rightarrow> (s, 400)
      | Some name \<Rightarrow> (let (s1, ok) = setHostname pf name s in (s1, if ok then 200 else 400)))"

lemma host_loop_some: "host_loop len cs = Some n \<longleftrightarrow>
    list_all host_char cs \<and> n = len + length cs \<and> (len = 0 \<and> cs \<noteq> [] \<longrightarrow> hd cs \<noteq> CHR ''-'')"
  by (induction cs arbitrary: len) auto

text \<open>What a host name has to be: one to 31 letters, digits and hyphens, no hyphen at either end.\<close>

definition dns_label :: "string \<Rightarrow> bool" where
  "dns_label s \<longleftrightarrow> 1 \<le> length s \<and> length s \<le> 31 \<and> list_all host_char s \<and> hd s \<noteq> CHR ''-'' \<and> last s \<noteq> CHR ''-''"

lemma isValidHostname_label: "isValidHostname s = dns_label s"
proof (cases "list_all host_char s \<and> (s \<noteq> [] \<longrightarrow> hd s \<noteq> CHR ''-'')")
  case True
  then have "host_loop 0 s = Some (length s)" by (simp add: host_loop_some)
  then show ?thesis using True
    by (cases s rule: rev_cases) (auto simp: isValidHostname_def dns_label_def kMaxHostnameLen_def nth_append)
next
  case False
  then have "host_loop 0 s = None" using host_loop_some [of 0 s] by (cases "host_loop 0 s") auto
  then show ?thesis using False by (cases s) (auto simp: isValidHostname_def dns_label_def)
qed

text \<open>The page answers 200 to a new name exactly if it is a name a network may have and the preferences took
  it; then the next change of the radio, the start of an access point or of a client, serves that
  name and not a cut copy. A name that is refused changes nothing.\<close>

theorem renamed_device:
  assumes "\<And>k v nvs. 0 < snd (pf_putString pf k v nvs) \<Longrightarrow> pf_getString pf k (fst (pf_putString pf k v nvs)) = v"
    and "pf_open pf True (fst (pf_putString pf kKeyHostname name (wm_nvs s)))"
  shows "let (s1, status) = handleSetHostname pf (Some name) s in
     (status = 200 \<longleftrightarrow> dns_label name \<and> pf_open pf False (wm_nvs s) \<and> 0 < snd (pf_putString pf kKeyHostname name (wm_nvs s)))
   \<and> (status = 200 \<longrightarrow> wm_hostname (loadHostname pf s1) = name)
   \<and> (\<not> dns_label name \<longrightarrow> s1 = s)"
proof -
  obtain nvs n where p: "pf_putString pf kKeyHostname name (wm_nvs s) = (nvs, n)" by (metis surj_pair)
  have g: "pf_getString pf kKeyHostname nvs = name" if "0 < n" using assms(1) [of kKeyHostname name "wm_nvs s"] p that by simp
  have t: "take kMaxHostnameLen name = name" if "dns_label name" using that by (simp add: dns_label_def kMaxHostnameLen_def)
  show ?thesis using assms(2) p g t
    by (cases "dns_label name"; cases "pf_open pf False (wm_nvs s)"; cases "0 < n")
      (simp_all add: handleSetHostname_def setHostname_def isValidHostname_label loadHostname_def Let_def)
qed

theorem renamed_device_witness:
  "let (s1, status) = handleSetHostname ram_prefs (Some ''espresso-bar'') joined_device in
   status = 200 \<and> wm_hostname (loadHostname ram_prefs s1) = ''espresso-bar''"
proof -
  have 1: "pf_getString ram_prefs k (fst (pf_putString ram_prefs k v nvs)) = v" for k v nvs by (simp add: ram_prefs_def)
  have 2: "pf_open ram_prefs b nvs" for b nvs by (simp add: ram_prefs_def)
  have 3: "0 < snd (pf_putString ram_prefs kKeyHostname ''espresso-bar'' nvs)" for nvs by (simp add: ram_prefs_def)
  have 4: "dns_label ''espresso-bar''" by code_simp
  obtain s1 status where h: "handleSetHostname ram_prefs (Some ''espresso-bar'') joined_device = (s1, status)" by (metis surj_pair)
  show ?thesis using renamed_device [where pf = ram_prefs and s = joined_device, OF 1 2, of "''espresso-bar''"]
    by (simp add: h 2 3 4)
qed

end
