(* ===== verification/Auth.thy ===== *)
theory Auth
  imports Hex Traces
begin

text \<open>
  \<open>src/src/net/Auth.h/.cpp\<close> and \<open>PairRedirectPolicy.h\<close>: who may use the device over the network. A pairing
  window shows a PIN and a link on the screen; redeeming either mints a token that the browser keeps as
  a cookie and the device in its preferences. Every method that holds the mutex is one step. The
  preferences are a parameter; \<open>'n\<close> is their state.
\<close>

section \<open>State\<close>

definition kTokenBytes :: nat where "kTokenBytes = 16"
definition kMaxTokens :: nat where "kMaxTokens = 8"
definition kPairTokenBytes :: nat where "kPairTokenBytes = 6"
definition kDefaultPairingTtlMs :: u32 where "kDefaultPairingTtlMs = 60000"
definition kMaxPinAttempts :: u8 where "kMaxPinAttempts = 5"
definition kCookieName :: string where "kCookieName = ''auth_token''"

type_synonym token = "u8 list"

text \<open>Error codes of the NVS library, as far as the code tells them apart.\<close>

datatype nvs_err = NvsOk | NvsNotFound | NvsTypeMismatch | NvsInvalidSize | NvsOther int

record 'n token_store =
  ts_open :: "'n \<Rightarrow> nvs_err"                     \<comment> \<open>\<open>nvs_open\<close>, read only\<close>
  ts_length :: "'n \<Rightarrow> nvs_err \<times> nat"             \<comment> \<open>\<open>nvs_get_blob\<close> without a buffer\<close>
  ts_read :: "'n \<Rightarrow> nvs_err \<times> u8 list"           \<comment> \<open>\<open>nvs_get_blob\<close>\<close>
  ts_begin :: "'n \<Rightarrow> bool"                       \<comment> \<open>\<open>Preferences::begin\<close>, writing\<close>
  ts_put :: "u8 list \<Rightarrow> 'n \<Rightarrow> 'n \<times> nat"         \<comment> \<open>\<open>putBytes\<close>: the bytes written\<close>
  ts_clear :: "'n \<Rightarrow> 'n"

record 'n auth =
  au_pairingActive :: bool
  au_pin :: string
  au_pairToken :: string
  au_pinStartedMs :: u32
  au_pinTtlMs :: u32
  au_pinFailedAttempts :: u8
  au_tokens :: "token list"
  au_tokensLoaded :: bool
  au_lastTokenLoadError :: nvs_err
  au_redeems :: u32
  au_nvs :: 'n

definition auth_init :: "'n \<Rightarrow> 'n auth" where
  "auth_init nvs = \<lparr>au_pairingActive = False, au_pin = [], au_pairToken = [], au_pinStartedMs = 0, au_pinTtlMs = 0,
     au_pinFailedAttempts = 0, au_tokens = [], au_tokensLoaded = False, au_lastTokenLoadError = NvsOk,
     au_redeems = 0, au_nvs = nvs\<rparr>"

text \<open>What happened, for the statements: a wrong guess, a token read, minted, not stored, and so on.\<close>

datatype auth_event =
    WindowOpened string string u32 u32      \<comment> \<open>PIN, link token, start, time to live\<close>
  | WindowClosed
  | WrongGuess
  | Redeemed bool string u32                \<comment> \<open>by link?, what was submitted, when\<close>
  | TokensLoaded "token list"
  | LoadFailed nvs_err
  | Minted token
  | MintFailed
  | Forgotten

type_synonym ('n, 'r) acted = "'n auth \<times> auth_event list \<times> 'r"

section \<open>The pairing window\<close>

text \<open>\<open>%04u\<close> of a number below 10000.\<close>

definition digit_char :: "nat \<Rightarrow> char" where
  "digit_char n = char_of (48 + n)"

definition pin_text :: "u32 \<Rightarrow> string" where
  "pin_text r =
     (let n = unat (r mod 10000) in
      [digit_char (n div 1000), digit_char (n div 100 mod 10), digit_char (n div 10 mod 10), digit_char (n mod 10)])"

definition close_window :: "'n auth \<Rightarrow> 'n auth" where
  "close_window s = s\<lparr>au_pairingActive := False, au_pin := [], au_pairToken := []\<rparr>"

definition startPairing :: "u32 \<Rightarrow> u8 list \<Rightarrow> u32 \<Rightarrow> u32 \<Rightarrow> 'n auth \<Rightarrow> ('n, string) acted" where
  "startPairing r tok now ttlMs s =
     (let pin = pin_text r; link = hexOf tok
      in (s\<lparr>au_pin := pin, au_pairToken := link, au_pinStartedMs := now, au_pinTtlMs := ttlMs,
            au_pairingActive := True, au_pinFailedAttempts := 0\<rparr>,
          [WindowOpened pin link now ttlMs], pin))"

definition cancelPairing :: "'n auth \<Rightarrow> ('n, unit) acted" where
  "cancelPairing s = (if \<not> au_pairingActive s then (s, [], ()) else (close_window s, [WindowClosed], ()))"

definition pairingMsRemaining :: "u32 \<Rightarrow> 'n auth \<Rightarrow> u32" where
  "pairingMsRemaining now s =
     (if \<not> au_pairingActive s then 0
      else let elapsed = now - au_pinStartedMs s in
           if au_pinTtlMs s \<le> elapsed then 0 else au_pinTtlMs s - elapsed)"

definition currentPin :: "'n auth \<Rightarrow> string" where
  "currentPin s = (if au_pairingActive s then au_pin s else [])"

definition currentPairToken :: "'n auth \<Rightarrow> string" where
  "currentPairToken s = (if au_pairingActive s then au_pairToken s else [])"

definition auth_update :: "u32 \<Rightarrow> 'n auth \<Rightarrow> ('n, unit) acted" where
  "auth_update now s =
     (if \<not> au_pairingActive s then (s, [], ())
      else if now - au_pinStartedMs s \<le> au_pinTtlMs s then (s, [], ())
      else (close_window s, [WindowClosed], ()))"

text \<open>A request argument read as a C string ends at its first NUL.\<close>

definition c_str :: "string \<Rightarrow> string" where
  "c_str cs = takeWhile (\<lambda>c. c \<noteq> CHR 0x00) cs"

definition consumePairing :: "string \<Rightarrow> bool \<Rightarrow> u32 \<Rightarrow> 'n auth \<Rightarrow> ('n, bool) acted" where
  "consumePairing submitted isToken now s =
     (if \<not> au_pairingActive s then (s, [], False)
      else
        let expected = (if isToken then au_pairToken s else au_pin s) in
        if au_pinTtlMs s < now - au_pinStartedMs s then (close_window s, [WindowClosed], False)
        else if expected \<noteq> [] \<and> c_str submitted = expected
        then (close_window s, [Redeemed isToken (c_str submitted) now], True)
        else
          let s1 = s\<lparr>au_pinFailedAttempts := au_pinFailedAttempts s + 1\<rparr> in
          if au_pinFailedAttempts s1 < kMaxPinAttempts then (s1, [WrongGuess], False)
          else (close_window s1, [WrongGuess, WindowClosed], False))"

section \<open>The token store\<close>

fun blocks :: "nat \<Rightarrow> 'a list \<Rightarrow> 'a list list" where
  "blocks 0 xs = []"
| "blocks (Suc n) xs = take kTokenBytes xs # blocks n (drop kTokenBytes xs)"

definition load_failed :: "nvs_err \<Rightarrow> 'n auth \<Rightarrow> ('n, bool) acted" where
  "load_failed e s =
     (if au_lastTokenLoadError s = e then (s, [], False) else (s\<lparr>au_lastTokenLoadError := e\<rparr>, [LoadFailed e], False))"

definition adopt :: "token list \<Rightarrow> 'n auth \<Rightarrow> ('n, bool) acted" where
  "adopt ts s = (s\<lparr>au_tokens := ts, au_tokensLoaded := True\<rparr>, [TokensLoaded ts], True)"

definition ensureTokensLoaded :: "'n token_store \<Rightarrow> 'n auth \<Rightarrow> ('n, bool) acted" where
  "ensureTokensLoaded st s =
     (if au_tokensLoaded s then (s, [], True)
      else if ts_open st (au_nvs s) = NvsNotFound then adopt [] s
      else if ts_open st (au_nvs s) \<noteq> NvsOk then load_failed (ts_open st (au_nvs s)) s
      else
        case ts_length st (au_nvs s) of (err, n) \<Rightarrow>
          if err = NvsNotFound then adopt [] s
          else if err = NvsOk \<and> n = 0 then adopt [] s
          else if err = NvsTypeMismatch \<or> err = NvsOk \<and> (n mod kTokenBytes \<noteq> 0 \<or> kMaxTokens * kTokenBytes < n)
          then adopt [] s
          else if err \<noteq> NvsOk then load_failed err s
          else
            case ts_read st (au_nvs s) of (err2, bs) \<Rightarrow>
              if err2 \<noteq> NvsOk then load_failed err2 s
              else if length bs \<noteq> n then load_failed NvsInvalidSize s
              else adopt (blocks (n div kTokenBytes) bs) s)"

definition tokenCount :: "'n token_store \<Rightarrow> 'n auth \<Rightarrow> ('n, nat) acted" where
  "tokenCount st s =
     (case ensureTokensLoaded st s of (s1, evs, ok) \<Rightarrow> (s1, evs, if \<not> ok then 0 else length (au_tokens s1)))"

definition hasTokenBytes :: "'n token_store \<Rightarrow> u8 list \<Rightarrow> 'n auth \<Rightarrow> ('n, bool) acted" where
  "hasTokenBytes st candidate s =
     (if length candidate \<noteq> kTokenBytes then (s, [], False)
      else case ensureTokensLoaded st s of (s1, evs, ok) \<Rightarrow> (s1, evs, ok \<and> list_ex (\<lambda>t. t = candidate) (au_tokens s1)))"

definition appendToken :: "'n token_store \<Rightarrow> u8 list \<Rightarrow> 'n auth \<Rightarrow> ('n, nat) acted" where
  "appendToken st data s0 =
     (if length data \<noteq> kTokenBytes then (s0, [MintFailed], 0)
      else
        case ensureTokensLoaded st s0 of (s, evs, ok) \<Rightarrow>
          if \<not> ok then (s, evs @ [MintFailed], 0)
          else
            let kept = (if kMaxTokens \<le> length (au_tokens s) then tl (au_tokens s) else au_tokens s);
                candidate = kept @ [data]
            in if \<not> ts_begin st (au_nvs s) then (s, evs @ [MintFailed], 0)
               else case ts_put st (concat candidate) (au_nvs s) of (nvs, written) \<Rightarrow>
                 let s1 = s\<lparr>au_nvs := nvs\<rparr> in
                 if written \<noteq> length candidate * kTokenBytes then (s1, evs @ [MintFailed], 0)
                 else (s1\<lparr>au_tokens := candidate\<rparr>, evs @ [Minted data], length candidate))"

definition forgetAll :: "'n token_store \<Rightarrow> 'n auth \<Rightarrow> ('n, unit) acted" where
  "forgetAll st s =
     (let s1 = s\<lparr>au_tokens := [], au_tokensLoaded := True\<rparr> in
      if \<not> ts_begin st (au_nvs s1) then (s1, [Forgotten], ())
      else (s1\<lparr>au_nvs := ts_clear st (au_nvs s1)\<rparr>, [Forgotten], ()))"

section \<open>Requests\<close>

text \<open>What a handler reads of a request, and what it answers.\<close>

record request =
  rq_cookies :: "string option"            \<comment> \<open>the header \<open>Cookie\<close>\<close>
  rq_arg :: "string \<Rightarrow> string option"

record reply =
  rp_status :: int
  rp_body :: string
  rp_setCookie :: "string option"
  rp_location :: "string option"

definition send :: "int \<Rightarrow> string \<Rightarrow> reply" where
  "send status body = \<lparr>rp_status = status, rp_body = body, rp_setCookie = None, rp_location = None\<rparr>"

function find_cookie :: "string \<Rightarrow> string \<Rightarrow> string" where
  "find_cookie nameEq s =
     (let s1 = dropWhile (\<lambda>c. c = CHR '' '' \<or> c = CHR '';'') s in
      if s1 = [] then []
      else
        let pair = takeWhile (\<lambda>c. c \<noteq> CHR '';'') s1; rest = dropWhile (\<lambda>c. c \<noteq> CHR '';'') s1
        in if take (length nameEq) pair = nameEq then drop (length nameEq) pair else find_cookie nameEq rest)"
  by pat_completeness auto

lemma shorter_rest:
  "dropWhile (\<lambda>c. c = CHR '' '' \<or> c = CHR '';'') s \<noteq> [] \<Longrightarrow>
     length (dropWhile (\<lambda>c. c \<noteq> CHR '';'') (dropWhile (\<lambda>c. c = CHR '' '' \<or> c = CHR '';'') s)) < length s"
proof -
  let ?s1 = "dropWhile (\<lambda>c. c = CHR '' '' \<or> c = CHR '';'') s"
  assume n: "?s1 \<noteq> []"
  then have "hd ?s1 \<noteq> CHR '';''" using hd_dropWhile [OF n] by blast
  then have "length (dropWhile (\<lambda>c. c \<noteq> CHR '';'') ?s1) < length ?s1"
    using n by (cases ?s1) (auto simp: le_imp_less_Suc length_dropWhile_le)
  also have "\<dots> \<le> length s" by (rule length_dropWhile_le)
  finally show ?thesis .
qed

termination find_cookie
  by (relation "measure (\<lambda>(n, s). length s)") (auto simp: shorter_rest)

declare find_cookie.simps [simp del]

definition extractCookie :: "request \<Rightarrow> string \<Rightarrow> string" where
  "extractCookie rq name =
     (case rq_cookies rq of None \<Rightarrow> [] | Some raw \<Rightarrow> find_cookie (name @ ''='') (c_str raw))"

definition isAuthenticated :: "'n token_store \<Rightarrow> request \<Rightarrow> 'n auth \<Rightarrow> ('n, bool) acted" where
  "isAuthenticated st rq s =
     (let token = extractCookie rq kCookieName in
      if token = [] then (s, [], False)
      else case hexToBytes token of
          None \<Rightarrow> (s, [], False)
        | Some bytes \<Rightarrow> if length bytes \<noteq> kTokenBytes then (s, [], False) else hasTokenBytes st bytes s)"

definition cookie_for :: "string \<Rightarrow> string" where
  "cookie_for token = kCookieName @ ''='' @ token @ ''; Path=/; HttpOnly; SameSite=Strict; Max-Age=31536000''"

text \<open>The token in hexadecimal, its cookie, and whether \<open>_onFirstPair\<close> is called; None without a token.\<close>

definition mintClientToken :: "'n token_store \<Rightarrow> u8 list \<Rightarrow> 'n auth \<Rightarrow> ('n, (string \<times> string \<times> bool) option) acted" where
  "mintClientToken st bytes s =
     (case appendToken st bytes s of (s1, evs, pairedCount) \<Rightarrow>
        if pairedCount = 0 then (s1, evs, None)
        else (s1\<lparr>au_redeems := au_redeems s1 + 1\<rparr>, evs,
              Some (hexOf bytes, cookie_for (hexOf bytes), pairedCount = 1)))"

definition token_body :: "string \<Rightarrow> string" where
  "token_body token = ''{'' @ [CHR 0x22] @ ''token'' @ [CHR 0x22] @ '':'' @ [CHR 0x22] @ token @ [CHR 0x22] @ ''}''"

text \<open>The PIN form. Bodies that carry no token are left out.\<close>

definition handlePair :: "'n token_store \<Rightarrow> u8 list \<Rightarrow> u32 \<Rightarrow> request \<Rightarrow> 'n auth \<Rightarrow> ('n, reply) acted" where
  "handlePair st bytes now rq s0 =
     (case rq_arg rq ''pin'' of
        None \<Rightarrow> (s0, [], send 400 [])
      | Some pin \<Rightarrow>
          case isAuthenticated st rq s0 of (s1, evs1, ok) \<Rightarrow>
            if ok then (s1\<lparr>au_redeems := au_redeems s1 + 1\<rparr>, evs1, send 200 [])
            else case consumePairing pin False now s1 of (s2, evs2, consumed) \<Rightarrow>
              if \<not> consumed then (s2, evs1 @ evs2, send 401 [])
              else case mintClientToken st bytes s2 of (s3, evs3, minted) \<Rightarrow>
                (case minted of
                   None \<Rightarrow> (s3, evs1 @ evs2 @ evs3, send 500 [])
                 | Some (token, cookie, _) \<Rightarrow>
                     (s3, evs1 @ evs2 @ evs3, (send 200 (token_body token))\<lparr>rp_setCookie := Some cookie\<rparr>)))"

definition kPairHomeDestination :: string where "kPairHomeDestination = ''/''"
definition kPairConfigDestination :: string where "kPairConfigDestination = ''/config/#paired''"
definition kPairFailureDestination :: string where "kPairFailureDestination = ''/config/''"

definition pairRedirectDestination :: "bool \<Rightarrow> string \<Rightarrow> string" where
  "pairRedirectDestination paired requested =
     (if \<not> paired then kPairFailureDestination
      else if requested = kPairHomeDestination then kPairHomeDestination
      else if requested = kPairConfigDestination then kPairConfigDestination
      else kPairHomeDestination)"

definition redirect :: "bool \<Rightarrow> request \<Rightarrow> string option \<Rightarrow> reply" where
  "redirect ok rq cookie =
     \<lparr>rp_status = 302, rp_body = (if ok then ''paired'' else ''not paired''), rp_setCookie = cookie,
      rp_location = Some (pairRedirectDestination ok (case rq_arg rq ''to'' of None \<Rightarrow> [] | Some d \<Rightarrow> d))\<rparr>"

definition handlePairToken :: "'n token_store \<Rightarrow> u8 list \<Rightarrow> u32 \<Rightarrow> request \<Rightarrow> 'n auth \<Rightarrow> ('n, reply) acted" where
  "handlePairToken st bytes now rq s0 =
     (case isAuthenticated st rq s0 of (s1, evs1, ok) \<Rightarrow>
        if ok then (s1\<lparr>au_redeems := au_redeems s1 + 1\<rparr>, evs1, redirect True rq None)
        else case rq_arg rq ''token'' of
            None \<Rightarrow> (s1, evs1, redirect False rq None)
          | Some tok \<Rightarrow>
              case consumePairing tok True now s1 of (s2, evs2, consumed) \<Rightarrow>
                if \<not> consumed then (s2, evs1 @ evs2, redirect False rq None)
                else case mintClientToken st bytes s2 of (s3, evs3, minted) \<Rightarrow>
                  (case minted of
                     None \<Rightarrow> (s3, evs1 @ evs2 @ evs3, redirect False rq None)
                   | Some (token, cookie, _) \<Rightarrow> (s3, evs1 @ evs2 @ evs3, redirect True rq (Some cookie))))"

definition handleWhoami :: "'n token_store \<Rightarrow> request \<Rightarrow> 'n auth \<Rightarrow> ('n, bool) acted" where
  "handleWhoami st rq s = isAuthenticated st rq s"

definition handleToken :: "request \<Rightarrow> reply" where
  "handleToken rq = send 200 (token_body (extractCookie rq kCookieName))"

end
