(* ===== verification/AuthLaws.thy ===== *)
theory AuthLaws
  imports Auth
begin

text \<open>
  What pairing promises: a request is let in only with a token that somebody who could read the screen
  was given, a window yields at most one token within its time and five guesses, and a paired browser
  comes back after a reboot. The machine below interleaves the locked sections of the HTTP task and the
  main task in any order.
\<close>

section \<open>The tasks\<close>

datatype 'n auth_call =
    StartPairing u32 "u8 list" u32 u32 | CancelPairing | UpdateAuth u32 | ForgetAll
  | CheckCookie request | Consume string bool u32 | Mint "u8 list" | CountArrival | CountTokens
  | StoreBecomes 'n

text \<open>The flag: the HTTP task has redeemed a window and has yet to mint.\<close>

fun auth_step :: "'n token_store \<Rightarrow> 'n auth \<times> bool \<Rightarrow> 'n auth_call \<Rightarrow> ('n auth \<times> bool) \<times> auth_event list" where
  "auth_step st (s, b) (StartPairing r tok now ttl) = (case startPairing r tok now ttl s of (s1, evs, _) \<Rightarrow> ((s1, b), evs))"
| "auth_step st (s, b) CancelPairing = (case cancelPairing s of (s1, evs, _) \<Rightarrow> ((s1, b), evs))"
| "auth_step st (s, b) (UpdateAuth now) = (case auth_update now s of (s1, evs, _) \<Rightarrow> ((s1, b), evs))"
| "auth_step st (s, b) ForgetAll = (case forgetAll st s of (s1, evs, _) \<Rightarrow> ((s1, b), evs))"
| "auth_step st (s, b) (CheckCookie rq) = (case isAuthenticated st rq s of (s1, evs, _) \<Rightarrow> ((s1, b), evs))"
| "auth_step st (s, b) (Consume submitted isToken now) =
     (if b then ((s, b), [])
      else case consumePairing submitted isToken now s of (s1, evs, consumed) \<Rightarrow> ((s1, consumed), evs))"
| "auth_step st (s, b) (Mint bytes) =
     (if \<not> b then ((s, b), [])
      else case mintClientToken st bytes s of (s1, evs, _) \<Rightarrow> ((s1, False), evs))"
| "auth_step st (s, b) CountArrival = ((s\<lparr>au_redeems := au_redeems s + 1\<rparr>, b), [])"
| "auth_step st (s, b) CountTokens = (case tokenCount st s of (s1, evs, _) \<Rightarrow> ((s1, b), evs))"
| "auth_step st (s, b) (StoreBecomes nvs) = ((s\<lparr>au_nvs := nvs\<rparr>, b), [])"

text \<open>The handlers are such steps, one after the other.\<close>

lemma handlePair_steps:
  assumes "handlePair st bytes now rq s = (s', evs, rp)"
  shows "\<exists>cs. run (auth_step st) (s, False) cs = (s', False) \<and> trace (auth_step st) (s, False) cs = evs"
proof -
  have e: "\<exists>cs. run (auth_step st) (s, False) cs = (s, False) \<and> trace (auth_step st) (s, False) cs = []"
    by (intro exI [of _ "[]"]) simp
  show ?thesis
  proof (cases "rq_arg rq ''pin''")
    case None
    then show ?thesis using assms e by (simp add: handlePair_def)
  next
    case (Some pin)
    obtain s1 evs1 ok where 1: "isAuthenticated st rq s = (s1, evs1, ok)" by (metis surj_pair)
    obtain s2 evs2 c where 2: "consumePairing pin False now s1 = (s2, evs2, c)" by (metis surj_pair)
    obtain s3 evs3 m where 3: "mintClientToken st bytes s2 = (s3, evs3, m)" by (metis surj_pair)
    let ?cs = "CheckCookie rq # (if ok then [CountArrival] else Consume pin False now # (if c then [Mint bytes] else []))"
    have "run (auth_step st) (s, False) ?cs = (s', False) \<and> trace (auth_step st) (s, False) ?cs = evs"
      using assms Some 1 2 3 by (cases ok; cases c) (auto simp: handlePair_def split: option.splits)
    then show ?thesis by blast
  qed
qed

lemma handlePairToken_steps:
  assumes "handlePairToken st bytes now rq s = (s', evs, rp)"
  shows "\<exists>cs. run (auth_step st) (s, False) cs = (s', False) \<and> trace (auth_step st) (s, False) cs = evs"
proof -
  obtain s1 evs1 ok where 1: "isAuthenticated st rq s = (s1, evs1, ok)" by (metis surj_pair)
  show ?thesis
  proof (cases "rq_arg rq ''token''")
    case None
    have "run (auth_step st) (s, False) (CheckCookie rq # (if ok then [CountArrival] else [])) = (s', False)
        \<and> trace (auth_step st) (s, False) (CheckCookie rq # (if ok then [CountArrival] else [])) = evs"
      using assms None 1 by (cases ok) (auto simp: handlePairToken_def)
    then show ?thesis by blast
  next
    case (Some tok)
    obtain s2 evs2 c where 2: "consumePairing tok True now s1 = (s2, evs2, c)" by (metis surj_pair)
    obtain s3 evs3 m where 3: "mintClientToken st bytes s2 = (s3, evs3, m)" by (metis surj_pair)
    let ?cs = "CheckCookie rq # (if ok then [CountArrival] else Consume tok True now # (if c then [Mint bytes] else []))"
    have "run (auth_step st) (s, False) ?cs = (s', False) \<and> trace (auth_step st) (s, False) ?cs = evs"
      using assms Some 1 2 3 by (cases ok; cases c) (auto simp: handlePairToken_def split: option.splits)
    then show ?thesis by blast
  qed
qed

section \<open>Who is paired\<close>

fun live_step :: "token list \<Rightarrow> auth_event \<Rightarrow> token list" where
  "live_step ts (TokensLoaded l) = l"
| "live_step ts (Minted t) = (if kMaxTokens \<le> length ts then tl ts else ts) @ [t]"
| "live_step ts Forgotten = []"
| "live_step ts _ = ts"

definition live :: "auth_event list \<Rightarrow> token list" where
  "live evs = foldl live_step [] evs"

lemma live_simps [simp]: "live [] = []" "live (evs @ [e]) = live_step (live evs) e" "live (evs @ fs) = foldl live_step (live evs) fs"
  by (simp_all add: live_def)

fun is_minted :: "auth_event \<Rightarrow> bool" where
  "is_minted (Minted t) = True" | "is_minted _ = False"

definition origin :: "token \<Rightarrow> auth_event \<Rightarrow> bool" where
  "origin t e \<longleftrightarrow> e = Minted t \<or> (\<exists>ts. e = TokensLoaded ts \<and> t \<in> set ts)"

text \<open>A live token came from somewhere, and was neither forgotten nor pushed out since.\<close>

lemma live_origin:
  "i < length (live evs) \<Longrightarrow> \<exists>xs e ys. evs = xs @ e # ys \<and> origin (live evs ! i) e \<and> Forgotten \<notin> set ys
     \<and> length (filter is_minted ys) + i < length (live evs)"
proof (induction evs arbitrary: i rule: rev_induct)
  case (snoc e evs)
  have same: ?case if "live (evs @ [e]) = live evs" "\<not> is_minted e" "e \<noteq> Forgotten"
  proof -
    obtain xs e' ys where "evs = xs @ e' # ys" "origin (live evs ! i) e'" "Forgotten \<notin> set ys"
        "length (filter is_minted ys) + i < length (live evs)"
      using snoc.IH [of i] snoc.prems \<open>live (evs @ [e]) = live evs\<close> by auto
    then have "evs @ [e] = xs @ e' # (ys @ [e])" "Forgotten \<notin> set (ys @ [e])"
        "length (filter is_minted (ys @ [e])) + i < length (live (evs @ [e]))" "origin (live (evs @ [e]) ! i) e'"
      using that by auto
    then show ?thesis by blast
  qed
  show ?case
  proof (cases e)
    case (TokensLoaded l)
    then have "evs @ [e] = evs @ e # []" "origin (live (evs @ [e]) ! i) e" using snoc.prems by (auto simp: origin_def)
    then show ?thesis using snoc.prems by (intro exI [of _ evs] exI [of _ e] exI [of _ "[]"]) simp
  next
    case (Minted t)
    let ?k = "if kMaxTokens \<le> length (live evs) then 1 else 0 :: nat"
    have kept: "live (evs @ [e]) = drop ?k (live evs) @ [t]" using Minted by (simp add: drop_Suc)
    have "live evs \<noteq> [] \<or> ?k = 0" by (auto simp: kMaxTokens_def)
    then have len: "length (live (evs @ [e])) + ?k = Suc (length (live evs))"
      unfolding kept by (cases "live evs") (auto simp: kMaxTokens_def)
    show ?thesis
    proof (cases "i = length (live (evs @ [e])) - 1")
      case True
      then have "origin (live (evs @ [e]) ! i) e" unfolding kept using Minted by (simp add: origin_def nth_append)
      then show ?thesis using snoc.prems by (intro exI [of _ evs] exI [of _ e] exI [of _ "[]"]) simp
    next
      case False
      then have i: "i + ?k < length (live evs)" "i < length (drop ?k (live evs))" using snoc.prems len kept by auto
      then have nth: "live (evs @ [e]) ! i = live evs ! (i + ?k)" unfolding kept by (simp add: nth_append add.commute)
      obtain xs e' ys where h: "evs = xs @ e' # ys" "origin (live evs ! (i + ?k)) e'" "Forgotten \<notin> set ys"
          "length (filter is_minted ys) + (i + ?k) < length (live evs)"
        using snoc.IH [OF i(1)] by blast
      have "evs @ [e] = xs @ e' # (ys @ [e])" "Forgotten \<notin> set (ys @ [e])"
          "length (filter is_minted (ys @ [e])) + i < length (live (evs @ [e]))"
        using h len Minted by auto
      then show ?thesis using h(2) unfolding nth by blast
    qed
  qed (use snoc.prems same in auto)
qed simp

section \<open>What each section does to the tokens\<close>

definition tokens_ok :: "token list \<Rightarrow> bool" where
  "tokens_ok ts \<longleftrightarrow> length ts \<le> kMaxTokens \<and> list_all (\<lambda>t. length t = kTokenBytes) ts"

text \<open>A section tells the truth about the tokens and leaves the window alone.\<close>

definition honest :: "'n auth \<Rightarrow> 'n auth \<Rightarrow> auth_event list \<Rightarrow> bool" where
  "honest s s' evs \<longleftrightarrow> au_tokens s' = foldl live_step (au_tokens s) evs \<and> (tokens_ok (au_tokens s) \<longrightarrow> tokens_ok (au_tokens s'))"

definition window_of :: "'n auth \<Rightarrow> bool \<times> string \<times> string \<times> u32 \<times> u32 \<times> u8" where
  "window_of s = (au_pairingActive s, au_pin s, au_pairToken s, au_pinStartedMs s, au_pinTtlMs s, au_pinFailedAttempts s)"

fun store_event :: "auth_event \<Rightarrow> bool" where
  "store_event (TokensLoaded _) = True" | "store_event (LoadFailed _) = True" | "store_event Forgotten = True"
| "store_event _ = False"

lemma blocks_length: "n * kTokenBytes \<le> length bs \<Longrightarrow> list_all (\<lambda>t. length t = kTokenBytes) (blocks n bs) \<and> length (blocks n bs) = n"
  by (induction n arbitrary: bs) (simp_all add: kTokenBytes_def)

lemma blocks_concat: "list_all (\<lambda>t. length t = kTokenBytes) ts \<Longrightarrow> blocks (length ts) (concat ts) = ts"
  by (induction ts) (simp_all add: kTokenBytes_def)

lemma concat_length: "list_all (\<lambda>t. length t = kTokenBytes) ts \<Longrightarrow> length (concat ts) = length ts * kTokenBytes"
  by (induction ts) (simp_all add: kTokenBytes_def)

lemma load_honest:
  assumes "ensureTokensLoaded st s = (s', evs, ok)"
  shows "honest s s' evs" "window_of s' = window_of s" "list_all store_event evs" "Forgotten \<notin> set evs"
    "au_redeems s' = au_redeems s" "au_nvs s' = au_nvs s" "ok \<Longrightarrow> au_tokensLoaded s'"
proof -
  have nil: "tokens_ok []" by (simp add: tokens_ok_def)
  have b: "tokens_ok (blocks (n div kTokenBytes) bs)" if "n \<le> kMaxTokens * kTokenBytes" "length bs = n" for n bs
  proof -
    have "n div kTokenBytes * kTokenBytes \<le> length bs" using that(2) by simp
    from blocks_length [OF this] show ?thesis using that(1) by (simp add: tokens_ok_def kTokenBytes_def kMaxTokens_def)
  qed
  show "honest s s' evs"
    using assms nil b by (auto simp: ensureTokensLoaded_def adopt_def load_failed_def honest_def Let_def split: if_splits prod.splits)
  show "window_of s' = window_of s" "list_all store_event evs" "Forgotten \<notin> set evs"
      "au_redeems s' = au_redeems s" "au_nvs s' = au_nvs s"
    using assms by (auto simp: ensureTokensLoaded_def adopt_def load_failed_def window_of_def split: if_splits prod.splits)
  show "ok \<Longrightarrow> au_tokensLoaded s'"
    using assms by (auto simp: ensureTokensLoaded_def adopt_def load_failed_def split: if_splits prod.splits)
qed

lemma count_honest:
  assumes "tokenCount st s = (s', evs, n)"
  shows "honest s s' evs" "window_of s' = window_of s" "list_all store_event evs"
  using assms load_honest [of st s] by (auto simp: tokenCount_def split: prod.splits)

lemma check_honest:
  assumes "isAuthenticated st rq s = (s', evs, ok)"
  shows "honest s s' evs" "window_of s' = window_of s" "list_all store_event evs"
    and "ok \<Longrightarrow> \<exists>t \<in> set (au_tokens s'). hexToBytes (extractCookie rq kCookieName) = Some t"
proof -
  have z: "honest s s []" by (simp add: honest_def)
  show "honest s s' evs" "window_of s' = window_of s" "list_all store_event evs"
    using assms z load_honest [of st s] by (auto simp: isAuthenticated_def hasTokenBytes_def Let_def split: if_splits option.splits prod.splits)
  show "ok \<Longrightarrow> \<exists>t \<in> set (au_tokens s'). hexToBytes (extractCookie rq kCookieName) = Some t"
    using assms by (auto simp: isAuthenticated_def hasTokenBytes_def Let_def list_ex_iff split: if_splits option.splits prod.splits)
qed

definition with_token :: "token \<Rightarrow> token list \<Rightarrow> token list" where
  "with_token t ts = (if kMaxTokens \<le> length ts then tl ts else ts) @ [t]"

lemma with_token_ok: "tokens_ok ts \<Longrightarrow> length t = kTokenBytes \<Longrightarrow> tokens_ok (with_token t ts)"
  by (cases ts) (auto simp: tokens_ok_def with_token_def kMaxTokens_def)

lemma live_step_minted: "live_step ts (Minted t) = with_token t ts"
  by (simp add: with_token_def)

lemma honest_more:
  assumes "honest s s1 evs1"
  shows "honest s s1 (evs1 @ [MintFailed])" "honest s (s1\<lparr>au_nvs := x\<rparr>) (evs1 @ [MintFailed])"
    "length t = kTokenBytes \<Longrightarrow> honest s (s1\<lparr>au_nvs := x, au_tokens := with_token t (au_tokens s1)\<rparr>) (evs1 @ [Minted t])"
  using assms with_token_ok [of "au_tokens s1" t] by (auto simp: honest_def live_step_minted simp del: live_step.simps(2))

lemma append_cases:
  assumes "appendToken st bytes s = (s', evs, n)" and "ensureTokensLoaded st s = (s1, evs1, ok)"
  obtains "s' = s" "evs = [MintFailed]" "n = 0"
    | "s' = s1" "evs = evs1 @ [MintFailed]" "n = 0"
    | x where "s' = s1\<lparr>au_nvs := x\<rparr>" "evs = evs1 @ [MintFailed]" "n = 0"
    | x w where "s' = s1\<lparr>au_nvs := x, au_tokens := with_token bytes (au_tokens s1)\<rparr>" "evs = evs1 @ [Minted bytes]" "0 < n"
        "length bytes = kTokenBytes" "ok" "ts_put st (concat (with_token bytes (au_tokens s1))) (au_nvs s1) = (x, w)"
        "w = length (with_token bytes (au_tokens s1)) * kTokenBytes"
proof -
  obtain x w where p: "ts_put st (concat (with_token bytes (au_tokens s1))) (au_nvs s1) = (x, w)" by (metis surj_pair)
  have "appendToken st bytes s =
      (if length bytes \<noteq> kTokenBytes then (s, [MintFailed], 0)
       else if \<not> ok then (s1, evs1 @ [MintFailed], 0)
       else if \<not> ts_begin st (au_nvs s1) then (s1, evs1 @ [MintFailed], 0)
       else if w \<noteq> length (with_token bytes (au_tokens s1)) * kTokenBytes then (s1\<lparr>au_nvs := x\<rparr>, evs1 @ [MintFailed], 0)
       else (s1\<lparr>au_nvs := x, au_tokens := with_token bytes (au_tokens s1)\<rparr>, evs1 @ [Minted bytes],
             length (with_token bytes (au_tokens s1))))"
    unfolding appendToken_def assms(2) Let_def prod.case with_token_def [symmetric] p by (rule refl)
  note out = this [unfolded assms(1)]
  have pos: "0 < length (with_token bytes (au_tokens s1))" by (simp add: with_token_def)
  show ?thesis
  proof (cases "length bytes \<noteq> kTokenBytes")
    case True
    then show ?thesis using out that(1) by simp
  next
    case len: False
    show ?thesis
    proof (cases "ok \<and> ts_begin st (au_nvs s1)")
      case True
      show ?thesis
      proof (cases "w = length (with_token bytes (au_tokens s1)) * kTokenBytes")
        case True
        then show ?thesis using out len \<open>ok \<and> ts_begin st (au_nvs s1)\<close> pos p that(4) [of x w] by simp
      next
        case False
        then show ?thesis using out len \<open>ok \<and> ts_begin st (au_nvs s1)\<close> that(3) [of x] by simp
      qed
    next
      case False
      then show ?thesis using out len that(2) by (auto split: if_splits)
    qed
  qed
qed

lemma append_honest:
  assumes "appendToken st bytes s = (s', evs, n)"
  shows "honest s s' evs" "window_of s' = window_of s"
    and "\<exists>ls e. evs = ls @ [e] \<and> list_all store_event ls \<and> (e = Minted bytes \<and> 0 < n \<or> e = MintFailed \<and> n = 0)"
proof -
  obtain s1 evs1 ok where l: "ensureTokensLoaded st s = (s1, evs1, ok)" by (metis surj_pair)
  note h = load_honest [OF l]
  have z: "honest s s [MintFailed]" by (simp add: honest_def)
  show "honest s s' evs"
    using append_cases [OF assms l] z honest_more [OF h(1)] by metis
  have w: "window_of (s1\<lparr>au_nvs := x\<rparr>) = window_of s" "window_of (s1\<lparr>au_nvs := x, au_tokens := c\<rparr>) = window_of s" for x c
    using h(2) by (simp_all add: window_of_def)
  show "window_of s' = window_of s" using append_cases [OF assms l] w h(2) by metis
  show "\<exists>ls e. evs = ls @ [e] \<and> list_all store_event ls \<and> (e = Minted bytes \<and> 0 < n \<or> e = MintFailed \<and> n = 0)"
    by (rule append_cases [OF assms l]) (use h(3) in \<open>auto simp: Cons_eq_append_conv\<close>)
qed

lemma mint_honest:
  assumes "mintClientToken st bytes s = (s', evs, m)"
  shows "honest s s' evs" "window_of s' = window_of s"
    and "\<exists>ls e. evs = ls @ [e] \<and> list_all store_event ls \<and> (e = Minted bytes \<and> m \<noteq> None \<or> e = MintFailed \<and> m = None)"
proof -
  obtain s1 evs1 n where a: "appendToken st bytes s = (s1, evs1, n)" by (metis surj_pair)
  note h = append_honest [OF a]
  have out: "s' = (if n = 0 then s1 else s1\<lparr>au_redeems := au_redeems s1 + 1\<rparr>)" "evs = evs1" "m \<noteq> None \<longleftrightarrow> 0 < n"
    using assms a by (auto simp: mintClientToken_def split: if_splits)
  have f: "au_tokens s' = au_tokens s1" "window_of s' = window_of s1" by (simp_all add: out window_of_def)
  show "honest s s' evs" "window_of s' = window_of s" using h(1,2) by (auto simp: honest_def f out(2))
  show "\<exists>ls e. evs = ls @ [e] \<and> list_all store_event ls \<and> (e = Minted bytes \<and> m \<noteq> None \<or> e = MintFailed \<and> m = None)"
  proof -
    obtain ls e where "evs1 = ls @ [e]" "list_all store_event ls" "e = Minted bytes \<and> 0 < n \<or> e = MintFailed \<and> n = 0"
      using h(3) by blast
    then show ?thesis using out(2,3) by (intro exI [of _ ls] exI [of _ e]) auto
  qed
qed

section \<open>Windows\<close>

definition wrong_guesses :: "auth_event list \<Rightarrow> nat" where
  "wrong_guesses evs = count_list evs WrongGuess"

fun window_event :: "auth_event \<Rightarrow> bool" where
  "window_event (WindowOpened _ _ _ _) = True" | "window_event WindowClosed = True" | "window_event (Redeemed _ _ _) = True"
| "window_event _ = False"

fun mint_event :: "auth_event \<Rightarrow> bool" where
  "mint_event (Redeemed _ _ _) = True" | "mint_event (Minted _) = True" | "mint_event MintFailed = True"
| "mint_event _ = False"

text \<open>A window has been open since, with so many wrong guesses.\<close>

definition open_since :: "auth_event list \<Rightarrow> string \<Rightarrow> string \<Rightarrow> u32 \<Rightarrow> u32 \<Rightarrow> nat \<Rightarrow> bool" where
  "open_since evs pin link start ttl n \<longleftrightarrow>
     (\<exists>us vs. evs = us @ WindowOpened pin link start ttl # vs \<and> \<not> list_ex window_event vs \<and> wrong_guesses vs = n)"

lemma open_since_more:
  assumes "open_since evs pin link start ttl n" and "\<not> list_ex window_event new" and "wrong_guesses new = k"
  shows "open_since (evs @ new) pin link start ttl (n + k)"
proof -
  obtain us vs where "evs = us @ WindowOpened pin link start ttl # vs" "\<not> list_ex window_event vs" "wrong_guesses vs = n"
    using assms(1) unfolding open_since_def by blast
  then have "evs @ new = us @ WindowOpened pin link start ttl # (vs @ new)" "\<not> list_ex window_event (vs @ new)"
      "wrong_guesses (vs @ new) = n + k"
    using assms(2,3) by (auto simp: wrong_guesses_def)
  then show ?thesis unfolding open_since_def by blast
qed

text \<open>The right secret, in time, at most four wrong guesses before.\<close>

definition redeemed_by :: "auth_event list \<Rightarrow> bool \<Rightarrow> string \<Rightarrow> u32 \<Rightarrow> bool" where
  "redeemed_by evs isToken submitted now \<longleftrightarrow>
     (\<exists>pin link start ttl n. open_since evs pin link start ttl n \<and> n < 5 \<and> now - start \<le> ttl
        \<and> submitted = (if isToken then link else pin))"

definition redeemed_since :: "auth_event list \<Rightarrow> bool" where
  "redeemed_since evs \<longleftrightarrow>
     (\<exists>us isToken submitted now vs. evs = us @ Redeemed isToken submitted now # vs \<and> \<not> list_ex mint_event vs
        \<and> redeemed_by us isToken submitted now)"

lemma redeemed_since_more:
  assumes "redeemed_since evs" and "\<not> list_ex mint_event new"
  shows "redeemed_since (evs @ new)"
proof -
  obtain us i sub now vs where "evs = us @ Redeemed i sub now # vs" "\<not> list_ex mint_event vs" "redeemed_by us i sub now"
    using assms(1) unfolding redeemed_since_def by blast
  then have "evs @ new = us @ Redeemed i sub now # (vs @ new)" "\<not> list_ex mint_event (vs @ new)" "redeemed_by us i sub now"
    using assms(2) by auto
  then show ?thesis unfolding redeemed_since_def by blast
qed

section \<open>The invariant\<close>

definition guarded :: "'n auth \<Rightarrow> auth_event list \<Rightarrow> bool" where
  "guarded s evs \<longleftrightarrow>
     (au_pairingActive s \<longrightarrow> unat (au_pinFailedAttempts s) < 5
        \<and> open_since evs (au_pin s) (au_pairToken s) (au_pinStartedMs s) (au_pinTtlMs s) (unat (au_pinFailedAttempts s)))"

definition auth_inv :: "auth_event list \<Rightarrow> 'n auth \<times> bool \<Rightarrow> bool" where
  "auth_inv evs c \<longleftrightarrow> au_tokens (fst c) = live evs \<and> tokens_ok (au_tokens (fst c)) \<and> guarded (fst c) evs
     \<and> (snd c \<longrightarrow> redeemed_since evs)"

lemma guarded_window:
  assumes "guarded s evs" and "window_of s' = window_of s" and "\<not> list_ex window_event new" and "wrong_guesses new = 0"
  shows "guarded s' (evs @ new)"
  using assms open_since_more [OF _ assms(3,4), of evs] by (auto simp: guarded_def window_of_def)

lemma store_events:
  "list_all store_event new \<Longrightarrow> \<not> list_ex window_event new \<and> \<not> list_ex mint_event new \<and> wrong_guesses new = 0"
proof (induction new)
  case (Cons e new)
  then show ?case by (cases e) (auto simp: wrong_guesses_def)
qed (simp add: wrong_guesses_def)

lemma auth_inv_frame:
  assumes "auth_inv evs (s, b)" and "honest s s' new" and "window_of s' = window_of s" and "list_all store_event new"
  shows "auth_inv (evs @ new) (s', b)"
  using assms store_events [OF assms(4)] guarded_window [of s evs s' new] redeemed_since_more [of evs new]
  by (auto simp: auth_inv_def honest_def)

lemma auth_inv_window:
  assumes "auth_inv evs (s, b)" and "au_tokens s' = au_tokens s" and "foldl live_step (live evs) new = live evs"
    and "guarded s' (evs @ new)" and "b' \<Longrightarrow> redeemed_since (evs @ new)"
  shows "auth_inv (evs @ new) (s', b')"
  using assms by (auto simp: auth_inv_def)

lemma close_window_tokens [simp]: "au_tokens (close_window s) = au_tokens s"
  by (simp add: close_window_def)

lemma guarded_closed: "guarded (close_window s) evs"
  by (simp add: guarded_def close_window_def)

lemma consume_inv:
  assumes inv: "auth_inv evs (s, False)" and c: "consumePairing submitted isToken now s = (s', new, consumed)"
  shows "auth_inv (evs @ new) (s', consumed)"
    and "new = xs @ e # ys \<Longrightarrow> mint_event e \<Longrightarrow> e = Redeemed isToken (c_str submitted) now \<and> redeemed_by (evs @ xs) isToken (c_str submitted) now"
proof -
  let ?expected = "if isToken then au_pairToken s else au_pin s"
  have g: "guarded s evs" using inv by (simp add: auth_inv_def)
  consider (inactive) "\<not> au_pairingActive s" "s' = s" "new = []" "\<not> consumed"
    | (expired) "au_pairingActive s" "s' = close_window s" "new = [WindowClosed]" "\<not> consumed"
    | (hit) "au_pairingActive s" "now - au_pinStartedMs s \<le> au_pinTtlMs s" "c_str submitted = ?expected"
        "s' = close_window s" "new = [Redeemed isToken (c_str submitted) now]" "consumed"
    | (miss) "au_pairingActive s" "s' = s\<lparr>au_pinFailedAttempts := au_pinFailedAttempts s + 1\<rparr>"
        "au_pinFailedAttempts s + 1 < kMaxPinAttempts" "new = [WrongGuess]" "\<not> consumed"
    | (locked) "au_pairingActive s" "s' = close_window (s\<lparr>au_pinFailedAttempts := au_pinFailedAttempts s + 1\<rparr>)"
        "new = [WrongGuess, WindowClosed]" "\<not> consumed"
    using c by (auto simp: consumePairing_def Let_def not_less split: if_splits)
  note cases5 = this
  have right: "redeemed_by evs isToken (c_str submitted) now" if hit: "au_pairingActive s"
      "now - au_pinStartedMs s \<le> au_pinTtlMs s" "c_str submitted = ?expected"
    using g hit unfolding guarded_def redeemed_by_def by blast
  have rs: "redeemed_since (evs @ [Redeemed isToken (c_str submitted) now])" if "redeemed_by evs isToken (c_str submitted) now"
    using that unfolding redeemed_since_def by (intro exI [of _ evs] exI [of _ isToken] exI [of _ "c_str submitted"] exI [of _ now] exI [of _ "[]"]) simp
  have missed: "guarded (s\<lparr>au_pinFailedAttempts := au_pinFailedAttempts s + 1\<rparr>) (evs @ [WrongGuess])"
    if a: "au_pairingActive s" and l: "au_pinFailedAttempts s + 1 < kMaxPinAttempts"
  proof -
    have o: "unat (au_pinFailedAttempts s) < 5"
      "open_since evs (au_pin s) (au_pairToken s) (au_pinStartedMs s) (au_pinTtlMs s) (unat (au_pinFailedAttempts s))"
      using g a by (simp_all add: guarded_def)
    have u: "unat (au_pinFailedAttempts s + 1) = unat (au_pinFailedAttempts s) + 1"
      using o(1) by (simp add: unat_word_ariths)
    have "unat (au_pinFailedAttempts s + 1) < 5" using l by (simp add: kMaxPinAttempts_def word_less_nat_alt)
    then show ?thesis using open_since_more [OF o(2), of "[WrongGuess]" 1] u by (simp add: guarded_def wrong_guesses_def)
  qed
  show "auth_inv (evs @ new) (s', consumed)"
    using cases5
  proof cases
    case hit
    then show ?thesis using inv rs [OF right] by (intro auth_inv_window [OF inv]) (simp_all add: guarded_closed close_window_def guarded_def)
  next
    case miss
    then show ?thesis using missed
      by (intro auth_inv_window [OF inv]) simp_all
  qed (use inv in \<open>auto intro!: auth_inv_window [OF inv] simp: guarded_closed close_window_def guarded_def auth_inv_def\<close>)
  show "new = xs @ e # ys \<Longrightarrow> mint_event e \<Longrightarrow> e = Redeemed isToken (c_str submitted) now \<and> redeemed_by (evs @ xs) isToken (c_str submitted) now"
    using cases5
  proof cases
    case hit
    then have "redeemed_by evs isToken (c_str submitted) now" by (intro right)
    then show "new = xs @ e # ys \<Longrightarrow> mint_event e \<Longrightarrow> e = Redeemed isToken (c_str submitted) now \<and> redeemed_by (evs @ xs) isToken (c_str submitted) now"
      unfolding hit(5) by (auto simp: Cons_eq_append_conv)
  qed (auto simp: Cons_eq_append_conv)
qed

text \<open>A token is minted for a redeemed window, a window redeemed by its secret.\<close>

fun auth_ok :: "auth_event list \<Rightarrow> auth_event \<Rightarrow> bool" where
  "auth_ok evs (Redeemed isToken submitted now) \<longleftrightarrow> redeemed_by evs isToken submitted now"
| "auth_ok evs (Minted t) \<longleftrightarrow> redeemed_since evs"
| "auth_ok evs _ \<longleftrightarrow> True"

lemma auth_ok_plain: "\<not> mint_event e \<Longrightarrow> auth_ok evs e"
  by (cases e) auto

lemma store_event_not_mint: "store_event e \<Longrightarrow> \<not> mint_event e"
  by (cases e) auto

text \<open>What every step shows.\<close>

definition step_good :: "auth_event list \<Rightarrow> ('n auth \<times> bool) \<times> auth_event list \<Rightarrow> bool" where
  "step_good evs r \<longleftrightarrow> auth_inv (evs @ snd r) (fst r)
     \<and> (\<forall>xs e ys. snd r = xs @ e # ys \<longrightarrow> mint_event e \<longrightarrow> auth_ok (evs @ xs) e)"

lemma step_good_plain: "auth_inv (evs @ new) c \<Longrightarrow> \<not> list_ex mint_event new \<Longrightarrow> step_good evs (c, new)"
  by (auto simp: step_good_def)

lemma step_good_store:
  "auth_inv evs (s, b) \<Longrightarrow> honest s s' new \<Longrightarrow> window_of s' = window_of s \<Longrightarrow> list_all store_event new \<Longrightarrow> step_good evs ((s', b), new)"
  using auth_inv_frame store_events by (blast intro: step_good_plain)

lemma forget_honest:
  assumes "forgetAll st s = (s', evs, u)"
  shows "honest s s' evs" "window_of s' = window_of s" "list_all store_event evs"
  using assms by (auto simp: forgetAll_def Let_def honest_def window_of_def tokens_ok_def split: if_splits)

lemma mint_good:
  assumes inv: "auth_inv evs (s, True)" and m: "mintClientToken st bytes s = (s', new, r)"
  shows "step_good evs ((s', False), new)"
proof -
  obtain ls e where ls: "new = ls @ [e]" "list_all store_event ls" "e = Minted bytes \<or> e = MintFailed"
    using mint_honest(3) [OF m] by blast
  note q = store_events [OF ls(2)]
  have "\<not> list_ex window_event new" "wrong_guesses new = 0" using q ls by (auto simp: wrong_guesses_def)
  then have "auth_inv (evs @ new) (s', False)"
    using inv mint_honest(1,2) [OF m] guarded_window [of s evs s' new] by (auto simp: auth_inv_def honest_def)
  moreover have "auth_ok (evs @ xs) x" if "new = xs @ x # ys" "mint_event x" for xs x ys
  proof -
    have "ys = [] \<and> xs = ls \<and> x = e"
    proof (cases ys rule: rev_cases)
      case Nil
      then show ?thesis using that(1) ls(1) by simp
    next
      case (snoc zs z)
      then have "x \<in> set ls" using that(1) ls(1) by (metis append_Cons append_assoc butlast_snoc in_set_conv_decomp)
      then show ?thesis using ls(2) that(2) store_event_not_mint by (auto simp: list_all_iff)
    qed
    moreover have "redeemed_since (evs @ ls)" using inv redeemed_since_more q by (auto simp: auth_inv_def)
    ultimately show ?thesis using ls(3) by auto
  qed
  ultimately show ?thesis by (auto simp: step_good_def)
qed

lemma auth_step_good:
  assumes "auth_inv evs c"
  shows "step_good evs (auth_step st c call)"
proof -
  obtain s b where c: "c = (s, b)" by (cases c)
  note inv = assms [unfolded c]
  have r: "b \<Longrightarrow> redeemed_since evs" and g: "guarded s evs" using inv by (simp_all add: auth_inv_def)
  show ?thesis unfolding c
  proof (cases call)
    case (StartPairing r tok now ttl)
    have "open_since (evs @ [WindowOpened pin link now ttl]) pin link now ttl 0" for pin link
      unfolding open_since_def by (intro exI [of _ evs] exI [of _ "[]"]) (simp add: wrong_guesses_def)
    then show "step_good evs (auth_step st (s, b) call)" using StartPairing
      by (auto simp: startPairing_def Let_def intro!: step_good_plain auth_inv_window [OF inv] redeemed_since_more r)
        (auto simp: guarded_def)
  next
    case CancelPairing
    then show "step_good evs (auth_step st (s, b) call)" using inv
      by (auto simp: cancelPairing_def guarded_closed g intro!: step_good_plain auth_inv_window [OF inv] redeemed_since_more r)
  next
    case (UpdateAuth now)
    then show "step_good evs (auth_step st (s, b) call)" using inv
      by (auto simp: auth_update_def guarded_closed g intro!: step_good_plain auth_inv_window [OF inv] redeemed_since_more r)
  next
    case ForgetAll
    obtain s1 new u where f: "forgetAll st s = (s1, new, u)" by (metis surj_pair)
    then show "step_good evs (auth_step st (s, b) call)" using ForgetAll step_good_store [OF inv forget_honest [OF f]] by simp
  next
    case (CheckCookie rq)
    obtain s1 new u where f: "isAuthenticated st rq s = (s1, new, u)" by (metis surj_pair)
    then show "step_good evs (auth_step st (s, b) call)" using CheckCookie step_good_store [OF inv check_honest(1-3) [OF f]] by simp
  next
    case CountTokens
    obtain s1 new u where f: "tokenCount st s = (s1, new, u)" by (metis surj_pair)
    then show "step_good evs (auth_step st (s, b) call)" using CountTokens step_good_store [OF inv count_honest [OF f]] by simp
  next
    case (Consume submitted isToken now)
    obtain s1 new u where f: "consumePairing submitted isToken now s = (s1, new, u)" by (metis surj_pair)
    show "step_good evs (auth_step st (s, b) call)"
    proof (cases b)
      case True
      then show ?thesis using Consume inv by (auto intro: step_good_plain)
    next
      case False
      then have i: "auth_inv evs (s, False)" using inv by simp
      have "auth_ok (evs @ xs) e" if "new = xs @ e # ys" "mint_event e" for xs e ys
        using consume_inv(2) [OF i f that] by simp
      then show ?thesis using Consume False f consume_inv(1) [OF i f] by (simp add: step_good_def)
    qed
  next
    case (Mint bytes)
    obtain s1 new u where f: "mintClientToken st bytes s = (s1, new, u)" by (metis surj_pair)
    show "step_good evs (auth_step st (s, b) call)"
    proof (cases b)
      case True
      then show ?thesis using Mint f mint_good [OF _ f, of evs] inv by simp
    next
      case False
      then show ?thesis using Mint inv by (auto intro: step_good_plain)
    qed
  next
    case CountArrival
    then show "step_good evs (auth_step st (s, b) call)" using inv
      by (auto simp: auth_inv_def guarded_def intro!: step_good_plain)
  next
    case (StoreBecomes nvs)
    then show "step_good evs (auth_step st (s, b) call)" using inv
      by (auto simp: auth_inv_def guarded_def intro!: step_good_plain)
  qed
qed

lemma auth_start: "auth_inv [] (auth_init nvs, False)"
  by (simp add: auth_inv_def auth_init_def tokens_ok_def guarded_def)

interpretation pairing: traced_machine "auth_step st" auth_inv auth_ok "(auth_init nvs, False)" for st nvs
proof
  have good: "step_good evs (auth_step st c call)" if "auth_inv evs c" for evs c call
    using that by (rule auth_step_good)
  show "auth_inv [] (auth_init nvs, False)" by (rule auth_start)
  show "auth_inv (evs @ snd (auth_step st c call)) (fst (auth_step st c call))" if "auth_inv evs c" for evs c call
    using good [OF that] by (simp add: step_good_def)
  show "auth_ok (evs @ xs) e" if "auth_inv evs c" and "snd (auth_step st c call) = xs @ e # ys" for evs c call xs e ys
    using good [OF that(1)] that(2) auth_ok_plain unfolding step_good_def by blast
qed

section \<open>Who gets in\<close>

lemma auth_reached: "auth_inv (trace (auth_step st) (auth_init nvs, False) calls) (run (auth_step st) (auth_init nvs, False) calls)"
  by (rule pairing.inv_trace)

text \<open>A request is let in only if its cookie carries, in hexadecimal, the sixteen bytes of a token that was
  minted, or stood in the preferences when they were read, and since then was neither forgotten nor
  followed by eight further pairings.\<close>

lemma let_in:
  assumes "run (auth_step st) (auth_init nvs, False) calls = (s, b)" and "isAuthenticated st rq s = (s', evs, True)"
  shows "\<exists>t xs e ys. hexToBytes (extractCookie rq kCookieName) = Some t \<and> length t = 16
     \<and> trace (auth_step st) (auth_init nvs, False) calls @ evs = xs @ e # ys
     \<and> origin t e \<and> Forgotten \<notin> set ys \<and> length (filter is_minted ys) < 8"
proof -
  let ?evs = "trace (auth_step st) (auth_init nvs, False) calls"
  have inv: "auth_inv ?evs (s, b)" using auth_reached [of st nvs calls] assms(1) by simp
  note c = check_honest [OF assms(2)]
  have inv': "auth_inv (?evs @ evs) (s', b)" by (rule auth_inv_frame [OF inv c(1-3)])
  then have l: "au_tokens s' = live (?evs @ evs)" "tokens_ok (live (?evs @ evs))" by (auto simp: auth_inv_def simp del: live_simps(3))
  obtain t where t: "t \<in> set (live (?evs @ evs))" "hexToBytes (extractCookie rq kCookieName) = Some t"
    using c(4) l(1) by auto
  obtain i where i: "i < length (live (?evs @ evs))" "live (?evs @ evs) ! i = t" using t(1) by (metis in_set_conv_nth)
  obtain xs e ys where h: "?evs @ evs = xs @ e # ys" "origin t e" "Forgotten \<notin> set ys"
      "length (filter is_minted ys) + i < length (live (?evs @ evs))"
    using live_origin [OF i(1)] i(2) by blast
  have "length (live (?evs @ evs)) \<le> 8" "length t = 16"
    using l(2) t(1) by (auto simp: tokens_ok_def kMaxTokens_def kTokenBytes_def list_all_iff)
  then have "length (filter is_minted ys) < 8" using h(4) by linarith
  then show ?thesis using t(2) \<open>length t = 16\<close> h(1-3) by blast
qed

text \<open>C12: Every token was minted for a pairing window that somebody redeemed with the PIN or the link the screen
  showed for that very window, within its time, after at most four wrong guesses, and while it was
  neither cancelled, expired, replaced nor redeemed before; and no window yields two tokens.\<close>

theorem token_needs_screen:
  assumes "trace (auth_step st) (auth_init nvs, False) calls = xs @ Minted t # ys"
  shows "\<exists>us pin link start ttl vs isToken submitted now ws.
     xs = us @ WindowOpened pin link start ttl # vs @ Redeemed isToken submitted now # ws
   \<and> submitted = (if isToken then link else pin) \<and> now - start \<le> ttl
   \<and> \<not> list_ex window_event vs \<and> wrong_guesses vs \<le> 4 \<and> \<not> list_ex mint_event ws"
proof -
  have "redeemed_since xs" using pairing.trace_ok [OF assms] by simp
  then obtain us1 i sub now ws where 1: "xs = us1 @ Redeemed i sub now # ws" "\<not> list_ex mint_event ws" "redeemed_by us1 i sub now"
    unfolding redeemed_since_def by blast
  obtain pin link start ttl n where 2: "open_since us1 pin link start ttl n" "n < 5" "now - start \<le> ttl" "sub = (if i then link else pin)"
    using 1(3) unfolding redeemed_by_def by blast
  obtain us vs where 3: "us1 = us @ WindowOpened pin link start ttl # vs" "\<not> list_ex window_event vs" "wrong_guesses vs = n"
    using 2(1) unfolding open_since_def by blast
  have "xs = us @ WindowOpened pin link start ttl # vs @ Redeemed i sub now # ws" "wrong_guesses vs \<le> 4"
    using 1(1) 2(2) 3 by simp_all
  then show ?thesis using 1(2) 2(3,4) 3(2) by blast
qed

section \<open>A paired browser comes back\<close>

text \<open>A cookie of somebody else, as a browser writes it.\<close>

definition plain_cookie :: "string \<Rightarrow> string \<Rightarrow> bool" where
  "plain_cookie nameEq c \<longleftrightarrow> c \<noteq> [] \<and> hd c \<noteq> CHR '' '' \<and> list_all (\<lambda>x. x \<noteq> CHR '';'' \<and> x \<noteq> CHR 0x00) c
     \<and> take (length nameEq) c \<noteq> nameEq"

definition cookie_header :: "string list \<Rightarrow> string" where
  "cookie_header cs = concat (List.map (\<lambda>c. c @ ''; '') cs)"

lemma takeWhile_until: "list_all P xs \<Longrightarrow> \<not> P y \<Longrightarrow> takeWhile P (xs @ y # ys) = xs \<and> dropWhile P (xs @ y # ys) = y # ys"
  by (induction xs) auto

lemma find_cookie_skip:
  assumes "plain_cookie nameEq c"
  shows "find_cookie nameEq (c @ ''; '' @ rest) = find_cookie nameEq rest"
proof -
  let ?sep = "\<lambda>c. c = CHR '' '' \<or> c = CHR '';''"
  obtain x xs where c: "c = x # xs" using assms by (cases c) (auto simp: plain_cookie_def)
  have x: "\<not> ?sep x" "list_all (\<lambda>x. x \<noteq> CHR '';'') c"
    using assms by (auto simp: plain_cookie_def c list_all_iff)
  have d: "dropWhile ?sep (c @ ''; '' @ rest) = c @ ''; '' @ rest" using x(1) by (simp add: c)
  have t: "takeWhile (\<lambda>c. c \<noteq> CHR '';'') (c @ ''; '' @ rest) = c"
      "dropWhile (\<lambda>c. c \<noteq> CHR '';'') (c @ ''; '' @ rest) = ''; '' @ rest"
    using takeWhile_until [OF x(2), of "CHR '';''" "CHR '' '' # rest"] by simp_all
  have "find_cookie nameEq (c @ ''; '' @ rest) = find_cookie nameEq (''; '' @ rest)"
    using assms by (subst find_cookie.simps) (simp only: d t Let_def plain_cookie_def, simp add: c)
  also have "\<dots> = find_cookie nameEq rest"
    by (subst (1 2) find_cookie.simps) simp
  finally show ?thesis .
qed

lemma find_cookie_others:
  "list_all (plain_cookie nameEq) cs \<Longrightarrow> find_cookie nameEq (cookie_header cs @ rest) = find_cookie nameEq rest"
  proof (induction cs)
  case (Cons c cs)
  have "cookie_header (c # cs) @ rest = c @ ''; '' @ (cookie_header cs @ rest)" by (simp add: cookie_header_def)
  then show ?case using Cons find_cookie_skip [of nameEq c "cookie_header cs @ rest"] by simp
qed (simp add: cookie_header_def)

lemma find_cookie_here:
  assumes "list_all (\<lambda>x. x \<noteq> CHR '';'' \<and> x \<noteq> CHR '' '') (nameEq @ v)" and "nameEq \<noteq> []" and "rest = [] \<or> hd rest = CHR '';''"
  shows "find_cookie nameEq (nameEq @ v @ rest) = v"
proof -
  let ?sep = "\<lambda>c. c = CHR '' '' \<or> c = CHR '';''"
  obtain x xs where c: "nameEq = x # xs" using assms(2) by (cases nameEq) auto
  have "\<not> ?sep x" using assms(1) by (auto simp: c)
  then have d: "dropWhile ?sep (nameEq @ v @ rest) = nameEq @ v @ rest" by (simp add: c)
  have a: "list_all (\<lambda>x. x \<noteq> CHR '';'') (nameEq @ v)" using assms(1) by (auto simp: list_all_iff)
  have "takeWhile (\<lambda>c. c \<noteq> CHR '';'') ((nameEq @ v) @ rest) = nameEq @ v"
  proof (cases rest)
    case Nil
    then show ?thesis using a by (metis append.right_neutral list_all_iff takeWhile_eq_all_conv)
  next
    case (Cons r rs)
    then show ?thesis using takeWhile_until [OF a, of r rs] assms(3) by simp
  qed
  then have t: "takeWhile (\<lambda>c. c \<noteq> CHR '';'') (nameEq @ v @ rest) = nameEq @ v" by simp
  show ?thesis by (subst find_cookie.simps) (simp only: d t Let_def, simp add: c)
qed

lemma hexOf_chars: "list_all (\<lambda>x. x \<in> set kHex) (hexOf bs)"
proof (induction bs)
  case (Cons b bs)
  have "n < 16 \<Longrightarrow> kHex ! n \<in> set kHex" for n by (rule nth_mem) (simp add: kHex_def)
  then show ?case using Cons nibbles(1,2) [of b] by simp
qed simp

lemma c_str_append: "list_all (\<lambda>c. c \<noteq> CHR 0x00) xs \<Longrightarrow> c_str (xs @ ys) = xs @ c_str ys"
  by (induction xs) (simp_all add: c_str_def)

lemma hexOf_list_all: "list_all P kHex \<Longrightarrow> list_all P (hexOf bs)"
  using hexOf_chars [of bs] by (auto simp: list_all_iff)

text \<open>What \<open>extractCookie\<close> finds among the cookies of a browser.\<close>

lemma extract_hex:
  assumes "rq_cookies rq = Some (cookie_header cs @ (kCookieName @ ''='' @ hexOf bytes) @ tail)"
    and "list_all (plain_cookie (kCookieName @ ''='')) cs" and "tail = [] \<or> hd tail = CHR '';''"
  shows "extractCookie rq kCookieName = hexOf bytes"
proof -
  let ?n = "kCookieName @ ''=''"
  have n: "list_all (\<lambda>c. c \<noteq> CHR '';'' \<and> c \<noteq> CHR '' '' \<and> c \<noteq> CHR 0x00) (?n @ hexOf bytes)"
    using hexOf_list_all [of "\<lambda>c. c \<noteq> CHR '';'' \<and> c \<noteq> CHR '' '' \<and> c \<noteq> CHR 0x00" bytes]
    by (simp add: kCookieName_def kHex_def)
  have h: "list_all (\<lambda>c. c \<noteq> CHR 0x00) (cookie_header cs)"
    using assms(2)
  proof (induction cs)
    case (Cons c cs)
    then have "list_all (\<lambda>c. c \<noteq> CHR 0x00) c" by (auto simp: plain_cookie_def list_all_iff)
    then show ?case using Cons by (simp add: cookie_header_def)
  qed (simp add: cookie_header_def)
  have a: "list_all (\<lambda>c. c \<noteq> CHR 0x00) (cookie_header cs @ ?n @ hexOf bytes)"
    using n h by (auto simp: list_all_iff)
  have t: "c_str tail = [] \<or> hd (c_str tail) = CHR '';''" using assms(3) by (cases tail) (auto simp: c_str_def)
  have "extractCookie rq kCookieName = find_cookie ?n (cookie_header cs @ (?n @ hexOf bytes @ c_str tail))"
    using c_str_append [OF a, of tail] assms(1) by (simp add: extractCookie_def)
  also have "\<dots> = find_cookie ?n (?n @ hexOf bytes @ c_str tail)" by (rule find_cookie_others [OF assms(2)])
  also have "\<dots> = hexOf bytes"
    by (rule find_cookie_here [OF _ _ t]) (use n in \<open>auto simp: list_all_iff\<close>)
  finally show ?thesis .
qed

lemma cookie_pair: "takeWhile (\<lambda>c. c \<noteq> CHR '';'') (cookie_for (hexOf bytes)) = kCookieName @ ''='' @ hexOf bytes"
proof -
  have "list_all (\<lambda>c. c \<noteq> CHR '';'') (kCookieName @ ''='' @ hexOf bytes)"
    using hexOf_list_all [of "\<lambda>c. c \<noteq> CHR '';''" bytes] by (simp add: kCookieName_def kHex_def)
  from takeWhile_until [OF this, of "CHR '';''" "'' Path=/; HttpOnly; SameSite=Strict; Max-Age=31536000''"]
  show ?thesis by (simp add: cookie_for_def)
qed

lemma authenticated_hex:
  assumes "extractCookie rq kCookieName = hexOf bytes" and "length bytes = kTokenBytes"
    and "ensureTokensLoaded st s = (s1, evs, True)" and "bytes \<in> set (au_tokens s1)"
  shows "snd (snd (isAuthenticated st rq s))"
proof -
  have "length (hexOf bytes) = 32" using assms(2) by (simp add: kTokenBytes_def)
  then have "hexOf bytes \<noteq> []" by (cases "hexOf bytes") (simp_all del: length_hexOf)
  then show ?thesis using assms
    by (simp add: isAuthenticated_def hex_roundtrip hasTokenBytes_def list_ex_iff)
qed

text \<open>The preferences give back what was written completely.\<close>

definition keeps_blob :: "'n token_store \<Rightarrow> bool" where
  "keeps_blob st \<longleftrightarrow> (\<forall>bs nvs nvs'. ts_put st bs nvs = (nvs', length bs) \<longrightarrow>
     ts_open st nvs' = NvsOk \<and> ts_length st nvs' = (NvsOk, length bs) \<and> ts_read st nvs' = (NvsOk, bs))"

lemma reload_tokens:
  assumes "keeps_blob st" and "ts_put st (concat ts) nvs = (nvs', length ts * kTokenBytes)" and "tokens_ok ts" and "ts \<noteq> []"
  shows "ensureTokensLoaded st (auth_init nvs') = ((auth_init nvs')\<lparr>au_tokens := ts, au_tokensLoaded := True\<rparr>, [TokensLoaded ts], True)"
proof -
  have len: "length (concat ts) = length ts * kTokenBytes" "blocks (length ts) (concat ts) = ts"
    using assms(3) concat_length blocks_concat by (auto simp: tokens_ok_def)
  then have st: "ts_open st nvs' = NvsOk" "ts_length st nvs' = (NvsOk, length ts * kTokenBytes)" "ts_read st nvs' = (NvsOk, concat ts)"
    using assms(1,2) unfolding keeps_blob_def by metis+
  have "0 < length ts" "length ts \<le> 8" using assms(3,4) by (auto simp: tokens_ok_def kMaxTokens_def)
  then show ?thesis
    using st len by (simp add: ensureTokensLoaded_def auth_init_def adopt_def kTokenBytes_def kMaxTokens_def)
qed

text \<open>C13: The cookie a pairing sets lets the browser in, at once and after a reboot: the browser sends back its
  name and value among any other cookies, and the token is read back from the preferences.\<close>

theorem paired_browser_returns:
  assumes "keeps_blob st" and "run (auth_step st) (auth_init nvs, False) calls = (s, b)"
    and "mintClientToken st bytes s = (s', evs, Some (tok, cookie, first))"
    and "rq_cookies rq = Some (cookie_header others @ takeWhile (\<lambda>c. c \<noteq> CHR '';'') cookie @ tail)"
    and "list_all (plain_cookie (kCookieName @ ''='')) others" and "tail = [] \<or> hd tail = CHR '';''"
  shows "snd (snd (isAuthenticated st rq s')) \<and> snd (snd (isAuthenticated st rq (auth_init (au_nvs s'))))"
proof -
  obtain s1 evs1 ok where l: "ensureTokensLoaded st s = (s1, evs1, ok)" by (metis surj_pair)
  obtain s2 evs2 n where a: "appendToken st bytes s = (s2, evs2, n)" by (metis surj_pair)
  have out: "n \<noteq> 0" "s' = s2\<lparr>au_redeems := au_redeems s2 + 1\<rparr>" "cookie = cookie_for (hexOf bytes)"
    using assms(3) a by (auto simp: mintClientToken_def split: if_splits)
  let ?ts = "with_token bytes (au_tokens s1)"
  have "\<exists>x. s2 = s1\<lparr>au_nvs := x, au_tokens := ?ts\<rparr> \<and> length bytes = kTokenBytes \<and> ok
      \<and> ts_put st (concat ?ts) (au_nvs s1) = (x, length ?ts * kTokenBytes)"
    by (rule append_cases [OF a l]) (use out(1) in auto)
  then obtain x where x: "s2 = s1\<lparr>au_nvs := x, au_tokens := ?ts\<rparr>" "length bytes = kTokenBytes" "ok"
      "ts_put st (concat ?ts) (au_nvs s1) = (x, length ?ts * kTokenBytes)"
    by blast
  have "tokens_ok (au_tokens s)" using auth_reached [of st nvs calls] assms(2) by (auto simp: auth_inv_def)
  then have ts: "tokens_ok ?ts" "?ts \<noteq> []" "bytes \<in> set ?ts"
    using load_honest(1) [OF l] x(2) by (auto simp: honest_def with_token_ok, simp_all add: with_token_def)
  have c: "extractCookie rq kCookieName = hexOf bytes"
    by (rule extract_hex [OF _ assms(5,6)]) (use assms(4) cookie_pair in \<open>simp add: out(3)\<close>)
  have "au_tokensLoaded s'" using load_honest(7) [OF l] x(1,3) out(2) by simp
  then have "ensureTokensLoaded st s' = (s', [], True)" by (simp add: ensureTokensLoaded_def)
  moreover have "bytes \<in> set (au_tokens s')" using ts(3) x(1) out(2) by simp
  ultimately have 1: "snd (snd (isAuthenticated st rq s'))" by (rule authenticated_hex [OF c x(2)])
  have "au_nvs s' = x" using x(1) out(2) by simp
  then have 2: "snd (snd (isAuthenticated st rq (auth_init (au_nvs s'))))"
    using authenticated_hex [OF c x(2) reload_tokens [OF assms(1) x(4) ts(1,2)]] ts(3) by simp
  from 1 2 show ?thesis by (rule conjI)
qed

section \<open>An example\<close>

definition ram_tokens :: "u8 list option token_store" where
  "ram_tokens = \<lparr>ts_open = (\<lambda>nvs. case nvs of None \<Rightarrow> NvsNotFound | Some _ \<Rightarrow> NvsOk),
     ts_length = (\<lambda>nvs. case nvs of None \<Rightarrow> (NvsNotFound, 0) | Some bs \<Rightarrow> (NvsOk, length bs)),
     ts_read = (\<lambda>nvs. case nvs of None \<Rightarrow> (NvsNotFound, []) | Some bs \<Rightarrow> (NvsOk, bs)),
     ts_begin = (\<lambda>nvs. True), ts_put = (\<lambda>bs nvs. (Some bs, length bs)), ts_clear = (\<lambda>nvs. None)\<rparr>"

definition demo_bytes :: "u8 list" where
  "demo_bytes = [0, 1, 2, 3, 4, 5, 6, 7, 8, 9, 10, 11, 12, 13, 14, 15]"

definition demo_pairing :: "u8 list option auth_call list" where
  "demo_pairing = [StartPairing 70042 [1, 2, 3, 4, 5, 6] 1000 60000, Consume ''0041'' False 2000, Consume ''0042'' False 61000]"

definition demo_request :: request where
  "demo_request = \<lparr>rq_cookies = Some (''lang=en; auth_token='' @ hexOf demo_bytes), rq_arg = (\<lambda>k. None)\<rparr>"

definition demo_calls :: "u8 list option auth_call list" where
  "demo_calls = demo_pairing @ [Mint demo_bytes]"

theorem token_needs_screen_witness:
  "\<exists>us pin link start ttl vs isToken submitted now ws.
     [WindowOpened ''0042'' ''010203040506'' 1000 60000, WrongGuess, Redeemed False ''0042'' 61000, TokensLoaded []]
       = us @ WindowOpened pin link start ttl # vs @ Redeemed isToken submitted now # ws
   \<and> submitted = (if isToken then link else pin) \<and> now - start \<le> ttl
   \<and> \<not> list_ex window_event vs \<and> wrong_guesses vs \<le> 4 \<and> \<not> list_ex mint_event ws"
proof -
  have "trace (auth_step ram_tokens) (auth_init None, False) demo_calls =
     [WindowOpened ''0042'' ''010203040506'' 1000 60000, WrongGuess, Redeemed False ''0042'' 61000, TokensLoaded []] @ Minted demo_bytes # []"
    by code_simp
  from token_needs_screen [OF this] show ?thesis .
qed

theorem paired_browser_returns_witness:
  "let s = fst (run (auth_step ram_tokens) (auth_init None, False) demo_pairing);
       s' = fst (mintClientToken ram_tokens demo_bytes s) in
   snd (snd (isAuthenticated ram_tokens demo_request s')) \<and> snd (snd (isAuthenticated ram_tokens demo_request (auth_init (au_nvs s'))))"
proof -
  obtain s b where r: "run (auth_step ram_tokens) (auth_init None, False) demo_pairing = (s, b)" by (metis surj_pair)
  obtain s' evs m where m: "mintClientToken ram_tokens demo_bytes s = (s', evs, m)" by (metis surj_pair)
  have "(case snd (snd (mintClientToken ram_tokens demo_bytes (fst (run (auth_step ram_tokens) (auth_init None, False) demo_pairing))))
      of None \<Rightarrow> False | Some (tok, cookie, first) \<Rightarrow> cookie = cookie_for (hexOf demo_bytes))"
    by code_simp
  then obtain tok first where c: "m = Some (tok, cookie_for (hexOf demo_bytes), first)"
    unfolding r fst_conv m snd_conv by (cases m) auto
  have k: "keeps_blob ram_tokens" by (simp add: keeps_blob_def ram_tokens_def)
  have h: "rq_cookies demo_request = Some (cookie_header [''lang=en''] @ takeWhile (\<lambda>c. c \<noteq> CHR '';'') (cookie_for (hexOf demo_bytes)) @ [])"
    unfolding cookie_pair by (simp add: demo_request_def cookie_header_def kCookieName_def)
  have o: "list_all (plain_cookie (kCookieName @ ''='')) [''lang=en'']" by code_simp
  from paired_browser_returns [OF k r m [unfolded c] h o] show ?thesis unfolding Let_def r fst_conv m by simp
qed

end
