(* ===== verification/HttpServer.thy ===== *)
theory HttpServer
  imports Auth "HOL-Library.List_Lexorder"
begin

text \<open>
  \<open>src/src/net/HttpServer.h/.cpp\<close>: the routes of the device, the guard in front of every protected one,
  and the task that rebuilds the web server when the routes change. \<open>WebServer\<close>, mDNS and the heap
  are outside; a handler is a value of type \<open>'h\<close>, the auth middleware one of type \<open>'m\<close>.
\<close>

section \<open>Routes\<close>

datatype http_method = HTTP_GET | HTTP_POST

record 'h http_route =
  ro_path :: string
  ro_method :: http_method
  ro_handler :: 'h
  ro_requiresAuth :: bool

type_synonym 'h route_groups = "(string \<times> 'h http_route list) list"   \<comment> \<open>a \<open>std::map\<close>: by ascending prefix\<close>

fun group_add :: "string \<Rightarrow> 'h http_route list \<Rightarrow> 'h route_groups \<Rightarrow> 'h route_groups" where
  "group_add p rs [] = [(p, rs)]"
| "group_add p rs ((q, qs) # gs) =
     (if p = q then (q, qs @ rs) # gs else if p < q then (p, rs) # (q, qs) # gs else (q, qs) # group_add p rs gs)"

definition group_erase :: "string \<Rightarrow> 'h route_groups \<Rightarrow> 'h route_groups" where
  "group_erase p gs = filter (\<lambda>g. fst g \<noteq> p) gs"

definition kAppPrefix :: string where "kAppPrefix = ''/app/''"
definition kMdnsRetryMs :: u32 where "kMdnsRetryMs = 30000"
definition kRebuildRetryMs :: u32 where "kRebuildRetryMs = 5000"
definition kStopCheckMs :: u32 where "kStopCheckMs = 100"

text \<open>What \<open>_bindRoutes\<close> puts in front of a handler.\<close>

datatype 'm guard = OpenToAll | Gated 'm | AuthUnavailable

record ('h, 'm) bound =
  bd_path :: string
  bd_route :: "'h http_route"
  bd_guard :: "'m guard"

definition full_path :: "string \<Rightarrow> string \<Rightarrow> string" where
  "full_path prefix path = (if path \<noteq> [] \<and> hd path \<noteq> CHR ''/'' then prefix @ ''/'' @ path else prefix @ path)"

definition bind_route :: "'m option \<Rightarrow> string \<Rightarrow> 'h http_route \<Rightarrow> ('h, 'm) bound" where
  "bind_route mw prefix r =
     \<lparr>bd_path = full_path prefix (ro_path r), bd_route = r,
      bd_guard = (if \<not> ro_requiresAuth r then OpenToAll
                  else case mw of Some gate \<Rightarrow> Gated gate | None \<Rightarrow> AuthUnavailable)\<rparr>"

definition bindRoutes :: "'h route_groups \<Rightarrow> 'm option \<Rightarrow> ('h, 'm) bound list" where
  "bindRoutes groups mw = concat (map (\<lambda>(prefix, routes). map (bind_route mw prefix) routes) groups)"

text \<open>What a bound route does with a request, given what the middleware says.\<close>

datatype 'h outcome = RunHandler 'h | Refuse int

definition answer :: "('m \<Rightarrow> bool) \<Rightarrow> ('h, 'm) bound \<Rightarrow> 'h outcome" where
  "answer accepts e =
     (case bd_guard e of
        OpenToAll \<Rightarrow> RunHandler (ro_handler (bd_route e))
      | Gated gate \<Rightarrow> if \<not> accepts gate then Refuse 401 else RunHandler (ro_handler (bd_route e))
      | AuthUnavailable \<Rightarrow> Refuse 503)"

section \<open>The server\<close>

text \<open>Where the server task stands: before the first build, building, waiting \<open>k\<close> hundred ms to try again,
  serving, rebuilding.\<close>

datatype http_pc = NoTask | FirstCheck | FirstTry | FirstBuild | RetryWait nat | Built | Serving | Rebuild u32 | Leaving

record ('h, 'm) http =
  ht_groups :: "'h route_groups"
  ht_middleware :: "'m option"
  ht_routesDirty :: bool
  ht_unpublished :: nat               \<comment> \<open>changes whose flag is not set yet\<close>
  ht_shouldRun :: bool
  ht_taskExited :: bool
  ht_pc :: http_pc
  ht_server :: "('h, 'm) bound list option"
  ht_rebuildBackoff :: bool
  ht_lastRebuildFailureMs :: u32
  ht_hostname :: string               \<comment> \<open>\<open>_mdnsHost\<close>\<close>
  ht_activeHost :: string
  ht_lastMdnsAttemptMs :: u32

definition http_init :: "('h, 'm) http" where
  "http_init = \<lparr>ht_groups = [], ht_middleware = None, ht_routesDirty = False, ht_unpublished = 0, ht_shouldRun = False,
     ht_taskExited = True, ht_pc = NoTask, ht_server = None, ht_rebuildBackoff = False, ht_lastRebuildFailureMs = 0,
     ht_hostname = [], ht_activeHost = [], ht_lastMdnsAttemptMs = 0\<rparr>"

text \<open>Registry changes, under the mutex; each is published by setting the flag afterwards.\<close>

definition registerRoutes :: "string \<Rightarrow> 'h http_route list \<Rightarrow> ('h, 'm) http \<Rightarrow> ('h, 'm) http" where
  "registerRoutes prefix routes s =
     (if prefix = [] then s
      else s\<lparr>ht_groups := group_add prefix routes (ht_groups s), ht_unpublished := ht_unpublished s + 1\<rparr>)"

definition unregisterRoutes :: "string \<Rightarrow> ('h, 'm) http \<Rightarrow> ('h, 'm) http" where
  "unregisterRoutes prefix s =
     (if prefix = [] then s
      else s\<lparr>ht_groups := group_erase prefix (ht_groups s), ht_unpublished := ht_unpublished s + 1\<rparr>)"

definition registerApp :: "string \<Rightarrow> 'h http_route list \<Rightarrow> ('h, 'm) http \<Rightarrow> ('h, 'm) http" where
  "registerApp name routes s = (if name = [] then s else registerRoutes (kAppPrefix @ name) routes s)"

definition unregisterApp :: "string \<Rightarrow> ('h, 'm) http \<Rightarrow> ('h, 'm) http" where
  "unregisterApp name s = (if name = [] then s else unregisterRoutes (kAppPrefix @ name) s)"

definition setAuthMiddleware :: "'m option \<Rightarrow> ('h, 'm) http \<Rightarrow> ('h, 'm) http" where
  "setAuthMiddleware mw s = s\<lparr>ht_middleware := mw, ht_unpublished := ht_unpublished s + 1\<rparr>"

definition publish :: "('h, 'm) http \<Rightarrow> ('h, 'm) http" where
  "publish s = (if ht_unpublished s = 0 then s else s\<lparr>ht_unpublished := ht_unpublished s - 1, ht_routesDirty := True\<rparr>)"

text \<open>\<open>begin\<close>, once its wait for the task before is over; \<open>spawned\<close>: the task could be created.\<close>

definition http_begin :: "string \<Rightarrow> bool \<Rightarrow> ('h, 'm) http \<Rightarrow> ('h, 'm) http \<times> bool" where
  "http_begin hostname spawned s =
     (if ht_shouldRun s then (s, True)
      else
        let s1 = s\<lparr>ht_taskExited := False, ht_shouldRun := True, ht_hostname := take 31 hostname\<rparr> in
        if \<not> spawned then (s1\<lparr>ht_shouldRun := False, ht_taskExited := True\<rparr>, False)
        else (s1\<lparr>ht_pc := FirstCheck\<rparr>, True))"

text \<open>\<open>stop\<close> asks; then it waits until the task has exited.\<close>

definition http_stop :: "('h, 'm) http \<Rightarrow> ('h, 'm) http" where
  "http_stop s = (if \<not> ht_shouldRun s then s else s\<lparr>ht_shouldRun := False\<rparr>)"

definition stop_returns :: "('h, 'm) http \<Rightarrow> bool" where
  "stop_returns s \<longleftrightarrow> \<not> ht_shouldRun s \<and> ht_taskExited s"

definition leave :: "('h, 'm) http \<Rightarrow> ('h, 'm) http" where
  "leave s = s\<lparr>ht_server := None, ht_pc := Leaving\<rparr>"

definition startMdns :: "u32 \<Rightarrow> bool \<Rightarrow> ('h, 'm) http \<Rightarrow> ('h, 'm) http" where
  "startMdns now ok s =
     s\<lparr>ht_lastMdnsAttemptMs := now, ht_activeHost := if ok then ht_hostname s else []\<rparr>"

text \<open>One step of the task, from one access to shared state to the next. Inputs: the time, whether the heap
  sufficed for a server, whether mDNS started.\<close>

definition http_task :: "u32 \<Rightarrow> bool \<Rightarrow> bool \<Rightarrow> ('h, 'm) http \<Rightarrow> ('h, 'm) http" where
  "http_task now heap mdns s =
     (case ht_pc s of
        NoTask \<Rightarrow> s
      | FirstCheck \<Rightarrow> if \<not> ht_shouldRun s then leave s else s\<lparr>ht_pc := FirstTry\<rparr>
      | FirstTry \<Rightarrow> if \<not> ht_shouldRun s then leave s else s\<lparr>ht_routesDirty := False, ht_pc := FirstBuild\<rparr>
      | FirstBuild \<Rightarrow>
          if heap then s\<lparr>ht_server := Some (bindRoutes (ht_groups s) (ht_middleware s)), ht_pc := Built\<rparr>
          else s\<lparr>ht_routesDirty := True, ht_pc := RetryWait 0\<rparr>
      | RetryWait k \<Rightarrow>
          if \<not> ht_shouldRun s then leave s
          else if of_nat k * kStopCheckMs < kRebuildRetryMs then s\<lparr>ht_pc := RetryWait (k + 1)\<rparr>
          else s\<lparr>ht_pc := FirstTry\<rparr>
      | Built \<Rightarrow>
          if \<not> ht_shouldRun s then leave s
          else (startMdns now mdns s)\<lparr>ht_rebuildBackoff := False, ht_lastRebuildFailureMs := 0, ht_pc := Serving\<rparr>
      | Serving \<Rightarrow>
          if \<not> ht_shouldRun s then leave s
          else if ht_routesDirty s \<and> (\<not> ht_rebuildBackoff s \<or> kRebuildRetryMs \<le> now - ht_lastRebuildFailureMs s)
          then s\<lparr>ht_routesDirty := False, ht_pc := Rebuild now\<rparr>
          else if ht_activeHost s = [] \<and> kMdnsRetryMs \<le> now - ht_lastMdnsAttemptMs s then startMdns now mdns s
          else s
      | Rebuild t \<Rightarrow>
          (let s1 = (if heap
                     then s\<lparr>ht_server := Some (bindRoutes (ht_groups s) (ht_middleware s)), ht_rebuildBackoff := False\<rparr>
                     else s\<lparr>ht_routesDirty := True, ht_rebuildBackoff := True, ht_lastRebuildFailureMs := t\<rparr>);
               s2 = (if ht_activeHost s1 = [] \<and> kMdnsRetryMs \<le> t - ht_lastMdnsAttemptMs s1 then startMdns now mdns s1 else s1)
           in s2\<lparr>ht_pc := Serving\<rparr>)
      | Leaving \<Rightarrow> s\<lparr>ht_taskExited := True, ht_pc := NoTask\<rparr>)"

section \<open>Pages\<close>

text \<open>The page a path names, and whether the visitor is sent to the address by name first.\<close>

definition ends_with :: "string \<Rightarrow> string \<Rightarrow> bool" where
  "ends_with s e \<longleftrightarrow> length e \<le> length s \<and> drop (length s - length e) s = e"

definition asset_path :: "string \<Rightarrow> string" where
  "asset_path uri = (if uri = ''/'' then ''/home/index.html'' else if ends_with uri ''/'' then uri @ ''index.html'' else uri)"

fun contains :: "string \<Rightarrow> string \<Rightarrow> bool" where
  "contains [] e \<longleftrightarrow> e = []"
| "contains (c # cs) e \<longleftrightarrow> take (length e) (c # cs) = e \<or> contains cs e"

datatype page = ContinueAtName string | NotModified | Asset nat | NoAsset

definition serveEmbeddedAsset ::
  "string list \<Rightarrow> string \<Rightarrow> string option \<Rightarrow> string option \<Rightarrow> bool \<Rightarrow> string \<Rightarrow> ('h, 'm) http \<Rightarrow> page" where
  "serveEmbeddedAsset assets etag host ifNoneMatch authenticated uri s =
     (let path = asset_path uri in
      if path = ''/home/index.html'' \<and> ht_activeHost s \<noteq> []
         \<and> \<not> contains (case host of None \<Rightarrow> [] | Some h \<Rightarrow> h) ''.local'' \<and> \<not> authenticated
      then ContinueAtName (ht_activeHost s)
      else case List.find (\<lambda>i. assets ! i = path) [0..<length assets] of
          None \<Rightarrow> NoAsset
        | Some i \<Rightarrow> if ifNoneMatch = Some etag then NotModified else Asset i)"

end
