(* ===== verification/HttpLaws.thy ===== *)
theory HttpLaws
  imports HttpServer AuthLaws
begin

text \<open>
  The web server keeps no protected handler open, shows the routes as they are registered, and, with
  pairing behind its guard, runs a protected handler only for a paired browser. The routes the firmware
  registers at boot are evaluated here.
\<close>

section \<open>The server and its callers\<close>

datatype ('h, 'm) http_call =
    Register string "'h http_route list" | Unregister string | RegisterApp string "'h http_route list" | UnregisterApp string
  | SetMiddleware "'m option" | Publish | BeginServer string bool | StopServer | TaskRuns u32 bool bool

fun http_step :: "('h, 'm) http \<Rightarrow> ('h, 'm) http_call \<Rightarrow> ('h, 'm) http \<times> unit" where
  "http_step s (Register p rs) = (registerRoutes p rs s, ())"
| "http_step s (Unregister p) = (unregisterRoutes p s, ())"
| "http_step s (RegisterApp n rs) = (registerApp n rs s, ())"
| "http_step s (UnregisterApp n) = (unregisterApp n s, ())"
| "http_step s (SetMiddleware mw) = (setAuthMiddleware mw s, ())"
| "http_step s Publish = (publish s, ())"
| "http_step s (BeginServer h ok) = (if \<not> ht_shouldRun s \<and> \<not> ht_taskExited s then s else fst (http_begin h ok s), ())"
| "http_step s StopServer = (http_stop s, ())"
| "http_step s (TaskRuns now heap mdns) = (http_task now heap mdns s, ())"

text \<open>A bound route is guarded as it asks for.\<close>

definition guarded_route :: "('h, 'm) bound \<Rightarrow> bool" where
  "guarded_route e \<longleftrightarrow> (ro_requiresAuth (bd_route e) \<longleftrightarrow> bd_guard e \<noteq> OpenToAll)"

definition building :: "http_pc \<Rightarrow> bool" where
  "building pc \<longleftrightarrow> (case pc of Serving \<Rightarrow> False | Built \<Rightarrow> False | _ \<Rightarrow> True)"

definition current :: "('h, 'm) http \<Rightarrow> bool" where
  "current s \<longleftrightarrow> ht_server s = Some (bindRoutes (ht_groups s) (ht_middleware s))"

definition http_inv :: "('h, 'm) http \<Rightarrow> bool" where
  "http_inv s \<longleftrightarrow>
     (\<forall>bs. ht_server s = Some bs \<longrightarrow> list_all guarded_route bs)
   \<and> (0 < ht_unpublished s \<or> ht_routesDirty s \<or> building (ht_pc s) \<or> current s)
   \<and> (ht_pc s = Serving \<or> ht_pc s = Built \<or> (\<exists>t. ht_pc s = Rebuild t) \<longrightarrow> ht_server s \<noteq> None)
   \<and> (ht_taskExited s \<longleftrightarrow> ht_pc s = NoTask)
   \<and> (ht_shouldRun s \<longrightarrow> ht_pc s \<noteq> NoTask \<and> ht_pc s \<noteq> Leaving)"

lemma bind_guarded: "list_all guarded_route (bindRoutes groups mw)"
  by (auto simp: bindRoutes_def list_all_iff guarded_route_def bind_route_def split: option.splits if_splits)

lemma register_inv:
  assumes "http_inv s"
  shows "http_inv (registerRoutes p rs s)" "http_inv (unregisterRoutes p s)" "http_inv (setAuthMiddleware mw s)" "http_inv (publish s)"
  using assms by (auto simp: http_inv_def registerRoutes_def unregisterRoutes_def setAuthMiddleware_def publish_def)

lemma task_inv:
  assumes "http_inv s"
  shows "http_inv (http_task now heap mdns s)"
proof -
  note d = http_inv_def building_def current_def leave_def startMdns_def bind_guarded
  show ?thesis
  proof (cases "ht_pc s")
    case (Rebuild t)
    then show ?thesis using assms by (auto simp: http_task_def Let_def d)
  qed (use assms in \<open>auto simp: http_task_def d\<close>)
qed

lemma begin_inv:
  assumes "http_inv s" and "ht_taskExited s \<or> ht_shouldRun s"
  shows "http_inv (fst (http_begin h ok s))"
proof (cases "ht_shouldRun s")
  case True
  then show ?thesis using assms(1) by (simp add: http_begin_def)
next
  case False
  then have "ht_pc s = NoTask" using assms by (simp add: http_inv_def)
  then show ?thesis using False assms by (cases ok) (simp_all add: http_begin_def http_inv_def building_def Let_def current_def)
qed

lemma stop_inv: "http_inv s \<Longrightarrow> http_inv (http_stop s)"
  by (simp add: http_stop_def http_inv_def current_def)

lemma http_step_inv: "http_inv s \<Longrightarrow> http_inv (fst (http_step s c))"
proof -
  assume i: "http_inv s"
  have b: "http_inv (if \<not> ht_shouldRun s \<and> \<not> ht_taskExited s then s else fst (http_begin h ok s))" for h ok
    using i begin_inv [OF i] by (cases "\<not> ht_shouldRun s \<and> \<not> ht_taskExited s") auto
  show ?thesis
  proof (cases c)
    case (BeginServer h ok)
    then show ?thesis by (simp only: http_step.simps fst_conv b)
  qed (simp_all add: i stop_inv [OF i] register_inv [OF i] task_inv [OF i] registerApp_def unregisterApp_def)
qed

interpretation http: invariant_machine http_step http_inv http_init
proof
  show "http_inv http_init" by (simp add: http_inv_def http_init_def building_def)
qed (rule http_step_inv)

text \<open>C14: Whatever is registered, unregistered or rebuilt and in whatever order, a bound route that asks for
  authentication runs its handler only if a middleware was installed and accepts the request; with none
  installed it refuses with 503, and a refused request gets 401.\<close>

theorem protected_routes_closed:
  assumes "ht_server (run http_step http_init calls) = Some bs" and "e \<in> set bs" and "ro_requiresAuth (bd_route e)"
  shows "answer accepts e =
     (case bd_guard e of
        Gated gate \<Rightarrow> if accepts gate then RunHandler (ro_handler (bd_route e)) else Refuse 401
      | _ \<Rightarrow> Refuse 503)"
proof -
  have "guarded_route e" using http.inv_reach [of calls] assms(1,2) by (auto simp: http_inv_def list_all_iff)
  then show ?thesis using assms(3) by (auto simp: guarded_route_def answer_def split: guard.splits)
qed

text \<open>C15: While the task serves, its routes are the registered ones unless a change is waiting for its rebuild;
  then, as soon as no failed rebuild was less than five seconds ago and the heap suffices, two steps of
  the task bring them up to date, and without a waiting change they stay so.\<close>

theorem routes_follow_registry:
  fixes calls :: "('h, 'm) http_call list"
  defines "s \<equiv> run http_step http_init calls"
  assumes "ht_pc s = Serving" and "ht_shouldRun s"
  shows "if ht_unpublished s = 0 \<and> \<not> ht_routesDirty s then current s
         else ht_routesDirty (publish s)
           \<and> (if ht_rebuildBackoff s \<and> now - ht_lastRebuildFailureMs s < kRebuildRetryMs then True
              else let s2 = http_task t2 True m2 (http_task now h1 m1 (publish s)) in ht_pc s2 = Serving \<and> current s2)"
proof -
  have i: "http_inv s" unfolding s_def by (rule http.inv_reach)
  show ?thesis
  proof (cases "ht_unpublished s = 0 \<and> \<not> ht_routesDirty s")
    case True
    then show ?thesis using i assms(2) by (auto simp: http_inv_def building_def)
  next
    case False
    then have p: "ht_routesDirty (publish s)" "ht_pc (publish s) = Serving" "ht_shouldRun (publish s)"
        "ht_rebuildBackoff (publish s) = ht_rebuildBackoff s" "ht_lastRebuildFailureMs (publish s) = ht_lastRebuildFailureMs s"
      using assms(2,3) by (auto simp: publish_def)
    show ?thesis
    proof (cases "ht_rebuildBackoff s \<and> now - ht_lastRebuildFailureMs s < kRebuildRetryMs")
      case True
      then show ?thesis unfolding if_not_P [OF False] using p(1) by simp
    next
      case ready: False
      then have "http_task now h1 m1 (publish s) = (publish s)\<lparr>ht_routesDirty := False, ht_pc := Rebuild now\<rparr>"
        using p by (auto simp: http_task_def not_less)
      then have "let s2 = http_task t2 True m2 (http_task now h1 m1 (publish s)) in ht_pc s2 = Serving \<and> current s2"
        by (auto simp: http_task_def Let_def current_def startMdns_def)
      then show ?thesis unfolding if_not_P [OF False] if_not_P [OF ready] using p(1) by (rule conjI [rotated])
    qed
  qed
qed

text \<open>\<open>stop\<close> returns: once asked, the task exits in a few of its steps.\<close>

lemma stop_exits:
  assumes "\<not> ht_shouldRun s" and "http_inv s" and "length is = 4"
  shows "stop_returns (foldl (\<lambda>s (now, heap, mdns). http_task now heap mdns s) s is)"
proof -
  have three: "ht_pc (http_task n h m s) = NoTask \<and> ht_taskExited (http_task n h m s)" if "ht_pc s = Leaving \<or> ht_pc s = NoTask \<and> ht_taskExited s"
    for n h m and s :: "('a, 'b) http"
    using that by (auto simp: http_task_def)
  have stays: "ht_shouldRun (http_task n h m s) = ht_shouldRun s" for n h m and s :: "('a, 'b) http"
    by (cases "ht_pc s") (simp_all add: http_task_def Let_def leave_def startMdns_def)
  have leaves: "ht_pc (http_task n h m s) = Leaving" if "\<not> ht_shouldRun s" "ht_pc s \<in> {FirstCheck, FirstTry, Built, Serving} \<or> (\<exists>k. ht_pc s = RetryWait k)"
    for n h m and s :: "('a, 'b) http"
    using that by (auto simp: http_task_def leave_def)
  have builds: "ht_pc (http_task n h m s) \<in> {FirstCheck, FirstTry, Built, Serving} \<or> (\<exists>k. ht_pc (http_task n h m s) = RetryWait k)"
    if "ht_pc s = FirstBuild \<or> (\<exists>t. ht_pc s = Rebuild t)" for n h m and s :: "('a, 'b) http"
    using that by (auto simp: http_task_def Let_def)
  obtain a b c d where is4: "is = [a, b, c, d]"
    using assms(3) by (auto simp: length_Suc_conv eval_nat_numeral)
  define f where "f = (\<lambda>s (now, heap, mdns). http_task now heap mdns (s :: ('a, 'b) http))"
  have e: "ht_taskExited s \<longleftrightarrow> ht_pc s = NoTask" using assms(2) by (simp add: http_inv_def)
  define quiet where "quiet s \<longleftrightarrow> ht_pc s = Leaving \<or> ht_pc s = NoTask \<and> ht_taskExited s" for s :: "('a, 'b) http"
  define idle where "idle s \<longleftrightarrow> ht_pc s \<in> {FirstCheck, FirstTry, Built, Serving} \<or> (\<exists>k. ht_pc s = RetryWait k)" for s :: "('a, 'b) http"
  have q: "quiet (f s x)" if "quiet s" for s x using three that by (cases x) (auto simp: quiet_def f_def)
  have l: "quiet (f s x)" if "idle s" "\<not> ht_shouldRun s" for s x using leaves that by (cases x) (auto simp: quiet_def idle_def f_def)
  have r: "\<not> ht_shouldRun (f s x)" if "\<not> ht_shouldRun s" for s x using stays that by (cases x) (auto simp: f_def)
  have start: "quiet s \<or> idle s \<or> (\<exists>t. ht_pc s = Rebuild t) \<or> ht_pc s = FirstBuild"
    using e by (cases "ht_pc s") (auto simp: quiet_def idle_def)
  have "quiet (f s a) \<or> idle (f s a)"
  proof -
    obtain n h m where a: "f s a = http_task n h m s" by (cases a) (simp add: f_def)
    show ?thesis using start q [of s a] l [OF _ assms(1), of a] builds [of s n h m] unfolding a idle_def by blast
  qed
  then have "quiet (f (f s a) b)" using q l r [OF assms(1)] by blast
  then have "quiet (f (f (f s a) b) c)" by (rule q)
  then have "ht_taskExited (f (f (f (f s a) b) c) d)" using three by (cases d) (auto simp: quiet_def f_def)
  moreover have "\<not> ht_shouldRun (f (f (f (f s a) b) c) d)" using r assms(1) by blast
  ultimately show ?thesis by (simp add: is4 f_def stop_returns_def)
qed

section \<open>The server with pairing behind it\<close>

text \<open>The middleware \<open>Auth::registerWith\<close> installs is \<open>isAuthenticated\<close>.\<close>

datatype middleware = CheckPairing

definition serve :: "'n token_store \<Rightarrow> request \<Rightarrow> ('h, middleware) bound \<Rightarrow> 'n auth \<Rightarrow> ('n, 'h outcome) acted" where
  "serve st rq e s =
     (case bd_guard e of
        Gated gate \<Rightarrow> (case isAuthenticated st rq s of (s1, evs, ok) \<Rightarrow> (s1, evs, answer (\<lambda>_. ok) e))
      | _ \<Rightarrow> (s, [], answer (\<lambda>_. False) e))"

text \<open>C11: On the whole device, whatever both components went through, the handler of a protected route runs for
  a request only if its cookie carries a token that was minted for a redeemed window, or was in the
  preferences at boot, and since then was neither forgotten nor pushed out by eight further pairings.\<close>

theorem protected_handler_needs_token:
  assumes "run (auth_step st) (auth_init nvs, False) acalls = (s, b)"
    and "ht_server (run http_step http_init hcalls) = Some bs" and "e \<in> set bs" and "ro_requiresAuth (bd_route e)"
    and "serve st rq e s = (s', evs, RunHandler h)"
  shows "h = ro_handler (bd_route e) \<and> (\<exists>t xs x ys. hexToBytes (extractCookie rq kCookieName) = Some t \<and> length t = 16
     \<and> trace (auth_step st) (auth_init nvs, False) acalls @ evs = xs @ x # ys
     \<and> origin t x \<and> Forgotten \<notin> set ys \<and> length (filter is_minted ys) < 8)"
proof -
  have g: "guarded_route e" using http.inv_reach [of hcalls] assms(2,3) by (auto simp: http_inv_def list_all_iff)
  obtain gate where gate: "bd_guard e = Gated gate"
    using g assms(4,5) by (cases "bd_guard e") (auto simp: guarded_route_def serve_def answer_def)
  obtain s1 evs1 ok where a: "isAuthenticated st rq s = (s1, evs1, ok)" by (metis surj_pair)
  have out: "s1 = s'" "evs1 = evs" "ok" "h = ro_handler (bd_route e)"
    using assms(5) a by (auto simp: serve_def gate answer_def split: if_splits)
  then have "isAuthenticated st rq s = (s', evs, True)" using a by simp
  from let_in [OF assms(1) this] show ?thesis using out(4) by blast
qed

section \<open>The routes of the firmware\<close>

text \<open>A handler is named by its method. The lists are those of the \<open>registerWith\<close> functions.\<close>

definition route :: "string \<Rightarrow> http_method \<Rightarrow> string \<Rightarrow> bool \<Rightarrow> string http_route" where
  "route path m h needsAuth = \<lparr>ro_path = path, ro_method = m, ro_handler = h, ro_requiresAuth = needsAuth\<rparr>"

definition auth_routes :: "string http_route list" where
  "auth_routes = [route ''/pair'' HTTP_POST ''handlePair'' False, route ''/pair'' HTTP_GET ''handlePairToken'' False,
     route ''/whoami'' HTTP_GET ''handleWhoami'' False, route ''/token'' HTTP_GET ''handleToken'' True]"

definition wifi_routes :: "string http_route list" where
  "wifi_routes = [route ''/status'' HTTP_GET ''handleStatus'' True, route ''/sta'' HTTP_POST ''handleSetSta'' True,
     route ''/scan'' HTTP_GET ''handleScan'' True, route ''/forget'' HTTP_POST ''handleForget'' True,
     route ''/hostname'' HTTP_POST ''handleSetHostname'' True]"

definition panic_routes :: "string http_route list" where
  "panic_routes = [route ''/panic'' HTTP_GET ''servePanic'' False]"

definition extraction_routes :: "string http_route list" where
  "extraction_routes = [route ''/state'' HTTP_GET ''handleState'' True, route ''/last'' HTTP_GET ''handleLast'' True,
     route ''/current'' HTTP_GET ''handleCurrent'' True, route ''/shots'' HTTP_GET ''handleShotHistory'' True,
     route ''/loaded'' HTTP_POST ''handleSetLoaded'' True]"

definition stream_routes :: "string http_route list" where
  "stream_routes = [route ''/stream-ticket'' HTTP_POST ''handleTicketRoute'' True]"

definition diagnostics_routes :: "string http_route list" where
  "diagnostics_routes = [route [] HTTP_GET ''handleLog'' True, route ''/clear'' HTTP_POST ''handleClear'' True]"

text \<open>What \<open>setup\<close> registers, in its order.\<close>

definition boot_calls :: "(string, middleware) http_call list" where
  "boot_calls =
     [SetMiddleware (Some CheckPairing), Publish, Register ''/auth'' auth_routes, Publish,
      Register ''/sys/wifi'' wifi_routes, Publish,
      Register ''/sys/diagnostics'' panic_routes, Publish,
      RegisterApp ''extraction'' extraction_routes, Publish, Register ''/app/extraction'' stream_routes, Publish,
      Register ''/sys/diagnostics'' diagnostics_routes, Publish]"

definition boot_bound :: "(string, middleware) bound list" where
  "boot_bound = (let s = run http_step http_init boot_calls in bindRoutes (ht_groups s) (ht_middleware s))"


text \<open>The server up and serving.\<close>

definition boot_serving :: "(string, middleware) http_call list" where
  "boot_serving = boot_calls @ [BeginServer ''pumpbug'' True, TaskRuns 0 True True, TaskRuns 1 True True, TaskRuns 2 True True, TaskRuns 3 True True]"

lemma boot_server:
  "ht_server (run http_step http_init boot_serving) = Some boot_bound \<and> ht_pc (run http_step http_init boot_serving) = Serving
   \<and> ht_shouldRun (run http_step http_init boot_serving)"
  by code_simp

definition forget_route :: "(string, middleware) bound" where
  "forget_route = \<lparr>bd_path = ''/sys/wifi/forget'', bd_route = route ''/forget'' HTTP_POST ''handleForget'' True, bd_guard = Gated CheckPairing\<rparr>"

lemma forget_bound: "forget_route \<in> set boot_bound"
  by code_simp

theorem protected_routes_closed_witness:
  "answer (\<lambda>gate. False) forget_route = Refuse 401"
  using protected_routes_closed [of boot_serving boot_bound forget_route "\<lambda>gate. False"] boot_server forget_bound
  by (simp add: forget_route_def route_def)

theorem routes_follow_registry_witness:
  "let s = run http_step http_init (boot_serving @ [Unregister ''/sys/wifi''])
   in ht_routesDirty (publish s)
     \<and> (let s2 = http_task 30 True True (http_task 20 True True (publish s)) in ht_pc s2 = Serving \<and> current s2)"
proof -
  have "ht_pc (run http_step http_init (boot_serving @ [Unregister ''/sys/wifi''])) = Serving
      \<and> ht_shouldRun (run http_step http_init (boot_serving @ [Unregister ''/sys/wifi'']))
      \<and> ht_unpublished (run http_step http_init (boot_serving @ [Unregister ''/sys/wifi''])) = 1
      \<and> \<not> ht_rebuildBackoff (run http_step http_init (boot_serving @ [Unregister ''/sys/wifi'']))"
    by code_simp
  then show ?thesis
    using routes_follow_registry [of "boot_serving @ [Unregister ''/sys/wifi'']" 20 30 True True True] by (simp only: Let_def) simp
qed

theorem protected_handler_needs_token_witness:
  "\<exists>t xs x ys. hexToBytes (extractCookie demo_request kCookieName) = Some t \<and> length t = 16
     \<and> trace (auth_step ram_tokens) (auth_init None, False) demo_calls = xs @ x # ys
     \<and> origin t x \<and> Forgotten \<notin> set ys \<and> length (filter is_minted ys) < 8"
proof -
  obtain s b where r: "run (auth_step ram_tokens) (auth_init None, False) demo_calls = (s, b)" by (metis surj_pair)
  have "serve ram_tokens demo_request forget_route (fst (run (auth_step ram_tokens) (auth_init None, False) demo_calls))
    = (fst (run (auth_step ram_tokens) (auth_init None, False) demo_calls), [], RunHandler ''handleForget'')"
    by code_simp
  then have v: "serve ram_tokens demo_request forget_route s = (s, [], RunHandler ''handleForget'')" by (simp add: r)
  have a: "ro_requiresAuth (bd_route forget_route)" by (simp add: forget_route_def route_def)
  have b: "ht_server (run http_step http_init boot_serving) = Some boot_bound" using boot_server by blast
  from protected_handler_needs_token [OF r b forget_bound a v] show ?thesis by simp
qed

end
