(* ===== verification/Spec2Isabelle.thy ===== *)
theory Spec2Isabelle
  imports AcaiaFraming Monotonic ControllerTransition ScaleRadio LowBattery Backflush Ring RuntimeEventLog
    HeapMonitor PowerEventLog PowerSaving SpeakerCodec PowerManager
    Bytes ExtractionData Wire ShotId ShotStore
    Binary32 Flow PourEvidence Recorder RecorderLaws AcaiaCodec PumpDetect Buttons TargetAlert FlowSeries
    ShotCounter ShotReplayer Controller ControllerLaws ControllerAlarm Hex Traces SseServer ExtractionStream WifiLaws WifiScan AuthLaws HttpLaws
begin

text \<open>The firmware of an espresso shot timer for an M5 StickS3 (C++, ESP32-S3): a vibration sensor hears the
pump of the machine, a Bluetooth scale weighs the cup, and the program turns both into shots, keeps
them, and manages the power of the little device that does it. This library models its decision
logic, which the code keeps free of hardware, and proves what makes that logic correct.

Parts and how they meet. ExtractionRecorder turns pump observations, weights and user commands into
one live Extraction and publishes it when the shot is over; it weighs the start of the pour with
LivePourTracker while the shot runs and with computePourEvidence when it ends, both over the sample
classifier, which asks FlowEstimator for a flow. A published record is encoded by ExtractionWire and
kept by ShotStore under an id from shot_id_reservation. PowerManager owns the low-battery policy, the
idle saving policy, the power button and the scale radio machine, which starts and stops the
Bluetooth controller and suspends the scale service around it. BackflushCycle counts a cleaning
routine. RuntimeEventLog, PowerEventLog and HeapMonitor are the bounded histories the diagnostics show.

Which theory models which file (under src/src/).
  \<^item> Prelude, Monotonic: words, lists and runs of operations; util/monotonic.h, the wrapping clock.
  \<^item> ControllerTransition, ScaleRadio: ble/ControllerTransition.h, power/ScaleRadioStateMachine.
  \<^item> LowBattery, PowerSaving, SpeakerCodec, PowerManager: the policies of power/ and their owner.
  \<^item> Backflush: apps/backflush/BackflushCycle.
  \<^item> Ring, RuntimeEventLog, HeapMonitor, PowerEventLog: the bounded arrays of diagnostics/ and
    power/PowerEventLog, with the interface (a locale) that says which history a ring shows.
  \<^item> Bytes, ExtractionData, Wire: apps/extraction/extraction_encoding, Extraction.h, ExtractionWire.
  \<^item> ShotId, ShotStore: apps/extraction/history/shot_id_reservation, ShotStore.
  \<^item> Binary32, Flow, PourEvidence: IEEE arithmetic on rationals; apps/extraction/FlowBands.h,
    FlowEstimator.h, CausalPourClassifier.h, LivePourTracker.h, and the evidence and flow time of
    RobustFlow.h, ExtractionDiagnosis.h.
  \<^item> Recorder, RecorderLaws: apps/extraction/ExtractionRecorder, its invariants and its theorems.

How state and operations correspond. A class is a record with the fields of the class under a short
prefix, a member function a definition of the same name (prefixed where it would clash) that takes the
record and returns it changed; an enum is a datatype; a fixed-width integer is a word of that width, so
wrap-around is the code's own; vectors of bounded capacity are lists, and the invariants state the
capacity. What the code calls but does not contain is a parameter: the file system and the NVS of
ShotStore, ShotId and PowerEventLog are records of functions with laws as named hypotheses, the
hardware of PowerManager is a trace of actions. Threads appear only where the code has them: HeapMonitor
splits a tick and a clear at their atomic accesses and runs every interleaving.

Bounds. The radio machine resolves at most kDecisionCycleLimit = 4 decisions per update, as the code does; the
recorder keeps 62 + 2 events and 768 samples; a varint has at most 5 bytes; the history keeps 250 shots; and the
histories proved about 32-bit counters hold for the first 2^32 entries. The theorems about times of a
record state how far the clock runs.\<close>

section \<open>From the recorder to the history\<close>

text \<open>C3: no shot is lost between the recorder and the history for want of a representation: whatever calls
  led to it, a published record can be encoded within the maximal size, and once a save of it
  succeeds it loads back as it was published, marked as carrying its target settings.\<close>

theorem finished_record_survives:
  assumes "rc_finishedSeq (run rc_step rc_init ops) \<noteq> 0"
    and "lfs_lawful fs content good" and "good (ss_fs s)" and "id_nvs_lawful nv val"
    and "ss_save fs nv m (rc_lastFinished (run rc_step rc_init ops)) s = (s', ok)"
  shows "(\<exists>chunks. encodeCompact (rc_lastFinished (run rc_step rc_init ops)) = Some chunks
            \<and> length (concat chunks) \<le> kMaxCompactRecordBytes)
     \<and> (ok \<longrightarrow> (\<exists>sid. ss_load fs sid (ss_fs s')
            = Some ((rc_lastFinished (run rc_step rc_init ops))\<lparr>ex_hasTargetSnapshot := True\<rparr>)))"
proof -
  define e where "e = rc_lastFinished (run rc_step rc_init ops)"
  have "closed_shape e" using recorder.inv_reach [of ops] assms(1) by (simp add: recorder_shape_def e_def)
  then have e: "wire_wf e" "ex_version e = kCurrentExtractionVersion" "map event_norm (ex_events e) = ex_events e"
    by (auto simp: closed_shape_def list_all_iff intro!: map_idI)
  then have norm: "wire_norm e = e\<lparr>ex_hasTargetSnapshot := True\<rparr>"
    by (cases e) (simp add: wire_norm_def version_defs)
  obtain chunks where c: "encodeCompact e = Some chunks"
    using e(2) by (auto simp: encodeCompact_def Let_def isCompactVersionSupported_def version_defs)
  have "ss_load fs sid (ss_fs s') = Some (e\<lparr>ex_hasTargetSnapshot := True\<rparr>)"
    if "good (ss_fs s')" "content (ss_fs s') (pathFor sid) = Some (concat chunks)" for sid
    using ss_load_content [OF assms(2) that e(1) c] norm by simp
  moreover have "\<exists>sid. good (ss_fs s') \<and> content (ss_fs s') (pathFor sid) = Some (concat chunks)" if ok
  proof -
    have "ss_save fs nv m e s = (s', True)" using assms(5) that by (simp add: e_def)
    from ss_save_contents [OF assms(2-4) this] show ?thesis using c by (metis option.inject)
  qed
  ultimately show ?thesis using c encoded_length [OF c e(1)] by (auto simp: e_def)
qed

lemma finished_record_survives_witness:
  "\<exists>sid. ss_load ram_fs sid (ss_fs (fst (ss_save ram_fs word_nvs True (rc_lastFinished (run rc_step rc_init flush_ops)) ram_store)))
     = Some ((rc_lastFinished (run rc_step rc_init flush_ops))\<lparr>ex_hasTargetSnapshot := True\<rparr>)"
proof -
  have "snd (ss_save ram_fs word_nvs True (rc_lastFinished (run rc_step rc_init flush_ops)) ram_store)" by code_simp
  then show ?thesis
    using finished_record_survives [OF flush_finished ram_lawful ram_store_good word_nvs_lawful prod.collapse [symmetric]]
    by blast
qed

section \<open>From the controller to the history\<close>

lemma ss_save_good:
  assumes "lfs_lawful fs content good" and "good (ss_fs s)" and "id_nvs_lawful nv val" and "ss_save fs nv m e s = (s', ok)"
  shows "good (ss_fs s')"
proof (cases rule: ss_save_cases [OF assms(1,2,4)])
  case early: 1
  then show ?thesis by simp
next
  case failed: (2 f1 ids n1 sid n)
  show ?thesis by (rule writeRecord_law(1) [OF assms(1) failed(2,7)])
next
  case saved: (3 f1 ids n1 sid n f2)
  then have "ss_save fs nv m e s = (s', True)" using assms(4) by simp
  from ss_save_contents [OF assms(1-3) this] show ?thesis by metis
qed

lemma saved_history_good:
  assumes "lfs_lawful (ce_fs env) content good" and "good (ss_fs store)" and "id_nvs_lawful (ce_idNvs env) val"
  shows "good (ss_fs (saved_history env store h))"
proof (induction h rule: rev_induct)
  case Nil
  then show ?case using assms(2) by (simp add: saved_history_def)
next
  case (snoc me h)
  obtain s' ok where "ss_save (ce_fs env) (ce_idNvs env) (fst me) (snd me) (saved_history env store h) = (s', ok)" by (metis surj_pair)
  from ss_save_good [OF assms(1) snoc assms(3) this] this show ?case
    by (simp add: saved_history_def save_shot_def)
qed

lemma published_closed:
  assumes "history_inv env store0 c0 n rep h s" and "n + 1 < 2 ^ 32"
  shows "\<forall>me \<in> set (published s a). closed_shape (snd me)"
proof (cases a)
  case (Tick i)
  have sh: "recorder_shape (ct_recorder s)" and fn: "unat (rc_finishedSeq (ct_recorder s)) \<le> n"
    using assms(1) by (simp_all add: history_inv_def)
  have "recorder_shape (updated i s)"
    using shape_apply [OF sh, of "RcUpdate (ti_nowMs i) (ti_pump i) (ti_scale i) (ti_utcSec i)"] by (simp add: updated_def)
  moreover have "rc_finishedSeq (updated i s) \<noteq> 0" if "rc_finishedSeq (updated i s) \<noteq> rc_finishedSeq (ct_recorder s)"
  proof -
    have "rc_finishedSeq (updated i s) = rc_finishedSeq (ct_recorder s) + 1"
      using finishes_any [OF sh] that by (auto simp: finishes_def updated_def)
    moreover have "unat (rc_finishedSeq (ct_recorder s) + 1) = unat (rc_finishedSeq (ct_recorder s)) + 1"
      using fn assms(2) by (subst unat_add_lem [THEN iffD1]) simp_all
    ultimately show ?thesis by auto
  qed
  ultimately show ?thesis by (auto simp: Tick recorder_shape_def)
qed simp_all

lemma real_shots_closed:
  assumes "history_inv env store0 c0 n rep h s" and "n + length ops < 2 ^ 32" and "bracketed rep ops"
  shows "\<forall>me \<in> set (real_shots env s ops). closed_shape (snd me)"
  using assms
proof (induction ops arbitrary: n rep h s)
  case (Cons a ops)
  have b: "bracketed rep [a]" "bracketed (replay_after rep a) ops" using Cons.prems(3) by (cases a; simp)+
  have n: "n + 1 < 2 ^ 32" using Cons.prems(2) by simp
  show ?case
    using Cons.IH [OF history_step [OF Cons.prems(1) n b(1)] _ b(2)] published_closed [OF Cons.prems(1) n, of a] Cons.prems(2)
    by auto
qed simp



end
